(* ===== verification/Prelude.thy ===== *)
theory Prelude
  imports Main "HOL-Library.AList" "HOL-Library.Char_ord" "HOL-Library.List_Lexorder"
    "HOL-Library.Multiset" "HOL-Library.Word"
begin

text \<open>
  Shared vocabulary of the development: Go strings and byte slices, the functions of the
  package strings that the code calls, association lists for Go maps, and the outcome of a
  call (it returns, it panics, or it waits on a condition variable).

  A Go string is a byte sequence and a \<open>char\<close> of HOL is a byte, so a string and a
  \<open>[]byte\<close> are both \<open>char list\<close>: the conversions between them in the code are the
  identity, and \<open>length\<close> is Go's \<open>len\<close>.
\<close>

section \<open>Types and collections\<close>

type_synonym bytes = "char list"
type_synonym u32 = "32 word"
type_synonym u64 = "64 word"
type_synonym time = int \<comment> \<open>nanoseconds; 0 is Go's zero \<open>time.Time\<close>\<close>
type_synonym duration = int \<comment> \<open>nanoseconds\<close>

datatype 'a go =
    Return 'a  \<comment> \<open>the call returns\<close>
  | Panic      \<comment> \<open>a run-time panic (nil dereference, invalid configuration)\<close>
  | Block      \<comment> \<open>the goroutine waits on a condition variable in this state\<close>

named_theorems str_simps "facts on the functions of package strings"
named_theorems alist_simps "facts on Go maps kept as association lists"

section \<open>Strings\<close>

definition has_prefix :: "string \<Rightarrow> string \<Rightarrow> bool" where
  "has_prefix s p = (take (length p) s = p)"

definition has_suffix :: "string \<Rightarrow> string \<Rightarrow> bool" where
  "has_suffix s p = (length p \<le> length s \<and> drop (length s - length p) s = p)"

fun contains :: "string \<Rightarrow> string \<Rightarrow> bool" where
  "contains [] sub = (sub = [])"
| "contains (c # s) sub = (has_prefix (c # s) sub \<or> contains s sub)"

fun split_on :: "char \<Rightarrow> string \<Rightarrow> string list" where
  "split_on c [] = [[]]"
| "split_on c (x # xs) =
     (if x = c then [] # split_on c xs
      else (case split_on c xs of [] \<Rightarrow> [[x]] | y # ys \<Rightarrow> (x # y) # ys))"

fun join_with :: "char \<Rightarrow> string list \<Rightarrow> string" where
  "join_with c [] = []"
| "join_with c [x] = x"
| "join_with c (x # y # zs) = x @ c # join_with c (y # zs)"

definition trim_char :: "char \<Rightarrow> string \<Rightarrow> string" where
  "trim_char c s = rev (dropWhile (\<lambda>x. x = c) (rev (dropWhile (\<lambda>x. x = c) s)))"

lemma has_prefix_iff [str_simps]: "has_prefix s p \<longleftrightarrow> (\<exists>t. s = p @ t)"
  unfolding has_prefix_def by (metis append_eq_conv_conj)

lemma has_prefix_Nil [simp]: "has_prefix s []"
  by (simp add: has_prefix_def)

lemma has_prefix_append [simp]: "has_prefix (p @ t) p"
  by (simp add: has_prefix_def)

lemma has_prefix_Cons1 [simp]: "has_prefix (c # s) [d] \<longleftrightarrow> c = d"
  by (simp add: has_prefix_def)

lemma has_prefix_of_Nil [simp]: "has_prefix [] p \<longleftrightarrow> p = []"
  by (auto simp: has_prefix_def)

lemma has_suffix_iff [str_simps]: "has_suffix s p \<longleftrightarrow> (\<exists>t. s = t @ p)"
proof
  assume "has_suffix s p"
  then have "s = take (length s - length p) s @ p"
    unfolding has_suffix_def by (metis append_take_drop_id)
  then show "\<exists>t. s = t @ p" by blast
qed (auto simp: has_suffix_def)

lemma contains_iff [str_simps]: "contains s sub \<longleftrightarrow> (\<exists>u v. s = u @ sub @ v)"
proof (induction s)
  case Nil
  show ?case by auto
next
  case (Cons c s)
  have "(\<exists>u v. c # s = u @ sub @ v) \<longleftrightarrow>
      (\<exists>v. c # s = sub @ v) \<or> (\<exists>u v. s = u @ sub @ v)"
    by (metis append_Cons append_Nil neq_Nil_conv list.inject)
  with Cons show ?case by (simp add: has_prefix_iff)
qed

lemma split_on_not_Nil [simp]: "split_on c s \<noteq> []"
  by (induction s) (auto split: list.splits)

lemma join_split [simp]: "join_with c (split_on c s) = s"
proof (induction s)
  case Nil
  show ?case by simp
next
  case (Cons x xs)
  then show ?case
    by (cases "split_on c xs"; cases "tl (split_on c xs)") auto
qed

lemma split_on_no_sep: "c \<notin> set s \<Longrightarrow> split_on c s = [s]"
  by (induction s) auto

lemma split_on_append: "c \<notin> set s \<Longrightarrow> split_on c (s @ c # t) = s # split_on c t"
  by (induction s) auto

lemma split_join: "xs \<noteq> [] \<Longrightarrow> \<forall>x\<in>set xs. c \<notin> set x \<Longrightarrow> split_on c (join_with c xs) = xs"
  by (induction c xs rule: join_with.induct) (auto simp: split_on_no_sep split_on_append)

lemma split_on_seg_no_sep: "x \<in> set (split_on c s) \<Longrightarrow> c \<notin> set x"
proof (induction s arbitrary: x)
  case Nil
  then show ?case by simp
next
  case (Cons y s)
  obtain z zs where z: "split_on c s = z # zs" by (cases "split_on c s") auto
  from Cons.IH z have "\<And>x. x \<in> set (z # zs) \<Longrightarrow> c \<notin> set x" by simp
  with Cons.prems z show ?case by (auto split: if_splits)
qed

section \<open>Go maps as association lists\<close>

text \<open>
  A map that is iterated, counted or copied is an association list with distinct keys;
  \<open>map_of\<close> reads it, \<open>AList.update\<close> stores and \<open>AList.delete\<close> deletes. Where the
  order of iteration could matter (Go's is unspecified) the theorems do not depend on it.
\<close>

abbreviation mput :: "'k \<Rightarrow> 'v \<Rightarrow> ('k \<times> 'v) list \<Rightarrow> ('k \<times> 'v) list" where
  "mput \<equiv> AList.update"

abbreviation mdel :: "'k \<Rightarrow> ('k \<times> 'v) list \<Rightarrow> ('k \<times> 'v) list" where
  "mdel \<equiv> AList.delete"

lemma map_of_mput [simp, alist_simps]: "map_of (mput k v m) = (map_of m)(k \<mapsto> v)"
  by (simp add: update_conv')

lemma map_of_mdel [simp, alist_simps]: "map_of (mdel k m) = (map_of m)(k := None)"
  by (simp add: delete_conv')

lemma distinct_mput [simp, intro]: "distinct (map fst m) \<Longrightarrow> distinct (map fst (mput k v m))"
  by (rule distinct_update)

lemma distinct_mdel [simp, intro]: "distinct (map fst m) \<Longrightarrow> distinct (map fst (mdel k m))"
  by (simp add: AList.delete_eq distinct_map_filter)

lemma keys_mput [simp]: "fst ` set (mput k v m) = insert k (fst ` set m)"
  by (simp add: dom_update)

lemma set_mputD: "kc \<in> set (mput k v m) \<Longrightarrow> kc = (k, v) \<or> kc \<in> set m"
  by (induction m) (auto split: if_splits)

lemma mput_fresh: "k \<notin> fst ` set m \<Longrightarrow> mput k v m = m @ [(k, v)]"
  by (induction m) auto

lemma mput_present:
  "map_of m k = Some w \<Longrightarrow> distinct (map fst m) \<Longrightarrow>
   mset (mput k v m) = mset m - {#(k, w)#} + {#(k, v)#}"
proof (induction m)
  case (Cons a m)
  obtain k' v' where a: "a = (k', v')" by (cases a)
  show ?case
  proof (cases "k' = k")
    case False
    have "(k, w) \<in> set m" using Cons.prems(1) a False by (auto dest: map_of_SomeD split: if_splits)
    then show ?thesis using Cons a False by (auto simp: add_mset_diff_bothsides)
  qed (use Cons.prems a in simp)
qed simp

lemma mdel_length: "map_of m k = Some w \<Longrightarrow> distinct (map fst m) \<Longrightarrow>
   length m = Suc (length (mdel k m))"
proof (induction m)
  case (Cons a m)
  obtain k' v' where a: "a = (k', v')" by (cases a)
  show ?case
  proof (cases "k' = k")
    case True
    have "mdel k m = m"
      using Cons.prems(2) a True by simp
    with a True show ?thesis by simp
  qed (use Cons a in auto)
qed simp

end
