(* ===== verification/Params.thy ===== *)
theory Params
  imports Prelude
begin

text \<open>
  core/params.go: the fixed-size set of path parameters the router fills while it matches.
  The eight slots are an array of pairs; \<open>ps_count\<close> says how many are in use. Slots beyond
  the count keep whatever they held, which no reader looks at.
\<close>

definition inlineParams :: nat where
  "inlineParams = 8"

record param_set =
  ps_slots :: "(string \<times> string) list"
  ps_count :: nat

definition empty_params :: param_set where
  "empty_params = \<lparr>ps_slots = replicate inlineParams ([], []), ps_count = 0\<rparr>"

definition ps_set :: "string \<Rightarrow> string \<Rightarrow> param_set \<Rightarrow> param_set" where
  "ps_set key v p =
     (if inlineParams \<le> ps_count p then p
      else p\<lparr>ps_slots := (ps_slots p)[ps_count p := (key, v)], ps_count := Suc (ps_count p)\<rparr>)"

definition ps_Reset :: "param_set \<Rightarrow> param_set" where
  "ps_Reset p = p\<lparr>ps_count := 0\<rparr>"

definition ps_Len :: "param_set \<Rightarrow> nat" where
  "ps_Len p = ps_count p"

text \<open>The loop of Get: \<open>i\<close> runs over the used slots, the first match returns.\<close>

function get_from :: "param_set \<Rightarrow> nat \<Rightarrow> string \<Rightarrow> string option" where
  "get_from p i key =
     (if i < ps_count p then
        (if fst (ps_slots p ! i) = key then Some (snd (ps_slots p ! i))
         else get_from p (Suc i) key)
      else None)"
  by pat_completeness auto
termination
  by (relation "measure (\<lambda>(p, i, key). ps_count p - i)") auto

declare get_from.simps [simp del]

definition ps_Get :: "param_set \<Rightarrow> string \<Rightarrow> string option" where
  "ps_Get p key = get_from p 0 key"

text \<open>Each, as the list of the pairs it visits.\<close>

definition ps_Each :: "param_set \<Rightarrow> (string \<times> string) list" where
  "ps_Each p = map (\<lambda>i. ps_slots p ! i) [0..<ps_count p]"

text \<open>ToMap stores the pairs in order, so a later pair overwrites an earlier one. A nil map
  and an empty one read the same.\<close>

definition ps_ToMap :: "param_set \<Rightarrow> string \<Rightarrow> string option" where
  "ps_ToMap p = fold (\<lambda>(k, v) m. m(k \<mapsto> v)) (ps_Each p) Map.empty"

text \<open>The same map as the list of its pairs, for those who go through it.\<close>

definition ps_pairs :: "param_set \<Rightarrow> (string \<times> string) list" where
  "ps_pairs p = fold (\<lambda>(k, v) m. mput k v m) (ps_Each p) []"

section \<open>Well-formed parameter sets\<close>

definition params_ok :: "param_set \<Rightarrow> bool" where
  "params_ok p \<longleftrightarrow> length (ps_slots p) = inlineParams \<and> ps_count p \<le> inlineParams"

lemma params_ok_empty [simp, intro]: "params_ok empty_params"
  by (simp add: params_ok_def empty_params_def)

lemma params_ok_set [simp, intro]: "params_ok p \<Longrightarrow> params_ok (ps_set k v p)"
  by (auto simp: params_ok_def ps_set_def)

lemma params_ok_Reset [simp, intro]: "params_ok p \<Longrightarrow> params_ok (ps_Reset p)"
  by (simp add: params_ok_def ps_Reset_def)

lemma Each_take: "params_ok p \<Longrightarrow> ps_Each p = take (ps_count p) (ps_slots p)"
  by (auto simp: ps_Each_def params_ok_def intro!: nth_equalityI)

lemma length_Each [simp]: "length (ps_Each p) = ps_count p"
  by (simp add: ps_Each_def)

lemma Each_empty [simp]: "ps_Each empty_params = []"
  by (simp add: ps_Each_def empty_params_def)

lemma Each_Reset [simp]: "ps_Each (ps_Reset p) = []"
  by (simp add: ps_Each_def ps_Reset_def)

lemma Each_set:
  "params_ok p \<Longrightarrow> ps_Each (ps_set k v p) =
     (if length (ps_Each p) < inlineParams then ps_Each p @ [(k, v)] else ps_Each p)"
proof (cases "inlineParams \<le> ps_count p")
  case False
  assume ok: "params_ok p"
  then have "ps_Each (ps_set k v p) = take (ps_count (ps_set k v p)) (ps_slots (ps_set k v p))"
    by (intro Each_take) simp
  with False ok show ?thesis
    by (simp add: ps_set_def Each_take params_ok_def take_Suc_conv_app_nth)
qed (simp add: ps_set_def)

lemma Each_fold_set:
  assumes "params_ok p"
  shows "params_ok (fold (\<lambda>(k, v). ps_set k v) kvs p) \<and>
    ps_Each (fold (\<lambda>(k, v). ps_set k v) kvs p) = take inlineParams (ps_Each p @ kvs)"
  using assms
proof (induction kvs arbitrary: p)
  case Nil
  then show ?case by (simp add: params_ok_def)
next
  case (Cons kv kvs)
  obtain k v where kv: "kv = (k, v)" by (cases kv)
  have ok: "params_ok (ps_set k v p)" using Cons.prems by simp
  show ?case
    using Cons.IH[OF ok] Cons.prems kv Each_set[OF Cons.prems, of k v]
    by (auto simp: params_ok_def take_Cons')
qed

lemma map_of_drop_nth:
  "i < length kvs \<Longrightarrow>
   map_of (drop i kvs) key = (if fst (kvs ! i) = key then Some (snd (kvs ! i))
                              else map_of (drop (Suc i) kvs) key)"
  by (subst Cons_nth_drop_Suc[symmetric]) (auto split: prod.splits simp: fun_upd_def)

lemma get_from_eq: "get_from p i key = map_of (drop i (ps_Each p)) key"
proof (induction p i key rule: get_from.induct)
  case (1 p i key)
  show ?case
  proof (cases "i < ps_count p")
    case True
    then have i: "i < length (ps_Each p)" and nth: "ps_Each p ! i = ps_slots p ! i"
      by (simp_all add: ps_Each_def)
    show ?thesis
      using 1 True map_of_drop_nth[OF i, of key] by (simp add: get_from.simps[of p i] nth)
  next
    case False
    then show ?thesis by (simp add: get_from.simps[of p i])
  qed
qed

lemma Get_map_of: "ps_Get p key = map_of (ps_Each p) key"
  by (simp add: ps_Get_def get_from_eq)

lemma fold_upd_eq: "fold (\<lambda>(k, v) m. m(k \<mapsto> v)) kvs m = m ++ map_of (rev kvs)"
proof (induction kvs arbitrary: m)
  case (Cons kv kvs)
  then show ?case by (cases kv) (simp add: map_add_upd_left fun_upd_def map_add_def fun_eq_iff split: option.splits)
qed simp

lemma ToMap_map_of: "ps_ToMap p = map_of (rev (ps_Each p))"
  by (simp add: ps_ToMap_def fold_upd_eq)

lemma map_of_fold_mput:
  "map_of (fold (\<lambda>(k, v) m. mput k v m) kvs m) = fold (\<lambda>(k, v) m. m(k \<mapsto> v)) kvs (map_of m)"
  by (induction kvs arbitrary: m) (auto simp: map_of_mput fun_upd_def)

lemma map_of_pairs: "map_of (ps_pairs p) = ps_ToMap p"
  by (simp add: ps_pairs_def ps_ToMap_def map_of_fold_mput)

lemma map_of_rev_distinct: "distinct (map fst kvs) \<Longrightarrow> map_of (rev kvs) = map_of kvs"
  by (rule map_of_eqI) (auto simp: rev_map[symmetric] intro: map_of_inject_set)

section \<open>Properties\<close>

text \<open>
  After any sequence of sets the parameter set holds the first eight pairs; Get returns
  the first value stored under a key, while ToMap, which providers are given, holds the last
  one; the two agree on every key as soon as no key was set twice.
\<close>

theorem params_get_and_map:
  defines "stored kvs \<equiv> fold (\<lambda>(k, v). ps_set k v) kvs empty_params"
  shows "ps_Len (stored kvs) = min inlineParams (length kvs) \<and>
    ps_Each (stored kvs) = take inlineParams kvs \<and>
    ps_Get (stored kvs) key = map_of (take inlineParams kvs) key \<and>
    ps_ToMap (stored kvs) key = map_of (rev (take inlineParams kvs)) key \<and>
    (distinct (map fst kvs) \<longrightarrow> ps_Get (stored kvs) key = ps_ToMap (stored kvs) key)"
proof -
  have each: "ps_Each (stored kvs) = take inlineParams kvs"
    unfolding stored_def using Each_fold_set[OF params_ok_empty, of kvs] by simp
  have "ps_Len (stored kvs) = length (ps_Each (stored kvs))" by (simp add: ps_Len_def)
  moreover have "map_of (rev (take inlineParams kvs)) = map_of (take inlineParams kvs)"
    if "distinct (map fst kvs)"
    using that by (intro map_of_rev_distinct) (simp add: take_map[symmetric])
  ultimately show ?thesis using each by (simp add: Get_map_of ToMap_map_of)
qed

lemma params_get_and_map_witness:
  "ps_Get (fold (\<lambda>(k, v). ps_set k v) [(''a'', ''1''), (''b'', ''2'')] empty_params) ''b'' = Some ''2''"
  using params_get_and_map[of "[(''a'', ''1''), (''b'', ''2'')]" "''b''"]
  by (simp add: inlineParams_def)

end
