(* ===== verification/Errors.thy ===== *)
theory Errors
  imports Prelude
begin

text \<open>
  core/errors.go and the operation codes of core/types.go: the POSIX error values every
  operation returns, the mapping of provider errors to them, and the mapping of errors to
  HTTP status codes. A Go \<open>error\<close> is a chain of wrapped values; \<open>errors.As\<close> and
  \<open>errors.Is\<close> walk it from the outside in.
\<close>

section \<open>Error codes and operation codes\<close>

datatype op_code = OpRead | OpWrite | OpStat | OpReaddir | OpOther string

fun op_text :: "op_code \<Rightarrow> string" where
  "op_text OpRead = ''read''"
| "op_text OpWrite = ''write''"
| "op_text OpStat = ''stat''"
| "op_text OpReaddir = ''readdir''"
| "op_text (OpOther s) = s"

abbreviation OpNone :: op_code where
  "OpNone \<equiv> OpOther []"

datatype errno =
    ENOENT | EACCES | EEXIST | EINVAL | ECOMM | ETIMEDOUT | ESTALE | EPIPE
  | EBUSY | EIO | ENOSYS | ENOTDIR | EISDIR | EAGAIN | ENOSPC | ELOOP

fun errno_text :: "errno \<Rightarrow> string" where
  "errno_text ENOENT = ''ENOENT''"
| "errno_text EACCES = ''EACCES''"
| "errno_text EEXIST = ''EEXIST''"
| "errno_text EINVAL = ''EINVAL''"
| "errno_text ECOMM = ''ECOMM''"
| "errno_text ETIMEDOUT = ''ETIMEDOUT''"
| "errno_text ESTALE = ''ESTALE''"
| "errno_text EPIPE = ''EPIPE''"
| "errno_text EBUSY = ''EBUSY''"
| "errno_text EIO = ''EIO''"
| "errno_text ENOSYS = ''ENOSYS''"
| "errno_text ENOTDIR = ''ENOTDIR''"
| "errno_text EISDIR = ''EISDIR''"
| "errno_text EAGAIN = ''EAGAIN''"
| "errno_text ENOSPC = ''ENOSPC''"
| "errno_text ELOOP = ''ELOOP''"

text \<open>
  The error values the engine meets: its own \<open>PosixError\<close>, the context package's
  DeadlineExceeded, an error that implements ProviderError (its code and its message), an
  error made by errors.New or fmt.Errorf, and one that wraps another with %w (its
  whole message and the wrapped error).
\<close>

datatype go_error =
    PosixError errno op_code string "go_error option"
  | DeadlineExceeded
  | CodedError string string
  | PlainError string
  | WrapError string go_error

fun error_text :: "go_error \<Rightarrow> string" where
  "error_text (PosixError c o1 p None) = errno_text c @ '' '' @ op_text o1 @ '' '' @ p"
| "error_text (PosixError c o1 p (Some e)) =
     errno_text c @ '' '' @ op_text o1 @ '' '' @ p @ '': '' @ error_text e"
| "error_text DeadlineExceeded = ''context deadline exceeded''"
| "error_text (CodedError c m) = m"
| "error_text (PlainError m) = m"
| "error_text (WrapError m e) = m"

fun unwrap :: "go_error \<Rightarrow> go_error option" where
  "unwrap (PosixError c o1 p e) = e"
| "unwrap (WrapError m e) = Some e"
| "unwrap _ = None"

definition posix :: "errno \<Rightarrow> op_code \<Rightarrow> string \<Rightarrow> go_error option \<Rightarrow> go_error" where
  "posix c o1 p e = PosixError c o1 p e"

text \<open>\<open>errors.As\<close> with a *PosixError target: the code of the outermost one.\<close>

fun as_posix :: "go_error \<Rightarrow> errno option" where
  "as_posix (PosixError c o1 p e) = Some c"
| "as_posix (WrapError m e) = as_posix e"
| "as_posix _ = None"

fun is_deadline :: "go_error \<Rightarrow> bool" where
  "is_deadline DeadlineExceeded = True"
| "is_deadline (PosixError c o1 p (Some e)) = is_deadline e"
| "is_deadline (WrapError m e) = is_deadline e"
| "is_deadline _ = False"

fun as_provider_error :: "go_error \<Rightarrow> string option" where
  "as_provider_error (CodedError c m) = Some c"
| "as_provider_error (PosixError c o1 p (Some e)) = as_provider_error e"
| "as_provider_error (WrapError m e) = as_provider_error e"
| "as_provider_error _ = None"

definition IsCode :: "go_error option \<Rightarrow> errno \<Rightarrow> bool" where
  "IsCode err c = (case err of None \<Rightarrow> False | Some e \<Rightarrow> as_posix e = Some c)"

definition isPosix :: "go_error \<Rightarrow> bool" where
  "isPosix e = (as_posix e \<noteq> None)"

section \<open>Provider errors\<close>

definition providerCodeToErrno :: "string \<Rightarrow> errno" where
  "providerCodeToErrno code =
     (if code = ''NOT_FOUND'' then ENOENT
      else if code = ''PERMISSION_DENIED'' then EACCES
      else if code = ''ALREADY_EXISTS'' then EEXIST
      else if code = ''INVALID_ARGUMENT'' then EINVAL
      else if code = ''UNAVAILABLE'' then ECOMM
      else if code = ''TIMEOUT'' then ETIMEDOUT
      else if code = ''STALE'' then ESTALE
      else if code = ''PIPE'' then EPIPE
      else if code = ''BUSY'' then EBUSY
      else if code = ''IO_ERROR'' then EIO
      else if code = ''NOT_SUPPORTED'' then ENOSYS
      else EIO)"

definition exact_codes :: "(string \<times> errno) list" where
  "exact_codes =
     [(''NOT_FOUND'', ENOENT), (''PERMISSION_DENIED'', EACCES), (''ALREADY_EXISTS'', EEXIST),
      (''INVALID_ARGUMENT'', EINVAL), (''UNAVAILABLE'', ECOMM), (''TIMEOUT'', ETIMEDOUT),
      (''STALE'', ESTALE), (''PIPE'', EPIPE), (''BUSY'', EBUSY), (''IO_ERROR'', EIO),
      (''NOT_SUPPORTED'', ENOSYS)]"

definition substr_codes :: "(string \<times> errno) list" where
  "substr_codes =
     [(''PERMISSION_DENIED'', EACCES), (''ALREADY_EXISTS'', EEXIST),
      (''INVALID_ARGUMENT'', EINVAL), (''NOT_SUPPORTED'', ENOSYS), (''NOT_FOUND'', ENOENT),
      (''UNAVAILABLE'', ECOMM), (''IO_ERROR'', EIO), (''TIMEOUT'', ETIMEDOUT),
      (''STALE'', ESTALE), (''PIPE'', EPIPE), (''BUSY'', EBUSY)]"

fun scan_substr :: "string \<Rightarrow> (string \<times> errno) list \<Rightarrow> errno" where
  "scan_substr msg [] = EIO"
| "scan_substr msg ((s, e) # ms) = (if contains msg s then e else scan_substr msg ms)"

definition scanProviderErrorCode :: "string \<Rightarrow> errno" where
  "scanProviderErrorCode msg =
     (case map_of exact_codes msg of
        Some e \<Rightarrow> e
      | None \<Rightarrow> scan_substr msg substr_codes)"

definition MapProviderError :: "go_error option \<Rightarrow> op_code \<Rightarrow> string \<Rightarrow> go_error option" where
  "MapProviderError err o1 path =
     (case err of
        None \<Rightarrow> None
      | Some e \<Rightarrow>
          (if is_deadline e then Some (posix ETIMEDOUT o1 path (Some e))
           else (case as_provider_error e of
                   Some c \<Rightarrow> Some (posix (providerCodeToErrno c) o1 path (Some e))
                 | None \<Rightarrow> Some (posix (scanProviderErrorCode (error_text e)) o1 path (Some e)))))"

section \<open>Errors as errno and as HTTP status\<close>

text \<open>The empty Errno of a nil error is \<open>None\<close>.\<close>

definition ExtractErrno :: "go_error option \<Rightarrow> errno option" where
  "ExtractErrno err =
     (case err of
        None \<Rightarrow> None
      | Some e \<Rightarrow> (case as_posix e of Some c \<Rightarrow> Some c | None \<Rightarrow> Some EIO))"

fun http_of_errno :: "errno option \<Rightarrow> nat" where
  "http_of_errno (Some ENOENT) = 404"
| "http_of_errno (Some EACCES) = 403"
| "http_of_errno (Some EEXIST) = 409"
| "http_of_errno (Some EINVAL) = 400"
| "http_of_errno (Some ETIMEDOUT) = 408"
| "http_of_errno (Some EBUSY) = 503"
| "http_of_errno (Some EAGAIN) = 503"
| "http_of_errno (Some ENOSPC) = 507"
| "http_of_errno (Some ENOTDIR) = 400"
| "http_of_errno (Some EISDIR) = 400"
| "http_of_errno (Some ENOSYS) = 501"
| "http_of_errno (Some ELOOP) = 400"
| "http_of_errno _ = 500"

definition HTTPStatusFromError :: "go_error option \<Rightarrow> nat" where
  "HTTPStatusFromError err = http_of_errno (ExtractErrno err)"

section \<open>Lemmas\<close>

named_theorems err_simps "unfolding of error values"

lemma as_posix_posix [simp]: "as_posix (posix c o1 p e) = Some c"
  by (simp add: posix_def)

lemma ExtractErrno_posix [simp]: "ExtractErrno (Some (posix c o1 p e)) = Some c"
  by (simp add: ExtractErrno_def)

lemma IsCode_posix [simp]: "IsCode (Some (posix c o1 p e)) c' \<longleftrightarrow> c = c'"
  by (simp add: IsCode_def)

lemma unwrap_posix [simp]: "unwrap (posix c o1 p e) = e"
  by (simp add: posix_def)

lemma posix_eq_iff [simp]:
  "posix c o1 p e = posix c' o2 p' e' \<longleftrightarrow> c = c' \<and> o1 = o2 \<and> p = p' \<and> e = e'"
  by (simp add: posix_def)

text \<open>A message with none of the known codes in it is EIO, whatever the order of the scan.\<close>

lemma scan_substr_first:
  "scan_substr msg (pre @ (s, e) # post) = e"
  if "contains msg s" and "\<forall>(t, f) \<in> set pre. \<not> contains msg t"
  using that by (induction pre) auto

lemma scan_substr_none:
  "\<forall>(t, f) \<in> set ms. \<not> contains msg t \<Longrightarrow> scan_substr msg ms = EIO"
  by (induction ms) auto

lemma exact_codes_agree: "map_of exact_codes c = Some e \<Longrightarrow> providerCodeToErrno c = e"
  unfolding exact_codes_def providerCodeToErrno_def by (simp split: if_splits)

lemma exact_codes_None: "map_of exact_codes c = None \<Longrightarrow> providerCodeToErrno c = EIO"
  unfolding exact_codes_def providerCodeToErrno_def by (simp split: if_splits)

lemma exact_codes_substr: "map_of exact_codes c = map_of substr_codes c"
  unfolding exact_codes_def substr_codes_def by simp

section \<open>Properties\<close>

lemma scan_substr_range:
  "snd ` set ms \<subseteq> S \<Longrightarrow> EIO \<in> S \<Longrightarrow> scan_substr msg ms \<in> S"
  by (induction ms) auto

text \<open>
  An error of a provider always comes back as a PosixError on the operation and path of
  the call that keeps the provider's error as its cause; an expired deadline anywhere in the
  chain is ETIMEDOUT, and no provider can make the engine report one of the codes the engine
  keeps for itself (ENOTDIR, EISDIR, EAGAIN, ENOSPC, ELOOP).
\<close>

theorem provider_error_is_posix:
  "\<exists>c. MapProviderError (Some e) o1 path = Some (posix c o1 path (Some e)) \<and>
     (is_deadline e \<longrightarrow> c = ETIMEDOUT) \<and>
     c \<notin> {ENOTDIR, EISDIR, EAGAIN, ENOSPC, ELOOP}"
proof -
  let ?S = "{c. c \<notin> {ENOTDIR, EISDIR, EAGAIN, ENOSPC, ELOOP}}"
  have 1: "providerCodeToErrno c \<in> ?S" for c by (simp add: providerCodeToErrno_def)
  have "scan_substr msg substr_codes \<in> ?S" for msg
    by (rule scan_substr_range) (auto simp: substr_codes_def)
  moreover have "map_of exact_codes msg = Some c \<Longrightarrow> c \<in> ?S" for msg c
    using exact_codes_agree[of msg c] 1[of msg] by simp
  ultimately have 2: "scanProviderErrorCode msg \<in> ?S" for msg
    by (auto simp: scanProviderErrorCode_def split: option.split)
  show ?thesis
    using 1 2 by (auto simp: MapProviderError_def split: option.splits)
qed

lemma provider_error_is_posix_witness:
  "MapProviderError (Some (WrapError ''rpc'' DeadlineExceeded)) OpRead ''/a'' =
   Some (posix ETIMEDOUT OpRead ''/a'' (Some (WrapError ''rpc'' DeadlineExceeded)))"
  using provider_error_is_posix[of "WrapError ''rpc'' DeadlineExceeded" OpRead "''/a''"] by auto

text \<open>
  The ways a provider can report a known code agree: as a structured error, also when it
  is wrapped, as a bare message, and inside a longer message that names no other known code;
  each of them maps to the errno of the table.
\<close>

theorem provider_codes_agree:
  assumes "map_of exact_codes code = Some c" and "contains msg code"
    and "\<forall>s\<in>fst ` set substr_codes. contains msg s \<longrightarrow> s = code"
  shows "ExtractErrno (MapProviderError (Some (CodedError code text0)) o1 path) = Some c \<and>
    ExtractErrno (MapProviderError (Some (WrapError text0 (CodedError code msg))) o1 path) = Some c \<and>
    ExtractErrno (MapProviderError (Some (PlainError code)) o1 path) = Some c \<and>
    ExtractErrno (MapProviderError (Some (PlainError msg)) o1 path) = Some c"
proof -
  have coded: "providerCodeToErrno code = c" by (rule exact_codes_agree[OF assms(1)])
  have exact: "scanProviderErrorCode code = c" using assms(1) by (simp add: scanProviderErrorCode_def)
  have "map_of substr_codes code = Some c" using assms(1) by (simp add: exact_codes_substr)
  then obtain pre post where split: "substr_codes = pre @ (code, c) # post"
    by (meson map_of_SomeD split_list)
  have "distinct (map fst substr_codes)" by (simp add: substr_codes_def)
  then have "code \<notin> fst ` set pre" unfolding split by auto
  moreover have "t = code" if "(t, f) \<in> set pre" "contains msg t" for t f
    using assms(3) that unfolding split by force
  ultimately have "\<forall>(t, f) \<in> set pre. \<not> contains msg t" by force
  then have sub: "scan_substr msg substr_codes = c"
    unfolding split by (rule scan_substr_first[OF assms(2)])
  have "scanProviderErrorCode msg = c"
  proof (cases "map_of exact_codes msg")
    case None
    with sub show ?thesis by (simp add: scanProviderErrorCode_def)
  next
    case (Some c')
    then have "msg \<in> fst ` set substr_codes"
      by (metis exact_codes_substr map_of_SomeD fst_conv image_eqI)
    moreover have "contains msg msg" by (metis append_Nil append_Nil2 contains_iff)
    ultimately have "msg = code" using assms(3) by blast
    with exact show ?thesis by simp
  qed
  with coded exact show ?thesis by (simp add: MapProviderError_def)
qed

lemma provider_codes_agree_witness:
  "ExtractErrno (MapProviderError (Some (PlainError ''ipc: NOT_FOUND'')) OpRead ''/a'') = Some ENOENT"
proof -
  have "\<forall>s\<in>fst ` set substr_codes. contains ''ipc: NOT_FOUND'' s \<longrightarrow> s = ''NOT_FOUND''"
    by (simp add: substr_codes_def has_prefix_def)
  moreover have "map_of exact_codes ''NOT_FOUND'' = Some ENOENT" by (simp add: exact_codes_def)
  moreover have "contains ''ipc: NOT_FOUND'' ''NOT_FOUND''" by (simp add: has_prefix_def)
  ultimately show ?thesis
    using provider_codes_agree[of "''NOT_FOUND''" ENOENT "''ipc: NOT_FOUND''" "[]" OpRead "''/a''"]
    by blast
qed

end
