(* ===== verification/Trie.thy ===== *)
theory Trie
  imports Params Errors
begin

text \<open>
  The route trie of core/router.go: nodes with static children, at most one parameter child
  and at most one mount. A node's \<open>static\<close> map is nil exactly when it has no child (it is
  made right before its first entry), so the empty list stands for both; \<open>param\<close> and
  \<open>paramKey\<close> are set together, so they are one optional pair. Nothing ever removes a node.

  Paths reach the trie as lists of segments. The theory has the walks over the trie that
  the router's operations make and the mount table they implement: \<open>look ps n\<close> is the
  mount at a pattern, with a parameter segment standing for the parameter child.
\<close>

section \<open>Nodes and walks\<close>

datatype 'a route_node = RouteNode
  (rn_static: "(string \<times> 'a route_node) list")
  (rn_param: "(string \<times> 'a route_node) option")
  (rn_mount: "'a option")

definition empty_node :: "'a route_node" where
  "empty_node = RouteNode [] None None"

abbreviation is_param :: "string \<Rightarrow> bool" where
  "is_param p \<equiv> has_prefix p '':''"

definition child_or_new :: "(string \<times> 'a route_node) list \<Rightarrow> string \<Rightarrow> 'a route_node" where
  "child_or_new st p = (case map_of st p of None \<Rightarrow> empty_node | Some c \<Rightarrow> c)"

text \<open>
  The loop of add. \<open>k\<close> is \<open>paramCount\<close>. Nodes made on the way stay in the trie when a
  later segment fails, so the node is returned in both cases, with the error if any.
\<close>

fun node_add ::
  "nat \<Rightarrow> string list \<Rightarrow> 'a \<Rightarrow> 'a route_node \<Rightarrow> 'a route_node \<times> errno option" where
  "node_add k [] x (RouteNode st pr mt) =
     (case mt of
        Some m \<Rightarrow> (RouteNode st pr mt, Some EEXIST)
      | None \<Rightarrow> (RouteNode st pr (Some x), None))"
| "node_add k (p # ps) x (RouteNode st pr mt) =
     (if is_param p then
        (if inlineParams < k + 1 then (RouteNode st pr mt, Some EINVAL)
         else if tl p = [] then (RouteNode st pr mt, Some EINVAL)
         else (case pr of
                 None \<Rightarrow>
                   (let (c, e) = node_add (k + 1) ps x empty_node
                    in (RouteNode st (Some (tl p, c)) mt, e))
               | Some (key, c0) \<Rightarrow>
                   (if key \<noteq> tl p then (RouteNode st pr mt, Some EEXIST)
                    else (let (c, e) = node_add (k + 1) ps x c0
                          in (RouteNode st (Some (key, c)) mt, e)))))
      else (let (c, e) = node_add k ps x (child_or_new st p)
            in (RouteNode (mput p c st) pr mt, e)))"

text \<open>The loop of remove: a parameter segment follows the parameter child whatever its key.\<close>

fun node_remove :: "string list \<Rightarrow> 'a route_node \<Rightarrow> 'a route_node \<times> 'a option" where
  "node_remove [] (RouteNode st pr mt) = (RouteNode st pr None, mt)"
| "node_remove (p # ps) (RouteNode st pr mt) =
     (if is_param p then
        (case pr of
           None \<Rightarrow> (RouteNode st pr mt, None)
         | Some (key, c0) \<Rightarrow>
             (let (c, m) = node_remove ps c0 in (RouteNode st (Some (key, c)) mt, m)))
      else (case map_of st p of
              None \<Rightarrow> (RouteNode st pr mt, None)
            | Some c0 \<Rightarrow>
                (let (c, m) = node_remove ps c0 in (RouteNode (mput p c st) pr mt, m))))"

fun nextRoute :: "'a route_node \<Rightarrow> string \<Rightarrow> ('a route_node \<times> string) option" where
  "nextRoute (RouteNode st pr mt) seg =
     (case map_of st seg of
        Some c \<Rightarrow> Some (c, [])
      | None \<Rightarrow> (case pr of Some (key, c) \<Rightarrow> Some (c, key) | None \<Rightarrow> None))"

text \<open>The walk snapshot makes; the order of the static children is the list's.\<close>

fun node_mounts :: "'a route_node \<Rightarrow> 'a list" where
  "node_mounts (RouteNode st pr mt) =
     (case mt of None \<Rightarrow> [] | Some m \<Rightarrow> [m])
     @ concat (map (\<lambda>kc. node_mounts (snd kc)) st)
     @ (case pr of None \<Rightarrow> [] | Some kc \<Rightarrow> node_mounts (snd kc))"

fun node_count :: "'a route_node \<Rightarrow> nat" where
  "node_count (RouteNode st pr mt) =
     (case mt of None \<Rightarrow> 0 | Some m \<Rightarrow> 1)
     + sum_list (map (\<lambda>kc. node_count (snd kc)) st)
     + (case pr of None \<Rightarrow> 0 | Some kc \<Rightarrow> node_count (snd kc))"

section \<open>The mount table\<close>

fun look :: "string list \<Rightarrow> 'a route_node \<Rightarrow> 'a option" where
  "look [] (RouteNode st pr mt) = mt"
| "look (p # ps) (RouteNode st pr mt) =
     (if is_param p then (case pr of None \<Rightarrow> None | Some (key, c) \<Rightarrow> look ps c)
      else (case map_of st p of None \<Rightarrow> None | Some c \<Rightarrow> look ps c))"

text \<open>Two patterns that name the same place: equal but for the names of parameters.\<close>

definition same_seg :: "string \<Rightarrow> string \<Rightarrow> bool" where
  "same_seg p q \<longleftrightarrow> (if is_param p then is_param q else p = q)"

fun same_pat :: "string list \<Rightarrow> string list \<Rightarrow> bool" where
  "same_pat [] [] = True"
| "same_pat (p # ps) (q # qs) = (same_seg p q \<and> same_pat ps qs)"
| "same_pat _ _ = False"

lemma same_pat_refl [simp]: "same_pat ps ps"
  by (induction ps) (auto simp: same_seg_def)

lemma same_pat_sym: "same_pat ps qs \<Longrightarrow> same_pat qs ps"
  by (induction ps qs rule: same_pat.induct) (auto simp: same_seg_def split: if_splits)

lemma same_pat_trans: "same_pat ps qs \<Longrightarrow> same_pat qs rs \<Longrightarrow> same_pat ps rs"
proof (induction ps qs arbitrary: rs rule: same_pat.induct)
  case (2 p ps q qs)
  then show ?case by (cases rs) (auto simp: same_seg_def split: if_splits)
qed simp_all

lemma same_pat_Nil [simp]: "same_pat [] qs \<longleftrightarrow> qs = []" "same_pat qs [] \<longleftrightarrow> qs = []"
  by (cases qs; simp)+

lemma look_empty [simp]: "look ps empty_node = None"
  by (cases ps) (auto simp: empty_node_def)

lemma look_same: "same_pat ps qs \<Longrightarrow> look ps n = look qs n"
proof (induction ps qs arbitrary: n rule: same_pat.induct)
  case (2 p ps q qs)
  then show ?case by (cases n) (auto simp: same_seg_def split: option.splits if_splits)
qed simp_all

lemma look_case: "look ps (RouteNode st pr mt) =
  (case ps of [] \<Rightarrow> mt
   | p # qs \<Rightarrow> if is_param p then (case pr of None \<Rightarrow> None | Some (key, c) \<Rightarrow> look qs c)
              else (case map_of st p of None \<Rightarrow> None | Some c \<Rightarrow> look qs c))"
  by (cases ps) auto

text \<open>A failed add leaves the mount table as it was, though it may leave new nodes.\<close>

lemma look_child_or_new: "look qs (child_or_new st p) =
  (case map_of st p of None \<Rightarrow> None | Some c \<Rightarrow> look qs c)"
  by (simp add: child_or_new_def split: option.split)

lemma look_add_fail:
  "node_add k ps x n = (n', Some e) \<Longrightarrow> look qs n' = look qs n"
proof (induction k ps x n arbitrary: n' e qs rule: node_add.induct)
  case (1 k x st pr mt)
  then show ?case by (auto split: option.splits)
next
  case (2 k p ps x st pr mt)
  show ?case
  proof (cases qs)
    case Nil
    with "2.prems" show ?thesis
      by (auto simp: look_case split: if_splits option.splits prod.splits)
  next
    case (Cons q qs')
    show ?thesis
    proof (cases "is_param p")
      case True
      then show ?thesis
        using "2.prems" "2.IH"(1,2) Cons
        by (auto simp: look_case split: if_splits option.splits prod.splits)
    next
      case False
      obtain c e' where c: "node_add k ps x (child_or_new st p) = (c, e')"
        by (cases "node_add k ps x (child_or_new st p)")
      with False "2.prems" have n': "n' = RouteNode (mput p c st) pr mt" and e': "e' = Some e"
        by simp_all
      have "look qs' c = look qs' (child_or_new st p)"
        using "2.IH"(3)[OF False] c e' by simp
      then show ?thesis
        using Cons n' by (auto simp: look_child_or_new split: option.splits)
    qed
  qed
qed

lemma look_add_ok:
  "node_add k ps x n = (n', None) \<Longrightarrow>
   look ps n = None \<and> look qs n' = (if same_pat ps qs then Some x else look qs n)"
proof (induction k ps x n arbitrary: n' qs rule: node_add.induct)
  case (1 k x st pr mt)
  then show ?case by (cases qs) (auto split: option.splits)
next
  case (2 k p ps x st pr mt)
  show ?case
  proof (cases "is_param p")
    case True
    then show ?thesis
      using "2.prems" "2.IH"(1,2)
      by (cases qs) (auto simp: same_seg_def split: if_splits option.splits prod.splits)
  next
    case False
    obtain c e' where c: "node_add k ps x (child_or_new st p) = (c, e')"
      by (cases "node_add k ps x (child_or_new st p)")
    with False "2.prems" have n': "n' = RouteNode (mput p c st) pr mt" and e': "e' = None"
      by simp_all
    have IH: "look ps (child_or_new st p) = None \<and>
        look qs' c = (if same_pat ps qs' then Some x else look qs' (child_or_new st p))" for qs'
      using "2.IH"(3)[OF False] c e' by simp
    show ?thesis
      using False n' IH
      by (cases qs) (auto simp: same_seg_def look_child_or_new split: option.splits)
  qed
qed

lemma look_remove:
  "node_remove ps n = (n', m) \<Longrightarrow>
   m = look ps n \<and> look qs n' = (if same_pat ps qs then None else look qs n)"
proof (induction ps n arbitrary: n' m qs rule: node_remove.induct)
  case (1 st pr mt)
  then show ?case by (cases qs) auto
next
  case (2 p ps st pr mt)
  show ?case
  proof (cases "is_param p")
    case True
    then show ?thesis
      using "2.prems" "2.IH"(1)
      by (cases qs) (auto simp: same_seg_def split: if_splits option.splits prod.splits)
  next
    case False
    then show ?thesis
      using "2.prems" "2.IH"(2)
      by (cases qs) (auto simp: same_seg_def split: if_splits option.splits prod.splits)
  qed
qed


section \<open>When add succeeds\<close>

definition pat_ok :: "nat \<Rightarrow> string list \<Rightarrow> bool" where
  "pat_ok k ps \<longleftrightarrow>
     (\<forall>p\<in>set ps. is_param p \<longrightarrow> tl p \<noteq> []) \<and> k + length (filter is_param ps) \<le> inlineParams"

fun keys_fit :: "string list \<Rightarrow> 'a route_node \<Rightarrow> bool" where
  "keys_fit [] n = True"
| "keys_fit (p # ps) (RouteNode st pr mt) =
     (if is_param p then (case pr of None \<Rightarrow> True | Some (key, c) \<Rightarrow> key = tl p \<and> keys_fit ps c)
      else (case map_of st p of None \<Rightarrow> True | Some c \<Rightarrow> keys_fit ps c))"

lemma keys_fit_empty [simp]: "keys_fit ps empty_node"
  by (cases ps) (auto simp: empty_node_def)

lemma keys_fit_child_or_new: "keys_fit ps (child_or_new st p) \<longleftrightarrow>
  (case map_of st p of None \<Rightarrow> True | Some c \<Rightarrow> keys_fit ps c)"
  by (simp add: child_or_new_def split: option.split)

lemma pat_ok_Cons: "pat_ok k (p # ps) \<longleftrightarrow>
  (if is_param p then tl p \<noteq> [] \<and> Suc k \<le> inlineParams \<and> pat_ok (Suc k) ps else pat_ok k ps)"
  by (auto simp: pat_ok_def)

lemma add_ok_iff:
  "k \<le> inlineParams \<Longrightarrow>
   snd (node_add k ps x n) = None \<longleftrightarrow> pat_ok k ps \<and> keys_fit ps n \<and> look ps n = None"
proof (induction k ps x n rule: node_add.induct)
  case (1 k x st pr mt)
  then show ?case by (auto simp: pat_ok_def split: option.splits)
next
  case (2 k p ps x st pr mt)
  show ?case
  proof (cases "is_param p")
    case True
    then show ?thesis
      using 2 by (auto simp: pat_ok_Cons split: option.splits prod.splits)
  next
    case False
    have "snd (node_add k (p # ps) x (RouteNode st pr mt)) = snd (node_add k ps x (child_or_new st p))"
      using False by (simp add: split_beta)
    then show ?thesis
      using "2.IH"(3)[OF False "2.prems"] False
      by (auto simp: pat_ok_Cons keys_fit_child_or_new look_child_or_new split: option.splits)
  qed
qed

lemma add_error_codes: "snd (node_add k ps x n) \<in> {None, Some EINVAL, Some EEXIST}"
  by (induction k ps x n rule: node_add.induct)
     (auto simp: split_beta split: option.splits if_splits)

section \<open>Well-formed tries\<close>

text \<open>
  \<open>node_ok b n\<close>: keys of static children are distinct, not empty and no parameter
  segments; parameter keys are not empty; no branch has more than \<open>b\<close> parameters.
\<close>

fun node_ok :: "nat \<Rightarrow> 'a route_node \<Rightarrow> bool" where
  "node_ok b (RouteNode st pr mt) \<longleftrightarrow>
     distinct (map fst st) \<and>
     (\<forall>kc\<in>set st. \<not> is_param (fst kc) \<and> fst kc \<noteq> [] \<and> node_ok b (snd kc)) \<and>
     (case pr of None \<Rightarrow> True
      | Some kc \<Rightarrow> fst kc \<noteq> [] \<and> 0 < b \<and> node_ok (b - 1) (snd kc))"

lemma node_ok_empty [simp, intro]: "node_ok b empty_node"
  by (simp add: empty_node_def)

lemma node_ok_child: "node_ok b (RouteNode st pr mt) \<Longrightarrow> map_of st p = Some c \<Longrightarrow>
  node_ok b c \<and> \<not> is_param p \<and> p \<noteq> []"
  by (auto dest!: map_of_SomeD)

lemma node_ok_child_or_new:
  "node_ok b (RouteNode st pr mt) \<Longrightarrow> node_ok b (child_or_new st p)"
  by (auto simp: child_or_new_def dest: node_ok_child split: option.splits)

lemma node_ok_mput:
  "node_ok b (RouteNode st pr mt) \<Longrightarrow> \<not> is_param p \<Longrightarrow> p \<noteq> [] \<Longrightarrow> node_ok b c \<Longrightarrow>
   node_ok b (RouteNode (mput p c st) pr mt)"
  by (auto dest!: set_mputD split: option.splits)

lemma node_ok_add:
  "node_ok (inlineParams - k) n \<Longrightarrow> [] \<notin> set ps \<Longrightarrow> k \<le> inlineParams \<Longrightarrow>
   node_ok (inlineParams - k) (fst (node_add k ps x n))"
proof (induction k ps x n rule: node_add.induct)
  case (1 k x st pr mt)
  then show ?case by (auto split: option.splits)
next
  case (2 k p ps x st pr mt)
  show ?case
  proof (cases "is_param p")
    case True
    show ?thesis
    proof (cases pr)
      case None
      then show ?thesis
        using "2.prems" "2.IH"(1)[OF True _ _ None] True
        by (auto simp: split_beta)
    next
      case (Some kc)
      then show ?thesis
        using "2.prems" "2.IH"(2)[OF True _ _ Some] True
        by (cases kc) (auto simp: split_beta)
    qed
  next
    case False
    have c: "node_ok (inlineParams - k) (fst (node_add k ps x (child_or_new st p)))"
      using "2.prems" by (intro "2.IH"(3)[OF False]) (auto intro: node_ok_child_or_new)
    have "fst (node_add k (p # ps) x (RouteNode st pr mt)) =
        RouteNode (mput p (fst (node_add k ps x (child_or_new st p))) st) pr mt"
      using False by (simp add: split_beta)
    moreover have "p \<noteq> []" using "2.prems"(2) by auto
    ultimately show ?thesis
      by (simp only:) (rule node_ok_mput[OF "2.prems"(1) False _ c])
  qed
qed

lemma node_ok_remove: "node_ok b n \<Longrightarrow> node_ok b (fst (node_remove ps n))"
proof (induction ps n arbitrary: b rule: node_remove.induct)
  case (1 st pr mt)
  then show ?case by simp
next
  case (2 p ps st pr mt)
  show ?case
  proof (cases "is_param p")
    case True
    then show ?thesis
      using "2.prems" "2.IH"(1)[OF True] by (auto simp: split_beta split: option.splits prod.splits)
  next
    case False
    show ?thesis
    proof (cases "map_of st p")
      case None
      with False "2.prems" show ?thesis by simp
    next
      case (Some c0)
      with "2.prems" have "node_ok b c0" "p \<noteq> []" using node_ok_child by blast+
      then have "node_ok b (RouteNode (mput p (fst (node_remove ps c0)) st) pr mt)"
        using "2.IH"(2)[OF False Some] by (intro node_ok_mput[OF "2.prems" False]) auto
      then show ?thesis
        using False Some by (simp add: split_beta del: node_ok.simps)
    qed
  qed
qed


section \<open>The mounts of a trie\<close>

lemma node_count_mounts: "node_count n = length (node_mounts n)"
proof (induction n rule: node_count.induct)
  case (1 st pr mt)
  have "sum_list (map (\<lambda>kc. node_count (snd kc)) st) =
      length (concat (map (\<lambda>kc. node_mounts (snd kc)) st))"
    using "1.IH"(1) by (induction st) auto
  moreover have "(case pr of None \<Rightarrow> 0 | Some kc \<Rightarrow> node_count (snd kc)) =
      length (case pr of None \<Rightarrow> [] | Some kc \<Rightarrow> node_mounts (snd kc))"
    using "1.IH"(2) by (cases pr) auto
  ultimately show ?case by (simp split: option.split)
qed

lemma node_mounts_look:
  "node_ok b n \<Longrightarrow> x \<in> set (node_mounts n) \<longleftrightarrow> (\<exists>ps. look ps n = Some x)"
proof (induction n arbitrary: b rule: node_mounts.induct)
  case (1 st pr mt)
  have root: "mt = Some x \<longleftrightarrow> look [] (RouteNode st pr mt) = Some x" by simp
  have stat: "(\<exists>kc\<in>set st. x \<in> set (node_mounts (snd kc))) \<longleftrightarrow>
      (\<exists>p ps. \<not> is_param p \<and> look (p # ps) (RouteNode st pr mt) = Some x)"
  proof
    assume "\<exists>kc\<in>set st. x \<in> set (node_mounts (snd kc))"
    then obtain kc where kc: "kc \<in> set st" "x \<in> set (node_mounts (snd kc))" by blast
    with "1.prems" have m: "map_of st (fst kc) = Some (snd kc)" and np: "\<not> is_param (fst kc)"
      and ok: "node_ok b (snd kc)" by (auto intro!: map_of_is_SomeI)
    obtain ps where "look ps (snd kc) = Some x"
      using "1.IH"(1)[OF kc(1) ok] kc(2) by blast
    with m np show "\<exists>p ps. \<not> is_param p \<and> look (p # ps) (RouteNode st pr mt) = Some x"
      by (intro exI[of _ "fst kc"] exI[of _ ps]) simp
  next
    assume "\<exists>p ps. \<not> is_param p \<and> look (p # ps) (RouteNode st pr mt) = Some x"
    then obtain p ps c where pc: "map_of st p = Some c" "look ps c = Some x"
      by (auto split: option.splits)
    then have "(p, c) \<in> set st" and "node_ok b c"
      using "1.prems" node_ok_child by (auto dest: map_of_SomeD)
    then show "\<exists>kc\<in>set st. x \<in> set (node_mounts (snd kc))"
      using "1.IH"(1)[of "(p, c)"] pc(2) by (auto intro!: bexI[of _ "(p, c)"])
  qed
  have par: "(\<exists>kc. pr = Some kc \<and> x \<in> set (node_mounts (snd kc))) \<longleftrightarrow>
      (\<exists>p ps. is_param p \<and> look (p # ps) (RouteNode st pr mt) = Some x)"
  proof (cases pr)
    case None
    then show ?thesis by auto
  next
    case (Some kc)
    then have "node_ok (b - 1) (snd kc)" using "1.prems" by simp
    moreover have "is_param '':''" by simp
    ultimately show ?thesis
      using "1.IH"(2)[OF Some] Some by (cases kc) (auto intro!: exI[of _ "'':''"])
  qed
  have "x \<in> set (node_mounts (RouteNode st pr mt)) \<longleftrightarrow>
      mt = Some x \<or> (\<exists>kc\<in>set st. x \<in> set (node_mounts (snd kc))) \<or>
      (\<exists>kc. pr = Some kc \<and> x \<in> set (node_mounts (snd kc)))"
    by (auto split: option.splits)
  also have "\<dots> \<longleftrightarrow> (\<exists>ps. look ps (RouteNode st pr mt) = Some x)"
    unfolding root stat par by (metis neq_Nil_conv)
  finally show ?case .
qed

lemma mset_concat_mput:
  "distinct (map fst st) \<Longrightarrow>
   mset (concat (map (\<lambda>kc. g (snd kc)) (mput p c st))) +
     (case map_of st p of None \<Rightarrow> {#} | Some w \<Rightarrow> mset (g w)) =
   mset (concat (map (\<lambda>kc. g (snd kc)) st)) + mset (g c)"
  by (induction st) (auto split: option.splits)

lemma mounts_child_or_new:
  "mset (node_mounts (child_or_new st p)) =
     (case map_of st p of None \<Rightarrow> {#} | Some w \<Rightarrow> mset (node_mounts w))"
  by (simp add: child_or_new_def empty_node_def split: option.split)

text \<open>The contribution of the children, with one static child replaced.\<close>

lemma node_mounts_mput:
  assumes "distinct (map fst st)"
  shows "mset (node_mounts (RouteNode (mput p c st) pr mt)) +
      mset (node_mounts (child_or_new st p)) =
    mset (node_mounts (RouteNode st pr mt)) + mset (node_mounts c)"
  using mset_concat_mput[OF assms, of node_mounts p c]
  by (simp add: mounts_child_or_new ac_simps split: option.splits)

lemma node_mounts_mput_eq:
  assumes "distinct (map fst st)"
    and "mset (node_mounts c) = A + mset (node_mounts (child_or_new st p))"
  shows "mset (node_mounts (RouteNode (mput p c st) pr mt)) =
    A + mset (node_mounts (RouteNode st pr mt))"
  using node_mounts_mput[OF assms(1), of p c pr mt] assms(2)
  by (simp add: add.assoc[symmetric] add.commute[of _ A])

lemma node_mounts_add:
  "node_ok b n \<Longrightarrow> mset (node_mounts (fst (node_add k ps x n))) =
     (case snd (node_add k ps x n) of None \<Rightarrow> {#x#} | Some e \<Rightarrow> {#}) + mset (node_mounts n)"
proof (induction k ps x n arbitrary: b rule: node_add.induct)
  case (1 k x st pr mt)
  then show ?case by (auto split: option.splits)
next
  case (2 k p ps x st pr mt)
  show ?case
  proof (cases "is_param p")
    case True
    show ?thesis
    proof (cases pr)
      case None
      then show ?thesis
        using "2.IH"(1)[OF True _ _ None, of 0] True
        by (auto simp: split_beta empty_node_def)
    next
      case (Some kc)
      then have "node_ok (b - 1) (snd kc)" using "2.prems" by simp
      then show ?thesis
        using "2.IH"(2)[OF True _ _ Some, of "fst kc" "snd kc" "b - 1"] True Some
        by (cases kc) (auto simp: split_beta)
    qed
  next
    case False
    have d: "distinct (map fst st)" using "2.prems" by simp
    show ?thesis
      using node_mounts_mput_eq[OF d "2.IH"(3)[OF False node_ok_child_or_new[OF "2.prems"]]] False
      by (simp add: split_beta)
  qed
qed

lemma node_mounts_remove:
  "node_ok b n \<Longrightarrow> mset (node_mounts n) =
     (case look ps n of None \<Rightarrow> {#} | Some m \<Rightarrow> {#m#}) +
     mset (node_mounts (fst (node_remove ps n)))"
proof (induction ps n arbitrary: b rule: node_remove.induct)
  case (1 st pr mt)
  then show ?case by (auto split: option.splits)
next
  case (2 p ps st pr mt)
  show ?case
  proof (cases "is_param p")
    case True
    show ?thesis
    proof (cases pr)
      case (Some kc)
      then have "node_ok (b - 1) (snd kc)" using "2.prems" by simp
      then show ?thesis
        using "2.IH"(1)[OF True Some, of "fst kc" "snd kc" "b - 1"] True Some
        by (cases kc) (auto simp: split_beta)
    qed (use True in simp)
  next
    case False
    show ?thesis
    proof (cases "map_of st p")
      case (Some c0)
      then have c0: "child_or_new st p = c0" by (simp add: child_or_new_def)
      have d: "distinct (map fst st)" using "2.prems" by simp
      have "node_ok b c0" using node_ok_child[OF "2.prems" Some] by simp
      then have "mset (node_mounts c0) = (case look ps c0 of None \<Rightarrow> {#} | Some m \<Rightarrow> {#m#}) +
          mset (node_mounts (fst (node_remove ps c0)))"
        by (rule "2.IH"(2)[OF False Some])
      then show ?thesis
        using node_mounts_mput[OF d, of p "fst (node_remove ps c0)" pr mt] c0 False Some
        by (simp add: split_beta ac_simps)
    qed (use False in simp)
  qed
qed


section \<open>Matching a path\<close>

text \<open>
  The reference description of match and node: the path cut at its slashes, one
  \<open>nextRoute\<close> per segment, the value of each parameter child recorded.
\<close>

definition bad_seg :: "string \<Rightarrow> bool" where
  "bad_seg p \<longleftrightarrow> p = [] \<or> p = ''.'' \<or> p = ''..''"

fun walk :: "string list \<Rightarrow> 'a route_node \<Rightarrow> param_set \<Rightarrow> errno + ('a route_node \<times> param_set)" where
  "walk [] n ps = Inr (n, ps)"
| "walk (p # segs) n ps =
     (if bad_seg p then Inl EINVAL
      else (case nextRoute n p of
              None \<Rightarrow> Inl ENOENT
            | Some (n', key) \<Rightarrow> walk segs n' (if key \<noteq> [] then ps_set key p ps else ps)))"

text \<open>
  A pattern fits a path when they have as many segments and the static ones agree; its
  bindings are the parameters with the segments they stand for; \<open>plug\<close> puts the bound
  values back in.
\<close>

fun fits :: "string list \<Rightarrow> string list \<Rightarrow> bool" where
  "fits [] [] = True"
| "fits (p # ps) (s # ss) = ((is_param p \<or> p = s) \<and> fits ps ss)"
| "fits _ _ = False"

fun bindings :: "string list \<Rightarrow> string list \<Rightarrow> (string \<times> string) list" where
  "bindings (p # ps) (s # ss) =
     (if is_param p then (tl p, s) # bindings ps ss else bindings ps ss)"
| "bindings _ _ = []"

fun plug :: "string list \<Rightarrow> (string \<times> string) list \<Rightarrow> string list" where
  "plug [] bs = []"
| "plug (p # ps) bs =
     (if is_param p then (case bs of [] \<Rightarrow> p # plug ps [] | b # bs' \<Rightarrow> snd b # plug ps bs')
      else p # plug ps bs)"

lemma plug_bindings: "fits ps ss \<Longrightarrow> plug ps (bindings ps ss) = ss"
  by (induction ps ss rule: fits.induct) auto

lemma length_bindings: "fits ps ss \<Longrightarrow> length (bindings ps ss) = length (filter is_param ps)"
  by (induction ps ss rule: fits.induct) auto

text \<open>
  \<open>names_in ps n\<close>: the trie has a node at the pattern \<open>ps\<close>, under these very
  parameter names.
\<close>

fun names_in :: "string list \<Rightarrow> 'a route_node \<Rightarrow> bool" where
  "names_in [] n = True"
| "names_in (p # ps) (RouteNode st pr mt) =
     (if is_param p then (case pr of None \<Rightarrow> False | Some (key, c) \<Rightarrow> key = tl p \<and> names_in ps c)
      else (case map_of st p of None \<Rightarrow> False | Some c \<Rightarrow> names_in ps c))"

lemma is_param_eq: "is_param p \<Longrightarrow> p = '':'' @ tl p"
  by (auto simp: has_prefix_iff)

lemma names_in_unique:
  "names_in ps n \<Longrightarrow> names_in qs n \<Longrightarrow> same_pat ps qs \<Longrightarrow> ps = qs"
proof (induction ps n arbitrary: qs rule: names_in.induct)
  case (2 p ps st pr mt)
  then obtain q qs' where qs: "qs = q # qs'" by (cases qs) auto
  show ?case
  proof (cases "is_param p")
    case True
    then have "is_param q" using "2.prems"(3) qs by (simp add: same_seg_def)
    then show ?thesis
      using "2.prems" "2.IH"(1)[OF True] True qs is_param_eq[of p] is_param_eq[of q]
      by (auto split: option.splits prod.splits)
  next
    case False
    then show ?thesis
      using "2.prems" "2.IH"(2)[OF False] qs by (auto simp: same_seg_def split: option.splits)
  qed
qed simp

lemma names_in_add_ok:
  "node_add k ps x n = (n', None) \<Longrightarrow> names_in ps n'"
proof (induction k ps x n arbitrary: n' rule: node_add.induct)
  case (2 k p ps x st pr mt)
  show ?case
  proof (cases "is_param p")
    case True
    then show ?thesis
      using "2.prems" "2.IH"(1,2) by (auto split: if_splits option.splits prod.splits)
  next
    case False
    then show ?thesis
      using "2.prems" "2.IH"(3)[OF False] by (auto split: prod.splits)
  qed
qed simp

lemma names_in_empty [simp]: "names_in qs empty_node \<longleftrightarrow> qs = []"
  by (cases qs) (auto simp: empty_node_def)

lemma names_in_child_or_new: "names_in qs (child_or_new st p) \<longleftrightarrow>
  qs = [] \<or> (\<exists>c. map_of st p = Some c \<and> names_in qs c)"
  by (auto simp: child_or_new_def split: option.split)

lemma names_in_add: "names_in qs n \<Longrightarrow> names_in qs (fst (node_add k ps x n))"
proof (induction k ps x n arbitrary: qs rule: node_add.induct)
  case (1 k x st pr mt)
  then show ?case by (cases qs) (auto split: option.splits)
next
  case (2 k p ps x st pr mt)
  show ?case
  proof (cases "is_param p")
    case True
    then show ?thesis
      using "2.prems" "2.IH"(1,2)
      by (cases qs) (auto simp: split_beta split: if_splits option.splits prod.splits)
  next
    case False
    then show ?thesis
      using "2.prems" "2.IH"(3)[OF False]
      by (cases qs) (auto simp: split_beta names_in_child_or_new split: option.splits)
  qed
qed

lemma names_in_remove: "names_in qs n \<Longrightarrow> names_in qs (fst (node_remove ps n))"
proof (induction ps n arbitrary: qs rule: node_remove.induct)
  case (1 st pr mt)
  then show ?case by (cases qs) auto
next
  case (2 p ps st pr mt)
  show ?case
  proof (cases "is_param p")
    case True
    then show ?thesis
      using "2.prems" "2.IH"(1)
      by (cases qs) (auto simp: split_beta split: if_splits option.splits prod.splits)
  next
    case False
    then show ?thesis
      using "2.prems" "2.IH"(2)[OF False]
      by (cases qs) (auto simp: split_beta split: if_splits option.splits)
  qed
qed

lemma nextRoute_cases:
  assumes "nextRoute n s = Some (n', key)" and "node_ok b n"
  obtains (static) "key = []" "\<not> is_param s" "node_ok b n'"
      "\<And>qs. look (s # qs) n = look qs n'" "\<And>qs. names_in (s # qs) n = names_in qs n'"
  | (param) "key \<noteq> []" "0 < b" "node_ok (b - 1) n'"
      "\<And>qs. look (('':'' @ key) # qs) n = look qs n'"
      "\<And>qs. names_in (('':'' @ key) # qs) n = names_in qs n'"
proof (cases n)
  case (RouteNode st pr mt)
  show thesis
  proof (cases "map_of st s")
    case (Some c)
    then have "n' = c" "key = []" using assms(1) RouteNode by simp_all
    moreover have "node_ok b c" "\<not> is_param s"
      using node_ok_child[OF _ Some] assms(2) RouteNode by blast+
    ultimately show thesis using Some RouteNode by (intro static) simp_all
  next
    case None
    then obtain pr' where "pr = Some pr'" using assms(1) RouteNode by (cases pr) auto
    then show thesis
      using None assms RouteNode by (intro param) (auto split: prod.splits)
  qed
qed

text \<open>
  Soundness: a walk that ends at a node has followed a pattern of the trie that fits the
  path, and the parameters it recorded are exactly that pattern's bindings.
\<close>

lemma walk_sound:
  assumes "walk segs n ps = Inr (n', ps')" and "node_ok b n" and "params_ok ps"
    and "b + ps_count ps \<le> inlineParams"
  shows "\<exists>pat. fits pat segs \<and> (\<forall>qs. look (pat @ qs) n = look qs n') \<and>
    ps_Each ps' = ps_Each ps @ bindings pat segs \<and> params_ok ps' \<and>
    length (filter is_param pat) \<le> b \<and> names_in pat n"
  using assms
proof (induction segs n ps arbitrary: b rule: walk.induct)
  case (1 n ps)
  then show ?case by (intro exI[of _ "[]"]) simp
next
  case (2 s segs n ps)
  from "2.prems"(1) obtain n1 key where nr: "nextRoute n s = Some (n1, key)"
    and good: "\<not> bad_seg s"
    and w: "walk segs n1 (if key \<noteq> [] then ps_set key s ps else ps) = Inr (n', ps')"
    by (auto split: if_splits option.splits)
  note IH = "2.IH"[OF good nr refl w]
  from nr "2.prems"(2) show ?case
  proof (cases rule: nextRoute_cases)
    case static
    with IH[of b] "2.prems" obtain pat where "fits pat segs"
      "\<forall>qs. look (pat @ qs) n1 = look qs n'" "ps_Each ps' = ps_Each ps @ bindings pat segs"
      "params_ok ps'" "length (filter is_param pat) \<le> b" "names_in pat n1" by auto
    with static show ?thesis by (intro exI[of _ "s # pat"]) simp
  next
    case param
    have room: "ps_count ps < inlineParams" using param(2) "2.prems"(4) by simp
    have "params_ok (ps_set key s ps)" "b - 1 + ps_count (ps_set key s ps) \<le> inlineParams"
      using "2.prems"(3,4) room param(2) by (auto simp: ps_set_def params_ok_def)
    with IH[of "b - 1"] param "2.prems" obtain pat where "fits pat segs"
      "\<forall>qs. look (pat @ qs) n1 = look qs n'"
      "ps_Each ps' = ps_Each (ps_set key s ps) @ bindings pat segs"
      "params_ok ps'" "length (filter is_param pat) \<le> b - 1" "names_in pat n1" by auto
    with param Each_set[OF "2.prems"(3), of key s] room show ?thesis
      by (intro exI[of _ "('':'' @ key) # pat"]) auto
  qed
qed

text \<open>A static mount is always found at its own path, whatever parameters are around it.\<close>

lemma walk_static:
  "look segs n = Some m \<Longrightarrow> \<forall>s\<in>set segs. \<not> is_param s \<and> \<not> bad_seg s \<Longrightarrow>
   \<exists>n'. walk segs n ps = Inr (n', ps) \<and> rn_mount n' = Some m"
proof (induction segs arbitrary: n)
  case Nil
  then show ?case by (cases n) simp
next
  case (Cons s segs)
  obtain st pr mt where n: "n = RouteNode st pr mt" by (cases n)
  with Cons.prems obtain c where "map_of st s = Some c" "look segs c = Some m"
    by (auto split: option.splits)
  with Cons n show ?case by simp
qed

lemma rn_mount_look: "rn_mount n = look [] n"
  by (cases n) simp


text \<open>Removing a mount takes no node away: every walk still ends, at a node with the same
  children, whose mount is the old one or gone.\<close>

lemma nextRoute_remove:
  "nextRoute n s = Some (n1, key) \<Longrightarrow>
   nextRoute (fst (node_remove ps n)) s = Some (fst (node_remove (tl ps) n1), key) \<or>
   nextRoute (fst (node_remove ps n)) s = Some (n1, key)"
  by (cases n; cases ps)
     (auto simp: split_beta split: option.splits if_splits prod.splits)

lemma walk_remove:
  "walk segs n qs = Inr (m, qs') \<Longrightarrow>
   \<exists>m'. walk segs (fst (node_remove ps n)) qs = Inr (m', qs') \<and>
     map fst (rn_static m') = map fst (rn_static m) \<and>
     map_option fst (rn_param m') = map_option fst (rn_param m) \<and>
     (rn_mount m' = None \<or> rn_mount m' = rn_mount m)"
proof (induction segs n qs arbitrary: ps rule: walk.induct)
  case (1 n qs)
  have keys: "map fst (mput p c st) = map fst st" if "map_of st p = Some c0"
    for p and c c0 :: "'a route_node" and st
    using that by (induction st) (auto split: if_splits)
  from 1 show ?case
    by (cases n; cases ps) (auto simp: split_beta keys split: option.splits if_splits)
next
  case (2 s segs n qs)
  obtain st pr mt where n: "n = RouteNode st pr mt" by (cases n)
  from "2.prems" obtain n1 key where nr: "nextRoute n s = Some (n1, key)" and good: "\<not> bad_seg s"
    and w: "walk segs n1 (if key \<noteq> [] then ps_set key s qs else qs) = Inr (m, qs')"
    by (auto split: if_splits option.splits)
  from nextRoute_remove[OF nr, of ps]
  show ?case
  proof
    assume "nextRoute (fst (node_remove ps n)) s = Some (fst (node_remove (tl ps) n1), key)"
    then show ?thesis
      using "2.IH"[OF good nr refl w, of "tl ps"] good by auto
  next
    assume "nextRoute (fst (node_remove ps n)) s = Some (n1, key)"
    then show ?thesis using good w by auto
  qed
qed

lemma walk_removed_static:
  "look segs n = Some x \<Longrightarrow> \<forall>s\<in>set segs. \<not> is_param s \<and> \<not> bad_seg s \<Longrightarrow>
   \<exists>n'. walk segs (fst (node_remove segs n)) ps = Inr (n', ps) \<and> rn_mount n' = None"
proof (induction segs arbitrary: n)
  case Nil
  then show ?case by (cases n) simp
next
  case (Cons s segs)
  obtain st pr mt where n: "n = RouteNode st pr mt" by (cases n)
  with Cons.prems obtain c where "map_of st s = Some c" "look segs c = Some x"
    by (auto split: option.splits)
  with Cons n show ?case by (simp add: split_beta)
qed

section \<open>The interface of a mount table\<close>

text \<open>
  What the file system relies on: \<open>lookup\<close> after an insert, a failed insert and a
  delete. Keys are compared by \<open>same\<close> (patterns up to parameter names).
\<close>

locale mount_table =
  fixes lookup :: "'t \<Rightarrow> 'k \<Rightarrow> 'e option"
    and insert :: "'t \<Rightarrow> 'k \<Rightarrow> 'e \<Rightarrow> 't \<times> errno option"
    and delete :: "'t \<Rightarrow> 'k \<Rightarrow> 't \<times> 'e option"
    and same :: "'k \<Rightarrow> 'k \<Rightarrow> bool"
  assumes insert_ok: "insert t k e = (t', None) \<Longrightarrow>
      lookup t k = None \<and> lookup t' j = (if same k j then Some e else lookup t j)"
    and insert_fail: "insert t k e = (t', Some c) \<Longrightarrow> lookup t' j = lookup t j"
    and delete_law: "delete t k = (t', r) \<Longrightarrow>
      r = lookup t k \<and> lookup t' j = (if same k j then None else lookup t j)"
    and same_refl: "same k k"
    and lookup_same: "same k j \<Longrightarrow> lookup t k = lookup t j"
begin

lemma insert_then_lookup: "insert t k e = (t', None) \<Longrightarrow> lookup t' k = Some e"
  using insert_ok same_refl by simp

lemma insert_twice: "insert t k e = (t', None) \<Longrightarrow> snd (insert t' k e') \<noteq> None"
  using insert_then_lookup insert_ok[of t' k e'] by (metis option.distinct(1) prod.collapse)

lemma insert_then_delete:
  assumes "insert t k e = (t', None)" and "delete t' k = (t'', r)"
  shows "r = Some e \<and> lookup t'' j = lookup t j"
  using insert_ok[OF assms(1)] delete_law[OF assms(2)] same_refl lookup_same[of k j t]
  by auto

lemma delete_absent: "delete t k = (t', None) \<Longrightarrow> lookup t' j = lookup t j"
  using delete_law[of t k t' None] lookup_same[of k j t] by auto

text \<open>Moving an entry: delete it, then insert it elsewhere.\<close>

lemma move_ok:
  assumes "delete t k = (t1, Some e)" and "insert t1 l e' = (t2, None)"
  shows "lookup t k = Some e \<and>
    lookup t2 j = (if same l j then Some e' else if same k j then None else lookup t j)"
  using delete_law[OF assms(1)] insert_ok[OF assms(2)] by auto

text \<open>A move that fails at the insert and puts the entry back leaves every other key alone.\<close>

lemma move_undo:
  assumes "delete t k = (t1, Some e)" and "insert t1 l e' = (t2, Some c)"
    and "insert t2 k e'' = (t3, None)"
  shows "lookup t3 j = (if same k j then Some e'' else lookup t j)"
  using delete_law[OF assms(1)] insert_fail[OF assms(2)] insert_ok[OF assms(3)] by auto

end

interpretation trie: mount_table
  "\<lambda>n ps. look ps n" "\<lambda>n ps x. node_add 0 ps x n" "\<lambda>n ps. node_remove ps n" same_pat
proof unfold_locales
  fix n :: "'a route_node" and ps qs x n'
  show "node_add 0 ps x n = (n', None) \<Longrightarrow>
      look ps n = None \<and> look qs n' = (if same_pat ps qs then Some x else look qs n)"
    by (rule look_add_ok)
qed (auto simp: look_add_fail look_remove look_same)

end
