(* ===== verification/Types.thy ===== *)
theory Types
  imports Errors Params
begin

text \<open>
  core/types.go and the flag and policy types of core/handles.go: node kinds, the global
  configuration with its defaults and its validation, mount entries and their validation,
  provider operations, caller identities, stat and directory entries.

  A nil pointer is \<open>None\<close>. A Go \<open>int\<close> is \<open>int\<close> where it may be negative in a
  configuration. The function-typed fields keep their code's type with errors as a sum.
\<close>

section \<open>Node kinds\<close>

datatype node_kind =
    KindBlob | KindAPI | KindStream | KindDir | KindDynamicDir | KindLink | KindOther string

fun kind_text :: "node_kind \<Rightarrow> string" where
  "kind_text KindBlob = ''blob''"
| "kind_text KindAPI = ''api''"
| "kind_text KindStream = ''stream''"
| "kind_text KindDir = ''dir''"
| "kind_text KindDynamicDir = ''dynamic_dir''"
| "kind_text KindLink = ''link''"
| "kind_text (KindOther s) = s"

text \<open>The conversion \<open>NodeKind(s)\<close> of a string.\<close>

definition kind_of :: "string \<Rightarrow> node_kind" where
  "kind_of s =
     (if s = ''blob'' then KindBlob else if s = ''api'' then KindAPI
      else if s = ''stream'' then KindStream else if s = ''dir'' then KindDir
      else if s = ''dynamic_dir'' then KindDynamicDir else if s = ''link'' then KindLink
      else KindOther s)"

lemma kind_text_kind_of [simp]: "kind_text (kind_of s) = s"
  by (simp add: kind_of_def)

text \<open>The octal modes of the code: 0o555, 0o444, 0o755, 0o644 and 0o777.\<close>

abbreviation mode_0555 :: u32 where "mode_0555 \<equiv> 365"
abbreviation mode_0444 :: u32 where "mode_0444 \<equiv> 292"
abbreviation mode_0755 :: u32 where "mode_0755 \<equiv> 493"
abbreviation mode_0644 :: u32 where "mode_0644 \<equiv> 420"
abbreviation mode_0777 :: u32 where "mode_0777 \<equiv> 511"

section \<open>Global configuration\<close>

record breaker_config =
  bc_Enabled :: bool
  bc_FailureThreshold :: int
  bc_ResetTimeout :: duration
  bc_HalfOpenMaxCalls :: int

text \<open>\<open>g_Audit\<close> says whether AuditFunc is set; its calls are a log of the file system.\<close>

record global_config =
  g_Label :: string
  g_MaxOpenHandles :: int
  g_MaxMounts :: int
  g_MaxBlobSize :: int
  g_ZeroCopyThreshold :: int
  g_StatCacheTTL :: duration
  g_DefaultUID :: u32
  g_DefaultGID :: u32
  g_SkillsRoot :: string
  g_LockTimeout :: duration
  g_Breaker :: breaker_config
  g_Audit :: bool

definition second :: duration where
  "second = 1000000000"

definition dflt :: "int \<Rightarrow> int \<Rightarrow> int" where
  "dflt v d = (if v = 0 then d else v)"

definition withDefaults :: "global_config \<Rightarrow> global_config" where
  "withDefaults c =
     c\<lparr>g_MaxOpenHandles := dflt (g_MaxOpenHandles c) 65536,
       g_MaxMounts := dflt (g_MaxMounts c) 10000,
       g_MaxBlobSize := dflt (g_MaxBlobSize c) (64 * 1024 * 1024),
       g_ZeroCopyThreshold := dflt (g_ZeroCopyThreshold c) 4096,
       g_LockTimeout := dflt (g_LockTimeout c) (30 * second),
       g_Breaker := (g_Breaker c)
         \<lparr>bc_FailureThreshold := dflt (bc_FailureThreshold (g_Breaker c)) 5,
          bc_ResetTimeout := dflt (bc_ResetTimeout (g_Breaker c)) (30 * second),
          bc_HalfOpenMaxCalls := dflt (bc_HalfOpenMaxCalls (g_Breaker c)) 1\<rparr>\<rparr>"

definition config_Validate :: "global_config \<Rightarrow> string option" where
  "config_Validate c =
     (if g_MaxOpenHandles c < 0 then Some ''MaxOpenHandles must be non-negative''
      else if g_MaxMounts c < 0 then Some ''MaxMounts must be non-negative''
      else if g_MaxBlobSize c < 0 then Some ''MaxBlobSize must be non-negative''
      else if g_ZeroCopyThreshold c < 0 then Some ''ZeroCopyThreshold must be non-negative''
      else if g_StatCacheTTL c < 0 then Some ''StatCacheTTL must be non-negative''
      else if g_LockTimeout c < 0 then Some ''LockTimeout must be non-negative''
      else if bc_FailureThreshold (g_Breaker c) < 0
        then Some ''Breaker.FailureThreshold must be non-negative''
      else if bc_ResetTimeout (g_Breaker c) < 0
        then Some ''Breaker.ResetTimeout must be non-negative''
      else if bc_HalfOpenMaxCalls (g_Breaker c) < 0
        then Some ''Breaker.HalfOpenMaxCalls must be non-negative''
      else None)"

section \<open>Streams, buffering, callers and provider operations\<close>

datatype backpressure = BackpressureBlock | BackpressureDrop | BackpressureError

record stream_config =
  sc_Capacity :: int
  sc_Mode :: backpressure
  sc_MaxChunkSize :: int

datatype write_mode = WriteImmediate | WriteBuffered

record buffer_policy =
  bp_Mode :: write_mode
  bp_MaxSize :: int
  bp_MaxDelay :: duration
  bp_FlushOnNewline :: bool

definition zero_policy :: buffer_policy where
  "zero_policy = \<lparr>bp_Mode = WriteImmediate, bp_MaxSize = 0, bp_MaxDelay = 0,
                  bp_FlushOnNewline = False\<rparr>"

record caller_identity =
  ca_UID :: u32
  ca_GID :: u32
  ca_Namespace :: string

definition anonymous :: caller_identity where
  "anonymous = \<lparr>ca_UID = 0, ca_GID = 0, ca_Namespace = []\<rparr>"

record op_context =
  oc_Path :: string
  oc_Op :: op_code
  oc_Caller :: caller_identity

text \<open>
  Provider parameters are \<open>map[string]interface{}\<close> with JSON values. A number carries the
  text that the verb %v of fmt prints for it.
\<close>

datatype pvalue =
    PStr string | PNum string | PBool bool | PNil | PList "pvalue list"
  | PMap "(string \<times> pvalue) list"

type_synonym params = "(string \<times> pvalue) list"

record cap_config =
  cc_ProviderID :: string
  cc_Action :: string
  cc_ParamsFn :: "((string \<times> string) list \<Rightarrow> bytes \<Rightarrow> op_context \<Rightarrow> go_error + params) option"
  cc_Async :: bool
  cc_Timeout :: duration
  cc_CacheTTL :: duration

text \<open>\<open>Data\<close> may be a nil slice, which the write-back path tells from an empty one.\<close>

record provider_result =
  pr_Data :: "bytes option"
  pr_Meta :: "(string \<times> string) list"
  pr_ContentType :: string

section \<open>Mount entries\<close>

record skill_config =
  sk_Enabled :: bool
  sk_Name :: string
  sk_Description :: string
  sk_Version :: string
  sk_Author :: string
  sk_License :: string
  sk_Platforms :: "string list"
  sk_Compatibility :: string
  sk_Metadata :: "(string \<times> string) list"
  sk_AllowedTools :: "string list"
  sk_BodyTemplate :: string
  sk_BodyTemplateFile :: string
  sk_AgentsTemplate :: string
  sk_AgentsTemplateFile :: string
  sk_Scripts :: "string list"
  sk_References :: "string list"
  sk_ExposeAtRoot :: bool

text \<open>\<open>me_serial\<close> says whether the entry has a serial queue (a mutex of its own).\<close>

record mount_entry =
  me_ID :: u64
  me_Path :: string
  me_Kind :: node_kind
  me_Mode :: u32
  me_UID :: u32
  me_GID :: u32
  me_Ops :: "(op_code \<times> cap_config option) list"
  me_Serial :: bool
  me_BufferPolicy :: "buffer_policy option"
  me_Skill :: "skill_config option"
  me_Stream :: "stream_config option"
  me_Visibility :: string
  me_Namespace :: string
  me_Writeback :: bool
  me_Schema :: string
  me_BlobData :: bytes
  me_LinkPath :: string
  me_ModTime :: time
  me_serial :: bool

definition zero_entry :: mount_entry where
  "zero_entry =
     \<lparr>me_ID = 0, me_Path = [], me_Kind = KindOther [], me_Mode = 0, me_UID = 0, me_GID = 0,
      me_Ops = [], me_Serial = False, me_BufferPolicy = None, me_Skill = None,
      me_Stream = None, me_Visibility = [], me_Namespace = [], me_Writeback = False,
      me_Schema = [], me_BlobData = [], me_LinkPath = [], me_ModTime = 0, me_serial = False\<rparr>"

text \<open>One constructor per fmt.Errorf of MountEntry.Validate.\<close>

datatype validate_error =
    InvalidKind node_kind
  | BlobDataForKind node_kind
  | LinkPathForKind node_kind
  | StreamForKind node_kind
  | StreamCapacity
  | StreamMaxChunkSize
  | SkillWithoutName
  | InvalidVisibility string
  | OpWithoutProvider op_code

fun validate_ops :: "(op_code \<times> cap_config option) list \<Rightarrow> validate_error option" where
  "validate_ops [] = None"
| "validate_ops ((o1, None) # ops) = validate_ops ops"
| "validate_ops ((o1, Some c) # ops) =
     (if cc_ProviderID c = [] then Some (OpWithoutProvider o1) else validate_ops ops)"

definition entry_Validate :: "mount_entry \<Rightarrow> validate_error option" where
  "entry_Validate e =
     (if (case me_Kind e of KindOther _ \<Rightarrow> True | _ \<Rightarrow> False) then Some (InvalidKind (me_Kind e))
      else if 0 < length (me_BlobData e) \<and> me_Kind e \<noteq> KindBlob
        then Some (BlobDataForKind (me_Kind e))
      else if me_LinkPath e \<noteq> [] \<and> me_Kind e \<noteq> KindLink
        then Some (LinkPathForKind (me_Kind e))
      else if me_Stream e \<noteq> None \<and> me_Kind e \<noteq> KindStream
        then Some (StreamForKind (me_Kind e))
      else if (case me_Stream e of None \<Rightarrow> False | Some s \<Rightarrow> sc_Capacity s \<le> 0)
        then Some StreamCapacity
      else if (case me_Stream e of None \<Rightarrow> False | Some s \<Rightarrow> sc_MaxChunkSize s < 0)
        then Some StreamMaxChunkSize
      else if (case me_Skill e of None \<Rightarrow> False | Some s \<Rightarrow> sk_Enabled s \<and> sk_Name s = [])
        then Some SkillWithoutName
      else if me_Visibility e \<noteq> [] \<and> me_Visibility e \<noteq> ''public'' \<and> me_Visibility e \<noteq> ''private''
        then Some (InvalidVisibility (me_Visibility e))
      else validate_ops (me_Ops e))"

section \<open>Results of metadata operations\<close>

record stat =
  st_Path :: string
  st_Kind :: node_kind
  st_Mode :: u32
  st_UID :: u32
  st_GID :: u32
  st_Size :: int
  st_ModTime :: time

record dir_entry =
  de_Name :: string
  de_Kind :: node_kind
  de_Mode :: u32

section \<open>Lemmas\<close>

definition known_kind :: "node_kind \<Rightarrow> bool" where
  "known_kind k = (case k of KindOther _ \<Rightarrow> False | _ \<Rightarrow> True)"

lemma validate_ops_None:
  "validate_ops ops = None \<longleftrightarrow> (\<forall>(o1, c) \<in> set ops. \<forall>cc. c = Some cc \<longrightarrow> cc_ProviderID cc \<noteq> [])"
  by (induction ops rule: validate_ops.induct) auto

lemma entry_Validate_None_iff:
  "entry_Validate e = None \<longleftrightarrow>
     known_kind (me_Kind e) \<and>
     (me_BlobData e \<noteq> [] \<longrightarrow> me_Kind e = KindBlob) \<and>
     (me_LinkPath e \<noteq> [] \<longrightarrow> me_Kind e = KindLink) \<and>
     (\<forall>s. me_Stream e = Some s \<longrightarrow>
        me_Kind e = KindStream \<and> 0 < sc_Capacity s \<and> 0 \<le> sc_MaxChunkSize s) \<and>
     (\<forall>s. me_Skill e = Some s \<longrightarrow> sk_Enabled s \<longrightarrow> sk_Name s \<noteq> []) \<and>
     me_Visibility e \<in> {[], ''public'', ''private''} \<and>
     validate_ops (me_Ops e) = None"
  unfolding entry_Validate_def known_kind_def
  by (auto split: node_kind.splits option.splits)

lemma dflt_simps [simp]: "dflt 0 d = d" "v \<noteq> 0 \<Longrightarrow> dflt v d = v"
  by (simp_all add: dflt_def)

lemma dflt_pos: "0 \<le> v \<Longrightarrow> 0 < d \<Longrightarrow> 0 < dflt v d"
  by (simp add: dflt_def)

section \<open>Properties\<close>

text \<open>
  A configuration that passes Validate still passes it after the defaults are filled in,
  and every limit the engine divides by or compares with is then positive; filling in the
  defaults twice changes nothing.
\<close>

theorem config_defaults_valid:
  assumes "config_Validate c = None"
  shows "config_Validate (withDefaults c) = None \<and>
    0 < g_MaxOpenHandles (withDefaults c) \<and> 0 < g_MaxMounts (withDefaults c) \<and>
    0 < g_MaxBlobSize (withDefaults c) \<and> 0 < g_LockTimeout (withDefaults c) \<and>
    0 < bc_FailureThreshold (g_Breaker (withDefaults c)) \<and>
    0 < bc_ResetTimeout (g_Breaker (withDefaults c)) \<and>
    0 < bc_HalfOpenMaxCalls (g_Breaker (withDefaults c)) \<and>
    withDefaults (withDefaults c) = withDefaults c"
proof -
  have nn: "0 \<le> g_MaxOpenHandles c" "0 \<le> g_MaxMounts c" "0 \<le> g_MaxBlobSize c"
    "0 \<le> g_ZeroCopyThreshold c" "0 \<le> g_StatCacheTTL c" "0 \<le> g_LockTimeout c"
    "0 \<le> bc_FailureThreshold (g_Breaker c)" "0 \<le> bc_ResetTimeout (g_Breaker c)"
    "0 \<le> bc_HalfOpenMaxCalls (g_Breaker c)"
    using assms unfolding config_Validate_def by (simp_all split: if_splits)
  then show ?thesis
    by (simp add: withDefaults_def dflt_def config_Validate_def second_def)
qed

lemma config_defaults_valid_witness:
  defines "c0 \<equiv> \<lparr>g_Label = [], g_MaxOpenHandles = 0, g_MaxMounts = 7, g_MaxBlobSize = 0,
    g_ZeroCopyThreshold = 0, g_StatCacheTTL = 0, g_DefaultUID = 0, g_DefaultGID = 0,
    g_SkillsRoot = [], g_LockTimeout = 0,
    g_Breaker = \<lparr>bc_Enabled = True, bc_FailureThreshold = 0, bc_ResetTimeout = 0,
                 bc_HalfOpenMaxCalls = 0\<rparr>, g_Audit = False\<rparr>"
  shows "config_Validate (withDefaults c0) = None \<and> 0 < g_MaxMounts (withDefaults c0)"
proof -
  have "config_Validate c0 = None" by (simp add: c0_def config_Validate_def)
  from config_defaults_valid[OF this] show ?thesis by simp
qed

end
