(* ===== verification/Router.thy ===== *)
theory Router
  imports Trie Types
begin

text \<open>
  core/router.go over whole paths: \<open>cleanParts\<close>, \<open>add\<close>, \<open>remove\<close>, \<open>match\<close>, \<open>node\<close>,
  \<open>list\<close>, \<open>snapshot\<close> and \<open>count\<close>. Add and remove cut a path with cleanParts; match and node
  scan it byte by byte, which \<open>match_loop_walk\<close> shows to be the walk of theory Trie over the
  path cut at its slashes. The router's sequence number is a 64-bit counter.
\<close>

section \<open>Operations\<close>

record router =
  r_root :: "mount_entry route_node"
  r_seq :: u64

definition newRouter :: router where
  "newRouter = \<lparr>r_root = empty_node, r_seq = 0\<rparr>"

definition einval_path :: "string \<Rightarrow> go_error" where
  "einval_path path = posix EINVAL OpStat path None"

definition not_absolute :: "string \<Rightarrow> bool" where
  "not_absolute path \<longleftrightarrow> path = [] \<or> hd path \<noteq> CHR ''/''"

definition cleanParts :: "string \<Rightarrow> go_error + string list" where
  "cleanParts path =
     (if not_absolute path then Inl (einval_path path)
      else if path = ''/'' then Inr []
      else (let raw = split_on (CHR ''/'') (trim_char (CHR ''/'') path)
            in if list_ex bad_seg raw then Inl (einval_path path) else Inr raw))"

definition router_add :: "router \<Rightarrow> mount_entry \<Rightarrow> router \<times> (go_error + mount_entry)" where
  "router_add r m =
     (case cleanParts (me_Path m) of
        Inl e \<Rightarrow> (r, Inl e)
      | Inr parts \<Rightarrow>
          (let m' = m\<lparr>me_ID := r_seq r + 1\<rparr>;
               (n', err) = node_add 0 parts m' (r_root r)
           in case err of
                Some c \<Rightarrow> (r\<lparr>r_root := n'\<rparr>, Inl (posix c OpStat (me_Path m) None))
              | None \<Rightarrow> (r\<lparr>r_root := n', r_seq := r_seq r + 1\<rparr>, Inr m')))"

definition router_remove :: "router \<Rightarrow> string \<Rightarrow> router \<times> (go_error + mount_entry)" where
  "router_remove r path =
     (case cleanParts path of
        Inl e \<Rightarrow> (r, Inl e)
      | Inr parts \<Rightarrow>
          (let (n', m) = node_remove parts (r_root r)
           in case m of
                None \<Rightarrow> (r, Inl (posix ENOENT OpStat path None))
              | Some e \<Rightarrow> (r\<lparr>r_root := n'\<rparr>, Inr e)))"

text \<open>The inner scanning loop of match and node: the end of the segment at \<open>e\<close>.\<close>

function seg_end :: "string \<Rightarrow> nat \<Rightarrow> nat" where
  "seg_end path e =
     (if e < length path \<and> path ! e \<noteq> CHR ''/'' then seg_end path (Suc e) else e)"
  by pat_completeness auto
termination
  by (relation "measure (\<lambda>(path, e). length path - e)") auto

declare seg_end.simps [simp del]

lemma seg_end_ge: "e \<le> seg_end path e"
  by (induction path e rule: seg_end.induct) (subst seg_end.simps, auto)

function match_loop ::
  "string \<Rightarrow> nat \<Rightarrow> 'a route_node \<Rightarrow> param_set \<Rightarrow> errno + ('a route_node \<times> param_set)" where
  "match_loop path start n ps =
     (if start \<le> length path then
        (let e = seg_end path start in
         if e = start then Inl EINVAL
         else (let p = take (e - start) (drop start path) in
           if p = ''.'' \<or> p = ''..'' then Inl EINVAL
           else (case nextRoute n p of
                   None \<Rightarrow> Inl ENOENT
                 | Some (n', key) \<Rightarrow>
                     (let ps' = (if key \<noteq> [] then ps_set key p ps else ps) in
                      if e = length path then Inr (n', ps')
                      else match_loop path (e + 1) n' ps'))))
      else Inr (n, ps))"
  by pat_completeness auto
termination
proof (relation "measure (\<lambda>(path, start, n, ps). Suc (length path) - start)", goal_cases)
  case (2 path start n ps e p a n' key ps')
  then show ?case using seg_end_ge[of start path] by simp
qed simp

declare match_loop.simps [simp del]

record route_match =
  rm_mount :: "mount_entry option"
  rm_params :: param_set

definition router_match :: "router \<Rightarrow> string \<Rightarrow> go_error + route_match" where
  "router_match r path =
     (if not_absolute path then Inl (einval_path path)
      else if contains path ''//'' then Inl (einval_path path)
      else (case (if path = ''/'' then Inr (r_root r, empty_params)
                  else match_loop path 1 (r_root r) empty_params) of
              Inl c \<Rightarrow> Inl (posix c OpStat path None)
            | Inr (n, ps) \<Rightarrow>
                (if rn_mount n = None \<and> rn_static n = [] \<and> rn_param n = None
                 then Inl (posix ENOENT OpStat path None)
                 else Inr \<lparr>rm_mount = rn_mount n, rm_params = ps\<rparr>)))"

text \<open>node is the same scan without parameters; here it drops those match records.\<close>

definition router_node :: "router \<Rightarrow> string \<Rightarrow> go_error + mount_entry route_node" where
  "router_node r path =
     (if not_absolute path then Inl (einval_path path)
      else if contains path ''//'' then Inl (einval_path path)
      else if path = ''/'' then Inr (r_root r)
      else (case match_loop path 1 (r_root r) empty_params of
              Inl c \<Rightarrow> Inl (posix c OpStat path None)
            | Inr (n, ps) \<Rightarrow> Inr n))"

definition nodeKind :: "mount_entry route_node \<Rightarrow> node_kind" where
  "nodeKind n = (case rn_mount n of Some m \<Rightarrow> me_Kind m | None \<Rightarrow> KindDir)"

definition nodeMode :: "mount_entry route_node \<Rightarrow> u32" where
  "nodeMode n = (case rn_mount n of Some m \<Rightarrow> me_Mode m | None \<Rightarrow> mode_0555)"

definition node_entry :: "string \<Rightarrow> mount_entry route_node \<Rightarrow> dir_entry" where
  "node_entry name n = \<lparr>de_Name = name, de_Kind = nodeKind n, de_Mode = nodeMode n\<rparr>"

definition router_list :: "router \<Rightarrow> string \<Rightarrow> go_error + dir_entry list" where
  "router_list r path =
     (case router_node r path of
        Inl e \<Rightarrow> Inl e
      | Inr n \<Rightarrow>
          (if (case rn_mount n of
                 Some m \<Rightarrow> me_Kind m \<noteq> KindDir \<and> me_Kind m \<noteq> KindDynamicDir
               | None \<Rightarrow> False)
           then Inl (posix ENOTDIR OpReaddir path None)
           else Inr (map (\<lambda>name. node_entry name (the (map_of (rn_static n) name)))
                       (sort (map fst (rn_static n)))
                     @ (case rn_param n of
                          None \<Rightarrow> []
                        | Some (key, c) \<Rightarrow> [node_entry ('':'' @ key) c]))))"

definition router_snapshot :: "router \<Rightarrow> mount_entry list" where
  "router_snapshot r = node_mounts (r_root r)"

definition router_count :: "router \<Rightarrow> nat" where
  "router_count r = node_count (r_root r)"


section \<open>The byte scan is the walk over segments\<close>

lemma seg_end_props:
  "start \<le> length path \<Longrightarrow>
   seg_end path start \<le> length path \<and>
   CHR ''/'' \<notin> set (take (seg_end path start - start) (drop start path)) \<and>
   (seg_end path start < length path \<longrightarrow> path ! seg_end path start = CHR ''/'')"
proof (induction path start rule: seg_end.induct)
  case (1 path e)
  show ?case
  proof (cases "e < length path \<and> path ! e \<noteq> CHR ''/''")
    case True
    then have eq: "seg_end path e = seg_end path (Suc e)"
      by (simp add: seg_end.simps[of path e])
    have ge: "Suc e \<le> seg_end path (Suc e)" by (rule seg_end_ge)
    have "take (seg_end path (Suc e) - e) (drop e path) =
        path ! e # take (seg_end path (Suc e) - Suc e) (drop (Suc e) path)"
      using True ge by (simp add: Cons_nth_drop_Suc[symmetric] take_Cons' Suc_diff_Suc)
    with 1 True eq show ?thesis by auto
  next
    case False
    then have "seg_end path e = e" by (subst seg_end.simps) (simp only: if_False)
    with 1 False show ?thesis by auto
  qed
qed

lemma split_at_seg_end:
  assumes "start \<le> length path"
  shows "split_on (CHR ''/'') (drop start path) =
    take (seg_end path start - start) (drop start path) #
    (if seg_end path start = length path then []
     else split_on (CHR ''/'') (drop (Suc (seg_end path start)) path))"
proof -
  let ?e = "seg_end path start" and ?seg = "take (seg_end path start - start) (drop start path)"
  note p = seg_end_props[OF assms]
  show ?thesis
  proof (cases "?e = length path")
    case True
    then have "?seg = drop start path" by simp
    with p True show ?thesis by (metis split_on_no_sep)
  next
    case False
    with p have lt: "?e < length path" by simp
    have "drop start path = ?seg @ drop ?e path"
      using seg_end_ge[of start path] by (metis append_take_drop_id drop_drop le_add_diff_inverse2)
    also have "drop ?e path = CHR ''/'' # drop (Suc ?e) path"
      using lt p by (simp add: Cons_nth_drop_Suc[symmetric])
    finally have "split_on (CHR ''/'') (drop start path) =
        split_on (CHR ''/'') (?seg @ CHR ''/'' # drop (Suc ?e) path)" by simp
    with p False show ?thesis by (simp add: split_on_append)
  qed
qed

lemma match_loop_walk:
  "start \<le> length path \<Longrightarrow>
   match_loop path start n ps = walk (split_on (CHR ''/'') (drop start path)) n ps"
proof (induction path start n ps rule: match_loop.induct)
  case (1 path start n ps)
  let ?e = "seg_end path start" and ?seg = "take (seg_end path start - start) (drop start path)"
  note p = seg_end_props[OF "1.prems"] and ge = seg_end_ge[of start path]
  have empty: "?seg = [] \<longleftrightarrow> ?e = start" using p ge "1.prems" by auto
  show ?case
  proof (cases "bad_seg ?seg")
    case True
    then show ?thesis
      using "1.prems" empty
      by (auto simp: match_loop.simps[of path start] split_at_seg_end bad_seg_def Let_def)
  next
    case False
    then have ne: "?e \<noteq> start" and nd: "\<not> (?seg = ''.'' \<or> ?seg = ''..'')"
      using empty by (auto simp: bad_seg_def)
    show ?thesis
    proof (cases "nextRoute n ?seg")
      case None
      then show ?thesis
        using "1.prems" False ne nd
        by (simp add: match_loop.simps[of path start] split_at_seg_end Let_def)
    next
      case (Some nk)
      obtain n' key where nk: "nk = (n', key)" by (cases nk)
      have "?e \<noteq> length path \<Longrightarrow>
          match_loop path (?e + 1) n' (if key \<noteq> [] then ps_set key ?seg ps else ps) =
          walk (split_on (CHR ''/'') (drop (?e + 1) path)) n'
            (if key \<noteq> [] then ps_set key ?seg ps else ps)"
        using p "1.IH"[OF "1.prems" refl ne refl nd Some nk[symmetric] refl] by simp
      then show ?thesis
        using "1.prems" False ne nd Some nk
        by (simp add: match_loop.simps[of path start] split_at_seg_end Let_def)
    qed
  qed
qed

text \<open>Match, described by the walk over the segments of the path.\<close>

definition path_segs :: "string \<Rightarrow> string list" where
  "path_segs path = (if path = ''/'' then [] else split_on (CHR ''/'') (tl path))"

lemma absolute_cases: "\<not> not_absolute path \<longleftrightarrow> (\<exists>s. path = CHR ''/'' # s)"
  by (cases path) (auto simp: not_absolute_def)

lemma scan_eq_walk:
  assumes "\<not> not_absolute path"
  shows "(if path = ''/'' then Inr (n, ps) else match_loop path 1 n ps) = walk (path_segs path) n ps"
proof -
  obtain s where "path = CHR ''/'' # s" using assms absolute_cases by blast
  then show ?thesis by (simp add: path_segs_def match_loop_walk)
qed

lemma router_match_walk:
  "router_match r path =
     (if not_absolute path \<or> contains path ''//'' then Inl (einval_path path)
      else (case walk (path_segs path) (r_root r) empty_params of
              Inl c \<Rightarrow> Inl (posix c OpStat path None)
            | Inr (n, ps) \<Rightarrow>
                (if rn_mount n = None \<and> rn_static n = [] \<and> rn_param n = None
                 then Inl (posix ENOENT OpStat path None)
                 else Inr \<lparr>rm_mount = rn_mount n, rm_params = ps\<rparr>)))"
  unfolding router_match_def by (auto simp: scan_eq_walk)

lemma router_node_walk:
  "router_node r path =
     (if not_absolute path \<or> contains path ''//'' then Inl (einval_path path)
      else (case walk (path_segs path) (r_root r) empty_params of
              Inl c \<Rightarrow> Inl (posix c OpStat path None)
            | Inr (n, ps) \<Rightarrow> Inr n))"
proof (cases "path = ''/''")
  case True
  then show ?thesis by (auto simp: router_node_def path_segs_def not_absolute_def has_prefix_def)
next
  case False
  then show ?thesis
    unfolding router_node_def using scan_eq_walk[of path "r_root r" empty_params] by auto
qed


section \<open>Canonical paths\<close>

text \<open>
  \<open>path_of parts\<close> is the canonical path with these segments; cleanParts and the scan of
  match cut it into the same segments.
\<close>

definition path_of :: "string list \<Rightarrow> string" where
  "path_of parts = CHR ''/'' # join_with (CHR ''/'') parts"

definition good_parts :: "string list \<Rightarrow> bool" where
  "good_parts parts \<longleftrightarrow> (\<forall>s\<in>set parts. \<not> bad_seg s \<and> CHR ''/'' \<notin> set s)"

lemma good_parts_Cons [simp]:
  "good_parts (s # parts) \<longleftrightarrow> \<not> bad_seg s \<and> CHR ''/'' \<notin> set s \<and> good_parts parts"
  by (auto simp: good_parts_def)

lemma good_parts_Nil [simp]: "good_parts []"
  by (simp add: good_parts_def)

lemma path_of_Nil [simp]: "path_of [] = ''/''"
  by (simp add: path_of_def)

lemma absolute_path_of [simp]: "\<not> not_absolute (path_of parts)"
  by (simp add: not_absolute_def path_of_def)

lemma join_good_last:
  "good_parts parts \<Longrightarrow> parts \<noteq> [] \<Longrightarrow>
   join_with (CHR ''/'') parts \<noteq> [] \<and> last (join_with (CHR ''/'') parts) \<noteq> CHR ''/''"
proof (induction parts)
  case (Cons s parts)
  then have "s \<noteq> []" by (auto simp: bad_seg_def)
  moreover from this have "last s \<noteq> CHR ''/''"
    using Cons.prems(1) by (metis good_parts_Cons last_in_set)
  ultimately have "s \<noteq> []" "last s \<noteq> CHR ''/''" .
  with Cons show ?case by (cases parts) (auto simp: neq_Nil_conv)
qed simp

lemma join_good_hd:
  "good_parts parts \<Longrightarrow> parts \<noteq> [] \<Longrightarrow> \<exists>x xs. join_with c parts = x # xs \<and> x \<noteq> CHR ''/''"
proof (cases parts)
  case (Cons s ps)
  assume "good_parts parts"
  then obtain x xs where "s = x # xs" "x \<noteq> CHR ''/''"
    using Cons by (cases s) (auto simp: bad_seg_def)
  then show ?thesis using Cons by (cases ps) auto
qed simp

lemma path_of_eq_root: "good_parts parts \<Longrightarrow> path_of parts = ''/'' \<longleftrightarrow> parts = []"
  using join_good_hd[of parts "CHR ''/''"] by (cases parts) (auto simp: path_of_def)

lemma path_segs_path_of [simp]: "good_parts parts \<Longrightarrow> path_segs (path_of parts) = parts"
proof (cases "parts = []")
  case True
  then show ?thesis by (simp add: path_segs_def)
next
  case False
  assume g: "good_parts parts"
  with False have "split_on (CHR ''/'') (join_with (CHR ''/'') parts) = parts"
    by (intro split_join) (auto simp: good_parts_def)
  with g False show ?thesis by (simp add: path_segs_def path_of_eq_root) (simp add: path_of_def)
qed

lemma no_double_slash_join:
  "good_parts parts \<Longrightarrow> \<not> contains (CHR ''/'' # join_with (CHR ''/'') parts) ''//''"
proof (induction parts)
  case Nil
  show ?case by (simp add: has_prefix_def)
next
  case (Cons s parts)
  have seg: "\<not> contains (t @ rest) ''//''"
    if "CHR ''/'' \<notin> set t" "\<not> contains rest ''//''" for t rest
    using that by (induction t) (auto simp: has_prefix_def)
  obtain x xs where s: "s = x # xs" "x \<noteq> CHR ''/''"
    using Cons.prems by (cases s) (auto simp: bad_seg_def)
  have "\<not> contains (join_with (CHR ''/'') (s # parts)) ''//''"
  proof (cases parts)
    case Nil
    then show ?thesis using Cons.prems seg[of s "[]"] by simp
  next
    case (Cons t ts)
    then show ?thesis using Cons.prems Cons.IH seg[of s] by simp
  qed
  moreover have "\<exists>ys. join_with (CHR ''/'') (s # parts) = x # ys"
    using s by (cases parts) auto
  ultimately show ?case using s(2) by (auto simp: has_prefix_def)
qed

lemma path_of_no_double_slash [simp]: "good_parts parts \<Longrightarrow> \<not> contains (path_of parts) ''//''"
  unfolding path_of_def by (rule no_double_slash_join)

lemma dropWhile_hd: "xs = x # ys \<Longrightarrow> \<not> P x \<Longrightarrow> dropWhile P xs = xs"
  by simp

lemma trim_path_of:
  "good_parts parts \<Longrightarrow> trim_char (CHR ''/'') (path_of parts) = join_with (CHR ''/'') parts"
proof (cases "parts = []")
  case True
  then show ?thesis by (simp add: trim_char_def)
next
  case False
  assume g: "good_parts parts"
  let ?j = "join_with (CHR ''/'') parts"
  obtain x xs where "?j = x # xs" "x \<noteq> CHR ''/''" using join_good_hd[OF g False] by blast
  then have 1: "dropWhile (\<lambda>x. x = CHR ''/'') (path_of parts) = ?j"
    by (simp add: path_of_def)
  have "?j \<noteq> []" "last ?j \<noteq> CHR ''/''" using join_good_last[OF g False] by auto
  then have "rev ?j = last ?j # tl (rev ?j)" by (simp add: hd_rev[symmetric])
  then have "dropWhile (\<lambda>x. x = CHR ''/'') (rev ?j) = rev ?j"
    using \<open>last ?j \<noteq> CHR ''/''\<close> by (rule dropWhile_hd)
  with 1 show ?thesis by (simp add: trim_char_def)
qed

lemma cleanParts_path_of [simp]: "good_parts parts \<Longrightarrow> cleanParts (path_of parts) = Inr parts"
proof (cases "parts = []")
  case True
  then show ?thesis by (simp add: cleanParts_def not_absolute_def)
next
  case False
  assume g: "good_parts parts"
  have "split_on (CHR ''/'') (join_with (CHR ''/'') parts) = parts"
    using g False by (intro split_join) (auto simp: good_parts_def)
  moreover have "\<not> list_ex bad_seg parts" using g by (auto simp: good_parts_def list_ex_iff)
  ultimately show ?thesis
    using g False by (simp add: cleanParts_def path_of_eq_root trim_path_of Let_def)
qed

lemma cleanParts_good: "cleanParts path = Inr parts \<Longrightarrow> good_parts parts"
  unfolding cleanParts_def good_parts_def
  by (auto simp: list_ex_iff Let_def split_on_seg_no_sep split: if_splits)

lemma good_parts_no_Nil: "good_parts parts \<Longrightarrow> [] \<notin> set parts"
  by (auto simp: good_parts_def bad_seg_def)


section \<open>The invariant of the router\<close>

text \<open>
  Every mount is stored at the place its own Path names, under the parameter names the path
  gives, and the trie is well formed with at most eight parameters on a branch.
\<close>

definition router_ok :: "router \<Rightarrow> bool" where
  "router_ok r \<longleftrightarrow>
     node_ok inlineParams (r_root r) \<and>
     (\<forall>ps m. look ps (r_root r) = Some m \<longrightarrow>
        (\<exists>pat. cleanParts (me_Path m) = Inr pat \<and> same_pat pat ps \<and> names_in pat (r_root r)))"

lemma router_ok_new: "router_ok newRouter"
  by (simp add: router_ok_def newRouter_def)

lemma router_add_cases:
  assumes "router_add r m = (r', res)"
  obtains (path) e where "cleanParts (me_Path m) = Inl e" "r' = r" "res = Inl e"
  | (fail) parts n' c where "cleanParts (me_Path m) = Inr parts"
      "node_add 0 parts (m\<lparr>me_ID := r_seq r + 1\<rparr>) (r_root r) = (n', Some c)"
      "r' = r\<lparr>r_root := n'\<rparr>" "res = Inl (posix c OpStat (me_Path m) None)"
  | (ok) parts n' where "cleanParts (me_Path m) = Inr parts"
      "node_add 0 parts (m\<lparr>me_ID := r_seq r + 1\<rparr>) (r_root r) = (n', None)"
      "r' = r\<lparr>r_root := n', r_seq := r_seq r + 1\<rparr>" "res = Inr (m\<lparr>me_ID := r_seq r + 1\<rparr>)"
  using assms by (auto simp: router_add_def Let_def split: sum.splits prod.splits option.splits)

lemma router_remove_cases:
  assumes "router_remove r path = (r', res)"
  obtains (path) e where "cleanParts path = Inl e" "r' = r" "res = Inl e"
  | (absent) parts where "cleanParts path = Inr parts" "look parts (r_root r) = None"
      "r' = r" "res = Inl (posix ENOENT OpStat path None)"
  | (ok) parts n' m where "cleanParts path = Inr parts" "look parts (r_root r) = Some m"
      "node_remove parts (r_root r) = (n', Some m)" "r' = r\<lparr>r_root := n'\<rparr>" "res = Inr m"
proof (cases "cleanParts path")
  case (Inl e)
  then show ?thesis using assms by (intro path[of e]) (auto simp: router_remove_def)
next
  case (Inr parts)
  obtain n' x where nr: "node_remove parts (r_root r) = (n', x)"
    by (cases "node_remove parts (r_root r)")
  then have x: "x = look parts (r_root r)" using look_remove[OF nr] by simp
  show ?thesis
  proof (cases x)
    case None
    with assms Inr nr x show ?thesis by (intro absent[of parts]) (auto simp: router_remove_def)
  next
    case (Some m)
    from Some x have l: "look parts (r_root r) = Some m" by simp
    from Some nr have "node_remove parts (r_root r) = (n', Some m)" by simp
    with assms Inr l show ?thesis
      by (intro ok[of parts m n']) (auto simp: router_remove_def)
  qed
qed

text \<open>One step of the router keeps the invariant when it keeps the trie well formed and the
  names in it, and each mount afterwards was there before or sits at its own path.\<close>

lemma router_ok_step:
  assumes ok: "router_ok r" and root: "r_root r' = n'" and nok: "node_ok inlineParams n'"
    and names: "\<And>qs. names_in qs (r_root r) \<Longrightarrow> names_in qs n'"
    and new: "\<And>qs m. look qs n' = Some m \<Longrightarrow> look qs (r_root r) = Some m \<or>
      (\<exists>pat. cleanParts (me_Path m) = Inr pat \<and> same_pat pat qs \<and> names_in pat n')"
  shows "router_ok r'"
  unfolding router_ok_def root
proof (intro conjI allI impI)
  show "node_ok inlineParams n'" by (rule nok)
  fix ps m
  assume "look ps n' = Some m"
  from new[OF this] show "\<exists>pat. cleanParts (me_Path m) = Inr pat \<and> same_pat pat ps \<and> names_in pat n'"
  proof
    assume "look ps (r_root r) = Some m"
    with ok obtain pat where "cleanParts (me_Path m) = Inr pat" "same_pat pat ps"
      "names_in pat (r_root r)" unfolding router_ok_def by blast
    with names show ?thesis by blast
  qed
qed

lemma router_add_node_ok:
  "router_ok r \<Longrightarrow> cleanParts path = Inr parts \<Longrightarrow>
   node_ok inlineParams (fst (node_add 0 parts x (r_root r)))"
  using node_ok_add[of 0 "r_root r" parts x] cleanParts_good good_parts_no_Nil
  by (fastforce simp: router_ok_def)

lemma router_add_ok: "router_ok r \<Longrightarrow> router_ok (fst (router_add r m))"
proof -
  assume ok: "router_ok r"
  let ?x = "m\<lparr>me_ID := r_seq r + 1\<rparr>"
  obtain r' res where ra: "router_add r m = (r', res)" by fastforce
  from ra have "router_ok r'"
  proof (cases rule: router_add_cases)
    case (path e)
    then show ?thesis using ok by simp
  next
    case (fail parts n' c)
    show ?thesis
      by (rule router_ok_step[OF ok, of _ n'])
         (use router_add_node_ok[OF ok fail(1), of ?x] names_in_add[of _ "r_root r" 0 parts ?x]
           look_add_fail[OF fail(2)] fail in simp_all)
  next
    case (ok parts n')
    have path': "cleanParts (me_Path ?x) = Inr parts" using ok(1) by simp
    have "look qs (r_root r) = Some m' \<or>
        (\<exists>pat. cleanParts (me_Path m') = Inr pat \<and> same_pat pat qs \<and> names_in pat n')"
      if "look qs n' = Some m'" for qs m'
    proof (cases "same_pat parts qs")
      case True
      then have "m' = ?x" using that look_add_ok[OF ok(2), of qs] by simp
      then show ?thesis using True path' names_in_add_ok[OF ok(2)] by blast
    next
      case False
      then show ?thesis using that look_add_ok[OF ok(2), of qs] by simp
    qed
    then show ?thesis
      by (intro router_ok_step[OF \<open>router_ok r\<close>, of _ n'])
         (use router_add_node_ok[OF \<open>router_ok r\<close> ok(1), of ?x]
           names_in_add[of _ "r_root r" 0 parts ?x] ok in simp_all)
  qed
  then show ?thesis by (simp add: ra)
qed

lemma router_remove_ok: "router_ok r \<Longrightarrow> router_ok (fst (router_remove r path))"
proof -
  assume ok: "router_ok r"
  obtain r' res where rr: "router_remove r path = (r', res)" by fastforce
  from rr have "router_ok r'"
  proof (cases rule: router_remove_cases)
    case (ok parts n' m)
    have "look qs (r_root r) = Some m'" if "look qs n' = Some m'" for qs m'
      using that look_remove[OF ok(3), of qs] by (simp split: if_splits)
    then show ?thesis
      by (intro router_ok_step[OF \<open>router_ok r\<close>, of _ n'])
         (use node_ok_remove[of inlineParams "r_root r" parts] \<open>router_ok r\<close>
           names_in_remove[of _ "r_root r" parts] ok in \<open>simp_all add: router_ok_def\<close>)
  qed (use ok in simp_all)
  then show ?thesis by (simp add: rr)
qed


section \<open>Properties\<close>

text \<open>
  C1: the byte-by-byte scan of match is the walk over the path cut at its slashes: every
  path is rejected with EINVAL when it is not absolute or has an empty segment pair, and
  otherwise each segment takes the static child before the parameter child.
\<close>

theorem router_match_scan:
  "router_match r path =
     (if not_absolute path \<or> contains path ''//'' then Inl (einval_path path)
      else (case walk (path_segs path) (r_root r) empty_params of
              Inl c \<Rightarrow> Inl (posix c OpStat path None)
            | Inr (n, ps) \<Rightarrow>
                (if rn_mount n = None \<and> rn_static n = [] \<and> rn_param n = None
                 then Inl (posix ENOENT OpStat path None)
                 else Inr \<lparr>rm_mount = rn_mount n, rm_params = ps\<rparr>)))"
  by (rule router_match_walk)

text \<open>A matched mount: the pattern of its own path fits, and the bindings are complete.\<close>

lemma match_sound_aux:
  assumes "router_ok r" and "router_match r path = Inr rm" and "rm_mount rm = Some m"
  shows "\<exists>pat. cleanParts (me_Path m) = Inr pat \<and> fits pat (path_segs path) \<and>
    ps_Each (rm_params rm) = bindings pat (path_segs path)"
proof -
  from assms(2,3) obtain n where w: "walk (path_segs path) (r_root r) empty_params = Inr (n, rm_params rm)"
    and n: "rn_mount n = Some m"
    by (auto simp: router_match_walk split: if_splits sum.splits)
  have nok: "node_ok inlineParams (r_root r)" using assms(1) by (simp add: router_ok_def)
  have "inlineParams + ps_count empty_params \<le> inlineParams" by (simp add: empty_params_def)
  from walk_sound[OF w nok params_ok_empty this] obtain pat where
    pat: "fits pat (path_segs path)" "\<forall>qs. look (pat @ qs) (r_root r) = look qs n"
      "ps_Each (rm_params rm) = bindings pat (path_segs path)" "names_in pat (r_root r)" by auto
  from pat(2) n have "look pat (r_root r) = Some m"
    by (metis append_Nil2 rn_mount_look)
  then obtain pat' where pat': "cleanParts (me_Path m) = Inr pat'" "same_pat pat' pat"
    "names_in pat' (r_root r)" using assms(1) unfolding router_ok_def by blast
  have "pat' = pat" by (rule names_in_unique[OF pat'(3) pat(4) pat'(2)])
  with pat pat' show ?thesis by blast
qed

text \<open>
  In a router built by its own operations, a path matches a mount only if the pattern
  of that mount's own Path fits the path segment by segment; the captured parameters are
  exactly the pattern's parameters bound to the path's segments (none of them dropped by
  the eight-slot set), and putting them back into the pattern gives the path again.
\<close>

theorem router_match_sound:
  assumes "router_ok r" and "router_match r path = Inr rm" and "rm_mount rm = Some m"
  shows "\<exists>pat. cleanParts (me_Path m) = Inr pat \<and> fits pat (path_segs path) \<and>
    ps_Each (rm_params rm) = bindings pat (path_segs path) \<and>
    plug pat (ps_Each (rm_params rm)) = path_segs path"
  using match_sound_aux[OF assms] plug_bindings by metis

definition demo_entry :: "string \<Rightarrow> node_kind \<Rightarrow> mount_entry" where
  "demo_entry path k = zero_entry\<lparr>me_Path := path, me_Kind := k, me_Mode := mode_0444\<rparr>"

definition demo_router :: router where
  "demo_router = fst (router_add newRouter (demo_entry ''/items/:id'' KindBlob))"

lemmas demo_eval = demo_router_def demo_entry_def router_add_def newRouter_def cleanParts_def
  not_absolute_def trim_char_def Let_def bad_seg_def empty_node_def child_or_new_def
  inlineParams_def has_prefix_def zero_entry_def

lemma demo_router_eval: "router_match demo_router ''/items/42'' =
  Inr \<lparr>rm_mount = Some (demo_entry ''/items/:id'' KindBlob\<lparr>me_ID := 1\<rparr>),
       rm_params = ps_set ''id'' ''42'' empty_params\<rparr>"
  by (simp add: router_match_walk path_segs_def demo_eval)

lemma router_match_sound_witness:
  "\<exists>pat. cleanParts ''/items/:id'' = Inr pat \<and> fits pat [''items'', ''42''] \<and>
     plug pat [(''id'', ''42'')] = [''items'', ''42'']"
proof -
  have ok: "router_ok demo_router"
    unfolding demo_router_def by (rule router_add_ok[OF router_ok_new])
  have e: "ps_Each (ps_set ''id'' ''42'' empty_params) = [(''id'', ''42'')]"
    by (simp add: Each_set inlineParams_def)
  show ?thesis
    using router_match_sound[OF ok demo_router_eval] e
    by (auto simp: demo_entry_def zero_entry_def path_segs_def)
qed

text \<open>
  A mount whose path has no parameter is found at its own path with no captures, right
  after it was added, whatever parameter routes the router holds beside it.
\<close>

theorem router_static_wins:
  assumes "router_add r m = (r', Inr m')" and "me_Path m = path_of parts"
    and "good_parts parts" and "list_all (\<lambda>s. \<not> is_param s) parts"
  shows "router_match r' (me_Path m) = Inr \<lparr>rm_mount = Some m', rm_params = empty_params\<rparr>"
proof -
  from assms(1) show ?thesis
  proof (cases rule: router_add_cases)
    case (ok parts' n')
    have parts': "parts' = parts" using ok(1) assms(2,3) by simp
    have "look parts n' = Some m'" using look_add_ok[OF ok(2), of parts] ok(4) parts' by simp
    then obtain n where "walk parts n' empty_params = Inr (n, empty_params)" "rn_mount n = Some m'"
      using walk_static[of parts n' m' empty_params] assms(3,4)
      by (auto simp: good_parts_def list_all_iff)
    with ok(3) assms(2,3) show ?thesis by (simp add: router_match_walk)
  qed simp_all
qed

lemma router_static_wins_witness:
  "router_match (fst (router_add demo_router (demo_entry ''/items/all'' KindDir))) ''/items/all'' =
   Inr \<lparr>rm_mount = Some (demo_entry ''/items/all'' KindDir\<lparr>me_ID := 2\<rparr>), rm_params = empty_params\<rparr>"
proof -
  let ?m = "demo_entry ''/items/all'' KindDir"
  have a: "router_add demo_router ?m = (fst (router_add demo_router ?m), Inr (?m\<lparr>me_ID := 2\<rparr>))"
    by (simp add: demo_eval)
  have p: "me_Path ?m = path_of [''items'', ''all'']" and g: "good_parts [''items'', ''all'']"
    and s: "list_all (\<lambda>s. \<not> is_param s) [''items'', ''all'']"
    by (simp_all add: demo_entry_def zero_entry_def path_of_def bad_seg_def has_prefix_def)
  show ?thesis using router_static_wins[OF a p g s] by (simp add: demo_entry_def zero_entry_def)
qed

text \<open>
  Add succeeds exactly on a clean path of at most eight named parameters whose names
  agree with those already in the trie and whose place holds no mount. Otherwise the error
  is EINVAL or EEXIST on that path, and the mounts are what they were, even though new
  nodes may stay behind.
\<close>

theorem router_add_outcome:
  "(case router_add r m of
      (r', Inr m') \<Rightarrow>
        (\<exists>parts. cleanParts (me_Path m) = Inr parts \<and> pat_ok 0 parts \<and>
           keys_fit parts (r_root r) \<and> look parts (r_root r) = None \<and>
           (\<forall>qs. look qs (r_root r') = (if same_pat parts qs then Some m' else look qs (r_root r))))
    | (r', Inl e) \<Rightarrow>
        (\<exists>c\<in>{EINVAL, EEXIST}. e = posix c OpStat (me_Path m) None) \<and>
        (\<nexists>parts. cleanParts (me_Path m) = Inr parts \<and> pat_ok 0 parts \<and>
           keys_fit parts (r_root r) \<and> look parts (r_root r) = None) \<and>
        (\<forall>qs. look qs (r_root r') = look qs (r_root r)))"
proof -
  obtain r' res where ra: "router_add r m = (r', res)" by fastforce
  from ra show ?thesis
  proof (cases rule: router_add_cases)
    case (path e)
    then have "e = posix EINVAL OpStat (me_Path m) None"
      by (auto simp: cleanParts_def einval_path_def Let_def split: if_splits)
    with path ra show ?thesis by simp
  next
    case (fail parts n' c)
    then have "c \<in> {EINVAL, EEXIST}"
      using add_error_codes[of 0 parts "m\<lparr>me_ID := r_seq r + 1\<rparr>" "r_root r"] by auto
    moreover have "\<not> (pat_ok 0 parts \<and> keys_fit parts (r_root r) \<and> look parts (r_root r) = None)"
      using fail(2) add_ok_iff[of 0 parts "m\<lparr>me_ID := r_seq r + 1\<rparr>" "r_root r"] by simp
    ultimately show ?thesis using fail ra look_add_fail[OF fail(2)] by auto
  next
    case (ok parts n')
    have "pat_ok 0 parts \<and> keys_fit parts (r_root r) \<and> look parts (r_root r) = None"
      using ok(2) add_ok_iff[of 0 parts "m\<lparr>me_ID := r_seq r + 1\<rparr>" "r_root r"] by simp
    then show ?thesis using ok ra look_add_ok[OF ok(2)] by simp
  qed
qed

text \<open>
  C2: remove undoes add. The entry that comes back is the one add stored, with its
  identifier, and the router then holds the same mounts as before the add.
\<close>

theorem router_add_remove:
  assumes "router_ok r" and "router_add r m = (r', Inr m')"
  shows "m' = m\<lparr>me_ID := r_seq r + 1\<rparr> \<and>
    mset (router_snapshot r') = add_mset m' (mset (router_snapshot r)) \<and>
    snd (router_remove r' (me_Path m)) = Inr m' \<and>
    mset (router_snapshot (fst (router_remove r' (me_Path m)))) = mset (router_snapshot r) \<and>
    router_count (fst (router_remove r' (me_Path m))) = router_count r"
proof -
  have ok': "router_ok r'" using router_add_ok[OF assms(1), of m] assms(2) by simp
  from assms(2) obtain parts n' where c: "cleanParts (me_Path m) = Inr parts"
    and a: "node_add 0 parts m' (r_root r) = (n', None)" and r': "r_root r' = n'"
    and m': "m' = m\<lparr>me_ID := r_seq r + 1\<rparr>"
    by (cases rule: router_add_cases) auto
  have added: "mset (node_mounts n') = add_mset m' (mset (node_mounts (r_root r)))"
    using node_mounts_add[of inlineParams "r_root r" 0 parts m'] a assms(1)
    by (simp add: router_ok_def)
  obtain n2 x where nr: "node_remove parts n' = (n2, x)" by (cases "node_remove parts n'")
  have x: "x = Some m'" using trie.insert_then_delete[OF a nr] by simp
  have "look parts n' = Some m'" using trie.insert_then_lookup[OF a] .
  then have "mset (node_mounts n') = add_mset m' (mset (node_mounts n2))"
    using node_mounts_remove[of inlineParams n' parts] nr ok' r' by (simp add: router_ok_def)
  with added have m2: "mset (node_mounts n2) = mset (node_mounts (r_root r))" by simp
  have rem: "router_remove r' (me_Path m) = (r'\<lparr>r_root := n2\<rparr>, Inr m')"
    using c nr x r' by (simp add: router_remove_def)
  have "length (node_mounts n2) = length (node_mounts (r_root r))"
    using m2 by (metis size_mset)
  with added m2 rem r' m' show ?thesis
    by (simp add: router_snapshot_def router_count_def node_count_mounts)
qed

lemma router_add_remove_witness:
  "snd (router_remove (fst (router_add newRouter (demo_entry ''/a/:b'' KindDir))) ''/a/:b'') =
   Inr (demo_entry ''/a/:b'' KindDir\<lparr>me_ID := 1\<rparr>)"
proof -
  have a: "router_add newRouter (demo_entry ''/a/:b'' KindDir) =
      (fst (router_add newRouter (demo_entry ''/a/:b'' KindDir)),
       Inr (demo_entry ''/a/:b'' KindDir\<lparr>me_ID := 1\<rparr>))"
    by (simp add: demo_eval)
  show ?thesis using router_add_remove[OF router_ok_new a] by (simp add: demo_entry_def zero_entry_def)
qed

text \<open>
  Remove takes no name out of any listing. A directory that could be listed before still
  can, with the same names in the same order, the removed path's own name included (its kind
  is then that of a plain directory).
\<close>

theorem router_remove_keeps_listing:
  assumes "router_list r path = Inr es"
  shows "\<exists>es'. router_list (fst (router_remove r q)) path = Inr es' \<and>
    map de_Name es' = map de_Name es"
proof -
  obtain r' res where rr: "router_remove r q = (r', res)" by fastforce
  from rr show ?thesis
  proof (cases rule: router_remove_cases)
    case (ok parts n' m)
    from assms obtain n ps where w: "walk (path_segs path) (r_root r) empty_params = Inr (n, ps)"
      and good: "\<not> (not_absolute path \<or> contains path ''//'')"
      and es: "map de_Name es = sort (map fst (rn_static n)) @
          (case rn_param n of None \<Rightarrow> [] | Some (key, c) \<Rightarrow> ['':'' @ key])"
      and dir: "\<forall>x. rn_mount n = Some x \<longrightarrow> me_Kind x = KindDir \<or> me_Kind x = KindDynamicDir"
      by (auto simp: router_list_def router_node_walk node_entry_def comp_def
          split: sum.splits if_splits option.splits prod.splits)
    obtain n2 where n2: "walk (path_segs path) n' empty_params = Inr (n2, ps)"
      "map fst (rn_static n2) = map fst (rn_static n)"
      "map_option fst (rn_param n2) = map_option fst (rn_param n)"
      "rn_mount n2 = None \<or> rn_mount n2 = rn_mount n"
      using walk_remove[OF w, of parts] ok(3) by auto
    have keep: "\<not> (case rn_mount n2 of
                 Some m \<Rightarrow> me_Kind m \<noteq> KindDir \<and> me_Kind m \<noteq> KindDynamicDir
               | None \<Rightarrow> False)" using n2(4) dir by (auto split: option.splits)
    have "router_list r' path = Inr (map (\<lambda>name. node_entry name (the (map_of (rn_static n2) name)))
          (sort (map fst (rn_static n2)))
        @ (case rn_param n2 of None \<Rightarrow> [] | Some (key, c) \<Rightarrow> [node_entry ('':'' @ key) c]))"
      using good n2(1) keep ok(4) by (simp add: router_list_def router_node_walk)
    then show ?thesis
      using es n2(2,3) rr
      by (cases "rn_param n"; cases "rn_param n2") (auto simp: node_entry_def comp_def)
  qed (use assms rr in auto)
qed

lemma router_remove_keeps_listing_witness:
  "\<exists>es'. router_list (fst (router_remove demo_router ''/items/:id'')) ''/'' = Inr es' \<and>
     map de_Name es' = [''items'']"
proof -
  have "router_list demo_router ''/'' = Inr [\<lparr>de_Name = ''items'', de_Kind = KindDir, de_Mode = mode_0555\<rparr>]"
    by (simp add: router_list_def router_node_walk path_segs_def demo_eval node_entry_def
        nodeKind_def nodeMode_def)
  from router_remove_keeps_listing[OF this, of "''/items/:id''"] show ?thesis by simp
qed

text \<open>
  A path that was mounted and then removed never matches a mount again, not even one of
  a parameter route beside it that would have matched before the mount: the node that add
  made stays and the static child is taken first.
\<close>

theorem router_remove_shadows:
  assumes "router_add r m = (r', Inr m')" and "me_Path m = path_of parts"
    and "good_parts parts" and "list_all (\<lambda>s. \<not> is_param s) parts"
  shows "case router_match (fst (router_remove r' (me_Path m))) (me_Path m) of
      Inl e \<Rightarrow> e = posix ENOENT OpStat (me_Path m) None
    | Inr rm \<Rightarrow> rm_mount rm = None \<and> rm_params rm = empty_params"
proof -
  have c: "cleanParts (me_Path m) = Inr parts" using assms(2,3) by simp
  from assms(1) c obtain n' where a: "node_add 0 parts m' (r_root r) = (n', None)" and r': "r_root r' = n'"
    by (cases rule: router_add_cases) auto
  have l: "look parts n' = Some m'" using trie.insert_then_lookup[OF a] .
  obtain n2 where nr: "node_remove parts n' = (n2, Some m')"
    using l look_remove by (metis prod.collapse)
  from walk_removed_static[OF l, of empty_params] nr assms(3,4)
  obtain n3 where "walk parts n2 empty_params = Inr (n3, empty_params)" "rn_mount n3 = None"
    by (auto simp: good_parts_def list_all_iff)
  then show ?thesis
    using assms(2,3) nr r' by (simp add: router_match_walk router_remove_def)
qed

text \<open>Before the add \<open>/items/all\<close> matches \<open>/items/:id\<close>; after the remove it matches nothing.\<close>

lemma router_remove_shadows_witness:
  "map_sum id rm_mount (router_match demo_router ''/items/all'') =
     Inr (Some (demo_entry ''/items/:id'' KindBlob\<lparr>me_ID := 1\<rparr>)) \<and>
   (case router_match (fst (router_remove
        (fst (router_add demo_router (demo_entry ''/items/all'' KindDir))) ''/items/all''))
        ''/items/all'' of
      Inl e \<Rightarrow> e = posix ENOENT OpStat ''/items/all'' None
    | Inr rm \<Rightarrow> rm_mount rm = None \<and> rm_params rm = empty_params)"
proof -
  let ?m = "demo_entry ''/items/all'' KindDir"
  have a: "router_add demo_router ?m = (fst (router_add demo_router ?m), Inr (?m\<lparr>me_ID := 2\<rparr>))"
    by (simp add: demo_eval)
  have p: "me_Path ?m = path_of [''items'', ''all'']" and g: "good_parts [''items'', ''all'']"
    and s: "list_all (\<lambda>s. \<not> is_param s) [''items'', ''all'']"
    by (simp_all add: demo_entry_def zero_entry_def path_of_def bad_seg_def has_prefix_def)
  have mp: "me_Path ?m = ''/items/all''" by (simp add: demo_entry_def zero_entry_def)
  have before: "map_sum id rm_mount (router_match demo_router ''/items/all'') =
      Inr (Some (demo_entry ''/items/:id'' KindBlob\<lparr>me_ID := 1\<rparr>))"
    by (simp add: router_match_walk path_segs_def demo_eval)
  show ?thesis
    using before router_remove_shadows[OF a p g s] unfolding mp by blast
qed

text \<open>Runs of the router from its empty state.\<close>

datatype router_op = RAdd mount_entry | RRemove string

fun router_step :: "router_op \<Rightarrow> router \<Rightarrow> router" where
  "router_step (RAdd m) r = fst (router_add r m)"
| "router_step (RRemove path) r = fst (router_remove r path)"

lemma router_ok_fold: "router_ok r \<Longrightarrow> router_ok (fold router_step ops r)"
proof (induction ops arbitrary: r)
  case (Cons a ops)
  then show ?case by (cases a) (auto simp: router_add_ok router_remove_ok)
qed simp

text \<open>
  C3: after any sequence of adds and removes the snapshot lists exactly the mounts that sit
  at the place their own path names, its length is the count, and every branch of the trie
  has at most eight parameters, so that a match never overflows its parameter set.
\<close>

theorem router_reachable:
  "router_ok (fold router_step ops newRouter) \<and>
   node_ok inlineParams (r_root (fold router_step ops newRouter)) \<and>
   router_count (fold router_step ops newRouter) =
     length (router_snapshot (fold router_step ops newRouter)) \<and>
   (m \<in> set (router_snapshot (fold router_step ops newRouter)) \<longleftrightarrow>
      (\<exists>pat. cleanParts (me_Path m) = Inr pat \<and>
         look pat (r_root (fold router_step ops newRouter)) = Some m))"
proof -
  let ?r = "fold router_step ops newRouter"
  have ok: "router_ok ?r" by (rule router_ok_fold[OF router_ok_new])
  then have nok: "node_ok inlineParams (r_root ?r)" by (simp add: router_ok_def)
  have "m \<in> set (node_mounts (r_root ?r)) \<longleftrightarrow> (\<exists>ps. look ps (r_root ?r) = Some m)"
    by (rule node_mounts_look[OF nok])
  also have "\<dots> \<longleftrightarrow> (\<exists>pat. cleanParts (me_Path m) = Inr pat \<and> look pat (r_root ?r) = Some m)"
    using ok look_same unfolding router_ok_def by metis
  finally show ?thesis
    using ok nok by (simp add: router_snapshot_def router_count_def node_count_mounts)
qed

end
