(* ===== verification/Skills.thy ===== *)
theory Skills
  imports Types
begin

text \<open>
  core/skill.go: the generator that keeps the SKILL.md and AGENTS.md texts of skills in
  memory. The template language of the package text/template is not modelled: executing a
  template on a configuration is the argument \<open>render\<close>, about which nothing is assumed.
\<close>

section \<open>Operations\<close>

definition name_char :: "char \<Rightarrow> bool" where
  "name_char c \<longleftrightarrow> (CHR ''a'' \<le> c \<and> c \<le> CHR ''z'') \<or> (CHR ''0'' \<le> c \<and> c \<le> CHR ''9'')"

text \<open>The regular expression \<open>^[a-z0-9][a-z0-9-]*$\<close>.\<close>

definition skillNameRE :: "string \<Rightarrow> bool" where
  "skillNameRE s \<longleftrightarrow>
     (case s of [] \<Rightarrow> False | c # cs \<Rightarrow> name_char c \<and> list_all (\<lambda>d. name_char d \<or> d = CHR ''-'') cs)"

record skill_state =
  ss_cfg :: skill_config
  ss_skillBody :: bytes
  ss_agentsBody :: bytes

type_synonym skill_gen = "(string \<times> skill_state) list"

definition NewSkillGenerator :: "string \<Rightarrow> skill_gen" where
  "NewSkillGenerator root = []"

definition validateSkillConfig :: "skill_config \<Rightarrow> go_error option" where
  "validateSkillConfig cfg =
     (if \<not> sk_Enabled cfg then None
      else if \<not> skillNameRE (sk_Name cfg) then Some (posix EINVAL OpWrite (sk_Name cfg) None)
      else if length (sk_Description cfg) < 1 \<or> 1024 < length (sk_Description cfg)
        then Some (posix EINVAL OpWrite (sk_Name cfg) None)
      else if 500 < length (sk_Compatibility cfg) then Some (posix EINVAL OpWrite (sk_Name cfg) None)
      else None)"

fun join_more :: "string \<Rightarrow> string list \<Rightarrow> string" where
  "join_more out [] = out"
| "join_more out (s # ss) = join_more (out @ '', '' @ s) ss"

definition joinPlatforms :: "string list \<Rightarrow> string" where
  "joinPlatforms p = (case p of [] \<Rightarrow> [] | x # xs \<Rightarrow> join_more x xs)"

definition line :: "string \<Rightarrow> string" where
  "line s = s @ [CHR 0x0A]"

definition optional :: "string \<Rightarrow> string \<Rightarrow> string list" where
  "optional key v = (if v \<noteq> [] then [key @ '': '' @ v] else [])"

text \<open>The lines between the two rulers, in the order Generate writes them.\<close>

definition frontmatter :: "skill_config \<Rightarrow> string list" where
  "frontmatter cfg =
     [''name: '' @ sk_Name cfg, ''description: '' @ sk_Description cfg] @
     optional ''version'' (sk_Version cfg) @
     optional ''author'' (sk_Author cfg) @
     optional ''license'' (sk_License cfg) @
     (if 0 < length (sk_Platforms cfg)
      then [''platforms: ['' @ joinPlatforms (sk_Platforms cfg) @ '']''] else []) @
     optional ''compatibility'' (sk_Compatibility cfg) @
     (if 0 < length (sk_AllowedTools cfg)
      then ''allowed-tools:'' # map (\<lambda>t. ''  - '' @ t) (sk_AllowedTools cfg) else []) @
     (if 0 < length (sk_Metadata cfg)
      then ''metadata:'' # map (\<lambda>k. ''  '' @ k @ '': '' @ the (map_of (sk_Metadata cfg) k))
             (sort (map fst (sk_Metadata cfg))) else [])"

definition skill_header :: "string list \<Rightarrow> bytes" where
  "skill_header ls = line ''---'' @ concat (map line ls) @ line ''---'' @ line []"

definition Generate ::
  "(string \<Rightarrow> skill_config \<Rightarrow> go_error + string) \<Rightarrow> skill_config \<Rightarrow> skill_gen \<Rightarrow>
   skill_gen \<times> go_error option" where
  "Generate render cfg g =
     (case validateSkillConfig cfg of
        Some e \<Rightarrow> (g, Some e)
      | None \<Rightarrow>
          (case (if sk_BodyTemplate cfg \<noteq> [] then render (sk_BodyTemplate cfg) cfg else Inr []) of
             Inl e \<Rightarrow> (g, Some e)
           | Inr body \<Rightarrow>
               (case (if sk_AgentsTemplate cfg \<noteq> []
                      then (case render (sk_AgentsTemplate cfg) cfg of
                              Inl e \<Rightarrow> Inl e
                            | Inr text0 \<Rightarrow>
                                Inr (skill_header [''name: '' @ sk_Name cfg,
                                       ''description: '' @ sk_Description cfg] @ text0))
                      else Inr []) of
                  Inl e \<Rightarrow> (g, Some e)
                | Inr agents \<Rightarrow>
                    (mput (sk_Name cfg)
                       \<lparr>ss_cfg = cfg, ss_skillBody = skill_header (frontmatter cfg) @ body,
                        ss_agentsBody = agents\<rparr> g, None))))"

definition skill_Remove :: "string \<Rightarrow> skill_gen \<Rightarrow> skill_gen \<times> go_error option" where
  "skill_Remove name g =
     (if \<not> skillNameRE name then (g, Some (posix EINVAL OpWrite name None)) else (mdel name g, None))"

definition skill_List :: "skill_gen \<Rightarrow> skill_config list" where
  "skill_List g = sort_key sk_Name (map (\<lambda>(k, st). ss_cfg st) g)"

definition skill_Exists :: "string \<Rightarrow> skill_gen \<Rightarrow> bool" where
  "skill_Exists name g = (map_of g name \<noteq> None)"

definition ReadSkillFile :: "string \<Rightarrow> skill_gen \<Rightarrow> go_error + bytes" where
  "ReadSkillFile name g =
     (if \<not> skillNameRE name then Inl (posix EINVAL OpRead name None)
      else (case map_of g name of
              None \<Rightarrow> Inl (posix ENOENT OpRead name None)
            | Some st \<Rightarrow> Inr (ss_skillBody st)))"

definition ReadAgentsFile :: "string \<Rightarrow> skill_gen \<Rightarrow> go_error + bytes" where
  "ReadAgentsFile name g =
     (if \<not> skillNameRE name then Inl (posix EINVAL OpRead name None)
      else (case map_of g name of
              None \<Rightarrow> Inl (posix ENOENT OpRead name None)
            | Some st \<Rightarrow> Inr (ss_agentsBody st)))"

section \<open>Lemmas\<close>

lemma Generate_cases:
  assumes "Generate render cfg g = (g', res)"
  obtains (fail) e where "g' = g" "res = Some e"
  | (ok) body agents where "validateSkillConfig cfg = None" "res = None"
      "(if sk_BodyTemplate cfg \<noteq> [] then render (sk_BodyTemplate cfg) cfg else Inr []) = Inr body"
      "g' = mput (sk_Name cfg) \<lparr>ss_cfg = cfg, ss_skillBody = skill_header (frontmatter cfg) @ body,
         ss_agentsBody = agents\<rparr> g"
proof (cases "validateSkillConfig cfg")
  case (Some e)
  with assms show ?thesis by (intro fail[of e]) (simp_all add: Generate_def)
next
  case None
  with assms show ?thesis
    unfolding Generate_def by (auto split: sum.splits if_splits intro: fail ok)
qed

text \<open>The text of the header cut at its line breaks gives the lines again.\<close>

lemma split_lines:
  "\<forall>l\<in>set ls. CHR 0x0A \<notin> set l \<Longrightarrow>
   split_on (CHR 0x0A) (concat (map line ls) @ rest) = ls @ split_on (CHR 0x0A) rest"
  by (induction ls) (auto simp: line_def split_on_append)

lemma split_header:
  assumes "\<forall>l\<in>set ls. CHR 0x0A \<notin> set l"
  shows "split_on (CHR 0x0A) (skill_header ls @ body) =
    ''---'' # ls @ ''---'' # [] # split_on (CHR 0x0A) body"
proof -
  have "skill_header ls @ body = concat (map line (''---'' # ls @ [''---'', []])) @ body"
    by (simp add: skill_header_def)
  moreover have "\<forall>l\<in>set (''---'' # ls @ [''---'', []]). CHR 0x0A \<notin> set l" using assms by auto
  ultimately show ?thesis using split_lines[of "''---'' # ls @ [''---'', []]" body] by simp
qed

lemma set_join_more: "set (join_more out ss) \<subseteq> set out \<union> \<Union> (set ` set ss) \<union> {CHR '','', CHR '' ''}"
  by (induction out ss rule: join_more.induct) auto

definition no_break :: "skill_config \<Rightarrow> bool" where
  "no_break cfg \<longleftrightarrow>
     list_all (\<lambda>s. CHR 0x0A \<notin> set s)
       ([sk_Name cfg, sk_Description cfg, sk_Version cfg, sk_Author cfg, sk_License cfg,
         sk_Compatibility cfg] @ sk_Platforms cfg @ sk_AllowedTools cfg @
        map fst (sk_Metadata cfg) @ map snd (sk_Metadata cfg))"

lemma frontmatter_no_break:
  assumes "no_break cfg"
  shows "\<forall>l\<in>set (frontmatter cfg). CHR 0x0A \<notin> set l"
proof -
  have p: "CHR 0x0A \<notin> set (joinPlatforms (sk_Platforms cfg))"
    using assms set_join_more
    by (cases "sk_Platforms cfg") (fastforce simp: joinPlatforms_def no_break_def list_all_iff)+
  have m: "CHR 0x0A \<notin> set k \<and> CHR 0x0A \<notin> set (the (map_of (sk_Metadata cfg) k))"
    if "(k, w) \<in> set (sk_Metadata cfg)" for k w
  proof -
    from weak_map_of_SomeI[OF that] obtain v where "map_of (sk_Metadata cfg) k = Some v" by blast
    moreover from this have "(k, v) \<in> set (sk_Metadata cfg)" by (rule map_of_SomeD)
    ultimately show ?thesis using assms by (force simp: no_break_def list_all_iff)
  qed
  show ?thesis
    using assms p m by (auto simp: frontmatter_def optional_def no_break_def list_all_iff)
qed

section \<open>Properties\<close>

text \<open>
  Generate either fails and changes nothing or stores the skill under its name: from then
  on its text can be read and it is listed, every other name reads as before, and Remove of
  the name makes it unknown again.
\<close>

theorem skills_table:
  assumes "Generate render cfg g = (g', res)"
  shows "(case res of
      Some e \<Rightarrow> g' = g
    | None \<Rightarrow>
        validateSkillConfig cfg = None \<and> skill_Exists (sk_Name cfg) g' \<and> cfg \<in> set (skill_List g') \<and>
        sorted (map sk_Name (skill_List g')) \<and>
        (\<forall>n. n \<noteq> sk_Name cfg \<longrightarrow> ReadSkillFile n g' = ReadSkillFile n g) \<and>
        (skillNameRE (sk_Name cfg) \<longrightarrow>
           (\<exists>body. ReadSkillFile (sk_Name cfg) g' = Inr (skill_header (frontmatter cfg) @ body)) \<and>
           snd (skill_Remove (sk_Name cfg) g') = None \<and>
           ReadSkillFile (sk_Name cfg) (fst (skill_Remove (sk_Name cfg) g')) =
             Inl (posix ENOENT OpRead (sk_Name cfg) None)))"
  using assms
proof (cases rule: Generate_cases)
  case (ok body agents)
  let ?st = "\<lparr>ss_cfg = cfg, ss_skillBody = skill_header (frontmatter cfg) @ body, ss_agentsBody = agents\<rparr>"
  have "map_of g' (sk_Name cfg) = Some ?st" using ok by simp
  then have "(sk_Name cfg, ?st) \<in> set g'" by (rule map_of_SomeD)
  then have "cfg \<in> set (skill_List g')" by (force simp: skill_List_def)
  with ok show ?thesis
    by (auto simp: skill_Exists_def ReadSkillFile_def skill_Remove_def skill_List_def)
qed simp

definition demo_skill :: skill_config where
  "demo_skill = \<lparr>sk_Enabled = True, sk_Name = ''git'', sk_Description = ''d'', sk_Version = [],
     sk_Author = [], sk_License = [], sk_Platforms = [], sk_Compatibility = [], sk_Metadata = [],
     sk_AllowedTools = [], sk_BodyTemplate = [], sk_BodyTemplateFile = [], sk_AgentsTemplate = [],
     sk_AgentsTemplateFile = [], sk_Scripts = [], sk_References = [], sk_ExposeAtRoot = False\<rparr>"

lemma demo_skill_name: "skillNameRE ''git''"
  by (simp add: skillNameRE_def name_char_def less_eq_char_def)

lemma demo_skill_ok: "validateSkillConfig demo_skill = None"
  by (simp add: validateSkillConfig_def demo_skill_def demo_skill_name)

lemma skills_table_witness:
  "\<exists>body. ReadSkillFile ''git'' (fst (Generate (\<lambda>t c. Inr t) demo_skill [])) =
     Inr (skill_header [''name: git'', ''description: d''] @ body)"
proof -
  have g: "Generate (\<lambda>t c. Inr t) demo_skill [] = (fst (Generate (\<lambda>t c. Inr t) demo_skill []), None)"
    unfolding Generate_def demo_skill_ok by (simp add: demo_skill_def)
  have f: "sk_Name demo_skill = ''git''" "frontmatter demo_skill = [''name: git'', ''description: d'']"
    by (simp_all add: demo_skill_def frontmatter_def optional_def)
  show ?thesis using skills_table[OF g] demo_skill_name f by simp
qed

text \<open>
  When no field of the configuration has a line break, the lines of the generated SKILL.md
  are a ruler, the configured fields one per line in the fixed order, a ruler, an empty line
  and the rendered body, so the front matter ends where it should whatever the fields say.
\<close>

theorem skill_file_lines:
  assumes "Generate render cfg g = (g', None)" and "no_break cfg" and "skillNameRE (sk_Name cfg)"
  shows "\<exists>file body. ReadSkillFile (sk_Name cfg) g' = Inr file \<and>
    split_on (CHR 0x0A) file =
      ''---'' # frontmatter cfg @ ''---'' # [] # split_on (CHR 0x0A) body \<and>
    body = (if sk_BodyTemplate cfg = [] then [] else projr (render (sk_BodyTemplate cfg) cfg))"
  using assms(1)
proof (cases rule: Generate_cases)
  case (ok body agents)
  from ok(3) have "body = (if sk_BodyTemplate cfg = [] then [] else projr (render (sk_BodyTemplate cfg) cfg))"
    by (auto split: if_splits)
  then show ?thesis
    using ok(4) assms(3) split_header[OF frontmatter_no_break[OF assms(2)], of body]
    by (simp add: ReadSkillFile_def)
qed simp

lemma skill_file_lines_witness:
  "\<exists>file. ReadSkillFile ''git'' (fst (Generate (\<lambda>t c. Inr t) demo_skill [])) = Inr file \<and>
     split_on (CHR 0x0A) file = [''---'', ''name: git'', ''description: d'', ''---'', [], []]"
proof -
  have g: "Generate (\<lambda>t c. Inr t) demo_skill [] = (fst (Generate (\<lambda>t c. Inr t) demo_skill []), None)"
    unfolding Generate_def demo_skill_ok by (simp add: demo_skill_def)
  have n: "sk_Name demo_skill = ''git''" by (simp add: demo_skill_def)
  have "no_break demo_skill" by (simp add: no_break_def demo_skill_def)
  from skill_file_lines[OF g this, unfolded n, OF demo_skill_name] show ?thesis
    by (auto simp: demo_skill_def frontmatter_def optional_def)
qed

text \<open>
  A line break in the description is accepted and forges front matter: this skill has the
  same file as one that sets the version field.
\<close>

theorem skill_description_forges:
  "\<exists>d. validateSkillConfig (demo_skill\<lparr>sk_Description := d\<rparr>) = None \<and>
     ReadSkillFile ''git'' (fst (Generate render (demo_skill\<lparr>sk_Description := d\<rparr>) [])) =
     ReadSkillFile ''git'' (fst (Generate render (demo_skill\<lparr>sk_Version := ''9''\<rparr>) []))"
proof -
  let ?d = "''d'' @ [CHR 0x0A] @ ''version: 9''"
  have "validateSkillConfig (demo_skill\<lparr>sk_Description := ?d\<rparr>) = None"
    "validateSkillConfig (demo_skill\<lparr>sk_Version := ''9''\<rparr>) = None"
    using demo_skill_name by (simp_all add: validateSkillConfig_def demo_skill_def)
  then show ?thesis
    by (intro exI[of _ ?d])
       (simp add: Generate_def ReadSkillFile_def demo_skill_def frontmatter_def optional_def
          skill_header_def line_def)
qed

end
