(* ===== verification/Paths.thy ===== *)
theory Paths
  imports Router Skills
begin

text \<open>
  The path functions of core/filesystem.go: \<open>normalizePath\<close>, \<open>isReservedPath\<close>, the paths of
  the generated skills, and the join of a relative link target with the link's directory
  (\<open>path.Join\<close> and \<open>path.Clean\<close> of Go's library on a rooted path).
\<close>

section \<open>Operations\<close>

definition reservedPaths :: "string list" where
  "reservedPaths = [''/sys'', ''/healthz'', ''/debug'']"

definition isReservedPath :: "string \<Rightarrow> bool" where
  "isReservedPath p = list_ex (\<lambda>r. p = r \<or> has_prefix p (r @ ''/'')) reservedPaths"

definition normalizePath :: "string \<Rightarrow> go_error + string" where
  "normalizePath p =
     (if p = [] \<or> hd p \<noteq> CHR ''/'' then Inl (posix EINVAL OpStat p None)
      else if p = ''/'' then Inr p
      else if has_suffix p ''/'' then Inl (posix EINVAL OpStat p None)
      else if list_ex (\<lambda>seg. seg = [] \<or> seg = ''.'' \<or> seg = ''..'') (split_on (CHR ''/'') (tl p))
      then Inl (posix EINVAL OpStat p None)
      else Inr p)"

definition skills_prefix :: string where
  "skills_prefix = ''/skills/''"

definition skill_suffix :: string where
  "skill_suffix = ''/SKILL.md''"

text \<open>The name, when the path has the form of a skill's directory or of its file.\<close>

definition skillDirPath :: "string \<Rightarrow> string option" where
  "skillDirPath path =
     (if \<not> has_prefix path skills_prefix \<or> contains (drop (length skills_prefix) path) ''/'' then None
      else (let name = drop (length skills_prefix) path
            in if skillNameRE name then Some name else None))"

definition trim_suffix :: "string \<Rightarrow> string \<Rightarrow> string" where
  "trim_suffix s suf = (if has_suffix s suf then take (length s - length suf) s else s)"

definition skillFilePath :: "string \<Rightarrow> string option" where
  "skillFilePath path =
     (if \<not> has_prefix path skills_prefix \<or> \<not> has_suffix path skill_suffix then None
      else (let name = trim_suffix (drop (length skills_prefix) path) skill_suffix
            in if skillNameRE name then Some name else None))"

text \<open>path.Clean of a rooted path; the stack holds the segments read so far, last one first.\<close>

fun clean_segs :: "string list \<Rightarrow> string list \<Rightarrow> string list" where
  "clean_segs st [] = rev st"
| "clean_segs st (s # ss) =
     (if s = [] \<or> s = ''.'' then clean_segs st ss
      else if s = ''..'' then clean_segs (tl st) ss
      else clean_segs (s # st) ss)"

definition path_Join :: "string \<Rightarrow> string \<Rightarrow> string" where
  "path_Join dir target = path_of (clean_segs [] (split_on (CHR ''/'') (dir @ ''/'' @ target)))"

text \<open>\<open>p[:strings.LastIndex(p, "/")]\<close>\<close>

definition before_last_slash :: "string \<Rightarrow> string" where
  "before_last_slash p = rev (tl (dropWhile (\<lambda>c. c \<noteq> CHR ''/'') (rev p)))"

definition link_target :: "string \<Rightarrow> string \<Rightarrow> string" where
  "link_target p target =
     (if \<not> has_prefix target ''/'' then
        (let dir = before_last_slash p
         in path_Join (if dir = [] then ''/'' else dir) target)
      else target)"

section \<open>Lemmas\<close>

lemma clean_segs_good:
  "\<forall>s\<in>set st \<union> set ss. CHR ''/'' \<notin> set s \<Longrightarrow> \<forall>s\<in>set st. \<not> bad_seg s \<Longrightarrow>
   good_parts (clean_segs st ss)"
proof (induction st ss rule: clean_segs.induct)
  case (1 st)
  then show ?case by (auto simp: good_parts_def)
next
  case (2 st s ss)
  have tl: "\<forall>x\<in>set (tl st) \<union> set ss. CHR ''/'' \<notin> set x" "\<forall>x\<in>set (tl st). \<not> bad_seg x"
    using 2(4,5) by (cases st; auto)+
  show ?case using 2 tl by (auto simp: bad_seg_def)
qed

lemma normalize_good:
  "normalizePath p = Inr q \<longleftrightarrow> q = p \<and> (\<exists>parts. good_parts parts \<and> p = path_of parts)"
proof
  assume n: "normalizePath p = Inr q"
  then have q: "q = p" and abs: "p \<noteq> []" "hd p = CHR ''/''"
    by (auto simp: normalizePath_def split: if_splits)
  have "\<exists>parts. good_parts parts \<and> p = path_of parts"
  proof (cases "p = ''/''")
    case True
    then show ?thesis by (intro exI[of _ "[]"]) simp
  next
    case False
    let ?parts = "split_on (CHR ''/'') (tl p)"
    have "good_parts ?parts"
      using n False abs split_on_seg_no_sep
      by (auto simp: normalizePath_def good_parts_def bad_seg_def list_ex_iff split: if_splits)
    moreover have "p = path_of ?parts" using abs by (cases p) (simp_all add: path_of_def)
    ultimately show ?thesis by blast
  qed
  with q show "q = p \<and> (\<exists>parts. good_parts parts \<and> p = path_of parts)" by simp
next
  assume "q = p \<and> (\<exists>parts. good_parts parts \<and> p = path_of parts)"
  then obtain parts where q: "q = p" and g: "good_parts parts" and p: "p = path_of parts" by blast
  show "normalizePath p = Inr q"
  proof (cases "parts = []")
    case True
    with p q show ?thesis by (simp add: normalizePath_def)
  next
    case False
    have "split_on (CHR ''/'') (join_with (CHR ''/'') parts) = parts"
      using g False by (intro split_join) (auto simp: good_parts_def)
    moreover have "\<not> has_suffix p ''/''"
    proof
      assume "has_suffix p ''/''"
      then obtain t where "p = t @ ''/''" by (auto simp: has_suffix_iff)
      then have "last p = CHR ''/''" by simp
      then show False using join_good_last[OF g False] p by (simp add: path_of_def)
    qed
    ultimately show ?thesis
      using p q g False path_of_eq_root[OF g]
      by (auto simp: normalizePath_def path_of_def list_ex_iff good_parts_def bad_seg_def)
  qed
qed

lemma normalize_parts: "normalizePath p = Inr q \<Longrightarrow> q = p \<and> cleanParts p = Inr (path_segs p) \<and>
    good_parts (path_segs p) \<and> path_of (path_segs p) = p"
  using normalize_good[of p q] by auto

lemma path_of_inj: "good_parts a \<Longrightarrow> good_parts b \<Longrightarrow> path_of a = path_of b \<Longrightarrow> a = b"
  by (metis path_segs_path_of)

section \<open>Properties\<close>

text \<open>
  NormalizePath accepts exactly the canonical paths, each of them unchanged: a slash
  followed by segments joined with single slashes, none of them empty, dot or dot-dot. What
  it accepts the router cuts into the same segments in add, in remove and in match.
\<close>

theorem normalize_canonical:
  "(normalizePath p = Inr q \<longleftrightarrow> q = p \<and> (\<exists>parts. good_parts parts \<and> p = path_of parts)) \<and>
   (\<forall>parts. good_parts parts \<and> p = path_of parts \<longrightarrow>
      cleanParts p = Inr parts \<and> path_segs p = parts \<and> \<not> contains p ''//'')"
  using normalize_good[of p q] by auto

lemma normalize_canonical_witness:
  "cleanParts ''/a/b'' = Inr [''a'', ''b''] \<and> path_segs ''/a/b'' = [''a'', ''b'']"
proof -
  have "good_parts [''a'', ''b''] \<and> ''/a/b'' = path_of [''a'', ''b'']"
    by (simp add: bad_seg_def path_of_def)
  then show ?thesis using normalize_canonical[of "''/a/b''" "[]"] by blast
qed

text \<open>
  The target of a relative link is always a canonical path again, so following a link
  from a canonical path never leaves the tree above the root; an absolute target is taken
  as it is written.
\<close>

theorem link_target_canonical:
  "(has_prefix target ''/'' \<longrightarrow> link_target p target = target) \<and>
   (\<not> has_prefix target ''/'' \<longrightarrow>
      normalizePath (link_target p target) = Inr (link_target p target))"
proof -
  have "good_parts (clean_segs [] (split_on (CHR ''/'') s))" for s
    by (rule clean_segs_good) (auto dest: split_on_seg_no_sep)
  then have "normalizePath (path_Join d target) = Inr (path_Join d target)" for d
    unfolding normalize_good path_Join_def by blast
  then show ?thesis by (simp add: link_target_def Let_def)
qed

lemma link_target_canonical_witness:
  "normalizePath (link_target ''/a/l'' ''../../b'') = Inr (link_target ''/a/l'' ''../../b'')"
proof -
  have "\<not> has_prefix ''../../b'' ''/''" by (simp add: has_prefix_def)
  then show ?thesis using link_target_canonical[of "''../../b''" "''/a/l''"] by blast
qed

end
