(* ===== verification/Events.thy ===== *)
theory Events
  imports Prelude
begin

text \<open>
  core/events.go: the bus that passes mutations on to registered listeners. A listener is a
  function of the embedding program, so a call of it is recorded as the pair of its identifier
  and the event; the order in which one emit calls the listeners is the map's, which Go
  leaves open. Identifiers and counters are 64-bit and wrap around.
\<close>

section \<open>Operations\<close>

datatype event_kind = EventCreate | EventWrite | EventRemove

record event =
  ev_Path :: string
  ev_Kind :: event_kind

text \<open>A subscriber is its prefix; its identifier is its key in the map.\<close>

record event_bus =
  eb_subs :: "(u64 \<times> string) list"
  eb_seq :: u64
  eb_emitted :: u64
  eb_delivered :: u64

definition newEventBus :: event_bus where
  "newEventBus = \<lparr>eb_subs = [], eb_seq = 0, eb_emitted = 0, eb_delivered = 0\<rparr>"

definition register :: "string \<Rightarrow> event_bus \<Rightarrow> event_bus \<times> u64" where
  "register pre eb =
     (let i = eb_seq eb + 1
      in (eb\<lparr>eb_seq := i, eb_subs := mput i pre (eb_subs eb)\<rparr>, i))"

definition unregister :: "u64 \<Rightarrow> event_bus \<Rightarrow> event_bus" where
  "unregister i eb = eb\<lparr>eb_subs := mdel i (eb_subs eb)\<rparr>"

text \<open>The listeners that emit calls, in the order of the copy it makes of the map.\<close>

fun deliver :: "event \<Rightarrow> (u64 \<times> string) list \<Rightarrow> (u64 \<times> event) list" where
  "deliver e [] = []"
| "deliver e ((i, pre) # subs) =
     (if pre \<noteq> [] \<and> \<not> has_prefix (ev_Path e) pre then deliver e subs
      else (i, e) # deliver e subs)"

definition emit :: "event \<Rightarrow> event_bus \<Rightarrow> event_bus \<times> (u64 \<times> event) list" where
  "emit e eb =
     (let calls = deliver e (eb_subs eb)
      in (eb\<lparr>eb_emitted := eb_emitted eb + 1,
            eb_delivered := eb_delivered eb + of_nat (length calls)\<rparr>, calls))"

definition clear :: "event_bus \<Rightarrow> event_bus" where
  "clear eb = eb\<lparr>eb_subs := []\<rparr>"

section \<open>Lemmas\<close>

lemma deliver_iff:
  "(i, e') \<in> set (deliver e subs) \<longleftrightarrow>
   e' = e \<and> (\<exists>pre. (i, pre) \<in> set subs \<and> has_prefix (ev_Path e) pre)"
  by (induction e subs rule: deliver.induct) auto

lemma deliver_distinct: "distinct (map fst subs) \<Longrightarrow> distinct (map fst (deliver e subs))"
proof (induction e subs rule: deliver.induct)
  case (2 e i pre subs)
  have "fst ` set (deliver e subs) \<subseteq> fst ` set subs" by (force simp: deliver_iff)
  with 2 show ?case by auto
qed simp

section \<open>Runs\<close>

datatype bus_op = Register string | Unregister u64 | Emit event | Clear

fun bus_step :: "bus_op \<Rightarrow> event_bus \<times> (u64 \<times> event) list list \<Rightarrow> event_bus \<times> (u64 \<times> event) list list" where
  "bus_step (Register pre) (eb, log) = (fst (register pre eb), log)"
| "bus_step (Unregister i) (eb, log) = (unregister i eb, log)"
| "bus_step (Emit e) (eb, log) = (fst (emit e eb), log @ [snd (emit e eb)])"
| "bus_step Clear (eb, log) = (clear eb, log)"

definition bus_ok :: "event_bus \<times> (u64 \<times> event) list list \<Rightarrow> bool" where
  "bus_ok s \<longleftrightarrow>
     distinct (map fst (eb_subs (fst s))) \<and>
     eb_emitted (fst s) = of_nat (length (snd s)) \<and>
     eb_delivered (fst s) = of_nat (length (concat (snd s))) \<and>
     (\<forall>calls\<in>set (snd s). distinct (map fst calls))"

lemma bus_ok_step: "bus_ok s \<Longrightarrow> bus_ok (bus_step a s)"
proof -
  assume ok: "bus_ok s"
  obtain eb log where s: "s = (eb, log)" by (cases s)
  show ?thesis
  proof (cases a)
    case (Register pre)
    with ok s show ?thesis by (auto simp: bus_ok_def register_def Let_def)
  next
    case (Emit e)
    with ok s deliver_distinct[of "eb_subs eb" e] show ?thesis
      by (auto simp: bus_ok_def emit_def Let_def)
  qed (use ok s in \<open>auto simp: bus_ok_def unregister_def clear_def\<close>)
qed

section \<open>Properties\<close>

text \<open>
  An emit calls exactly the listeners registered at that moment whose prefix fits the
  path, each of them once; over a whole run of the bus the two counters are the numbers of
  emits and of calls (up to the wrap-around of 64 bits).
\<close>

theorem events_delivery:
  defines "s ops \<equiv> fold bus_step ops (newEventBus, [])"
  shows "eb_emitted (fst (s ops)) = of_nat (length (snd (s ops))) \<and>
    eb_delivered (fst (s ops)) = of_nat (length (concat (snd (s ops)))) \<and>
    distinct (map fst (snd (emit e (fst (s ops))))) \<and>
    ((i, e') \<in> set (snd (emit e (fst (s ops)))) \<longleftrightarrow>
       e' = e \<and> (\<exists>pre. map_of (eb_subs (fst (s ops))) i = Some pre \<and> has_prefix (ev_Path e) pre))"
proof -
  have "bus_ok (newEventBus, [])" by (simp add: bus_ok_def newEventBus_def)
  moreover have "bus_ok t \<Longrightarrow> bus_ok (fold bus_step ops t)" for t
    by (induction ops arbitrary: t) (simp_all add: bus_ok_step)
  ultimately have ok: "bus_ok (s ops)" unfolding s_def by blast
  then have d: "distinct (map fst (eb_subs (fst (s ops))))" by (simp add: bus_ok_def)
  then show ?thesis
    using ok deliver_distinct[OF d, of e]
    by (auto simp: bus_ok_def emit_def Let_def deliver_iff map_of_eq_Some_iff)
qed

end
