(* ===== verification/Metrics.thy ===== *)
theory Metrics
  imports Errors Events
begin

text \<open>
  core/metrics.go: per-operation counters with a latency histogram, the provider-cache
  counters, and their Prometheus text. Counters are 64-bit words. The verb %.9f of a
  floating-point number of seconds is the argument \<open>secs\<close> of the text functions.
\<close>

section \<open>Counters\<close>

definition latencyBuckets :: "duration list" where
  "latencyBuckets =
     [1000000, 10000000, 25000000, 50000000, 100000000, 250000000, 500000000,
      1000000000, 2000000000, 5000000000, 10000000000]"

record op_metrics =
  om_count :: u64
  om_errors :: u64
  om_totalNS :: u64
  om_buckets :: "u64 list"

record metrics =
  mt_ops :: "(op_code \<times> op_metrics) list"
  mt_cacheHits :: u64
  mt_cacheMisses :: u64

definition newMetrics :: metrics where
  "newMetrics = \<lparr>mt_ops = [], mt_cacheHits = 0, mt_cacheMisses = 0\<rparr>"

definition new_op_metrics :: op_metrics where
  "new_op_metrics = \<lparr>om_count = 0, om_errors = 0, om_totalNS = 0,
                     om_buckets = replicate (length latencyBuckets) 0\<rparr>"

definition metrics_op :: "op_code \<Rightarrow> metrics \<Rightarrow> metrics \<times> op_metrics" where
  "metrics_op o1 m =
     (case map_of (mt_ops m) o1 of
        Some x \<Rightarrow> (m, x)
      | None \<Rightarrow> (m\<lparr>mt_ops := mput o1 new_op_metrics (mt_ops m)\<rparr>, new_op_metrics))"

text \<open>The bucket loop of record: the first bound that holds the duration, then break.\<close>

fun bump :: "duration \<Rightarrow> duration list \<Rightarrow> u64 list \<Rightarrow> u64 list" where
  "bump d (b # bs) (c # cs) = (if d \<le> b then (c + 1) # cs else c # bump d bs cs)"
| "bump d _ cs = cs"

definition metrics_record :: "op_code \<Rightarrow> duration \<Rightarrow> bool \<Rightarrow> metrics \<Rightarrow> metrics" where
  "metrics_record o1 elapsed failed m =
     (let (m1, x) = metrics_op o1 m;
          x' = x\<lparr>om_count := om_count x + 1,
                om_errors := (if failed then om_errors x + 1 else om_errors x),
                om_totalNS := om_totalNS x + of_int elapsed,
                om_buckets := bump elapsed latencyBuckets (om_buckets x)\<rparr>
      in m1\<lparr>mt_ops := mput o1 x' (mt_ops m1)\<rparr>)"

definition recordCacheHit :: "metrics \<Rightarrow> metrics" where
  "recordCacheHit m = m\<lparr>mt_cacheHits := mt_cacheHits m + 1\<rparr>"

definition recordCacheMiss :: "metrics \<Rightarrow> metrics" where
  "recordCacheMiss m = m\<lparr>mt_cacheMisses := mt_cacheMisses m + 1\<rparr>"

section \<open>The text\<close>

fun dec_text :: "nat \<Rightarrow> string" where
  "dec_text n =
     (if n < 10 then [char_of (48 + n)] else dec_text (n div 10) @ [char_of (48 + n mod 10)])"

declare dec_text.simps [simp del]

definition u64_text :: "u64 \<Rightarrow> string" where
  "u64_text w = dec_text (unat w)"

text \<open>The verb %q on printable text: quotes and backslashes are escaped.\<close>

definition quote :: "string \<Rightarrow> string" where
  "quote s = CHR 0x22 # concat (map (\<lambda>c. if c = CHR 0x22 \<or> c = CHR 0x5C then [CHR 0x5C, c] else [c]) s)
     @ [CHR 0x22]"

definition nl :: string where
  "nl = [CHR 0x0A]"

definition bucket_names :: "string list" where
  "bucket_names = [''1ms'', ''10ms'', ''25ms'', ''50ms'', ''100ms'', ''250ms'', ''500ms'',
                   ''1s'', ''2s'', ''5s'', ''10s'']"

text \<open>The running sum over the buckets.\<close>

fun cumulate :: "u64 \<Rightarrow> u64 list \<Rightarrow> u64 list" where
  "cumulate a [] = []"
| "cumulate a (c # cs) = (a + c) # cumulate (a + c) cs"

definition op_text_lines :: "(u64 \<Rightarrow> string) \<Rightarrow> string \<Rightarrow> op_metrics \<Rightarrow> string" where
  "op_text_lines secs o1 x =
     ''skills_fs_operations_total{op='' @ quote o1 @ ''} '' @ u64_text (om_count x) @ nl @
     ''skills_fs_operation_errors_total{op='' @ quote o1 @ ''} '' @ u64_text (om_errors x) @ nl @
     ''skills_fs_operation_latency_seconds_sum{op='' @ quote o1 @ ''} '' @ secs (om_totalNS x) @ nl @
     ''skills_fs_operation_latency_seconds_count{op='' @ quote o1 @ ''} '' @ u64_text (om_count x) @ nl @
     concat (map (\<lambda>(name, c).
         ''skills_fs_operation_latency_seconds_bucket{op='' @ quote o1 @ '',le='' @ quote name @ ''} ''
         @ u64_text c @ nl)
       (zip bucket_names (cumulate 0 (om_buckets x)))) @
     ''skills_fs_operation_latency_seconds_bucket{op='' @ quote o1 @ '',le='' @ quote ''+Inf'' @ ''} ''
       @ u64_text (om_count x) @ nl"

definition metrics_Prometheus :: "(u64 \<Rightarrow> string) \<Rightarrow> event_bus option \<Rightarrow> metrics \<Rightarrow> bytes" where
  "metrics_Prometheus secs bus m =
     (let snapshot = map (\<lambda>(o1, x). (op_text o1, x)) (mt_ops m);
          keys = sort (map fst snapshot)
      in ''# TYPE skills_fs_operations_total counter'' @ nl @
         ''# TYPE skills_fs_operation_errors_total counter'' @ nl @
         ''# TYPE skills_fs_operation_latency_seconds counter'' @ nl @
         ''# TYPE skills_fs_operation_latency_seconds histogram'' @ nl @
         concat (map (\<lambda>k. op_text_lines secs k (the (map_of snapshot k))) keys) @
         ''# TYPE skills_fs_provider_cache_hits_total counter'' @ nl @
         ''skills_fs_provider_cache_hits_total '' @ u64_text (mt_cacheHits m) @ nl @
         ''# TYPE skills_fs_provider_cache_misses_total counter'' @ nl @
         ''skills_fs_provider_cache_misses_total '' @ u64_text (mt_cacheMisses m) @ nl @
         (case bus of
            None \<Rightarrow> []
          | Some eb \<Rightarrow>
              ''# TYPE skills_fs_events_emitted_total counter'' @ nl @
              ''# TYPE skills_fs_events_delivered_total counter'' @ nl @
              ''skills_fs_events_emitted_total '' @ u64_text (eb_emitted eb) @ nl @
              ''skills_fs_events_delivered_total '' @ u64_text (eb_delivered eb) @ nl))"

section \<open>The histogram\<close>

definition record_all :: "(op_code \<times> duration \<times> bool) list \<Rightarrow> metrics \<Rightarrow> metrics" where
  "record_all rs m = fold (\<lambda>(o1, d, failed). metrics_record o1 d failed) rs m"

definition hist :: "duration list \<Rightarrow> duration list \<Rightarrow> u64 list" where
  "hist bounds ds = fold (\<lambda>d cs. bump d bounds cs) ds (replicate (length bounds) 0)"

lemma length_bump [simp]: "length (bump d bs cs) = length cs"
  by (induction d bs cs rule: bump.induct) auto

lemma bump_cumulate:
  "sorted bs \<Longrightarrow> length cs = length bs \<Longrightarrow> i < length bs \<Longrightarrow>
   cumulate a (bump d bs cs) ! i = cumulate a cs ! i + (if d \<le> bs ! i then 1 else 0)"
proof (induction d bs cs arbitrary: a i rule: bump.induct)
  case (1 d b bs c cs)
  have shift: "i < length xs \<Longrightarrow> cumulate (x + y) xs ! i = cumulate x xs ! i + y" for x y :: u64 and xs i
    by (induction xs arbitrary: x y i) (auto simp: nth_Cons' algebra_simps)
  show ?case
  proof (cases "d \<le> b")
    case True
    then have "d \<le> (b # bs) ! i" using 1 by (cases i) (auto intro: order_trans)
    then show ?thesis
      using 1 True shift[of "i - 1" cs "a + c" 1] by (cases i) (auto simp: algebra_simps)
  next
    case False
    then show ?thesis using 1 by (cases i) auto
  qed
qed auto

lemma hist_snoc: "hist bs (ds @ [d]) = bump d bs (hist bs ds)"
  by (simp add: hist_def)

lemma length_hist [simp]: "length (hist bs ds) = length bs"
  by (induction ds rule: rev_induct) (simp_all add: hist_snoc, simp add: hist_def)

lemma hist_cumulate:
  "sorted bs \<Longrightarrow> i < length bs \<Longrightarrow>
   cumulate 0 (hist bs ds) ! i = of_nat (length (filter (\<lambda>d. d \<le> bs ! i) ds))"
proof (induction ds rule: rev_induct)
  case Nil
  have "j < n \<Longrightarrow> cumulate (0 :: u64) (replicate n 0) ! j = 0" for j n
    by (induction n arbitrary: j) (auto simp: nth_Cons')
  with Nil show ?case by (simp add: hist_def)
next
  case (snoc d ds)
  then show ?case by (simp add: hist_snoc bump_cumulate)
qed

definition of_op :: "op_code \<Rightarrow> (op_code \<times> duration \<times> bool) list \<Rightarrow> (duration \<times> bool) list" where
  "of_op o1 rs = map snd (filter (\<lambda>r. fst r = o1) rs)"

definition op_state :: "op_code \<Rightarrow> (op_code \<times> duration \<times> bool) list \<Rightarrow> op_metrics" where
  "op_state o1 rs =
     \<lparr>om_count = of_nat (length (of_op o1 rs)),
      om_errors = of_nat (length (filter snd (of_op o1 rs))),
      om_totalNS = of_int (sum_list (map fst (of_op o1 rs))),
      om_buckets = hist latencyBuckets (map fst (of_op o1 rs))\<rparr>"

lemma record_all_state:
  "map_of (mt_ops (record_all rs newMetrics)) o1 =
   (if of_op o1 rs = [] then None else Some (op_state o1 rs))"
proof (induction rs arbitrary: o1 rule: rev_induct)
  case Nil
  show ?case by (simp add: record_all_def newMetrics_def of_op_def)
next
  case (snoc r rs)
  obtain o2 d f where r: "r = (o2, d, f)" by (cases r)
  let ?m = "record_all rs newMetrics"
  have cur: "snd (metrics_op o2 ?m) = op_state o2 rs"
    using snoc[of o2] by (auto simp: metrics_op_def op_state_def new_op_metrics_def hist_def)
  have other: "map_of (mt_ops (fst (metrics_op o2 ?m))) o1 = map_of (mt_ops ?m) o1" if "o1 \<noteq> o2" for o1
    using that by (simp add: metrics_op_def split: option.split)
  have upd: "op_state o2 (rs @ [r]) = op_state o2 rs
      \<lparr>om_count := om_count (op_state o2 rs) + 1,
       om_errors := (if f then om_errors (op_state o2 rs) + 1 else om_errors (op_state o2 rs)),
       om_totalNS := om_totalNS (op_state o2 rs) + of_int d,
       om_buckets := bump d latencyBuckets (om_buckets (op_state o2 rs))\<rparr>"
    by (simp add: op_state_def of_op_def r hist_snoc)
  have step: "record_all (rs @ [r]) newMetrics = metrics_record o2 d f ?m"
    by (simp add: record_all_def r)
  have same: "of_op o1 (rs @ [r]) = of_op o1 rs" "op_state o1 (rs @ [r]) = op_state o1 rs" if "o1 \<noteq> o2"
    using that by (simp_all add: of_op_def r op_state_def)
  have ne: "of_op o2 (rs @ [r]) \<noteq> []" by (simp add: of_op_def r)
  show ?case
  proof (cases "o1 = o2")
    case True
    then show ?thesis
      using ne cur unfolding step upd True by (simp add: metrics_record_def Let_def split_beta upd)
  next
    case False
    then show ?thesis
      using same other[OF False] snoc[of o1] unfolding step
      by (simp add: metrics_record_def Let_def split_beta)
  qed
qed

section \<open>Properties\<close>

text \<open>
  For any history of operations, the recorded count, errors and total time of an
  operation are those of its calls, and the cumulative bucket of each bound, as the
  Prometheus text prints it, is the number of its calls that took at most that long.
\<close>

theorem metrics_histogram:
  assumes "of_op o1 rs \<noteq> []" and "i < length latencyBuckets"
  shows "\<exists>x. map_of (mt_ops (record_all rs newMetrics)) o1 = Some x \<and>
    om_count x = of_nat (length (of_op o1 rs)) \<and>
    om_errors x = of_nat (length (filter snd (of_op o1 rs))) \<and>
    om_totalNS x = of_int (sum_list (map fst (of_op o1 rs))) \<and>
    cumulate 0 (om_buckets x) ! i =
      of_nat (length (filter (\<lambda>r. fst r \<le> latencyBuckets ! i) (of_op o1 rs)))"
proof -
  have s: "sorted latencyBuckets" by (simp add: latencyBuckets_def)
  have "cumulate 0 (hist latencyBuckets (map fst (of_op o1 rs))) ! i =
      of_nat (length (filter (\<lambda>r. fst r \<le> latencyBuckets ! i) (of_op o1 rs)))"
    using hist_cumulate[OF s assms(2), of "map fst (of_op o1 rs)"] by (simp add: filter_map o_def)
  then show ?thesis using assms(1) by (simp add: record_all_state op_state_def)
qed

lemma metrics_histogram_witness:
  "\<exists>x. map_of (mt_ops (record_all [(OpRead, 2000000, False), (OpStat, 5, True), (OpRead, 7, True)] newMetrics))
      OpRead = Some x \<and> om_count x = 2 \<and> cumulate 0 (om_buckets x) ! 0 = 1"
proof -
  let ?rs = "[(OpRead, 2000000, False), (OpStat, 5, True), (OpRead, 7, True)] :: (op_code \<times> duration \<times> bool) list"
  have "of_op OpRead ?rs \<noteq> []" "0 < length latencyBuckets"
    by (simp_all add: of_op_def latencyBuckets_def)
  from metrics_histogram[OF this] show ?thesis
    by (auto simp: of_op_def latencyBuckets_def)
qed

end
