(* ===== verification/Tables.thy ===== *)
theory Tables
  imports Prelude
begin

text \<open>
  The interfaces of the small tables the engine keeps: a table that makes its value on first
  use (the stream rings, the lock states, the circuit breakers) and a cache whose entries
  expire. Each is interpreted in the theory of the component that provides it.
\<close>

locale lazy_table =
  fixes lookup :: "'t \<Rightarrow> 'k \<Rightarrow> 'v option"
    and obtain_for :: "'k \<Rightarrow> 't \<Rightarrow> 't \<times> 'v"
  assumes obtain_hit: "lookup t k = Some v \<Longrightarrow> obtain_for k t = (t, v)"
    and obtain_law: "obtain_for k t = (t', v) \<Longrightarrow> lookup t' k = Some v"
    and obtain_frame: "obtain_for k t = (t', v) \<Longrightarrow> j \<noteq> k \<Longrightarrow> lookup t' j = lookup t j"
begin

lemma obtain_again: "obtain_for k t = (t', v) \<Longrightarrow> obtain_for k t' = (t', v)"
  using obtain_law obtain_hit by blast

lemma obtain_keeps: "lookup t k = Some v \<Longrightarrow> lookup (fst (obtain_for j t)) k = Some v"
proof (cases "j = k")
  case True
  assume "lookup t k = Some v"
  with True obtain_hit show ?thesis by fastforce
next
  case False
  assume "lookup t k = Some v"
  with False show ?thesis using obtain_frame[of j t _ _ k] by (metis prod.collapse)
qed

text \<open>Once made, a value is shared by every later use, whatever else is looked up meanwhile.\<close>

lemma obtain_shared:
  "lookup t k = Some v \<Longrightarrow>
   snd (obtain_for k (fold (\<lambda>j t. fst (obtain_for j t)) js t)) = v"
  by (induction js arbitrary: t) (auto simp: obtain_hit obtain_keeps)

end

text \<open>
  A cache: \<open>fetch\<close> reads an entry at a time, \<open>keep\<close> stores one that is valid before its
  time of expiry.
\<close>

locale ttl_cache =
  fixes fetch :: "'t \<Rightarrow> 'k \<Rightarrow> int \<Rightarrow> 'v option"
    and keep :: "'k \<Rightarrow> 'v \<Rightarrow> int \<Rightarrow> 't \<Rightarrow> 't"
  assumes keep_law: "fetch (keep k v expires t) j now =
      (if j = k then (if now < expires then Some v else None) else fetch t j now)"
    and expire_law: "fetch t k now = Some v \<Longrightarrow> before \<le> now \<Longrightarrow> fetch t k before = Some v"
begin

lemma keep_fresh: "now < expires \<Longrightarrow> fetch (keep k v expires t) k now = Some v"
  by (simp add: keep_law)

lemma keep_stale: "expires \<le> now \<Longrightarrow> fetch (keep k v expires t) k now = None"
  by (simp add: keep_law)

lemma keep_last: "fetch (keep k v e (keep k w e' t)) j now = fetch (keep k v e t) j now"
  by (simp add: keep_law)

lemma stays_expired: "fetch t k now = None \<Longrightarrow> now \<le> later \<Longrightarrow> fetch t k later = None"
  using expire_law[of t k later _ now] by (cases "fetch t k later") auto

end

end
