(* ===== verification/Breaker.thy ===== *)
theory Breaker
  imports Types Tables
begin

text \<open>
  The per-provider circuit breakers of core/filesystem.go: \<open>breakerFor\<close>, \<open>breakerOpen\<close>,
  \<open>recordBreakerResult\<close> and \<open>currentState\<close>. A breaker is a state machine with three states
  and two counters; each operation holds its mutex throughout, so it is one step. The clock
  is an argument.
\<close>

section \<open>Operations\<close>

datatype cb_state = cbClosed | cbOpen | cbHalfOpen

record circuit_breaker =
  cb_state :: cb_state
  cb_failures :: int
  cb_successes :: int
  cb_lastFailure :: time

definition new_breaker :: circuit_breaker where
  "new_breaker = \<lparr>cb_state = cbClosed, cb_failures = 0, cb_successes = 0, cb_lastFailure = 0\<rparr>"

type_synonym breakers = "(string \<times> circuit_breaker) list"

definition breakerFor :: "string \<Rightarrow> breakers \<Rightarrow> breakers \<times> circuit_breaker" where
  "breakerFor i bs =
     (case map_of bs i of
        Some b \<Rightarrow> (bs, b)
      | None \<Rightarrow> (mput i new_breaker bs, new_breaker))"

interpretation breaker_table: lazy_table map_of breakerFor
  by unfold_locales (auto simp: breakerFor_def split: option.splits)

text \<open>The body of breakerOpen on one breaker: is the call to be refused?\<close>

definition cb_check :: "breaker_config \<Rightarrow> time \<Rightarrow> circuit_breaker \<Rightarrow> circuit_breaker \<times> bool" where
  "cb_check cfg now b =
     (if cb_state b = cbOpen then
        (if now - cb_lastFailure b > bc_ResetTimeout cfg
         then (b\<lparr>cb_state := cbHalfOpen, cb_failures := 0, cb_successes := 0\<rparr>, False)
         else (b, True))
      else (b, False))"

definition breakerOpen ::
  "breaker_config \<Rightarrow> time \<Rightarrow> string \<Rightarrow> breakers \<Rightarrow> breakers \<times> bool" where
  "breakerOpen cfg now i bs =
     (if \<not> bc_Enabled cfg then (bs, False)
      else (let (bs1, b) = breakerFor i bs; (b', refused) = cb_check cfg now b
            in (mput i b' bs1, refused)))"

definition cb_record :: "breaker_config \<Rightarrow> time \<Rightarrow> bool \<Rightarrow> circuit_breaker \<Rightarrow> circuit_breaker" where
  "cb_record cfg now success b =
     (if success then
        (if cb_state b = cbHalfOpen then
           (let b1 = b\<lparr>cb_successes := cb_successes b + 1\<rparr>
            in if cb_successes b1 \<ge> bc_HalfOpenMaxCalls cfg
               then b1\<lparr>cb_state := cbClosed, cb_failures := 0, cb_successes := 0\<rparr>
               else b1)
         else b\<lparr>cb_failures := 0\<rparr>)
      else
        (let b1 = b\<lparr>cb_failures := cb_failures b + 1, cb_lastFailure := now\<rparr>
         in if cb_failures b1 \<ge> bc_FailureThreshold cfg then b1\<lparr>cb_state := cbOpen\<rparr> else b1))"

definition recordBreakerResult ::
  "breaker_config \<Rightarrow> time \<Rightarrow> string \<Rightarrow> bool \<Rightarrow> breakers \<Rightarrow> breakers" where
  "recordBreakerResult cfg now i success bs =
     (if \<not> bc_Enabled cfg then bs
      else (let (bs1, b) = breakerFor i bs in mput i (cb_record cfg now success b) bs1))"

text \<open>The gauge of currentState is the iota value of the state.\<close>

fun currentState :: "circuit_breaker \<Rightarrow> nat" where
  "currentState b = (case cb_state b of cbClosed \<Rightarrow> 0 | cbOpen \<Rightarrow> 1 | cbHalfOpen \<Rightarrow> 2)"

section \<open>Runs\<close>

datatype cb_event = Check time | Result time bool

fun cb_step :: "breaker_config \<Rightarrow> cb_event \<Rightarrow> circuit_breaker \<Rightarrow> circuit_breaker" where
  "cb_step cfg (Check now) b = fst (cb_check cfg now b)"
| "cb_step cfg (Result now s) b = cb_record cfg now s b"

definition run_results :: "breaker_config \<Rightarrow> time \<Rightarrow> bool list \<Rightarrow> circuit_breaker \<Rightarrow> circuit_breaker" where
  "run_results cfg now rs b = fold (cb_record cfg now) rs b"

text \<open>A closed breaker has not yet seen as many failures in a row as the threshold, a
  half-open one has not yet decided.\<close>

definition cb_ok :: "breaker_config \<Rightarrow> circuit_breaker \<Rightarrow> bool" where
  "cb_ok cfg b \<longleftrightarrow>
     0 \<le> cb_failures b \<and> 0 \<le> cb_successes b \<and>
     (cb_state b \<noteq> cbOpen \<longrightarrow> cb_failures b < bc_FailureThreshold cfg) \<and>
     (cb_state b = cbHalfOpen \<longrightarrow> cb_successes b < bc_HalfOpenMaxCalls cfg)"

definition limits_ok :: "breaker_config \<Rightarrow> bool" where
  "limits_ok cfg \<longleftrightarrow> 0 < bc_FailureThreshold cfg \<and> 0 < bc_HalfOpenMaxCalls cfg"

lemma cb_ok_step: "limits_ok cfg \<Longrightarrow> cb_ok cfg b \<Longrightarrow> cb_ok cfg (cb_step cfg e b)"
  by (cases e) (auto simp: cb_ok_def limits_ok_def cb_check_def cb_record_def Let_def)

text \<open>The length of the run of failures at the end of a list of results.\<close>

definition trailing :: "bool list \<Rightarrow> nat" where
  "trailing rs = length (takeWhile Not (rev rs))"

lemma trailing_snoc [simp]:
  "trailing [] = 0" "trailing (rs @ [True]) = 0" "trailing (rs @ [False]) = Suc (trailing rs)"
  by (simp_all add: trailing_def)

definition has_run :: "nat \<Rightarrow> bool list \<Rightarrow> bool" where
  "has_run n rs \<longleftrightarrow> (\<exists>pre post. rs = pre @ replicate n False @ post)"

lemma trailing_split: "\<exists>pre. rs = pre @ replicate (trailing rs) False"
proof -
  have "rev rs = takeWhile Not (rev rs) @ dropWhile Not (rev rs)" by simp
  then have "rs = rev (dropWhile Not (rev rs)) @ rev (takeWhile Not (rev rs))"
    by (metis rev_append rev_rev_ident)
  moreover have "takeWhile Not (rev rs) = replicate (trailing rs) False"
    unfolding trailing_def by (rule replicate_eqI) (auto dest: set_takeWhileD)
  ultimately show ?thesis by (metis rev_replicate)
qed

lemma replicate_Suc_snoc: "replicate (Suc k) x = replicate k x @ [x]"
  by (simp add: replicate_append_same)

lemma trailing_ge: "k \<le> trailing (pre @ replicate k False)"
proof (induction k)
  case (Suc k)
  have "pre @ replicate (Suc k) False = (pre @ replicate k False) @ [False]"
    unfolding replicate_Suc_snoc by simp
  with Suc show ?case by (simp only: trailing_snoc)
qed simp

lemma has_run_snoc:
  assumes "0 < n"
  shows "has_run n (rs @ [r]) \<longleftrightarrow> has_run n rs \<or> (\<not> r \<and> n \<le> Suc (trailing rs))"
proof
  assume "has_run n (rs @ [r])"
  then obtain pre post where e: "rs @ [r] = pre @ replicate n False @ post" by (auto simp: has_run_def)
  show "has_run n rs \<or> (\<not> r \<and> n \<le> Suc (trailing rs))"
  proof (cases post rule: rev_cases)
    case Nil
    obtain k where n: "n = Suc k" using assms by (cases n) auto
    have "replicate n False = replicate k False @ [False]" unfolding n by (rule replicate_Suc_snoc)
    with e Nil have "rs = pre @ replicate k False" "r = False" by auto
    then show ?thesis using trailing_ge[of k pre] n by simp
  next
    case (snoc ys y)
    with e have "rs = pre @ replicate n False @ ys" by simp
    then show ?thesis by (auto simp: has_run_def)
  qed
next
  assume a: "has_run n rs \<or> (\<not> r \<and> n \<le> Suc (trailing rs))"
  then show "has_run n (rs @ [r])"
  proof
    assume "has_run n rs"
    then obtain pre post where "rs = pre @ replicate n False @ post" by (auto simp: has_run_def)
    then have "rs @ [r] = pre @ replicate n False @ (post @ [r])" by simp
    then show ?thesis unfolding has_run_def by blast
  next
    assume r: "\<not> r \<and> n \<le> Suc (trailing rs)"
    obtain pre where pre: "rs = pre @ replicate (trailing rs) False" using trailing_split by blast
    define k where "k = trailing rs - (n - 1)"
    have k: "trailing rs = k + (n - 1)" using r assms by (simp add: k_def)
    have n1: "Suc (n - 1) = n" using assms by simp
    have "rs = (pre @ replicate k False) @ replicate (n - 1) False"
      using pre unfolding k replicate_add by simp
    moreover have "r = False" using r by simp
    ultimately have "rs @ [r] = (pre @ replicate k False) @ replicate (Suc (n - 1)) False @ []"
      unfolding replicate_Suc_snoc by (metis append.assoc append_Nil2)
    then show ?thesis unfolding has_run_def n1 by blast
  qed
qed

lemma run_results_snoc: "run_results cfg now (rs @ [r]) b = cb_record cfg now r (run_results cfg now rs b)"
  by (simp add: run_results_def)

lemma closed_run:
  assumes "limits_ok cfg"
  shows "cb_state (run_results cfg now rs new_breaker) =
      (if has_run (nat (bc_FailureThreshold cfg)) rs then cbOpen else cbClosed) \<and>
    cb_failures (run_results cfg now rs new_breaker) = int (trailing rs)"
proof (induction rs rule: rev_induct)
  case Nil
  have "\<not> has_run (nat (bc_FailureThreshold cfg)) []"
    using assms by (simp add: has_run_def limits_ok_def)
  then show ?case by (simp add: run_results_def new_breaker_def)
next
  case (snoc r rs)
  have n: "0 < nat (bc_FailureThreshold cfg)" using assms by (simp add: limits_ok_def)
  show ?case
    using snoc unfolding run_results_snoc has_run_snoc[OF n]
    by (auto simp: cb_record_def Let_def nat_le_iff)
qed

section \<open>Properties\<close>

text \<open>
  C14: a breaker that starts closed is open after a sequence of results exactly when the
  sequence contains the threshold's number of failures in a row; any success in between
  starts the count again, and no success closes it once it is open.
\<close>

theorem breaker_trips_iff:
  assumes "0 < bc_FailureThreshold cfg" and "0 < bc_HalfOpenMaxCalls cfg"
  shows "cb_state (run_results cfg now rs new_breaker) =
    (if \<exists>pre post. rs = pre @ replicate (nat (bc_FailureThreshold cfg)) False @ post
     then cbOpen else cbClosed)"
  using closed_run[of cfg now rs] assms by (simp add: has_run_def limits_ok_def)

definition demo_breaker :: breaker_config where
  "demo_breaker = \<lparr>bc_Enabled = True, bc_FailureThreshold = 2, bc_ResetTimeout = 10, bc_HalfOpenMaxCalls = 3\<rparr>"

lemma breaker_trips_iff_witness:
  "cb_state (run_results demo_breaker 0 [False, True, False, False] new_breaker) = cbOpen"
proof -
  have p: "0 < bc_FailureThreshold demo_breaker" "0 < bc_HalfOpenMaxCalls demo_breaker"
    by (simp_all add: demo_breaker_def)
  have "[False, True, False, False] = [False, True] @ replicate (nat (bc_FailureThreshold demo_breaker)) False @ []"
    by (simp add: demo_breaker_def numeral_2_eq_2)
  then show ?thesis using breaker_trips_iff[OF p, of 0 "[False, True, False, False]"] by metis
qed

text \<open>
  An open breaker refuses every call until the reset timeout has passed since the last
  failure; the first check after it half-opens the breaker with both counters at zero. From
  then on every call is let through, and the breaker stays half-open, counting failures and
  successes separately, until one of the counts reaches its limit: a single failure does not
  open it again unless the threshold is one.
\<close>

theorem breaker_half_open:
  assumes "cb_state b = cbOpen"
  shows "(if now - cb_lastFailure b \<le> bc_ResetTimeout cfg then cb_check cfg now b = (b, True)
      else snd (cb_check cfg now b) = False \<and>
        (int (count_list rs True) < bc_HalfOpenMaxCalls cfg \<and>
         int (count_list rs False) < bc_FailureThreshold cfg \<longrightarrow>
           cb_state (run_results cfg t rs (fst (cb_check cfg now b))) = cbHalfOpen \<and>
           cb_failures (run_results cfg t rs (fst (cb_check cfg now b))) = int (count_list rs False) \<and>
           cb_successes (run_results cfg t rs (fst (cb_check cfg now b))) = int (count_list rs True)))"
proof (cases "now - cb_lastFailure b \<le> bc_ResetTimeout cfg")
  case False
  let ?b = "b\<lparr>cb_state := cbHalfOpen, cb_failures := 0, cb_successes := 0\<rparr>"
  have c: "cb_check cfg now b = (?b, False)" using assms False by (simp add: cb_check_def)
  have "int (count_list rs True) < bc_HalfOpenMaxCalls cfg \<Longrightarrow>
      int (count_list rs False) < bc_FailureThreshold cfg \<Longrightarrow>
      cb_state (run_results cfg t rs ?b) = cbHalfOpen \<and>
      cb_failures (run_results cfg t rs ?b) = int (count_list rs False) \<and>
      cb_successes (run_results cfg t rs ?b) = int (count_list rs True)"
  proof (induction rs rule: rev_induct)
    case Nil
    show ?case by (simp add: run_results_def)
  next
    case (snoc r rs)
    then show ?case
      by (cases r) (simp_all add: run_results_snoc cb_record_def Let_def)
  qed
  with c False show ?thesis by simp
qed (use assms in \<open>simp add: cb_check_def\<close>)

lemma breaker_half_open_witness:
  "cb_state (run_results demo_breaker 20 [False, True]
     (fst (cb_check demo_breaker 20 (new_breaker\<lparr>cb_state := cbOpen\<rparr>)))) = cbHalfOpen"
proof -
  have o: "cb_state (new_breaker\<lparr>cb_state := cbOpen\<rparr>) = cbOpen" by simp
  show ?thesis
    using breaker_half_open[OF o, of 20 demo_breaker "[False, True]" 20]
    by (simp add: demo_breaker_def new_breaker_def)
qed

text \<open>
  In every run of checks and results a breaker that is not open has counted fewer
  failures than the threshold, and one that is half-open fewer successes than it needs.
\<close>

theorem breaker_invariant:
  assumes "0 < bc_FailureThreshold cfg" and "0 < bc_HalfOpenMaxCalls cfg"
  shows "cb_ok cfg (fold (cb_step cfg) es new_breaker)"
proof -
  have l: "limits_ok cfg" using assms by (simp add: limits_ok_def)
  have "cb_ok cfg new_breaker" using assms by (simp add: cb_ok_def new_breaker_def)
  moreover have "cb_ok cfg b \<Longrightarrow> cb_ok cfg (fold (cb_step cfg) es b)" for b
    by (induction es arbitrary: b) (auto intro: cb_ok_step[OF l])
  ultimately show ?thesis by blast
qed

lemma breaker_invariant_witness:
  "cb_ok demo_breaker (fold (cb_step demo_breaker) [Result 1 False, Check 2, Result 3 False] new_breaker)"
  by (rule breaker_invariant) (simp_all add: demo_breaker_def)

end
