(* ===== verification/Providers.thy ===== *)
theory Providers
  imports Router Metrics Breaker
begin

text \<open>
  The provider calls of core/filesystem.go: \<open>providerFor\<close>, \<open>invokeProvider\<close> with the
  filesystem's result cache, and \<open>deterministicCacheKey\<close>.

  Providers, the clock and encoding/json belong to the environment. An environment acts on a
  world of its own, of any type: invoking a provider may change it. \<open>env_invoke\<close> gets the
  provider, the action, the timeout of the call (0 when it only has the caller's context) and
  the parameters. \<open>env_now\<close> is time.Now, and \<open>env_done\<close> the time at which an operation ends
  that leaves the world as it is.
\<close>

section \<open>The environment\<close>

datatype json = JStr string | JRaw bytes | JNull

record dynamic_entry =
  dy_Name :: string
  dy_Kind :: string
  dy_Mode :: string

text \<open>
  \<open>env_names\<close> and \<open>env_wrapped\<close> are json.Unmarshal into a slice of strings and into the
  struct with the field entries (its slice, None when it is nil); \<open>env_json_ok\<close> says whether
  a text is valid JSON; \<open>env_marshal\<close> is json.Marshal of a map.
\<close>

record 'w env =
  env_now :: "'w \<Rightarrow> time"
  env_done :: "'w \<Rightarrow> time"
  env_invoke :: "'w \<Rightarrow> string \<Rightarrow> string \<Rightarrow> duration \<Rightarrow> params \<Rightarrow> 'w \<times> (go_error + provider_result option)"
  env_health :: "'w \<Rightarrow> string \<Rightarrow> go_error option option"
  env_names :: "bytes \<Rightarrow> string list option"
  env_wrapped :: "bytes \<Rightarrow> dynamic_entry list option option"
  env_json_ok :: "string \<Rightarrow> bool"
  env_marshal :: "(string \<times> json) list \<Rightarrow> bytes"
  env_render :: "string \<Rightarrow> skill_config \<Rightarrow> go_error + string"
  env_secs :: "u64 \<Rightarrow> string"

section \<open>The cache key\<close>

definition sp_join :: "string list \<Rightarrow> string" where
  "sp_join ss = join_with (CHR '' '') ss"

text \<open>The verb %v: maps print their keys in order.\<close>

fun fmt_v :: "pvalue \<Rightarrow> string" where
  "fmt_v (PStr s) = s"
| "fmt_v (PNum t) = t"
| "fmt_v (PBool b) = (if b then ''true'' else ''false'')"
| "fmt_v PNil = ''<nil>''"
| "fmt_v (PList vs) = ''['' @ sp_join (map fmt_v vs) @ '']''"
| "fmt_v (PMap kvs) =
     ''map['' @ sp_join (map (\<lambda>(k, t). k @ '':'' @ t)
                    (sort_key fst (map (\<lambda>(k, v). (k, fmt_v v)) kvs))) @ '']''"

definition deterministicCacheKey :: "string \<Rightarrow> string \<Rightarrow> params \<Rightarrow> string" where
  "deterministicCacheKey providerID action ps =
     providerID @ ''|'' @ action @
     (if 0 < length ps then
        concat (map (\<lambda>k. ''|'' @ k @ ''='' @ fmt_v (the (map_of ps k))) (sort (map fst ps)))
      else [])"

section \<open>Calls\<close>

definition cb_refusal :: "string \<Rightarrow> go_error" where
  "cb_refusal i = PlainError (''circuit breaker open for provider '' @ i)"

definition providerFor ::
  "breaker_config \<Rightarrow> time \<Rightarrow> string list \<Rightarrow> breakers \<Rightarrow> mount_entry \<Rightarrow> op_code \<Rightarrow> string \<Rightarrow>
   breakers \<times> (go_error + cap_config)" where
  "providerFor cfg now providers bs m o1 path =
     (case map_of (me_Ops m) o1 of
        None \<Rightarrow> (bs, Inl (posix ENOSYS o1 path None))
      | Some None \<Rightarrow> (bs, Inl (posix ENOSYS o1 path None))
      | Some (Some cap) \<Rightarrow>
          (if cc_ProviderID cap \<notin> set providers then (bs, Inl (posix ECOMM o1 path None))
           else (let (bs', refused) = breakerOpen cfg now (cc_ProviderID cap) bs
                 in (bs', if refused
                          then Inl (posix ECOMM o1 path (Some (cb_refusal (cc_ProviderID cap))))
                          else Inr cap))))"

type_synonym provider_cache = "(string \<times> (provider_result \<times> time)) list"

definition cache_fetch :: "provider_cache \<Rightarrow> string \<Rightarrow> time \<Rightarrow> provider_result option" where
  "cache_fetch c key now =
     (case map_of c key of
        None \<Rightarrow> None
      | Some (r, expires) \<Rightarrow> if now < expires then Some r else None)"

definition cache_keep :: "string \<Rightarrow> provider_result \<Rightarrow> time \<Rightarrow> provider_cache \<Rightarrow> provider_cache" where
  "cache_keep key r expires c = mput key (r, expires) c"

interpretation result_cache: ttl_cache cache_fetch cache_keep
  by unfold_locales (auto simp: cache_fetch_def cache_keep_def split: option.splits if_splits)

definition path_params :: "param_set \<Rightarrow> params" where
  "path_params ps = fold (\<lambda>(k, v) m. mput k (PStr v) m) (ps_Each ps) []"

record 'w call_state =
  cs_cache :: provider_cache
  cs_metrics :: metrics
  cs_world :: 'w

text \<open>The data of a result may be a nil slice and a nil result gives nil data: both are None.\<close>

definition invokeProvider ::
  "'w env \<Rightarrow> cap_config \<Rightarrow> op_code \<Rightarrow> string \<Rightarrow> param_set \<Rightarrow> bytes \<Rightarrow> caller_identity \<Rightarrow>
   'w call_state \<Rightarrow> 'w call_state \<times> (go_error + bytes option)" where
  "invokeProvider env cap o1 path pathParams payload caller s =
     (case (case cc_ParamsFn cap of
              None \<Rightarrow> Inr (path_params pathParams)
            | Some f \<Rightarrow> f (ps_pairs pathParams) payload
                         \<lparr>oc_Path = path, oc_Op = o1, oc_Caller = caller\<rparr>) of
        Inl e \<Rightarrow> (s, Inl (posix EINVAL o1 path (Some e)))
      | Inr ps \<Rightarrow>
          (let key = deterministicCacheKey (cc_ProviderID cap) (cc_Action cap) ps;
               hit = (if 0 < cc_CacheTTL cap
                      then cache_fetch (cs_cache s) key (env_now env (cs_world s)) else None)
           in case hit of
                Some r \<Rightarrow> (s\<lparr>cs_metrics := recordCacheHit (cs_metrics s)\<rparr>, Inr (pr_Data r))
              | None \<Rightarrow>
                  (let s1 = (if 0 < cc_CacheTTL cap
                             then s\<lparr>cs_metrics := recordCacheMiss (cs_metrics s)\<rparr> else s);
                       (w', res) = env_invoke env (cs_world s1) (cc_ProviderID cap) (cc_Action cap)
                                     (if 0 < cc_Timeout cap then cc_Timeout cap else 0) ps;
                       s2 = s1\<lparr>cs_world := w'\<rparr>
                   in case res of
                        Inl e \<Rightarrow> (s2, Inl (the (MapProviderError (Some e) o1 path)))
                      | Inr None \<Rightarrow> (s2, Inr None)
                      | Inr (Some r) \<Rightarrow>
                          (if 0 < cc_CacheTTL cap
                           then (s2\<lparr>cs_cache := cache_keep key r (env_now env w' + cc_CacheTTL cap)
                                                 (cs_cache s2)\<rparr>, Inr (pr_Data r))
                           else (s2, Inr (pr_Data r))))))"

section \<open>Lemmas on the key\<close>

definition plain :: "string \<Rightarrow> bool" where
  "plain s \<longleftrightarrow> CHR ''|'' \<notin> set s \<and> CHR ''='' \<notin> set s"

definition plain_params :: "params \<Rightarrow> bool" where
  "plain_params ps \<longleftrightarrow> distinct (map fst ps) \<and>
     (\<forall>kv\<in>set ps. plain (fst kv) \<and> (\<exists>s. snd kv = PStr s \<and> CHR ''|'' \<notin> set s))"

text \<open>The pieces of a key between the bars.\<close>

definition key_pieces :: "params \<Rightarrow> string list" where
  "key_pieces ps = map (\<lambda>k. k @ ''='' @ fmt_v (the (map_of ps k))) (sort (map fst ps))"

lemma key_eq: "deterministicCacheKey pid act ps =
  pid @ ''|'' @ act @ concat (map (\<lambda>p. ''|'' @ p) (key_pieces ps))"
  by (simp add: deterministicCacheKey_def key_pieces_def comp_def)

lemma split_bars:
  "\<forall>p\<in>set pcs. CHR ''|'' \<notin> set p \<Longrightarrow> CHR ''|'' \<notin> set s \<Longrightarrow>
   split_on (CHR ''|'') (s @ concat (map (\<lambda>p. ''|'' @ p) pcs)) = s # pcs"
proof (induction pcs arbitrary: s)
  case Nil
  then show ?case by (simp add: split_on_no_sep)
next
  case (Cons p pcs)
  then show ?case by (simp add: split_on_append)
qed

lemma pieces_no_bar: "plain_params ps \<Longrightarrow> \<forall>p\<in>set (key_pieces ps). CHR ''|'' \<notin> set p"
  unfolding key_pieces_def plain_params_def plain_def by (auto simp: map_of_eq_Some_iff)

lemma plain_lookup:
  "plain_params ps \<Longrightarrow> k \<in> set (map fst ps) \<Longrightarrow>
   \<exists>s. map_of ps k = Some (PStr s) \<and> CHR ''='' \<notin> set k"
  unfolding plain_params_def plain_def by (auto simp: map_of_eq_Some_iff) (metis fst_conv snd_conv)

text \<open>A piece gives back its key and its value.\<close>

lemma piece_inj:
  "CHR ''='' \<notin> set k \<Longrightarrow> CHR ''='' \<notin> set k' \<Longrightarrow> k @ ''='' @ v = k' @ ''='' @ v' \<Longrightarrow> k = k' \<and> v = v'"
proof -
  assume a: "CHR ''='' \<notin> set k" "CHR ''='' \<notin> set k'" "k @ ''='' @ v = k' @ ''='' @ v'"
  have t: "takeWhile (\<lambda>c. c \<noteq> CHR ''='') (x @ ''='' @ y) = x" if "CHR ''='' \<notin> set x" for x y
    using that by (induction x) auto
  from a have "k = k'" using t by metis
  with a show ?thesis by simp
qed

lemma pieces_inj:
  assumes "plain_params ps" and "plain_params qs" and "key_pieces ps = key_pieces qs"
  shows "map_of ps = map_of qs"
proof -
  let ?f = "\<lambda>m k. k @ ''='' @ fmt_v (the (map_of m k))"
  have tw: "map (takeWhile (\<lambda>c. c \<noteq> CHR ''='')) (key_pieces ps) = sort (map fst ps)"
    if p: "plain_params ps" for ps
  proof -
    have "takeWhile (\<lambda>c. c \<noteq> CHR ''='') (x @ ''='' @ y) = x" if "CHR ''='' \<notin> set x" for x y
      using that by (induction x) auto
    then show ?thesis
      using plain_lookup[OF p] by (auto simp: key_pieces_def intro!: map_idI)
  qed
  have keys: "sort (map fst ps) = sort (map fst qs)" using tw[OF assms(1)] tw[OF assms(2)] assms(3) by simp
  then have ks: "set (map fst ps) = set (map fst qs)" by (metis set_sort)
  show ?thesis
  proof
    fix k
    show "map_of ps k = map_of qs k"
    proof (cases "k \<in> set (map fst ps)")
      case True
      then obtain s t where s: "map_of ps k = Some (PStr s)" "map_of qs k = Some (PStr t)"
        and k: "CHR ''='' \<notin> set k" using plain_lookup assms(1,2) ks by metis
      have "\<forall>x\<in>set (sort (map fst ps)). ?f ps x = ?f qs x"
        using assms(3) unfolding key_pieces_def keys by simp
      moreover have "k \<in> set (sort (map fst ps))" using True by simp
      ultimately have "?f ps k = ?f qs k" by (rule bspec)
      with s show ?thesis by simp
    next
      case False
      then show ?thesis using ks by (metis list.set_map map_of_eq_None_iff)
    qed
  qed
qed

section \<open>Properties\<close>

text \<open>
  The cache key does not depend on the order of the parameters, and it determines the
  provider, the action and the parameters as long as none of them has a bar in it, the names
  have no equals sign and the values are strings.
\<close>

theorem cache_key_determines:
  assumes "CHR ''|'' \<notin> set pid" and "CHR ''|'' \<notin> set act" and "plain_params ps"
    and "CHR ''|'' \<notin> set pid'" and "CHR ''|'' \<notin> set act'" and "plain_params qs"
  shows "deterministicCacheKey pid act ps = deterministicCacheKey pid' act' qs \<longleftrightarrow>
    pid = pid' \<and> act = act' \<and> map_of ps = map_of qs"
proof
  have s: "split_on (CHR ''|'') (deterministicCacheKey i a ms) = i # a # key_pieces ms"
    if "CHR ''|'' \<notin> set i" "CHR ''|'' \<notin> set a" "plain_params ms" for i a ms
    using that split_bars[OF pieces_no_bar[OF that(3)] that(2)]
    by (simp add: key_eq split_on_append)
  assume "deterministicCacheKey pid act ps = deterministicCacheKey pid' act' qs"
  then have "pid # act # key_pieces ps = pid' # act' # key_pieces qs"
    using s assms by metis
  then show "pid = pid' \<and> act = act' \<and> map_of ps = map_of qs"
    using pieces_inj[OF assms(3,6)] by simp
next
  assume e: "pid = pid' \<and> act = act' \<and> map_of ps = map_of qs"
  then have "set (map fst ps) = set (map fst qs)" by (metis dom_map_of_conv_image_fst list.set_map)
  moreover have "distinct (map fst ps)" "distinct (map fst qs)" using assms by (auto simp: plain_params_def)
  ultimately have "sort (map fst ps) = sort (map fst qs)" by (metis sorted_list_of_set_sort_remdups distinct_remdups_id)
  then show "deterministicCacheKey pid act ps = deterministicCacheKey pid' act' qs"
    using e by (simp add: key_eq key_pieces_def)
qed

lemma cache_key_determines_witness:
  "deterministicCacheKey ''p'' ''get'' [(''b'', PStr ''2''), (''a'', PStr ''1'')] =
   deterministicCacheKey ''p'' ''get'' [(''a'', PStr ''1''), (''b'', PStr ''2'')]"
proof -
  have p: "plain_params [(''b'', PStr ''2''), (''a'', PStr ''1'')]"
    "plain_params [(''a'', PStr ''1''), (''b'', PStr ''2'')]"
    by (simp_all add: plain_params_def plain_def)
  have b: "CHR ''|'' \<notin> set ''p''" "CHR ''|'' \<notin> set ''get''" by simp_all
  show ?thesis
    by (rule iffD2[OF cache_key_determines[OF b p(1) b p(2)]]) (auto simp: fun_upd_def)
qed

definition two_params :: "string \<Rightarrow> string \<Rightarrow> param_set" where
  "two_params v w = ps_set ''b'' w (ps_set ''a'' v empty_params)"

text \<open>
  Without that restriction the key does not determine the parameters. Two different paths
  of one mount with two path parameters get the same key, so the second reader is given the
  first one's cached result.
\<close>

theorem cache_key_collides:
  "path_params (two_params ''1|b=2'' ''3'') \<noteq> path_params (two_params ''1'' ''2|b=3'') \<and>
   deterministicCacheKey i act (path_params (two_params ''1|b=2'' ''3'')) =
   deterministicCacheKey i act (path_params (two_params ''1'' ''2|b=3''))"
proof -
  have e: "ps_Each (two_params v w) = [(''a'', v), (''b'', w)]" for v w
    by (simp add: two_params_def Each_set inlineParams_def)
  show ?thesis
    unfolding path_params_def e
    by (simp add: deterministicCacheKey_def less_eq_char_def insort_key.simps)
qed

text \<open>
  A result that a provider returned is given again to every call with the same key until
  the mount's time to live has passed since the call, without the provider being asked, and
  the hit is counted. At the first call after that the provider is asked again.
\<close>

theorem provider_cache_reuse:
  assumes "0 < cc_CacheTTL cap" and "cc_ParamsFn cap = None"
    and "cache_fetch (cs_cache s) (deterministicCacheKey (cc_ProviderID cap) (cc_Action cap)
           (path_params pp)) (env_now env (cs_world s)) = None"
    and "invokeProvider env cap o1 path pp payload caller s = (s', Inr (Some d))"
  shows "(env_now env w2 < env_now env (cs_world s') + cc_CacheTTL cap \<longrightarrow>
      invokeProvider env cap o2 path2 pp payload2 caller2 (s'\<lparr>cs_world := w2\<rparr>) =
        (s'\<lparr>cs_world := w2, cs_metrics := recordCacheHit (cs_metrics s')\<rparr>, Inr (Some d))) \<and>
    (env_now env (cs_world s') + cc_CacheTTL cap \<le> env_now env w2 \<longrightarrow>
      cs_world (fst (invokeProvider env cap o2 path2 pp payload2 caller2 (s'\<lparr>cs_world := w2\<rparr>))) =
        fst (env_invoke env w2 (cc_ProviderID cap) (cc_Action cap)
               (if 0 < cc_Timeout cap then cc_Timeout cap else 0) (path_params pp)))"
proof -
  let ?k = "deterministicCacheKey (cc_ProviderID cap) (cc_Action cap) (path_params pp)"
  obtain w' res where inv: "env_invoke env (cs_world s) (cc_ProviderID cap) (cc_Action cap)
      (if 0 < cc_Timeout cap then cc_Timeout cap else 0) (path_params pp) = (w', res)" by fastforce
  from assms inv obtain r where r: "res = Inr (Some r)" "pr_Data r = Some d"
    and s': "s' = s\<lparr>cs_metrics := recordCacheMiss (cs_metrics s), cs_world := w',
      cs_cache := cache_keep ?k r (env_now env w' + cc_CacheTTL cap) (cs_cache s)\<rparr>"
    by (auto simp: invokeProvider_def Let_def split: sum.splits option.splits)
  have f: "cache_fetch (cs_cache s') ?k now =
      (if now < env_now env (cs_world s') + cc_CacheTTL cap then Some r else None)" for now
    unfolding s' by (simp add: result_cache.keep_law)
  show ?thesis
  proof (intro conjI impI)
    assume "env_now env w2 < env_now env (cs_world s') + cc_CacheTTL cap"
    with f r assms show "invokeProvider env cap o2 path2 pp payload2 caller2 (s'\<lparr>cs_world := w2\<rparr>) =
        (s'\<lparr>cs_world := w2, cs_metrics := recordCacheHit (cs_metrics s')\<rparr>, Inr (Some d))"
      by (simp add: invokeProvider_def Let_def)
  next
    assume "env_now env (cs_world s') + cc_CacheTTL cap \<le> env_now env w2"
    with f assms show "cs_world (fst (invokeProvider env cap o2 path2 pp payload2 caller2
          (s'\<lparr>cs_world := w2\<rparr>))) =
        fst (env_invoke env w2 (cc_ProviderID cap) (cc_Action cap)
               (if 0 < cc_Timeout cap then cc_Timeout cap else 0) (path_params pp))"
      by (auto simp: invokeProvider_def Let_def split_beta split: sum.splits option.splits)
  qed
qed

text \<open>A world that is the clock, with one provider that answers with the time.\<close>

definition clock_env :: "int env" where
  "clock_env =
     \<lparr>env_now = id, env_done = id,
      env_invoke = (\<lambda>w i act t ps. (w + 1, Inr (Some \<lparr>pr_Data = Some (dec_text (nat w)),
         pr_Meta = [], pr_ContentType = []\<rparr>))),
      env_health = (\<lambda>w i. None), env_names = (\<lambda>d. None), env_wrapped = (\<lambda>d. None),
      env_json_ok = (\<lambda>s. True), env_marshal = (\<lambda>kvs. []), env_render = (\<lambda>t c. Inr t),
      env_secs = (\<lambda>w. [])\<rparr>"

definition clock_cap :: cap_config where
  "clock_cap = \<lparr>cc_ProviderID = ''clock'', cc_Action = ''get'', cc_ParamsFn = None, cc_Async = False,
     cc_Timeout = 0, cc_CacheTTL = 10\<rparr>"

lemma provider_cache_reuse_witness:
  defines "s0 \<equiv> \<lparr>cs_cache = [], cs_metrics = newMetrics, cs_world = (3 :: int)\<rparr>"
  shows "snd (invokeProvider clock_env clock_cap OpRead ''/t'' empty_params [] anonymous
     ((fst (invokeProvider clock_env clock_cap OpRead ''/t'' empty_params [] anonymous s0))\<lparr>cs_world := 9\<rparr>)) =
   Inr (Some (dec_text 3))"
proof -
  let ?s1 = "fst (invokeProvider clock_env clock_cap OpRead ''/t'' empty_params [] anonymous s0)"
  have c: "0 < cc_CacheTTL clock_cap" "cc_ParamsFn clock_cap = None" by (simp_all add: clock_cap_def)
  have m: "cache_fetch (cs_cache s0) k (env_now clock_env (cs_world s0)) = None" for k
    by (simp add: s0_def cache_fetch_def)
  have i: "invokeProvider clock_env clock_cap OpRead ''/t'' empty_params [] anonymous s0 =
      (?s1, Inr (Some (dec_text 3)))"
    by (simp add: invokeProvider_def clock_cap_def clock_env_def s0_def cache_fetch_def Let_def)
  have w: "cs_world ?s1 = 4"
    by (simp add: invokeProvider_def clock_cap_def clock_env_def s0_def cache_fetch_def Let_def)
  show ?thesis
    using provider_cache_reuse[OF c m i, of 9 OpRead "''/t''" "[]" anonymous] w
    by (simp add: clock_env_def clock_cap_def)
qed

end
