(* ===== verification/Streams.thy ===== *)
theory Streams
  imports Types Tables "HOL-Library.Sublist"
begin

text \<open>
  core/stream.go: the byte rings behind stream mounts and the manager that owns them. A ring
  is its array with the read and write positions and the count, which the eviction loop of
  the drop mode can drive below zero, so it is an integer.

  Read and write hold the ring's mutex from the first to the last step except while they
  wait. A call that has to wait is \<open>Block\<close>: nothing was changed, and when it is woken
  it tests the same conditions again in the state it then finds, which is what running the
  operation again in that state does.

  The abstract view is a bounded queue of bytes. The ring is shown to be that queue for each
  of the three modes; a locale states the law of such a queue and derives from it that no
  byte is invented, duplicated or reordered, and that none is lost unless the mode drops.
\<close>

section \<open>The ring\<close>

definition defaultStreamCapacity :: nat where
  "defaultStreamCapacity = 64 * 1024"

definition streamReadChunk :: nat where
  "streamReadChunk = 64 * 1024"

record stream_buffer =
  sb_buf :: bytes
  sb_r :: nat
  sb_w :: nat
  sb_count :: int
  sb_capacity :: nat
  sb_mode :: backpressure
  sb_maxChunkSize :: nat
  sb_closed :: bool

definition newStreamBuffer :: "stream_config option \<Rightarrow> stream_buffer" where
  "newStreamBuffer cfg =
     (let cap = (case cfg of None \<Rightarrow> defaultStreamCapacity
                 | Some c \<Rightarrow> if 0 < sc_Capacity c then nat (sc_Capacity c) else defaultStreamCapacity);
          mode = (case cfg of None \<Rightarrow> BackpressureBlock | Some c \<Rightarrow> sc_Mode c);
          chunkSize = (case cfg of None \<Rightarrow> streamReadChunk
                       | Some c \<Rightarrow> if 0 < sc_MaxChunkSize c then nat (sc_MaxChunkSize c)
                                  else streamReadChunk)
      in \<lparr>sb_buf = replicate cap (CHR 0x00), sb_r = 0, sb_w = 0, sb_count = 0,
          sb_capacity = cap, sb_mode = mode, sb_maxChunkSize = chunkSize, sb_closed = False\<rparr>)"

text \<open>The copy loop of read; \<open>k\<close> is \<open>len(p) - n\<close>.\<close>

fun read_loop :: "nat \<Rightarrow> stream_buffer \<Rightarrow> stream_buffer \<times> bytes" where
  "read_loop 0 b = (b, [])"
| "read_loop (Suc k) b =
     (if 0 < sb_count b then
        (let (b', cs) = read_loop k
               (b\<lparr>sb_r := (sb_r b + 1) mod sb_capacity b, sb_count := sb_count b - 1\<rparr>)
         in (b', sb_buf b ! sb_r b # cs))
      else (b, []))"

text \<open>\<open>len\<close> is the length of the caller's slice; the result is what was copied into it.\<close>

definition sb_read ::
  "stream_buffer \<Rightarrow> nat \<Rightarrow> bool \<Rightarrow> (stream_buffer \<times> (go_error + bytes)) go" where
  "sb_read b len nonblock =
     (if sb_count b = 0 then
        (if sb_closed b then Return (b, Inr [])
         else if nonblock then Return (b, Inl (posix EAGAIN OpRead [] None))
         else Block)
      else (let (b', cs) = read_loop len b in Return (b', Inr cs)))"

text \<open>The eviction loop of the drop mode.\<close>

function drop_loop :: "nat \<Rightarrow> stream_buffer \<Rightarrow> stream_buffer" where
  "drop_loop len b =
     (if int len > int (sb_capacity b) - sb_count b
      then drop_loop len
             (b\<lparr>sb_r := (sb_r b + 1) mod sb_capacity b, sb_count := sb_count b - 1\<rparr>)
      else b)"
  by pat_completeness auto
termination
  by (relation "measure (\<lambda>(len, b). nat (int len - (int (sb_capacity b) - sb_count b)))") auto

declare drop_loop.simps [simp del]

fun write_loop :: "bytes \<Rightarrow> stream_buffer \<Rightarrow> stream_buffer" where
  "write_loop [] b = b"
| "write_loop (c # cs) b =
     write_loop cs (b\<lparr>sb_buf := (sb_buf b)[sb_w b := c],
                     sb_w := (sb_w b + 1) mod sb_capacity b, sb_count := sb_count b + 1\<rparr>)"

definition chunk_of :: "stream_buffer \<Rightarrow> bytes \<Rightarrow> bytes" where
  "chunk_of b p =
     (if 0 < sb_maxChunkSize b \<and> sb_maxChunkSize b < length p
      then take (sb_maxChunkSize b) p else p)"

definition sb_write ::
  "stream_buffer \<Rightarrow> bytes \<Rightarrow> bool \<Rightarrow> (stream_buffer \<times> (go_error + nat)) go" where
  "sb_write b p nonblock =
     (if sb_closed b then Return (b, Inl (posix EPIPE OpWrite [] None))
      else let toWrite = chunk_of b p;
               full = int (length toWrite) > int (sb_capacity b) - sb_count b
           in (case sb_mode b of
                 BackpressureError \<Rightarrow>
                   (if full then Return (b, Inl (posix ENOSPC OpWrite [] None))
                    else Return (write_loop toWrite b, Inr (length toWrite)))
               | BackpressureDrop \<Rightarrow>
                   Return (write_loop toWrite (drop_loop (length toWrite) b), Inr (length toWrite))
               | BackpressureBlock \<Rightarrow>
                   (if full then
                      (if nonblock then Return (b, Inl (posix EAGAIN OpWrite [] None)) else Block)
                    else Return (write_loop toWrite b, Inr (length toWrite)))))"

definition sb_close :: "stream_buffer \<Rightarrow> stream_buffer" where
  "sb_close b = b\<lparr>sb_closed := True\<rparr>"

section \<open>The manager\<close>

type_synonym stream_manager = "(string \<times> stream_buffer) list"

definition sm_getOrCreate ::
  "string \<Rightarrow> stream_config option \<Rightarrow> stream_manager \<Rightarrow> stream_manager \<times> stream_buffer" where
  "sm_getOrCreate path cfg sm =
     (case map_of sm path of
        Some b \<Rightarrow> (sm, b)
      | None \<Rightarrow> (let b = newStreamBuffer cfg in (mput path b sm, b)))"

text \<open>The buffer that remove closes is returned with the manager: calls that wait on it hold a
  pointer to it and go on in its closed state.\<close>

definition sm_remove :: "string \<Rightarrow> stream_manager \<Rightarrow> stream_manager \<times> stream_buffer option" where
  "sm_remove path sm =
     (case map_of sm path of
        None \<Rightarrow> (sm, None)
      | Some b \<Rightarrow> (mdel path sm, Some (sb_close b)))"

definition sm_closeAll :: "stream_manager \<Rightarrow> stream_manager" where
  "sm_closeAll sm = map (\<lambda>(path, b). (path, sb_close b)) sm"

definition sm_size :: "string \<Rightarrow> stream_manager \<Rightarrow> int" where
  "sm_size path sm = (case map_of sm path of None \<Rightarrow> 0 | Some b \<Rightarrow> sb_count b)"

text \<open>Every operation on a path shares one ring, whatever its configuration argument says.\<close>

interpretation stream_table: lazy_table map_of "\<lambda>path. sm_getOrCreate path cfg" for cfg
  by unfold_locales (auto simp: sm_getOrCreate_def Let_def split: option.splits)

section \<open>The ring is a bounded queue\<close>

definition contents :: "stream_buffer \<Rightarrow> bytes" where
  "contents b = take (nat (sb_count b)) (rotate (sb_r b) (sb_buf b))"

definition sb_ok :: "stream_buffer \<Rightarrow> bool" where
  "sb_ok b \<longleftrightarrow>
     0 < sb_capacity b \<and> 0 < sb_maxChunkSize b \<and> length (sb_buf b) = sb_capacity b \<and>
     sb_r b < sb_capacity b \<and> 0 \<le> sb_count b \<and> sb_count b \<le> int (sb_capacity b) \<and>
     sb_w b = (sb_r b + nat (sb_count b)) mod sb_capacity b"

text \<open>The array read from the write position on: the oldest byte first, the newest last.\<close>

lemma rotate_step: "r < length xs \<Longrightarrow>
  rotate r xs = xs ! r # take (length xs - 1) (rotate ((r + 1) mod length xs) xs)"
proof -
  assume r: "r < length xs"
  then have ne: "xs \<noteq> []" by auto
  let ?ys = "rotate r xs"
  have hd: "hd ?ys = xs ! r" using ne r by (simp add: hd_rotate_conv_nth)
  have "rotate ((r + 1) mod length xs) xs = rotate (Suc r) xs" by (simp add: rotate_conv_mod[symmetric])
  also have "\<dots> = tl ?ys @ [hd ?ys]" using ne by (simp add: rotate1_hd_tl)
  finally have "take (length xs - 1) (rotate ((r + 1) mod length xs) xs) = tl ?ys" using ne by simp
  with hd ne show ?thesis by (metis list.collapse rotate_is_Nil_conv)
qed

lemma rotate_store:
  assumes "w < length xs"
  shows "rotate ((w + 1) mod length xs) (xs[w := c]) = tl (rotate w xs) @ [c]"
proof -
  let ?v = "take w xs" and ?u = "drop (Suc w) xs"
  have xs: "xs = ?v @ xs ! w # ?u" using assms by (simp add: id_take_nth_drop[symmetric])
  have lv: "length ?v = w" using assms by simp
  have rot: "rotate w (?v @ d # ?u) = d # ?u @ ?v" for d
    using rotate_append[of ?v "d # ?u"] lv by simp
  have "xs[w := c] = ?v @ c # ?u" using assms by (rule upd_conv_take_nth_drop)
  then have "rotate w (xs[w := c]) = c # ?u @ ?v" using rot by simp
  then have "rotate (Suc w) (xs[w := c]) = ?u @ ?v @ [c]" by simp
  moreover have "rotate w xs = xs ! w # ?u @ ?v" using rot[of "xs ! w"] xs by simp
  moreover have "rotate ((w + 1) mod length xs) (xs[w := c]) = rotate (Suc w) (xs[w := c])"
    using rotate_conv_mod[of "Suc w" "xs[w := c]"] by simp
  ultimately show ?thesis by simp
qed

lemma rotate_count:
  "r < n \<Longrightarrow> length xs = n \<Longrightarrow> k \<le> n \<Longrightarrow>
   drop (n - k) (rotate ((r + k) mod n) xs) = take k (rotate r xs)"
proof -
  assume a: "r < n" "length xs = n" "k \<le> n"
  have "rotate ((r + k) mod n) xs = rotate k (rotate r xs)"
    using a rotate_conv_mod[of "r + k" xs] by (simp add: rotate_rotate add.commute)
  also have "\<dots> = (if k = n then rotate r xs else drop k (rotate r xs) @ take k (rotate r xs))"
    using a by (auto simp: rotate_drop_take)
  finally show ?thesis using a by auto
qed

lemma contents_tail:
  "sb_ok b \<Longrightarrow> contents b = drop (sb_capacity b - nat (sb_count b)) (rotate (sb_w b) (sb_buf b))"
  unfolding sb_ok_def contents_def by (simp add: rotate_count nat_le_iff)

lemma length_contents: "sb_ok b \<Longrightarrow> int (length (contents b)) = sb_count b"
  by (simp add: contents_def sb_ok_def min_absorb2 nat_le_iff)

lemma contents_Nil: "sb_ok b \<Longrightarrow> contents b = [] \<longleftrightarrow> sb_count b = 0"
  using length_contents[of b] by auto

text \<open>Reading takes bytes from the front.\<close>

lemma read_loop_ok:
  "sb_ok b \<Longrightarrow> read_loop k b = (b', cs) \<Longrightarrow>
   sb_ok b' \<and> cs = take k (contents b) \<and> contents b' = drop k (contents b) \<and>
   sb_mode b' = sb_mode b \<and> sb_closed b' = sb_closed b \<and> sb_capacity b' = sb_capacity b \<and>
   sb_maxChunkSize b' = sb_maxChunkSize b"
proof (induction k b arbitrary: b' cs rule: read_loop.induct)
  case (1 b)
  then show ?case by simp
next
  case (2 k b)
  show ?case
  proof (cases "0 < sb_count b")
    case True
    let ?b = "b\<lparr>sb_r := (sb_r b + 1) mod sb_capacity b, sb_count := sb_count b - 1\<rparr>"
    obtain n where n: "nat (sb_count b) = Suc n" "nat (sb_count ?b) = n"
      using True by (cases "nat (sb_count b)") auto
    have ok: "sb_ok ?b"
      using "2.prems"(1) True n by (auto simp: sb_ok_def mod_simps)
    have "nat (sb_count b) \<le> sb_capacity b" using "2.prems"(1) by (simp add: sb_ok_def nat_le_iff)
    with n have "n \<le> sb_capacity b - 1" by simp
    then have head: "contents b = sb_buf b ! sb_r b # contents ?b"
      using "2.prems"(1) n rotate_step[of "sb_r b" "sb_buf b"]
      by (simp add: contents_def sb_ok_def min_absorb1)
    obtain b1 cs1 where r: "read_loop k ?b = (b1, cs1)" by (cases "read_loop k ?b")
    with True "2.prems"(2) have "b' = b1" "cs = sb_buf b ! sb_r b # cs1" by simp_all
    with "2.IH"[OF True ok r] head show ?thesis by simp
  next
    case False
    with "2.prems" show ?thesis by (auto simp: contents_def sb_ok_def)
  qed
qed

text \<open>Writing appends, and pushes out of the array what no longer fits in it.\<close>

lemma write_loop_frame:
  "sb_r (write_loop cs b) = sb_r b" "sb_mode (write_loop cs b) = sb_mode b"
  "sb_closed (write_loop cs b) = sb_closed b" "sb_capacity (write_loop cs b) = sb_capacity b"
  "sb_maxChunkSize (write_loop cs b) = sb_maxChunkSize b"
  "sb_count (write_loop cs b) = sb_count b + int (length cs)"
  by (induction cs arbitrary: b) auto

lemma write_loop_tail:
  "length (sb_buf b) = sb_capacity b \<Longrightarrow> sb_w b < sb_capacity b \<Longrightarrow>
   length (sb_buf (write_loop cs b)) = sb_capacity b \<and>
   sb_w (write_loop cs b) = (sb_w b + length cs) mod sb_capacity b \<and>
   rotate (sb_w (write_loop cs b)) (sb_buf (write_loop cs b)) =
     drop (length cs) (rotate (sb_w b) (sb_buf b) @ cs)"
proof (induction cs arbitrary: b)
  case (Cons c cs)
  let ?b = "b\<lparr>sb_buf := (sb_buf b)[sb_w b := c], sb_w := (sb_w b + 1) mod sb_capacity b,
              sb_count := sb_count b + 1\<rparr>"
  have ne: "rotate (sb_w b) (sb_buf b) \<noteq> []" using Cons.prems by auto
  have "length (sb_buf ?b) = sb_capacity ?b" "sb_w ?b < sb_capacity ?b"
    using Cons.prems by simp_all
  note IH = Cons.IH[OF this]
  have step: "rotate (sb_w ?b) (sb_buf ?b) = tl (rotate (sb_w b) (sb_buf b)) @ [c]"
    using Cons.prems rotate_store[of "sb_w b" "sb_buf b" c] by simp
  have "drop (length cs) (rotate (sb_w ?b) (sb_buf ?b) @ cs) =
      drop (Suc (length cs)) (rotate (sb_w b) (sb_buf b) @ c # cs)"
    unfolding step using ne by (cases "rotate (sb_w b) (sb_buf b)") simp_all
  with IH[THEN conjunct2, THEN conjunct2]
  have tail: "rotate (sb_w (write_loop cs ?b)) (sb_buf (write_loop cs ?b)) =
      drop (Suc (length cs)) (rotate (sb_w b) (sb_buf b) @ c # cs)" by (rule trans)
  show ?case
  proof (intro conjI)
    show "length (sb_buf (write_loop (c # cs) b)) = sb_capacity b" using IH by simp
    show "sb_w (write_loop (c # cs) b) = (sb_w b + length (c # cs)) mod sb_capacity b"
      using IH by (simp add: mod_simps)
    show "rotate (sb_w (write_loop (c # cs) b)) (sb_buf (write_loop (c # cs) b)) =
        drop (length (c # cs)) (rotate (sb_w b) (sb_buf b) @ c # cs)"
      using tail by simp
  qed
qed simp

lemma drop_loop_eq:
  "0 < sb_capacity b \<Longrightarrow> sb_r b < sb_capacity b \<Longrightarrow>
   drop_loop len b = b\<lparr>sb_r := (sb_r b + nat (sb_count b - min (sb_count b) (int (sb_capacity b) - int len)))
                          mod sb_capacity b,
                        sb_count := min (sb_count b) (int (sb_capacity b) - int len)\<rparr>"
proof (induction len b rule: drop_loop.induct)
  case (1 len b)
  show ?case
  proof (cases "int len > int (sb_capacity b) - sb_count b")
    case True
    let ?b = "b\<lparr>sb_r := (sb_r b + 1) mod sb_capacity b, sb_count := sb_count b - 1\<rparr>"
    have "nat (sb_count b - min (sb_count b) (int (sb_capacity b) - int len)) =
        Suc (nat (sb_count ?b - min (sb_count ?b) (int (sb_capacity b) - int len)))"
      using True by simp
    moreover have "min (sb_count b) (int (sb_capacity b) - int len) =
        min (sb_count ?b) (int (sb_capacity b) - int len)"
      using True by simp
    ultimately show ?thesis
      using 1 True by (subst drop_loop.simps) (simp add: mod_simps)
  next
    case False
    then have "min (sb_count b) (int (sb_capacity b) - int len) = sb_count b" by simp
    with False 1 show ?thesis by (subst drop_loop.simps) simp
  qed
qed

text \<open>What is in the ring after a chunk was written over a ring whose count was lowered to
  \<open>k\<close>, below zero when the chunk is longer than the ring.\<close>

lemma write_contents:
  assumes ok: "sb_ok b" and k: "k \<le> sb_count b" "k + int (length cs) \<le> int (sb_capacity b)"
    and low: "0 \<le> k + int (length cs)"
    and b': "b' = write_loop cs (b\<lparr>sb_r := (sb_r b + nat (sb_count b - k)) mod sb_capacity b, sb_count := k\<rparr>)"
  shows "sb_ok b' \<and> contents b' = drop (nat (sb_count b - k)) (contents b @ cs)"
proof -
  let ?b = "b\<lparr>sb_r := (sb_r b + nat (sb_count b - k)) mod sb_capacity b, sb_count := k\<rparr>"
  let ?n = "sb_capacity b"
  from ok have w: "sb_w b < ?n" and buf: "length (sb_buf b) = ?n" and c: "0 \<le> sb_count b" "sb_count b \<le> int ?n"
    and weq: "sb_w b = (sb_r b + nat (sb_count b)) mod ?n" and pos: "0 < ?n"
    by (auto simp: sb_ok_def)
  have "length (sb_buf ?b) = sb_capacity ?b" "sb_w ?b < sb_capacity ?b" using w buf by simp_all
  note wt = write_loop_tail[OF this, of cs]
  have tail: "length (sb_buf b') = ?n" "sb_w b' = (sb_w b + length cs) mod ?n"
    "rotate (sb_w b') (sb_buf b') = drop (length cs) (rotate (sb_w b) (sb_buf b) @ cs)"
    unfolding b' using conjunct1[OF wt] conjunct1[OF conjunct2[OF wt]] conjunct2[OF conjunct2[OF wt]]
    by simp_all
  have cnt: "sb_count b' = k + int (length cs)" "sb_capacity b' = ?n"
    "sb_r b' = (sb_r b + nat (sb_count b - k)) mod ?n" "sb_maxChunkSize b' = sb_maxChunkSize b"
    unfolding b' by (simp_all add: write_loop_frame)
  have "nat (sb_count b) + length cs = nat (sb_count b - k) + nat (k + int (length cs))"
    using k(1) low c by (simp add: nat_add_distrib[symmetric] nat_int_add)
  then have sum: "sb_r b + nat (sb_count b) + length cs =
      sb_r b + nat (sb_count b - k) + nat (k + int (length cs))" by simp
  have "sb_w b' = (sb_r b' + nat (sb_count b')) mod ?n"
    unfolding tail(2) weq cnt by (simp only: mod_add_left_eq sum)
  then have ok': "sb_ok b'" using ok k low cnt tail(1) pos unfolding sb_ok_def by auto
  have "contents b' = drop (?n - nat (k + int (length cs))) (drop (length cs) (rotate (sb_w b) (sb_buf b) @ cs))"
    using contents_tail[OF ok'] tail(3) cnt by simp
  also have "\<dots> = drop (?n - nat (k + int (length cs)) + length cs) (rotate (sb_w b) (sb_buf b) @ cs)"
    by (simp only: drop_drop)
  also have "?n - nat (k + int (length cs)) + length cs = nat (sb_count b - k) + (?n - nat (sb_count b))"
    using k low c by linarith
  also have "drop (nat (sb_count b - k) + (?n - nat (sb_count b))) (rotate (sb_w b) (sb_buf b) @ cs) =
      drop (nat (sb_count b - k)) (contents b @ cs)"
  proof -
    have "drop (?n - nat (sb_count b)) (rotate (sb_w b) (sb_buf b) @ cs) = contents b @ cs"
      using contents_tail[OF ok] buf by simp
    then show ?thesis by (simp only: drop_drop[symmetric])
  qed
  finally show ?thesis using ok' by simp
qed

lemma chunk_of_take: "sb_ok b \<Longrightarrow> chunk_of b p = take (sb_maxChunkSize b) p"
  by (simp add: chunk_of_def sb_ok_def)

section \<open>The abstract queue\<close>

text \<open>The bytes in flight and whether the stream is closed; the limits are arguments.\<close>

definition fifo_read ::
  "bytes \<times> bool \<Rightarrow> nat \<Rightarrow> bool \<Rightarrow> ((bytes \<times> bool) \<times> (go_error + bytes)) go" where
  "fifo_read q n nonblock =
     (if fst q = [] \<and> snd q then Return (q, Inr [])
      else if fst q = [] then
        (if nonblock then Return (q, Inl (posix EAGAIN OpRead [] None)) else Block)
      else Return ((drop n (fst q), snd q), Inr (take n (fst q))))"

definition fifo_write ::
  "backpressure \<Rightarrow> nat \<Rightarrow> nat \<Rightarrow> bytes \<times> bool \<Rightarrow> bytes \<Rightarrow> bool \<Rightarrow>
   ((bytes \<times> bool) \<times> (go_error + nat)) go" where
  "fifo_write mode cap chunk q p nonblock =
     (let cs = take chunk p; new = fst q @ cs; over = length new - cap in
      if snd q then Return (q, Inl (posix EPIPE OpWrite [] None))
      else if over = 0 then Return ((new, False), Inr (length cs))
      else (case mode of
              BackpressureError \<Rightarrow> Return (q, Inl (posix ENOSPC OpWrite [] None))
            | BackpressureDrop \<Rightarrow> Return ((drop over new, False), Inr (length cs))
            | BackpressureBlock \<Rightarrow>
                (if nonblock then Return (q, Inl (posix EAGAIN OpWrite [] None)) else Block)))"

definition sb_abs :: "stream_buffer \<Rightarrow> bytes \<times> bool" where
  "sb_abs b = (contents b, sb_closed b)"

definition same_limits :: "stream_buffer \<Rightarrow> stream_buffer \<Rightarrow> bool" where
  "same_limits b b' \<longleftrightarrow> sb_mode b' = sb_mode b \<and> sb_capacity b' = sb_capacity b \<and>
     sb_maxChunkSize b' = sb_maxChunkSize b"

lemma sb_ok_new: "sb_ok (newStreamBuffer cfg) \<and> sb_abs (newStreamBuffer cfg) = ([], False)"
  by (auto simp: newStreamBuffer_def sb_ok_def sb_abs_def contents_def Let_def
      defaultStreamCapacity_def streamReadChunk_def split: option.split)

lemma sb_ok_close: "sb_ok b \<Longrightarrow> sb_ok (sb_close b) \<and> sb_abs (sb_close b) = (contents b, True)"
  by (simp add: sb_ok_def sb_close_def sb_abs_def contents_def)

lemma write_room:
  assumes "sb_ok b" and "length (contents b @ cs) \<le> sb_capacity b"
  shows "sb_ok (write_loop cs b) \<and> contents (write_loop cs b) = contents b @ cs"
proof -
  have "sb_count b + int (length cs) \<le> int (sb_capacity b)"
    using assms(2) length_contents[OF assms(1)] by simp
  moreover have "b = b\<lparr>sb_r := (sb_r b + nat (sb_count b - sb_count b)) mod sb_capacity b,
                       sb_count := sb_count b\<rparr>"
    using assms(1) by (simp add: sb_ok_def)
  ultimately show ?thesis
    using write_contents[OF assms(1), of "sb_count b" cs "write_loop cs b"] assms(1)
    by (simp add: sb_ok_def)
qed

lemma write_over:
  assumes ok: "sb_ok b" and over: "sb_capacity b < length (contents b @ cs)"
  shows "sb_ok (write_loop cs (drop_loop (length cs) b)) \<and>
    contents (write_loop cs (drop_loop (length cs) b)) =
      drop (length (contents b @ cs) - sb_capacity b) (contents b @ cs)"
proof -
  let ?k = "int (sb_capacity b) - int (length cs)"
  have len: "sb_count b = int (length (contents b))" using length_contents[OF ok] by simp
  have k: "?k \<le> sb_count b" "min (sb_count b) ?k = ?k" using over len by simp_all
  have d: "drop_loop (length cs) b =
      b\<lparr>sb_r := (sb_r b + nat (sb_count b - ?k)) mod sb_capacity b, sb_count := ?k\<rparr>"
    using drop_loop_eq[of b "length cs"] ok k by (simp add: sb_ok_def)
  have "nat (sb_count b - ?k) = length (contents b @ cs) - sb_capacity b"
    using len over by (simp add: nat_diff_distrib')
  then show ?thesis
    using write_contents[OF ok k(1), of cs "write_loop cs (drop_loop (length cs) b)"] d by simp
qed

lemma drop_loop_id: "int len \<le> int (sb_capacity b) - sb_count b \<Longrightarrow> drop_loop len b = b"
  by (subst drop_loop.simps) simp

lemma drop_loop_frame:
  "sb_mode (drop_loop len b) = sb_mode b" "sb_closed (drop_loop len b) = sb_closed b"
  "sb_capacity (drop_loop len b) = sb_capacity b"
  "sb_maxChunkSize (drop_loop len b) = sb_maxChunkSize b"
  by (induction len b rule: drop_loop.induct; subst drop_loop.simps; simp)+

lemma sb_write_refines:
  assumes ok: "sb_ok b"
  shows "map_go (apfst sb_abs) (sb_write b p nonblock) =
    fifo_write (sb_mode b) (sb_capacity b) (sb_maxChunkSize b) (sb_abs b) p nonblock"
proof -
  let ?cs = "chunk_of b p"
  have full: "int (length ?cs) > int (sb_capacity b) - sb_count b \<longleftrightarrow>
      sb_capacity b < length (contents b @ ?cs)"
    using length_contents[OF ok] by auto
  show ?thesis
  proof (cases "sb_capacity b < length (contents b @ ?cs)")
    case True
    then show ?thesis
      using full write_over[OF ok True]
      by (auto simp: sb_write_def fifo_write_def Let_def sb_abs_def chunk_of_take[OF ok, symmetric]
          write_loop_frame drop_loop_frame split: backpressure.split)
  next
    case False
    then have le: "length (contents b @ ?cs) \<le> sb_capacity b" by simp
    have id: "drop_loop (length ?cs) b = b" using False full by (intro drop_loop_id) simp
    show ?thesis
      using False full write_room[OF ok le] id le
      by (auto simp: sb_write_def fifo_write_def Let_def sb_abs_def chunk_of_take[OF ok, symmetric]
          write_loop_frame split: backpressure.split)
  qed
qed

lemma sb_write_ok:
  assumes ok: "sb_ok b" and w: "sb_write b p nonblock = Return (b', res)"
  shows "sb_ok b' \<and> same_limits b b'"
proof (cases "sb_capacity b < length (contents b @ chunk_of b p)")
  case True
  then have full: "int (length (chunk_of b p)) > int (sb_capacity b) - sb_count b"
    using length_contents[OF ok] by simp
  show ?thesis
    using ok w write_over[OF ok True] full
    by (auto simp: sb_write_def Let_def same_limits_def write_loop_frame drop_loop_frame
        split: if_splits backpressure.splits)
next
  case False
  then have le: "length (contents b @ chunk_of b p) \<le> sb_capacity b" by simp
  have id: "drop_loop (length (chunk_of b p)) b = b"
    using False length_contents[OF ok] by (intro drop_loop_id) simp
  show ?thesis
    using ok w write_room[OF ok le] id
    by (auto simp: sb_write_def Let_def same_limits_def write_loop_frame
        split: if_splits backpressure.splits)
qed

lemma sb_read_refines:
  assumes ok: "sb_ok b"
  shows "map_go (apfst sb_abs) (sb_read b n nonblock) = fifo_read (sb_abs b) n nonblock"
  using read_loop_ok[OF ok, of n] contents_Nil[OF ok]
  by (auto simp: sb_read_def fifo_read_def sb_abs_def split: prod.split)

lemma sb_read_ok:
  assumes "sb_ok b" and "sb_read b n nonblock = Return (b', res)"
  shows "sb_ok b' \<and> same_limits b b'"
  using assms read_loop_ok[OF assms(1), of n]
  by (auto simp: sb_read_def same_limits_def split: if_splits prod.splits)

section \<open>The interface of a byte queue\<close>

text \<open>
  What the users of a stream rely on. \<open>put\<close> says which of the offered bytes were accepted
  and \<open>get\<close> which were delivered (none for a call that failed or waits). A queue may throw
  away its oldest bytes at a put; a lossless one does not.
\<close>

datatype ('i, 'a) fifo_op = Put 'i "'a list" | Get 'i nat | Close

text \<open>A run gives the final state, all accepted and all delivered bytes.\<close>

fun fifo_run ::
  "('i \<Rightarrow> 'a list \<Rightarrow> 's \<Rightarrow> 's \<times> 'a list) \<Rightarrow> ('i \<Rightarrow> nat \<Rightarrow> 's \<Rightarrow> 's \<times> 'a list) \<Rightarrow> ('s \<Rightarrow> 's) \<Rightarrow>
   ('i, 'a) fifo_op list \<Rightarrow> 's \<Rightarrow> 's \<times> 'a list \<times> 'a list" where
  "fifo_run put get cls [] s = (s, [], [])"
| "fifo_run put get cls (Put i xs # ops) s =
     (let (s1, ys) = put i xs s; (s2, acc, del) = fifo_run put get cls ops s1 in (s2, ys @ acc, del))"
| "fifo_run put get cls (Get i n # ops) s =
     (let (s1, ys) = get i n s; (s2, acc, del) = fifo_run put get cls ops s1 in (s2, acc, ys @ del))"
| "fifo_run put get cls (Close # ops) s = fifo_run put get cls ops (cls s)"

locale byte_queue =
  fixes ok :: "'s \<Rightarrow> bool"
    and content :: "'s \<Rightarrow> 'a list"
    and put :: "'i \<Rightarrow> 'a list \<Rightarrow> 's \<Rightarrow> 's \<times> 'a list"
    and get :: "'i \<Rightarrow> nat \<Rightarrow> 's \<Rightarrow> 's \<times> 'a list"
    and cls :: "'s \<Rightarrow> 's"
  assumes put_law: "ok s \<Longrightarrow> put i xs s = (s', ys) \<Longrightarrow>
      ok s' \<and> prefix ys xs \<and> suffix (content s') (content s @ ys)"
    and get_law: "ok s \<Longrightarrow> get i n s = (s', ys) \<Longrightarrow>
      ok s' \<and> content s = ys @ content s' \<and> length ys \<le> n"
    and cls_law: "ok s \<Longrightarrow> ok (cls s) \<and> content (cls s) = content s"
begin

lemma run_subseq:
  "ok s \<Longrightarrow> fifo_run put get cls ops s = (s', acc, del) \<Longrightarrow>
   ok s' \<and> subseq (del @ content s') (content s @ acc)"
proof (induction ops arbitrary: s s' acc del)
  case (Cons a ops)
  show ?case
  proof (cases a)
    case (Put i xs)
    obtain s1 ys where p: "put i xs s = (s1, ys)" by (cases "put i xs s")
    obtain s2 acc2 del2 where r: "fifo_run put get cls ops s1 = (s2, acc2, del2)"
      by (cases "fifo_run put get cls ops s1")
    have eq: "s' = s2" "acc = ys @ acc2" "del = del2" using Cons.prems(2) Put p r by simp_all
    obtain zs where "content s @ ys = zs @ content s1"
      using put_law[OF Cons.prems(1) p] by (auto simp: suffix_def)
    then have eq': "content s @ ys @ acc2 = zs @ content s1 @ acc2" by (metis append.assoc)
    have "subseq (content s1 @ acc2) (content s @ ys @ acc2)"
      unfolding eq' by (rule list_emb_append2) (rule subseq_order.order_refl)
    with Cons.IH[OF _ r] put_law[OF Cons.prems(1) p] eq show ?thesis
      by (auto intro: subseq_order.order_trans)
  next
    case (Get i n)
    obtain s1 ys where g: "get i n s = (s1, ys)" by (cases "get i n s")
    obtain s2 acc2 del2 where r: "fifo_run put get cls ops s1 = (s2, acc2, del2)"
      by (cases "fifo_run put get cls ops s1")
    have eq: "s' = s2" "acc = acc2" "del = ys @ del2" using Cons.prems(2) Get g r by simp_all
    with Cons.IH[OF _ r] get_law[OF Cons.prems(1) g] show ?thesis
      by (auto intro!: list_emb_append_mono)
  next
    case Close
    then show ?thesis using Cons.IH[of "cls s"] Cons.prems cls_law[OF Cons.prems(1)] by simp
  qed
qed simp

end

locale lossless_queue = byte_queue +
  assumes put_all: "ok s \<Longrightarrow> put i xs s = (s', ys) \<Longrightarrow> content s' = content s @ ys"
begin

lemma run_exact:
  "ok s \<Longrightarrow> fifo_run put get cls ops s = (s', acc, del) \<Longrightarrow> del @ content s' = content s @ acc"
proof (induction ops arbitrary: s s' acc del)
  case (Cons a ops)
  show ?case
  proof (cases a)
    case (Put i xs)
    obtain s1 ys where p: "put i xs s = (s1, ys)" by (cases "put i xs s")
    obtain s2 acc2 del2 where r: "fifo_run put get cls ops s1 = (s2, acc2, del2)"
      by (cases "fifo_run put get cls ops s1")
    show ?thesis
      using Cons.IH[OF _ r] put_law[OF Cons.prems(1) p] put_all[OF Cons.prems(1) p] Cons.prems(2) Put p r
      by auto
  next
    case (Get i n)
    obtain s1 ys where g: "get i n s = (s1, ys)" by (cases "get i n s")
    obtain s2 acc2 del2 where r: "fifo_run put get cls ops s1 = (s2, acc2, del2)"
      by (cases "fifo_run put get cls ops s1")
    show ?thesis
      using Cons.IH[OF _ r] get_law[OF Cons.prems(1) g] Cons.prems(2) Get g r by auto
  next
    case Close
    then show ?thesis using Cons.IH[of "cls s"] Cons.prems cls_law[OF Cons.prems(1)] by simp
  qed
qed simp

end

text \<open>The ring as such a queue; the flag is \<open>nonblock\<close>.\<close>

definition stream_put :: "bool \<Rightarrow> bytes \<Rightarrow> stream_buffer \<Rightarrow> stream_buffer \<times> bytes" where
  "stream_put nonblock p b =
     (case sb_write b p nonblock of
        Return (b', Inr n) \<Rightarrow> (b', take n p)
      | Return (b', Inl e) \<Rightarrow> (b', [])
      | _ \<Rightarrow> (b, []))"

definition stream_get :: "bool \<Rightarrow> nat \<Rightarrow> stream_buffer \<Rightarrow> stream_buffer \<times> bytes" where
  "stream_get nonblock n b =
     (case sb_read b n nonblock of
        Return (b', Inr cs) \<Rightarrow> (b', cs)
      | Return (b', Inl e) \<Rightarrow> (b', [])
      | _ \<Rightarrow> (b, []))"

lemma stream_put_law:
  assumes ok: "sb_ok b" and p: "stream_put nonblock xs b = (b', ys)"
  shows "sb_ok b' \<and> prefix ys xs \<and> suffix (contents b') (contents b @ ys) \<and>
    (sb_mode b \<noteq> BackpressureDrop \<longrightarrow> contents b' = contents b @ ys) \<and> sb_mode b' = sb_mode b"
proof (cases "sb_write b xs nonblock")
  case (Return x)
  obtain b1 res where x: "x = (b1, res)" by (cases x)
  note ok1 = sb_write_ok[OF ok Return[unfolded x]]
  have ref: "fifo_write (sb_mode b) (sb_capacity b) (sb_maxChunkSize b) (contents b, sb_closed b) xs nonblock =
      Return (sb_abs b1, res)"
    using sb_write_refines[OF ok, of xs nonblock] Return x by (simp add: sb_abs_def)
  have b': "b' = b1" "ys = (case res of Inl e \<Rightarrow> [] | Inr n \<Rightarrow> take n xs)"
    using p Return x by (auto simp: stream_put_def split: sum.splits)
  have tk: "take (length (take c xs)) xs = take c xs" for c by (simp add: min_def)
  show ?thesis
    using ok1 ref b' take_is_prefix[of _ xs] tk
    by (auto simp: fifo_write_def Let_def sb_abs_def same_limits_def
        simp del: drop_append length_append length_take
        split: if_splits backpressure.splits) (metis suffix_drop)+
qed (use assms in \<open>auto simp: stream_put_def\<close>)

lemma stream_get_law:
  assumes ok: "sb_ok b" and p: "stream_get nonblock n b = (b', ys)"
  shows "sb_ok b' \<and> contents b = ys @ contents b' \<and> length ys \<le> n \<and> sb_mode b' = sb_mode b"
proof (cases "sb_read b n nonblock")
  case (Return x)
  obtain b1 res where x: "x = (b1, res)" by (cases x)
  note ok1 = sb_read_ok[OF ok Return[unfolded x]]
  have ref: "fifo_read (contents b, sb_closed b) n nonblock = Return (sb_abs b1, res)"
    using sb_read_refines[OF ok, of n nonblock] Return x by (simp add: sb_abs_def)
  have b': "b' = b1" "ys = (case res of Inl e \<Rightarrow> [] | Inr cs \<Rightarrow> cs)"
    using p Return x by (auto simp: stream_get_def split: sum.splits)
  show ?thesis
    using ok1 ref b' by (auto simp: fifo_read_def sb_abs_def same_limits_def split: if_splits)
      (metis append_take_drop_id)+
qed (use assms in \<open>auto simp: stream_get_def\<close>)

interpretation ring: byte_queue sb_ok contents stream_put stream_get sb_close
  by unfold_locales
     (auto dest: stream_put_law stream_get_law sb_ok_close simp: sb_abs_def sb_close_def contents_def)

interpretation lossless_ring: lossless_queue
  "\<lambda>b. sb_ok b \<and> sb_mode b \<noteq> BackpressureDrop" contents stream_put stream_get sb_close
proof unfold_locales
  fix b b' :: stream_buffer and xs ys :: bytes and nonblock :: bool and n :: nat
  assume b: "sb_ok b \<and> sb_mode b \<noteq> BackpressureDrop"
  show "stream_put nonblock xs b = (b', ys) \<Longrightarrow>
      (sb_ok b' \<and> sb_mode b' \<noteq> BackpressureDrop) \<and> prefix ys xs \<and> suffix (contents b') (contents b @ ys)"
    and "stream_put nonblock xs b = (b', ys) \<Longrightarrow> contents b' = contents b @ ys"
    using stream_put_law[of b nonblock xs b' ys] b by simp_all
  show "stream_get nonblock n b = (b', ys) \<Longrightarrow>
      (sb_ok b' \<and> sb_mode b' \<noteq> BackpressureDrop) \<and> contents b = ys @ contents b' \<and> length ys \<le> n"
    using stream_get_law[of b nonblock n b' ys] b by simp
  show "(sb_ok (sb_close b) \<and> sb_mode (sb_close b) \<noteq> BackpressureDrop) \<and> contents (sb_close b) = contents b"
    using sb_ok_close[of b] b by (simp add: sb_abs_def) (simp add: sb_close_def)
qed

section \<open>Properties\<close>

text \<open>
  C7: the ring is a bounded queue of bytes. Read takes from its front; write appends the
  first \<open>maxChunkSize\<close> bytes if they fit and otherwise, by mode, fails with ENOSPC, drops
  just enough of the oldest bytes (also when the chunk alone is longer than the ring) or
  waits; a closed ring refuses writes and is still read to its end. Every operation keeps
  the positions and the count consistent.
\<close>

theorem stream_refines_fifo:
  assumes "sb_ok b"
  shows "map_go (apfst sb_abs) (sb_write b p nonblock) =
      fifo_write (sb_mode b) (sb_capacity b) (sb_maxChunkSize b) (sb_abs b) p nonblock \<and>
    map_go (apfst sb_abs) (sb_read b n nonblock) = fifo_read (sb_abs b) n nonblock \<and>
    (\<forall>b' res. sb_write b p nonblock = Return (b', res) \<longrightarrow> sb_ok b' \<and> same_limits b b') \<and>
    (\<forall>b' res. sb_read b n nonblock = Return (b', res) \<longrightarrow> sb_ok b' \<and> same_limits b b')"
  using sb_write_refines[OF assms] sb_read_refines[OF assms] sb_write_ok[OF assms] sb_read_ok[OF assms]
  by blast

lemma stream_refines_fifo_witness:
  "map_go (apfst sb_abs) (sb_write (newStreamBuffer (Some
       \<lparr>sc_Capacity = 3, sc_Mode = BackpressureDrop, sc_MaxChunkSize = 8\<rparr>)) ''abcde'' False) =
   Return ((''cde'', False), Inr 5)"
  using conjunct1[OF stream_refines_fifo[OF conjunct1[OF sb_ok_new], of "Some
    \<lparr>sc_Capacity = 3, sc_Mode = BackpressureDrop, sc_MaxChunkSize = 8\<rparr>" "''abcde''" False 0]]
    conjunct2[OF sb_ok_new, of "Some
    \<lparr>sc_Capacity = 3, sc_Mode = BackpressureDrop, sc_MaxChunkSize = 8\<rparr>"]
  by (simp add: fifo_write_def newStreamBuffer_def Let_def)

text \<open>
  Over any sequence of reads, writes and a close, what was delivered and what is still
  in the ring together are the bytes that were accepted, in order, none invented and none
  twice; in the modes block and error none is lost either.
\<close>

theorem stream_conserves_bytes:
  assumes "sb_ok b" and "fifo_run stream_put stream_get sb_close ops b = (b', accepted, delivered)"
  shows "sb_ok b' \<and> subseq (delivered @ contents b') (contents b @ accepted) \<and>
    (sb_mode b \<noteq> BackpressureDrop \<longrightarrow> delivered @ contents b' = contents b @ accepted)"
  using ring.run_subseq[OF assms] lossless_ring.run_exact[OF _ assms(2)] assms(1) by blast

lemma stream_conserves_bytes_witness:
  "case fifo_run stream_put stream_get sb_close
      [Put False ''abc'', Get True 2, Put False ''de'', Close, Get True 9] (newStreamBuffer None) of
    (b', accepted, delivered) \<Rightarrow> delivered @ contents b' = accepted"
proof -
  let ?ops = "[Put False ''abc'', Get True 2, Put False ''de'', Close, Get True 9]"
  obtain b' acc del where r: "fifo_run stream_put stream_get sb_close ?ops (newStreamBuffer None) = (b', acc, del)"
    by (cases "fifo_run stream_put stream_get sb_close ?ops (newStreamBuffer None)")
  have "sb_mode (newStreamBuffer None) \<noteq> BackpressureDrop" "contents (newStreamBuffer None) = []"
    by (simp_all add: newStreamBuffer_def Let_def contents_def)
  then show ?thesis
    using stream_conserves_bytes[OF conjunct1[OF sb_ok_new] r] r by simp
qed

text \<open>
  C29: a write in block mode can be let through by some read exactly when its chunk is not
  longer than the ring; a longer one waits in every state of the open ring, the empty one
  included, so the caller never returns until the stream is closed.
\<close>

theorem stream_block_progress:
  assumes "sb_ok b" and "sb_mode b = BackpressureBlock" and "\<not> sb_closed b"
  shows "(\<exists>n b1 res. sb_read b n True = Return (b1, res) \<and>
      sb_write b1 p False \<noteq> Block) \<longleftrightarrow> length (chunk_of b p) \<le> sb_capacity b"
proof -
  have enough: "sb_write b1 p False \<noteq> Block \<longleftrightarrow> length (contents b1 @ chunk_of b p) \<le> sb_capacity b"
    if r: "sb_read b n True = Return (b1, res)" for n b1 res
  proof -
    have b1: "sb_ok b1" "same_limits b b1" using sb_read_ok[OF assms(1) r] by auto
    have "sb_closed b1 = sb_closed b"
      using r read_loop_ok[OF assms(1), of n] by (auto simp: sb_read_def split: if_splits prod.splits)
    moreover have "chunk_of b1 p = chunk_of b p" using b1(2) by (simp add: chunk_of_def same_limits_def)
    ultimately show ?thesis
      using assms b1 length_contents[OF b1(1)] by (auto simp: sb_write_def Let_def same_limits_def)
  qed
  have "\<exists>b1 res. sb_read b (sb_capacity b) True = Return (b1, res) \<and> contents b1 = []"
  proof (cases "sb_count b = 0")
    case True
    then show ?thesis using assms by (simp add: sb_read_def contents_Nil)
  next
    case False
    obtain b1 cs where "read_loop (sb_capacity b) b = (b1, cs)" by (cases "read_loop (sb_capacity b) b")
    moreover have "length (contents b) \<le> sb_capacity b"
      using assms(1) length_contents[OF assms(1)] by (simp add: sb_ok_def)
    ultimately show ?thesis
      using False read_loop_ok[OF assms(1)] by (simp add: sb_read_def)
  qed
  then obtain b1 res where "sb_read b (sb_capacity b) True = Return (b1, res)" "contents b1 = []"
    by blast
  with enough[OF this(1)] have "length (chunk_of b p) \<le> sb_capacity b \<Longrightarrow>
      \<exists>n b1 res. sb_read b n True = Return (b1, res) \<and> sb_write b1 p False \<noteq> Block"
    by auto
  moreover have "length (chunk_of b p) \<le> sb_capacity b"
    if "sb_read b n True = Return (b1, res)" "sb_write b1 p False \<noteq> Block" for n b1 res
    using enough[OF that(1)] that(2) by simp
  ultimately show ?thesis by blast
qed

definition demo_ring :: stream_buffer where
  "demo_ring = newStreamBuffer (Some
     \<lparr>sc_Capacity = 4, sc_Mode = BackpressureBlock, sc_MaxChunkSize = 0\<rparr>)"

lemma stream_block_progress_witness:
  "\<not> (\<exists>n b1 res. sb_read demo_ring n True = Return (b1, res) \<and> sb_write b1 ''hello'' False \<noteq> Block)"
proof -
  have d: "sb_ok demo_ring" "sb_mode demo_ring = BackpressureBlock" "\<not> sb_closed demo_ring"
    unfolding demo_ring_def by (rule conjunct1[OF sb_ok_new]) (simp_all add: newStreamBuffer_def Let_def)
  have "\<not> length (chunk_of demo_ring ''hello'') \<le> sb_capacity demo_ring"
    by (simp add: demo_ring_def newStreamBuffer_def Let_def chunk_of_def streamReadChunk_def)
  with stream_block_progress[OF d, of "''hello''"] show ?thesis by simp
qed

end
