(* ===== verification/Flock.thy ===== *)
theory Flock
  imports Types Tables
begin

text \<open>
  core/flock.go: advisory locks. The manager maps a path to a lock state that handles share
  by pointer, so the states live in a list of cells and the map holds cell numbers: a call
  that waits on a cell keeps it even after purge has taken it out of the map. The lock a
  handle believes it holds is the handle's own field, \<open>lm_kind\<close>.

  An acquire is cut where it can be interrupted: \<open>acquire_start\<close> runs up to the loop,
  \<open>acquire_try\<close> is one turn of the loop, which holds the state's mutex. A call that
  waits may be tried again or give up with ETIMEDOUT.
\<close>

section \<open>Operations\<close>

datatype lock_kind = LockNone | LockShared | LockExclusive

type_synonym hid = nat \<comment> \<open>the identity of a handle\<close>

record lock_state =
  ls_shared :: "hid list"
  ls_excl :: "hid option"

definition free_lock :: lock_state where
  "free_lock = \<lparr>ls_shared = [], ls_excl = None\<rparr>"

record lock_manager =
  lm_states :: "(string \<times> nat) list"
  lm_cells :: "lock_state list"
  lm_kind :: "hid \<Rightarrow> lock_kind"
  lm_deadlockTimeout :: duration

definition defaultLockTimeout :: duration where
  "defaultLockTimeout = 30 * second"

definition newLockManager :: "duration \<Rightarrow> lock_manager" where
  "newLockManager timeout =
     \<lparr>lm_states = [], lm_cells = [], lm_kind = (\<lambda>h. LockNone),
      lm_deadlockTimeout = (if timeout = 0 then defaultLockTimeout else timeout)\<rparr>"

definition stateFor :: "string \<Rightarrow> lock_manager \<Rightarrow> lock_manager \<times> nat" where
  "stateFor path m =
     (case map_of (lm_states m) path of
        Some c \<Rightarrow> (m, c)
      | None \<Rightarrow>
          (let c = length (lm_cells m)
           in (m\<lparr>lm_states := mput path c (lm_states m), lm_cells := lm_cells m @ [free_lock]\<rparr>, c)))"

definition canTake :: "lock_state \<Rightarrow> hid \<Rightarrow> lock_kind \<Rightarrow> bool" where
  "canTake s h kind =
     (if ls_excl s \<noteq> None \<and> ls_excl s \<noteq> Some h then False
      else if kind = LockExclusive \<and> 0 < length (ls_shared s) then
        (if h \<notin> set (ls_shared s) \<or> 1 < length (ls_shared s) then False else True)
      else True)"

definition take_lock :: "lock_state \<Rightarrow> hid \<Rightarrow> lock_kind \<Rightarrow> lock_state" where
  "take_lock s h kind =
     (case kind of
        LockShared \<Rightarrow> s\<lparr>ls_shared := List.insert h (ls_shared s)\<rparr>
      | LockExclusive \<Rightarrow> s\<lparr>ls_excl := Some h\<rparr>
      | LockNone \<Rightarrow> s)"

definition set_kind :: "hid \<Rightarrow> lock_kind \<Rightarrow> lock_manager \<Rightarrow> lock_manager" where
  "set_kind h kind m = m\<lparr>lm_kind := (lm_kind m)(h := kind)\<rparr>"

definition set_cell :: "nat \<Rightarrow> lock_state \<Rightarrow> lock_manager \<Rightarrow> lock_manager" where
  "set_cell c s m = m\<lparr>lm_cells := (lm_cells m)[c := s]\<rparr>"

text \<open>release never fails.\<close>

definition drop_lock :: "lock_state \<Rightarrow> hid \<Rightarrow> lock_kind \<Rightarrow> lock_state" where
  "drop_lock s h kind =
     (case kind of
        LockShared \<Rightarrow> s\<lparr>ls_shared := removeAll h (ls_shared s)\<rparr>
      | LockExclusive \<Rightarrow> (if ls_excl s = Some h then s\<lparr>ls_excl := None\<rparr> else s)
      | LockNone \<Rightarrow> s)"

definition lock_release :: "string \<Rightarrow> hid \<Rightarrow> lock_manager \<Rightarrow> lock_manager" where
  "lock_release path h m =
     (case map_of (lm_states m) path of
        None \<Rightarrow> set_kind h LockNone m
      | Some c \<Rightarrow>
          set_kind h LockNone (set_cell c (drop_lock (lm_cells m ! c) h (lm_kind m h)) m))"

text \<open>Up to the loop: an error, \<open>Inr None\<close> when the lock is already held, or the cell to try.\<close>

definition acquire_start ::
  "string \<Rightarrow> hid \<Rightarrow> lock_kind \<Rightarrow> lock_manager \<Rightarrow> lock_manager \<times> (go_error + nat option)" where
  "acquire_start path h kind m =
     (if kind \<noteq> LockShared \<and> kind \<noteq> LockExclusive then (m, Inl (posix EINVAL OpWrite path None))
      else if lm_kind m h = kind then (m, Inr None)
      else (let m1 = (if lm_kind m h \<noteq> LockNone then lock_release path h m else m);
                (m2, c) = stateFor path m1
            in (m2, Inr (Some c))))"

definition acquire_try ::
  "string \<Rightarrow> nat \<Rightarrow> hid \<Rightarrow> lock_kind \<Rightarrow> bool \<Rightarrow> lock_manager \<Rightarrow>
   (lock_manager \<times> go_error option) go" where
  "acquire_try path c h kind nonblock m =
     (if canTake (lm_cells m ! c) h kind
      then Return (set_kind h kind (set_cell c (take_lock (lm_cells m ! c) h kind) m), None)
      else if nonblock then Return (m, Some (posix EBUSY OpWrite path None))
      else Block)"

text \<open>The whole call when nothing comes between its two parts; \<open>Block\<close> is the state of the
  manager in which it waits.\<close>

definition acquire ::
  "string \<Rightarrow> hid \<Rightarrow> lock_kind \<Rightarrow> bool \<Rightarrow> lock_manager \<Rightarrow> (lock_manager \<times> go_error option) go" where
  "acquire path h kind nonblock m =
     (case acquire_start path h kind m of
        (m', Inl e) \<Rightarrow> Return (m', Some e)
      | (m', Inr None) \<Rightarrow> Return (m', None)
      | (m', Inr (Some c)) \<Rightarrow> acquire_try path c h kind nonblock m')"

definition purge :: "string \<Rightarrow> lock_manager \<Rightarrow> lock_manager" where
  "purge path m =
     (case map_of (lm_states m) path of
        None \<Rightarrow> m
      | Some c \<Rightarrow> set_cell c free_lock (m\<lparr>lm_states := mdel path (lm_states m)\<rparr>))"

definition inspect :: "string \<Rightarrow> lock_manager \<Rightarrow> nat \<times> bool" where
  "inspect path m =
     (case map_of (lm_states m) path of
        None \<Rightarrow> (0, False)
      | Some c \<Rightarrow> (length (ls_shared (lm_cells m ! c)), ls_excl (lm_cells m ! c) \<noteq> None))"

interpretation lock_table: lazy_table "\<lambda>m. map_of (lm_states m)" stateFor
  by unfold_locales (auto simp: stateFor_def Let_def split: option.splits)

section \<open>Interleaved lock calls\<close>

text \<open>
  \<open>hpath h\<close> is the path handle \<open>h\<close> was opened on. A state is the manager with the calls
  that are between their start and their end. A handle makes one lock call at a time.
  \<open>purging\<close> says whether paths are unmounted meanwhile.
\<close>

type_synonym lock_sys = "lock_manager \<times> (hid \<times> lock_kind \<times> nat) list"

inductive lock_step :: "(hid \<Rightarrow> string) \<Rightarrow> bool \<Rightarrow> lock_sys \<Rightarrow> lock_sys \<Rightarrow> bool"
  for hpath :: "hid \<Rightarrow> string" and purging :: bool where
  start: "h \<notin> fst ` set ws \<Longrightarrow> acquire_start (hpath h) h kind m = (m', Inr (Some c)) \<Longrightarrow>
     lock_step hpath purging (m, ws) (m', (h, kind, c) # ws)"
| got: "(h, kind, c) \<in> set ws \<Longrightarrow>
     acquire_try (hpath h) c h kind nonblock m = Return (m', None) \<Longrightarrow>
     lock_step hpath purging (m, ws) (m', remove1 (h, kind, c) ws)"
| give_up: "(h, kind, c) \<in> set ws \<Longrightarrow>
     lock_step hpath purging (m, ws) (m, remove1 (h, kind, c) ws)"
| release: "h \<notin> fst ` set ws \<Longrightarrow> lm_kind m h \<noteq> LockNone \<Longrightarrow>
     lock_step hpath purging (m, ws) (lock_release (hpath h) h m, ws)"
| purge: "purging \<Longrightarrow> lock_step hpath purging (m, ws) (purge path m, ws)"

inductive_cases lock_stepE: "lock_step hpath purging (m, ws) s'"

inductive lock_reachable :: "(hid \<Rightarrow> string) \<Rightarrow> bool \<Rightarrow> lock_sys \<Rightarrow> bool"
  for hpath :: "hid \<Rightarrow> string" and purging :: bool where
  init: "lock_reachable hpath purging (newLockManager timeout, [])"
| step: "lock_reachable hpath purging s \<Longrightarrow> lock_step hpath purging s s' \<Longrightarrow>
     lock_reachable hpath purging s'"

section \<open>The invariant\<close>

text \<open>
  Without purges: the map gives different paths different cells, and a cell lists exactly
  the handles of its path that believe to hold it; an exclusive holder is alone.
\<close>

definition holds_in :: "(hid \<Rightarrow> string) \<Rightarrow> lock_manager \<Rightarrow> hid \<Rightarrow> nat \<Rightarrow> bool" where
  "holds_in hpath m h c \<longleftrightarrow> map_of (lm_states m) (hpath h) = Some c"

definition cell_ok :: "(hid \<Rightarrow> string) \<Rightarrow> lock_manager \<Rightarrow> nat \<Rightarrow> bool" where
  "cell_ok hpath m c \<longleftrightarrow>
     set (ls_shared (lm_cells m ! c)) = {h. lm_kind m h = LockShared \<and> holds_in hpath m h c} \<and>
     (\<forall>h. ls_excl (lm_cells m ! c) = Some h \<longleftrightarrow> lm_kind m h = LockExclusive \<and> holds_in hpath m h c) \<and>
     (ls_excl (lm_cells m ! c) \<noteq> None \<longrightarrow> ls_shared (lm_cells m ! c) = []) \<and>
     distinct (ls_shared (lm_cells m ! c))"

definition locks_ok :: "(hid \<Rightarrow> string) \<Rightarrow> lock_manager \<Rightarrow> bool" where
  "locks_ok hpath m \<longleftrightarrow>
     (\<forall>p c. map_of (lm_states m) p = Some c \<longrightarrow> c < length (lm_cells m)) \<and>
     (\<forall>p q c. map_of (lm_states m) p = Some c \<longrightarrow> map_of (lm_states m) q = Some c \<longrightarrow> p = q) \<and>
     (\<forall>h. lm_kind m h \<noteq> LockNone \<longrightarrow> map_of (lm_states m) (hpath h) \<noteq> None) \<and>
     (\<forall>p c. map_of (lm_states m) p = Some c \<longrightarrow> cell_ok hpath m c)"

definition sys_ok :: "(hid \<Rightarrow> string) \<Rightarrow> lock_sys \<Rightarrow> bool" where
  "sys_ok hpath s \<longleftrightarrow>
     locks_ok hpath (fst s) \<and> distinct (map fst (snd s)) \<and>
     (\<forall>(h, kind, c) \<in> set (snd s).
        map_of (lm_states (fst s)) (hpath h) = Some c \<and> lm_kind (fst s) h = LockNone \<and> kind \<noteq> LockNone)"

lemma locks_ok_new: "locks_ok hpath (newLockManager timeout)"
  by (simp add: locks_ok_def newLockManager_def)

lemma locks_ok_stateFor:
  assumes ok: "locks_ok hpath m" and s: "stateFor path m = (m', c)"
  shows "locks_ok hpath m' \<and> lm_kind m' = lm_kind m \<and> map_of (lm_states m') path = Some c \<and>
    (\<forall>p d. map_of (lm_states m) p = Some d \<longrightarrow> map_of (lm_states m') p = Some d)"
proof (cases "map_of (lm_states m) path")
  case (Some d)
  with ok s show ?thesis by (simp add: stateFor_def)
next
  case None
  let ?n = "length (lm_cells m)"
  from None s have m': "m' = m\<lparr>lm_states := mput path ?n (lm_states m), lm_cells := lm_cells m @ [free_lock]\<rparr>"
    and c: "c = ?n" by (auto simp: stateFor_def Let_def)
  have lt: "map_of (lm_states m) p = Some d \<Longrightarrow> d < ?n" for p d using ok by (simp add: locks_ok_def)
  have nokind: "hpath h = path \<Longrightarrow> lm_kind m h = LockNone" for h
    using ok None unfolding locks_ok_def by metis
  have "cell_ok hpath m' ?n"
    using nokind lt m' by (auto simp: cell_ok_def holds_in_def free_lock_def split: if_splits)
  moreover have "cell_ok hpath m' d" if d: "map_of (lm_states m) p = Some d" "p \<noteq> path" for p d
  proof -
    have "cell_ok hpath m d" using ok d(1) unfolding locks_ok_def by blast
    moreover have "holds_in hpath m' h d \<longleftrightarrow> holds_in hpath m h d" for h
      using lt[OF d(1)] m' None by (auto simp: holds_in_def)
    ultimately show ?thesis using lt[OF d(1)] m' by (simp add: cell_ok_def nth_append)
  qed
  ultimately show ?thesis
    using ok m' c None lt unfolding locks_ok_def
    by (auto split: if_splits dest: lt)
qed

text \<open>A change of one cell and of the kind of one of its handles touches no other cell.\<close>

lemma locks_ok_update:
  assumes ok: "locks_ok hpath m" and c: "map_of (lm_states m) (hpath h) = Some c"
    and m': "m' = set_kind h kind (set_cell c s m)" and cell: "cell_ok hpath m' c"
  shows "locks_ok hpath m'"
proof -
  have same: "lm_states m' = lm_states m" "length (lm_cells m') = length (lm_cells m)"
    "lm_kind m' = (lm_kind m)(h := kind)" "lm_cells m' = (lm_cells m)[c := s]"
    unfolding m' by (simp_all add: set_kind_def set_cell_def)
  have "cell_ok hpath m' d" if d: "map_of (lm_states m) p = Some d" for p d
  proof (cases "d = c")
    case False
    have "cell_ok hpath m d" using ok d unfolding locks_ok_def by blast
    moreover have "holds_in hpath m' h' d = holds_in hpath m h' d" for h'
      by (simp add: holds_in_def same)
    moreover have "\<not> holds_in hpath m h d" using c False by (simp add: holds_in_def)
    ultimately show ?thesis
      using False unfolding cell_ok_def same by (auto simp: fun_upd_apply)
  qed (use cell in simp)
  moreover have "map_of (lm_states m) (hpath h') \<noteq> None" if "lm_kind m' h' \<noteq> LockNone" for h'
    using that ok c unfolding locks_ok_def same by (cases "h' = h") auto
  moreover have "\<forall>p c. map_of (lm_states m) p = Some c \<longrightarrow> c < length (lm_cells m)"
    "\<forall>p q c. map_of (lm_states m) p = Some c \<longrightarrow> map_of (lm_states m) q = Some c \<longrightarrow> p = q"
    using ok unfolding locks_ok_def by blast+
  ultimately show ?thesis
    unfolding locks_ok_def same(1,2) by blast
qed

lemma cell_in_range:
  "locks_ok hpath m \<Longrightarrow> map_of (lm_states m) p = Some c \<Longrightarrow> c < length (lm_cells m)"
  by (simp add: locks_ok_def)

lemma cell_of: "locks_ok hpath m \<Longrightarrow> map_of (lm_states m) p = Some c \<Longrightarrow> cell_ok hpath m c"
  unfolding locks_ok_def by blast

lemma holds_in_update [simp]:
  "holds_in hpath (set_kind h kind (set_cell c s m)) h' d = holds_in hpath m h' d"
  by (simp add: holds_in_def set_kind_def set_cell_def)

lemma locks_ok_release:
  assumes ok: "locks_ok hpath m"
  shows "locks_ok hpath (lock_release (hpath h) h m) \<and>
    lm_kind (lock_release (hpath h) h m) = (lm_kind m)(h := LockNone) \<and>
    lm_states (lock_release (hpath h) h m) = lm_states m"
proof (cases "map_of (lm_states m) (hpath h)")
  case None
  then have "lm_kind m h = LockNone" using ok unfolding locks_ok_def by blast
  then have "set_kind h LockNone m = m" by (simp add: set_kind_def fun_upd_idem)
  with None ok \<open>lm_kind m h = LockNone\<close> show ?thesis by (simp add: lock_release_def fun_upd_idem)
next
  case (Some c)
  let ?s = "drop_lock (lm_cells m ! c) h (lm_kind m h)"
  let ?m = "set_kind h LockNone (set_cell c ?s m)"
  note lt = cell_in_range[OF ok Some] and cell = cell_of[OF ok Some]
  have h: "holds_in hpath m h c" using Some by (simp add: holds_in_def)
  have eq: "lm_cells ?m ! c = ?s" "lm_kind ?m = (lm_kind m)(h := LockNone)"
    using lt by (simp_all add: set_kind_def set_cell_def)
  have uniq: "lm_kind m a = LockExclusive \<Longrightarrow> holds_in hpath m a c \<Longrightarrow>
      lm_kind m b = LockExclusive \<Longrightarrow> holds_in hpath m b c \<Longrightarrow> a = b" for a b
    using cell unfolding cell_ok_def by (metis option.inject)
  have "cell_ok hpath ?m c"
    using cell h uniq unfolding cell_ok_def eq
    by (cases "lm_kind m h") (auto simp: drop_lock_def fun_upd_apply distinct_removeAll)
  from locks_ok_update[OF ok Some refl this] Some eq show ?thesis
    by (simp add: lock_release_def) (simp add: set_kind_def set_cell_def)
qed

lemma locks_ok_take:
  assumes ok: "locks_ok hpath m" and c: "map_of (lm_states m) (hpath h) = Some c"
    and none: "lm_kind m h = LockNone" and kind: "kind \<noteq> LockNone"
    and can: "canTake (lm_cells m ! c) h kind"
  shows "locks_ok hpath (set_kind h kind (set_cell c (take_lock (lm_cells m ! c) h kind) m))"
proof (rule locks_ok_update[OF ok c refl])
  let ?s = "take_lock (lm_cells m ! c) h kind"
  let ?m = "set_kind h kind (set_cell c ?s m)"
  note lt = cell_in_range[OF ok c] and cell = cell_of[OF ok c]
  have h: "holds_in hpath m h c" using c by (simp add: holds_in_def)
  have eq: "lm_cells ?m ! c = ?s" "lm_kind ?m = (lm_kind m)(h := kind)"
    using lt by (simp_all add: set_kind_def set_cell_def)
  have notin: "h \<notin> set (ls_shared (lm_cells m ! c))" "ls_excl (lm_cells m ! c) \<noteq> Some h"
    using cell none unfolding cell_ok_def by auto
  then have free: "ls_excl (lm_cells m ! c) = None"
    and alone: "kind = LockExclusive \<Longrightarrow> ls_shared (lm_cells m ! c) = []"
    using can by (auto simp: canTake_def split: if_splits)
  show "cell_ok hpath ?m c"
    using cell h none free alone kind unfolding cell_ok_def eq
    by (cases kind) (auto simp: take_lock_def fun_upd_apply)
qed

text \<open>Who may take a lock, by what the handles of the path believe to hold.\<close>

definition no_conflict :: "(hid \<Rightarrow> string) \<Rightarrow> (hid \<Rightarrow> lock_kind) \<Rightarrow> hid \<Rightarrow> lock_kind \<Rightarrow> bool" where
  "no_conflict hpath kinds h kind \<longleftrightarrow>
     (\<forall>h'. h' \<noteq> h \<and> hpath h' = hpath h \<longrightarrow>
        kinds h' \<noteq> LockExclusive \<and> (kind = LockExclusive \<longrightarrow> kinds h' = LockNone))"

lemma canTake_no_conflict:
  assumes ok: "locks_ok hpath m" and c: "map_of (lm_states m) (hpath h) = Some c"
    and none: "lm_kind m h = LockNone" and kind: "kind \<noteq> LockNone"
  shows "canTake (lm_cells m ! c) h kind \<longleftrightarrow> no_conflict hpath (lm_kind m) h kind"
proof -
  let ?s = "lm_cells m ! c"
  note cell = cell_of[OF ok c]
  have "map_of (lm_states m) q = Some c \<Longrightarrow> q = hpath h" for q
    using ok c unfolding locks_ok_def by blast
  then have in_c: "holds_in hpath m h' c \<longleftrightarrow> hpath h' = hpath h" for h'
    using c unfolding holds_in_def by metis
  have sh: "set (ls_shared ?s) = {h'. lm_kind m h' = LockShared \<and> hpath h' = hpath h}"
    and ex: "\<And>h'. ls_excl ?s = Some h' \<longleftrightarrow> lm_kind m h' = LockExclusive \<and> hpath h' = hpath h"
    using cell unfolding cell_ok_def in_c by simp_all
  have e: "ls_excl ?s = None \<longleftrightarrow> (\<forall>h'. hpath h' = hpath h \<longrightarrow> lm_kind m h' \<noteq> LockExclusive)"
  proof (cases "ls_excl ?s")
    case None
    then show ?thesis using ex by fastforce
  next
    case (Some a)
    then show ?thesis using ex[of a] by auto
  qed
  have s: "ls_shared ?s = [] \<longleftrightarrow> (\<forall>h'. hpath h' = hpath h \<longrightarrow> lm_kind m h' \<noteq> LockShared)"
    using sh by (cases "ls_shared ?s") auto
  have nk: "k = LockNone \<longleftrightarrow> k \<noteq> LockShared \<and> k \<noteq> LockExclusive" for k by (cases k) auto
  have nh: "ls_excl ?s \<noteq> Some h" "h \<notin> set (ls_shared ?s)" using none ex[of h] sh by auto
  have "canTake ?s h kind \<longleftrightarrow> ls_excl ?s = None \<and> (kind = LockExclusive \<longrightarrow> ls_shared ?s = [])"
    using nh by (auto simp: canTake_def)
  also have "\<dots> \<longleftrightarrow> no_conflict hpath (lm_kind m) h kind"
  proof (rule iffI)
    assume a: "ls_excl ?s = None \<and> (kind = LockExclusive \<longrightarrow> ls_shared ?s = [])"
    then show "no_conflict hpath (lm_kind m) h kind"
      unfolding e s no_conflict_def using nk by blast
  next
    assume a: "no_conflict hpath (lm_kind m) h kind"
    have "lm_kind m h' \<noteq> LockExclusive" "kind = LockExclusive \<Longrightarrow> lm_kind m h' \<noteq> LockShared"
      if "hpath h' = hpath h" for h'
      using a that none unfolding no_conflict_def by (cases "h' = h"; force)+
    then show "ls_excl ?s = None \<and> (kind = LockExclusive \<longrightarrow> ls_shared ?s = [])"
      unfolding e s by blast
  qed
  finally show ?thesis .
qed

lemma acquire_start_ok:
  assumes ok: "locks_ok hpath m" and s: "acquire_start (hpath h) h kind m = (m', Inr (Some c))"
  shows "locks_ok hpath m' \<and> lm_kind m' = (lm_kind m)(h := LockNone) \<and>
    map_of (lm_states m') (hpath h) = Some c \<and> kind \<noteq> LockNone \<and>
    (\<forall>p d. map_of (lm_states m) p = Some d \<longrightarrow> map_of (lm_states m') p = Some d)"
proof -
  let ?m1 = "if lm_kind m h \<noteq> LockNone then lock_release (hpath h) h m else m"
  have m1: "locks_ok hpath ?m1" "lm_kind ?m1 = (lm_kind m)(h := LockNone)" "lm_states ?m1 = lm_states m"
    using ok locks_ok_release[OF ok, of h] by (auto simp: fun_upd_idem)
  have k: "kind = LockShared \<or> kind = LockExclusive"
    using s by (cases kind) (auto simp: acquire_start_def)
  have "stateFor (hpath h) ?m1 = (m', c)"
    using s unfolding acquire_start_def Let_def by (auto split: prod.splits if_splits)
  from locks_ok_stateFor[OF m1(1) this] m1 k show ?thesis by auto
qed

lemma lock_step_cases:
  assumes "lock_step hpath False (m, ws) s'"
  obtains (start) h kind m' c where "s' = (m', (h, kind, c) # ws)" "h \<notin> fst ` set ws"
      "acquire_start (hpath h) h kind m = (m', Inr (Some c))"
  | (got) h kind c nonblock m' where "s' = (m', remove1 (h, kind, c) ws)" "(h, kind, c) \<in> set ws"
      "acquire_try (hpath h) c h kind nonblock m = Return (m', None)"
  | (give_up) h kind c where "s' = (m, remove1 (h, kind, c) ws)" "(h, kind, c) \<in> set ws"
  | (release) h where "s' = (lock_release (hpath h) h m, ws)" "h \<notin> fst ` set ws"
      "lm_kind m h \<noteq> LockNone"
  using assms by (rule lock_stepE) (use that in blast)+

lemma sys_ok_step:
  assumes ok: "sys_ok hpath s" and step: "lock_step hpath False s s'"
  shows "sys_ok hpath s'"
proof -
  obtain m ws where s: "s = (m, ws)" by (cases s)
  have lo: "locks_ok hpath m" and di: "distinct (map fst ws)"
    and wa: "\<And>h kind c. (h, kind, c) \<in> set ws \<Longrightarrow>
      map_of (lm_states m) (hpath h) = Some c \<and> lm_kind m h = LockNone \<and> kind \<noteq> LockNone"
    using ok unfolding sys_ok_def s by auto
  have rest: "distinct (map fst (remove1 w ws))" for w
    using di by (induction ws) (auto dest: set_remove1_subset[THEN subsetD])
  have only: "h \<noteq> h'" if "(h, kind, c) \<in> set ws" "(h', kind', c') \<in> set (remove1 (h, kind, c) ws)"
    for h kind c h' kind' c'
    using that di by (induction ws) (force split: if_splits)+
  from step[unfolded s] show ?thesis
  proof (cases rule: lock_step_cases)
    case (start h kind m' c)
    note a = acquire_start_ok[OF lo start(3)]
    show ?thesis
      unfolding start(1) sys_ok_def using a di start(2) wa by (force simp: image_iff)
  next
    case (got h kind c nonblock m')
    note w = wa[OF got(2)]
    have can: "canTake (lm_cells m ! c) h kind"
      and m': "m' = set_kind h kind (set_cell c (take_lock (lm_cells m ! c) h kind) m)"
      using got(3) by (auto simp: acquire_try_def split: if_splits)
    have "locks_ok hpath m'" unfolding m' using locks_ok_take[OF lo _ _ _ can] w by blast
    moreover have "lm_states m' = lm_states m" "lm_kind m' = (lm_kind m)(h := kind)"
      unfolding m' by (simp_all add: set_kind_def set_cell_def)
    moreover have "map_of (lm_states m) (hpath h') = Some c' \<and> ((lm_kind m)(h := kind)) h' = LockNone \<and>
        k' \<noteq> LockNone" if i: "(h', k', c') \<in> set (remove1 (h, kind, c) ws)" for h' k' c'
    proof -
      have "(h', k', c') \<in> set ws" using i by (metis notin_set_remove1)
      from wa[OF this] only[OF got(2) i] show ?thesis by simp
    qed
    ultimately show ?thesis
      unfolding got(1) sys_ok_def using rest by auto
  next
    case (give_up h kind c)
    have "map_of (lm_states m) (hpath h') = Some c' \<and> lm_kind m h' = LockNone \<and> k' \<noteq> LockNone"
      if i: "(h', k', c') \<in> set (remove1 (h, kind, c) ws)" for h' k' c'
      by (rule wa) (use i in \<open>metis notin_set_remove1\<close>)
    then show ?thesis unfolding give_up(1) sys_ok_def using lo rest by auto
  next
    case (release h)
    have "map_of (lm_states m) (hpath h') = Some c' \<and> ((lm_kind m)(h := LockNone)) h' = LockNone \<and>
        k' \<noteq> LockNone" if i: "(h', k', c') \<in> set ws" for h' k' c'
      using wa[OF i] by simp
    then show ?thesis
      unfolding release(1) sys_ok_def using locks_ok_release[OF lo, of h] di by auto
  qed
qed

lemma sys_ok_reachable: "lock_reachable hpath False s \<Longrightarrow> sys_ok hpath s"
proof (induction rule: lock_reachable.induct)
  case (init timeout)
  show ?case by (simp add: sys_ok_def locks_ok_new)
next
  case (step s s')
  show ?case using step.IH step.hyps(2) by (rule sys_ok_step)
qed

section \<open>Properties\<close>

text \<open>
  C6: as long as no path is unmounted, in every interleaving of lock calls, waits, timeouts
  and releases at most one handle of a path holds the exclusive lock and then no other handle
  of that path holds any; what inspect reports is what the handles of the path believe.
\<close>

theorem lock_exclusion:
  assumes "lock_reachable hpath False (m, ws)" and "hpath h = hpath h'" and "h \<noteq> h'"
    and "lm_kind m h = LockExclusive"
  shows "lm_kind m h' = LockNone \<and> inspect (hpath h) m = (0, True)"
proof -
  have ok: "locks_ok hpath m" using sys_ok_reachable[OF assms(1)] by (simp add: sys_ok_def)
  obtain c where c: "map_of (lm_states m) (hpath h) = Some c"
    using ok assms(4) unfolding locks_ok_def by fastforce
  note cell = cell_of[OF ok c]
  have hin: "holds_in hpath m h c" "holds_in hpath m h' c"
    using c assms(2) by (simp_all add: holds_in_def)
  have ex: "ls_excl (lm_cells m ! c) = Some h" and sh: "ls_shared (lm_cells m ! c) = []"
    using cell hin(1) assms(4) unfolding cell_ok_def by auto
  have "lm_kind m h' \<noteq> LockExclusive" using cell hin(2) ex assms(3) unfolding cell_ok_def by auto
  moreover have "lm_kind m h' \<noteq> LockShared" using cell hin(2) sh unfolding cell_ok_def by auto
  ultimately have "lm_kind m h' = LockNone" by (cases "lm_kind m h'") auto
  with c ex sh show ?thesis by (simp add: inspect_def)
qed

lemma lock_exclusion_witness:
  "case acquire ''/a'' 0 LockExclusive True (newLockManager 0) of
     Return (m, None) \<Rightarrow> lm_kind m 1 = LockNone \<and> inspect ''/a'' m = (0, True)
   | _ \<Rightarrow> False"
proof -
  define m1 where "m1 = fst (acquire_start ''/a'' 0 LockExclusive (newLockManager 0))"
  define m2 where "m2 = set_kind 0 LockExclusive (set_cell 0 (take_lock (lm_cells m1 ! 0) 0 LockExclusive) m1)"
  have s: "acquire_start ''/a'' 0 LockExclusive (newLockManager 0) = (m1, Inr (Some 0))"
    by (simp add: m1_def acquire_start_def newLockManager_def stateFor_def)
  have t: "acquire_try ''/a'' 0 0 LockExclusive True m1 = Return (m2, None)"
    by (simp add: m1_def m2_def acquire_try_def acquire_start_def newLockManager_def stateFor_def
        canTake_def free_lock_def)
  let ?hp = "\<lambda>h :: hid. ''/a''"
  have "lock_reachable ?hp False (m1, [(0, LockExclusive, 0)])"
    by (rule lock_reachable.step[OF lock_reachable.init lock_step.start]) (use s in simp_all)
  from lock_reachable.step[OF this lock_step.got, OF _ t]
  have r: "lock_reachable ?hp False (m2, [])" by simp
  have k: "lm_kind m2 0 = LockExclusive" by (simp add: m2_def set_kind_def)
  show ?thesis
    using lock_exclusion[OF r _ _ k, of 1] s t by (simp add: acquire_def)
qed

text \<open>
  A lock call that does not wait depends only on what the handles of its path hold:
  asking for the lock one holds already is a no-op; otherwise the own lock is given up first,
  and the new one is granted exactly when no other handle conflicts. A refused upgrade
  therefore leaves the handle with no lock at all.
\<close>

theorem flock_outcome:
  assumes "locks_ok hpath m" and "kind \<noteq> LockNone"
  shows "\<exists>m' err. acquire (hpath h) h kind True m = Return (m', err) \<and> locks_ok hpath m' \<and>
    (if lm_kind m h = kind then err = None \<and> m' = m
     else if no_conflict hpath (lm_kind m) h kind
     then err = None \<and> lm_kind m' = (lm_kind m)(h := kind)
     else err = Some (posix EBUSY OpWrite (hpath h) None) \<and> lm_kind m' = (lm_kind m)(h := LockNone))"
proof (cases "lm_kind m h = kind")
  case True
  with assms show ?thesis by (cases kind) (auto simp: acquire_def acquire_start_def)
next
  case False
  obtain m1 c where "stateFor (hpath h)
      (if lm_kind m h \<noteq> LockNone then lock_release (hpath h) h m else m) = (m1, c)" by fastforce
  then have s: "acquire_start (hpath h) h kind m = (m1, Inr (Some c))"
    using False assms(2) by (cases kind) (simp_all add: acquire_start_def)
  note a = acquire_start_ok[OF assms(1) s]
  then have ok1: "locks_ok hpath m1" and c: "map_of (lm_states m1) (hpath h) = Some c"
    and k1: "lm_kind m1 = (lm_kind m)(h := LockNone)" and n1: "lm_kind m1 h = LockNone" by simp_all
  have "canTake (lm_cells m1 ! c) h kind \<longleftrightarrow> no_conflict hpath (lm_kind m) h kind"
    using canTake_no_conflict[OF ok1 c n1 assms(2)] k1 by (simp add: no_conflict_def)
  moreover note locks_ok_take[OF ok1 c n1 assms(2)]
  ultimately show ?thesis
    using False s ok1 k1 by (auto simp: acquire_def acquire_try_def set_kind_def set_cell_def)
qed

lemma flock_outcome_witness:
  "\<exists>m'. acquire ''/a'' 1 LockShared True (newLockManager 5) = Return (m', None) \<and> lm_kind m' 1 = LockShared"
  using flock_outcome[OF locks_ok_new[of "\<lambda>h. ''/a''" 5], of LockShared 1]
  by (auto simp: newLockManager_def no_conflict_def)

text \<open>
  Unmounting breaks the exclusion. A purge frees the path's lock but not the handles'
  own fields, so after an unmount and a remount a second handle gets the exclusive lock while
  the first still believes to hold it, and the first one's next request for it is granted
  without taking anything.
\<close>

theorem lock_purge_breaks_exclusion:
  "\<exists>m. lock_reachable (\<lambda>h. ''/a'') True (m, []) \<and>
     lm_kind m 0 = LockExclusive \<and> lm_kind m 1 = LockExclusive \<and>
     acquire ''/a'' 0 LockExclusive True m = Return (m, None) \<and>
     ls_excl (lm_cells m ! the (map_of (lm_states m) ''/a'')) = Some 1"
proof -
  let ?hp = "\<lambda>h :: hid. ''/a''"
  have go: "lock_reachable ?hp True (m2, [])"
    if r: "lock_reachable ?hp True (m, [])"
      and s: "acquire_start ''/a'' h k m = (m1, Inr (Some c))"
      and t: "acquire_try ''/a'' c h k True m1 = Return (m2, None)" for m m1 m2 h k c
  proof -
    have "lock_reachable ?hp True (m1, [(h, k, c)])"
      by (rule lock_reachable.step[OF r lock_step.start]) (use s in simp_all)
    from lock_reachable.step[OF this lock_step.got, OF _ t] show ?thesis by simp
  qed
  define m0 where "m0 = newLockManager 0"
  define m1 where "m1 = fst (acquire_start ''/a'' 0 LockExclusive m0)"
  define m2 where "m2 = set_kind 0 LockExclusive (set_cell 0 (take_lock free_lock 0 LockExclusive) m1)"
  define m3 where "m3 = purge ''/a'' m2"
  define m4 where "m4 = fst (acquire_start ''/a'' 1 LockExclusive m3)"
  define m5 where "m5 = set_kind 1 LockExclusive (set_cell 1 (take_lock free_lock 1 LockExclusive) m4)"
  note defs = m0_def m1_def m2_def m3_def m4_def m5_def acquire_start_def acquire_try_def acquire_def
    newLockManager_def stateFor_def canTake_def free_lock_def take_lock_def set_kind_def set_cell_def
    purge_def Let_def
  have r0: "lock_reachable ?hp True (m0, [])" unfolding m0_def by (rule lock_reachable.init)
  have r2: "lock_reachable ?hp True (m2, [])"
    by (rule go[OF r0, of 0 LockExclusive m1 0]) (simp_all add: defs)
  have r3: "lock_reachable ?hp True (m3, [])"
    unfolding m3_def by (rule lock_reachable.step[OF r2 lock_step.purge]) simp
  have r5: "lock_reachable ?hp True (m5, [])"
    by (rule go[OF r3, of 1 LockExclusive m4 1]) (simp_all add: defs)
  have "lm_kind m5 0 = LockExclusive" "lm_kind m5 1 = LockExclusive"
    "acquire ''/a'' 0 LockExclusive True m5 = Return (m5, None)"
    "ls_excl (lm_cells m5 ! the (map_of (lm_states m5) ''/a'')) = Some 1"
    by (simp_all add: defs)
  with r5 show ?thesis by blast
qed

end
