(* ===== verification/HandleTable.thy ===== *)
theory HandleTable
  imports Types
begin

unbundle bit_operations_syntax

text \<open>
  The handle manager of core/handles.go: sixteen shards that hold the open handles by id, the
  id sequence (64 bits, wrapping around), the count of active handles and its limit. A handle
  object outlives its entry in the table, so the objects are kept beside the shards, which
  list ids.
\<close>

section \<open>Handles\<close>

abbreviation OpenRead :: u32 where "OpenRead \<equiv> 1"
abbreviation OpenWrite :: u32 where "OpenWrite \<equiv> 2"
abbreviation OpenAppend :: u32 where "OpenAppend \<equiv> 4"
abbreviation OpenNonBlock :: u32 where "OpenNonBlock \<equiv> 8"

definition flag_Has :: "u32 \<Rightarrow> u32 \<Rightarrow> bool" where
  "flag_Has f flag = (f AND flag \<noteq> 0)"

text \<open>
  \<open>hd_mount\<close> is a copy of the entry that the code points to; the fields the handle reads,
  the kind and the stream configuration, never change after the mount. The lock kind is kept
  by the lock manager of theory Flock. The timer pointer is nil, or points to a timer that
  waits for its delay, or to one that has run its function.
\<close>

datatype flush_timer = TimerNil | TimerArmed | TimerFired

record handle =
  hd_id :: u64
  hd_path :: string
  hd_mount :: mount_entry
  hd_caller :: caller_identity
  hd_flags :: u32
  hd_closed :: bool
  hd_buf :: bytes
  hd_policy :: buffer_policy
  hd_timer :: flush_timer

definition handleShardCount :: nat where
  "handleShardCount = 16"

record handle_manager =
  hm_shards :: "u64 list list"
  hm_seq :: u64
  hm_active :: int
  hm_max :: int
  hm_objects :: "(u64 \<times> handle) list"

definition newHandleManager :: "int \<Rightarrow> handle_manager" where
  "newHandleManager maxOpen =
     \<lparr>hm_shards = replicate handleShardCount [], hm_seq = 0, hm_active = 0, hm_max = maxOpen,
      hm_objects = []\<rparr>"

definition shardOf :: "u64 \<Rightarrow> nat" where
  "shardOf i = unat (i mod 16)"

text \<open>acquire: the compare-and-swap loop ends with the count it read.\<close>

definition hm_acquire :: "handle_manager \<Rightarrow> handle_manager \<times> (go_error + u64)" where
  "hm_acquire m =
     (if hm_max m \<le> 0 then (m\<lparr>hm_seq := hm_seq m + 1\<rparr>, Inr (hm_seq m + 1))
      else if hm_max m \<le> hm_active m then (m, Inl (posix EBUSY OpNone [] None))
      else (m\<lparr>hm_active := hm_active m + 1, hm_seq := hm_seq m + 1\<rparr>, Inr (hm_seq m + 1)))"

definition hm_put :: "handle \<Rightarrow> handle_manager \<Rightarrow> handle_manager" where
  "hm_put h m =
     m\<lparr>hm_shards := (hm_shards m)[shardOf (hd_id h) :=
         List.insert (hd_id h) (hm_shards m ! shardOf (hd_id h))],
       hm_objects := mput (hd_id h) h (hm_objects m)\<rparr>"

definition hm_get :: "u64 \<Rightarrow> handle_manager \<Rightarrow> handle option" where
  "hm_get i m =
     (if i \<in> set (hm_shards m ! shardOf i) then map_of (hm_objects m) i else None)"

definition hm_drop :: "u64 \<Rightarrow> handle_manager \<Rightarrow> handle_manager" where
  "hm_drop i m =
     (if i \<in> set (hm_shards m ! shardOf i)
      then m\<lparr>hm_shards := (hm_shards m)[shardOf i := removeAll i (hm_shards m ! shardOf i)],
             hm_active := (if 0 < hm_max m then hm_active m - 1 else hm_active m)\<rparr>
      else m)"

definition hm_snapshot :: "handle_manager \<Rightarrow> u64 list" where
  "hm_snapshot m = concat (hm_shards m)"

section \<open>The budget\<close>

definition handles_ok :: "handle_manager \<Rightarrow> bool" where
  "handles_ok m \<longleftrightarrow>
     length (hm_shards m) = handleShardCount \<and>
     (\<forall>k < handleShardCount. distinct (hm_shards m ! k) \<and> (\<forall>i\<in>set (hm_shards m ! k). shardOf i = k)) \<and>
     (0 < hm_max m \<longrightarrow> hm_active m = int (length (hm_snapshot m)) \<and> hm_active m \<le> hm_max m)"

lemma shardOf_lt: "shardOf i < handleShardCount"
proof -
  have "i mod 16 < (16 :: u64)" by (simp add: word_mod_less_divisor)
  then show ?thesis by (simp add: shardOf_def handleShardCount_def word_less_nat_alt)
qed

lemma length_concat_update:
  "k < length xss \<Longrightarrow> length (concat (xss[k := xs])) + length (xss ! k) = length (concat xss) + length xs"
proof (induction xss arbitrary: k)
  case (Cons a xss)
  then show ?case by (cases k) auto
qed simp

lemma handles_ok_new: "handles_ok (newHandleManager maxOpen)"
  by (auto simp: handles_ok_def newHandleManager_def hm_snapshot_def)

lemma handles_ok_update:
  assumes ok: "handles_ok m" and k: "k < length (hm_shards m)"
    and sh: "hm_shards m' = (hm_shards m)[k := xs]" and d: "distinct xs" "\<forall>i\<in>set xs. shardOf i = k"
    and act: "0 < hm_max m' \<longrightarrow> hm_active m' = int (length (concat ((hm_shards m)[k := xs]))) \<and>
      hm_active m' \<le> hm_max m'"
  shows "handles_ok m'"
  unfolding handles_ok_def
proof (intro conjI allI impI)
  show "length (hm_shards m') = handleShardCount" using ok sh by (simp add: handles_ok_def)
  fix l
  assume l: "l < handleShardCount"
  have "distinct (hm_shards m ! l)" "\<forall>i\<in>set (hm_shards m ! l). shardOf i = l"
    using ok l by (simp_all add: handles_ok_def)
  with d k sh show "distinct (hm_shards m' ! l)" "\<forall>i\<in>set (hm_shards m' ! l). shardOf i = l"
    by (cases "l = k"; simp)+
next
  assume "0 < hm_max m'"
  with act sh show "hm_active m' = int (length (hm_snapshot m'))" "hm_active m' \<le> hm_max m'"
    by (simp_all add: hm_snapshot_def)
qed

lemma shard_of:
  assumes "handles_ok m"
  shows "shardOf i < length (hm_shards m)" and "distinct (hm_shards m ! shardOf i)"
    and "j \<in> set (hm_shards m ! shardOf i) \<Longrightarrow> shardOf j = shardOf i"
proof -
  have "length (hm_shards m) = handleShardCount"
    and "\<forall>k<handleShardCount. distinct (hm_shards m ! k) \<and> (\<forall>i\<in>set (hm_shards m ! k). shardOf i = k)"
    using assms unfolding handles_ok_def by blast+
  with shardOf_lt[of i] show "shardOf i < length (hm_shards m)" "distinct (hm_shards m ! shardOf i)"
    "j \<in> set (hm_shards m ! shardOf i) \<Longrightarrow> shardOf j = shardOf i"
    by (simp, blast, blast)
qed

lemma length_removeAll_distinct:
  "distinct xs \<Longrightarrow> x \<in> set xs \<Longrightarrow> length (removeAll x xs) + 1 = length xs"
  by (induction xs) auto

lemma handles_ok_drop:
  assumes ok: "handles_ok m"
  shows "handles_ok (hm_drop i m)"
proof (cases "i \<in> set (hm_shards m ! shardOf i)")
  case True
  let ?k = "shardOf i" and ?xs = "hm_shards m ! shardOf i"
  note s = shard_of(1,2)[OF ok, of i] and s3 = shard_of(3)[OF ok, of _ i]
  have "length (removeAll i ?xs) + 1 = length ?xs"
    using s True by (intro length_removeAll_distinct) auto
  with length_concat_update[of ?k "hm_shards m" "removeAll i ?xs"] s
  have len: "length (concat ((hm_shards m)[?k := removeAll i ?xs])) + 1 = length (hm_snapshot m)"
    by (simp add: hm_snapshot_def)
  show ?thesis
  proof (rule handles_ok_update[OF ok, of ?k _ "removeAll i ?xs"])
    show "0 < hm_max (hm_drop i m) \<longrightarrow>
        hm_active (hm_drop i m) = int (length (concat ((hm_shards m)[?k := removeAll i ?xs]))) \<and>
        hm_active (hm_drop i m) \<le> hm_max (hm_drop i m)"
      using ok True len by (auto simp: hm_drop_def handles_ok_def)
    show "?k < length (hm_shards m)" by (rule s(1))
    show "hm_shards (hm_drop i m) = (hm_shards m)[?k := removeAll i ?xs]"
      using True by (simp add: hm_drop_def)
    show "distinct (removeAll i ?xs)" using s(2) by (rule distinct_removeAll)
    show "\<forall>j\<in>set (removeAll i ?xs). shardOf j = ?k" using s3 by simp
  qed
qed (use ok in \<open>simp add: hm_drop_def\<close>)

text \<open>An open takes an id and stores the handle under it; the id is new as long as the
  sequence has not wrapped around.\<close>

definition hm_open :: "(u64 \<Rightarrow> handle) \<Rightarrow> handle_manager \<Rightarrow> handle_manager \<times> (go_error + u64)" where
  "hm_open mk m =
     (case hm_acquire m of
        (m1, Inl e) \<Rightarrow> (m1, Inl e)
      | (m1, Inr i) \<Rightarrow> (hm_put (mk i) m1, Inr i))"

lemma handles_ok_open:
  assumes ok: "handles_ok m" and mk: "\<And>i. hd_id (mk i) = i"
    and fresh: "hm_seq m + 1 \<notin> set (hm_shards m ! shardOf (hm_seq m + 1))"
  shows "handles_ok (fst (hm_open mk m))"
proof -
  let ?i = "hm_seq m + 1"
  let ?k = "shardOf ?i" and ?xs = "hm_shards m ! shardOf ?i"
  note s = shard_of(1,2)[OF ok, of ?i] and s3 = shard_of(3)[OF ok, of _ ?i]
  have len: "length (concat ((hm_shards m)[?k := ?i # ?xs])) = length (hm_snapshot m) + 1"
    using length_concat_update[of ?k "hm_shards m" "?i # ?xs"] s by (simp add: hm_snapshot_def)
  show ?thesis
  proof (cases "hm_acquire m")
    case (Pair m1 res)
    show ?thesis
    proof (cases res)
      case (Inl e)
      with Pair ok show ?thesis by (auto simp: hm_open_def hm_acquire_def split: if_splits)
    next
      case (Inr j)
      with Pair have j: "j = ?i" and m1: "hm_shards m1 = hm_shards m" "hm_max m1 = hm_max m"
        and act: "0 < hm_max m \<Longrightarrow> hm_active m1 = hm_active m + 1 \<and> hm_active m < hm_max m"
        by (auto simp: hm_acquire_def split: if_splits)
      have eq: "fst (hm_open mk m) = hm_put (mk ?i) m1"
        using Pair Inr j by (simp add: hm_open_def)
      show ?thesis
        unfolding eq
      proof (rule handles_ok_update[OF ok, of ?k _ "?i # ?xs"])
        show "0 < hm_max (hm_put (mk ?i) m1) \<longrightarrow>
            hm_active (hm_put (mk ?i) m1) = int (length (concat ((hm_shards m)[?k := ?i # ?xs]))) \<and>
            hm_active (hm_put (mk ?i) m1) \<le> hm_max (hm_put (mk ?i) m1)"
          using ok act len m1 by (auto simp: hm_put_def handles_ok_def)
        show "\<forall>j\<in>set (?i # ?xs). shardOf j = ?k" by (auto intro: s3)
      qed (use s fresh m1 mk in \<open>auto simp: hm_put_def\<close>)
    qed
  qed
qed

section \<open>Properties\<close>

text \<open>
  The table never holds more handles than its limit, and the count it reports is the
  number of handles in it: an open is refused with EBUSY exactly when that number has reached
  the limit, and dropping a handle, also twice, gives its place back once.
\<close>

theorem handle_budget:
  assumes "handles_ok m" and "0 < hm_max m" and "\<And>i. hd_id (mk i) = i"
    and "hm_seq m + 1 \<notin> set (hm_shards m ! shardOf (hm_seq m + 1))"
  shows "handles_ok (fst (hm_open mk m)) \<and> handles_ok (hm_drop i m) \<and>
    int (length (hm_snapshot m)) \<le> hm_max m \<and>
    (snd (hm_open mk m) = Inl (posix EBUSY OpNone [] None) \<longleftrightarrow> int (length (hm_snapshot m)) = hm_max m) \<and>
    (snd (hm_open mk m) = Inr j \<longrightarrow> hm_get j (fst (hm_open mk m)) = Some (mk j)) \<and>
    hm_drop i (hm_drop i m) = hm_drop i m \<and> hm_get i (hm_drop i m) = None"
proof -
  have sz: "hm_active m = int (length (hm_snapshot m))" "hm_active m \<le> hm_max m"
    using assms(1,2) by (auto simp: handles_ok_def)
  have k: "shardOf x < length (hm_shards m)" for x using assms(1) shardOf_lt by (simp add: handles_ok_def)
  show ?thesis
    using handles_ok_open[OF assms(1,3,4)] handles_ok_drop[OF assms(1)] sz k assms(2,3)
    by (auto simp: hm_open_def hm_acquire_def hm_put_def hm_get_def hm_drop_def)
qed

lemma handle_budget_witness:
  defines "mk \<equiv> (\<lambda>i. \<lparr>hd_id = i, hd_path = ''/a'', hd_mount = zero_entry, hd_caller = anonymous,
     hd_flags = OpenRead, hd_closed = False, hd_buf = [], hd_policy = zero_policy, hd_timer = TimerNil\<rparr>)"
  shows "snd (hm_open mk (newHandleManager 1)) = Inr 1 \<and>
    hm_get 1 (fst (hm_open mk (newHandleManager 1))) = Some (mk 1)"
proof -
  have mk: "hd_id (mk i) = i" for i by (simp add: mk_def)
  have m: "0 < hm_max (newHandleManager 1)" by (simp add: newHandleManager_def)
  have f: "hm_seq (newHandleManager 1) + 1 \<notin>
      set (hm_shards (newHandleManager 1) ! shardOf (hm_seq (newHandleManager 1) + 1))"
    using shardOf_lt by (simp add: newHandleManager_def)
  have "snd (hm_open mk (newHandleManager 1)) = Inr 1"
    by (simp add: hm_open_def hm_acquire_def newHandleManager_def)
  then show ?thesis using handle_budget[OF handles_ok_new m mk f] by blast
qed

end
