(* ===== verification/FsState.thy ===== *)
theory FsState
  imports Paths Providers Streams Flock HandleTable
begin

text \<open>
  The filesystem of core/filesystem.go as a state, and its namespace operations: NewFS,
  RegisterProvider, Mount, MountSkillAtRoot, Unmount, Rename, Snapshot, Restore and
  DiffSnapshots. Every operation that holds fs.mu throughout is one function on the state.

  Besides the fields of the struct the state has records of what leaves the filesystem: the
  audit entries, the listener calls, the hooks run, and the provider calls that Read has
  handed to a goroutine. Of a provider the filesystem knows the id; its calls belong to the
  environment. The pool of read buffers is storage only and is left out.
\<close>

section \<open>State\<close>

record audit_entry =
  au_Timestamp :: time
  au_Op :: string
  au_Path :: string
  au_Caller :: caller_identity
  au_Err :: "go_error option"
  au_Duration :: duration

record async_call =
  ac_cap :: cap_config
  ac_path :: string
  ac_params :: param_set
  ac_caller :: caller_identity

record fs_state =
  fs_cfg :: global_config
  fs_router :: router
  fs_providers :: "string list"
  fs_handles :: handle_manager
  fs_locks :: lock_manager
  fs_streams :: stream_manager
  fs_metrics :: metrics
  fs_skills :: skill_gen
  fs_events :: event_bus
  fs_breakers :: breakers
  fs_providerCache :: provider_cache
  fs_cleanup :: "nat list"
  fs_writeback :: "(string \<times> bytes) list"
  fs_audits :: "audit_entry list"
  fs_calls :: "(u64 \<times> event) list"
  fs_hooks_run :: "nat list"
  fs_async :: "async_call list"

text \<open>
  How an operation ends: it returns a value or an error, it waits on a stream (with what is
  left of the payload to write), or it panics.
\<close>

datatype 'a res = Ok 'a | Fail go_error | Wait bytes | Crash

definition err_of :: "'a res \<Rightarrow> go_error option" where
  "err_of r = (case r of Fail e \<Rightarrow> Some e | _ \<Rightarrow> None)"

definition NewFS :: "global_config \<Rightarrow> fs_state go" where
  "NewFS cfg0 =
     (case config_Validate cfg0 of
        Some msg \<Rightarrow> Panic
      | None \<Rightarrow>
          (let cfg = withDefaults cfg0
           in Return
             \<lparr>fs_cfg = cfg, fs_router = newRouter, fs_providers = [],
              fs_handles = newHandleManager (g_MaxOpenHandles cfg),
              fs_locks = newLockManager (g_LockTimeout cfg),
              fs_streams = [], fs_metrics = newMetrics,
              fs_skills = NewSkillGenerator (g_SkillsRoot cfg), fs_events = newEventBus,
              fs_breakers = [], fs_providerCache = [], fs_cleanup = [], fs_writeback = [],
              fs_audits = [], fs_calls = [], fs_hooks_run = [], fs_async = []\<rparr>))"

text \<open>The deferred audit callback: started at \<open>t0\<close>, run at \<open>t1\<close>.\<close>

definition fs_audit ::
  "string \<Rightarrow> string \<Rightarrow> caller_identity \<Rightarrow> time \<Rightarrow> time \<Rightarrow> go_error option \<Rightarrow> fs_state \<Rightarrow> fs_state" where
  "fs_audit o1 path caller t0 t1 err fs =
     (if \<not> g_Audit (fs_cfg fs) then fs
      else fs\<lparr>fs_audits := fs_audits fs @
             [\<lparr>au_Timestamp = t0, au_Op = o1, au_Path = path, au_Caller = caller, au_Err = err,
               au_Duration = t1 - t0\<rparr>]\<rparr>)"

definition fs_emit :: "string \<Rightarrow> event_kind \<Rightarrow> fs_state \<Rightarrow> fs_state" where
  "fs_emit path kind fs =
     (let (eb, calls) = emit \<lparr>ev_Path = path, ev_Kind = kind\<rparr> (fs_events fs)
      in fs\<lparr>fs_events := eb, fs_calls := fs_calls fs @ calls\<rparr>)"

definition RegisterProvider :: "string option \<Rightarrow> fs_state \<Rightarrow> fs_state \<times> go_error option" where
  "RegisterProvider p fs =
     (case p of
        None \<Rightarrow> (fs, Some (posix EINVAL OpNone [] None))
      | Some i \<Rightarrow>
          (if i = [] then (fs, Some (posix EINVAL OpNone [] None))
           else if i \<in> set (fs_providers fs) then (fs, Some (posix EEXIST OpNone i None))
           else (fs\<lparr>fs_providers := fs_providers fs @ [i]\<rparr>, None)))"

text \<open>\<open>env_health\<close> is None for a provider that is no HealthCheckable.\<close>

definition ProviderHealth :: "'w env \<Rightarrow> 'w \<Rightarrow> fs_state \<Rightarrow> (string \<times> string) list" where
  "ProviderHealth env w fs =
     map (\<lambda>i. (i, case env_health env w i of
                    None \<Rightarrow> ''unknown''
                  | Some (Some e) \<Rightarrow> ''unhealthy: '' @ error_text e
                  | Some None \<Rightarrow> ''healthy'')) (fs_providers fs)"

definition RegisterNotifier :: "string \<Rightarrow> fs_state \<Rightarrow> fs_state \<times> u64" where
  "RegisterNotifier pre fs =
     (let (eb, i) = register pre (fs_events fs) in (fs\<lparr>fs_events := eb\<rparr>, i))"

definition OnShutdown :: "nat \<Rightarrow> fs_state \<Rightarrow> fs_state" where
  "OnShutdown hook fs = fs\<lparr>fs_cleanup := fs_cleanup fs @ [hook]\<rparr>"

section \<open>Mounting\<close>

definition hasProviderOps :: "(op_code \<times> cap_config option) list \<Rightarrow> bool" where
  "hasProviderOps ops = (0 < length ops)"

definition with_router :: "router \<Rightarrow> fs_state \<Rightarrow> fs_state" where
  "with_router r fs = fs\<lparr>fs_router := r\<rparr>"

definition router_drop :: "string \<Rightarrow> fs_state \<Rightarrow> fs_state" where
  "router_drop path fs = with_router (fst (router_remove (fs_router fs) path)) fs"

definition root_entry :: "string \<Rightarrow> bytes \<Rightarrow> fs_state \<Rightarrow> mount_entry" where
  "root_entry path data fs =
     zero_entry\<lparr>me_Path := path, me_Kind := KindBlob, me_Mode := mode_0444, me_BlobData := data,
       me_UID := g_DefaultUID (fs_cfg fs), me_GID := g_DefaultGID (fs_cfg fs)\<rparr>"

text \<open>Read a generated text, add it as a blob at the root and emit the event.\<close>

definition mount_root_file ::
  "string \<Rightarrow> (go_error + bytes) \<Rightarrow> fs_state \<Rightarrow> fs_state \<times> go_error option" where
  "mount_root_file path data fs =
     (case data of
        Inl e \<Rightarrow> (fs, Some e)
      | Inr d \<Rightarrow>
          (case router_add (fs_router fs) (root_entry path d fs) of
             (r, Inl e) \<Rightarrow> (with_router r fs, Some e)
           | (r, Inr m) \<Rightarrow> (fs_emit path EventCreate (with_router r fs), None)))"

definition MountSkillAtRoot :: "skill_config \<Rightarrow> fs_state \<Rightarrow> fs_state \<times> go_error option" where
  "MountSkillAtRoot cfg fs =
     (if \<not> sk_ExposeAtRoot cfg then (fs, None)
      else (case mount_root_file ''/SKILL.md'' (ReadSkillFile (sk_Name cfg) (fs_skills fs)) fs of
              (fs1, Some e) \<Rightarrow> (fs1, Some e)
            | (fs1, None) \<Rightarrow>
                (if sk_AgentsTemplate cfg \<noteq> []
                 then mount_root_file ''/AGENTS.md'' (ReadAgentsFile (sk_Name cfg) (fs_skills fs1)) fs1
                 else (fs1, None))))"

definition UnmountSkillAtRoot :: "fs_state \<Rightarrow> fs_state \<times> go_error option" where
  "UnmountSkillAtRoot fs =
     (let fs1 = router_drop ''/AGENTS.md'' fs
      in case router_remove (fs_router fs1) ''/SKILL.md'' of
           (r, Inl e) \<Rightarrow> (with_router r fs1, Some e)
         | (r, Inr m) \<Rightarrow> (with_router r fs1, None))"

text \<open>The defaults mountLocked fills into the entry.\<close>

definition entry_defaults :: "global_config \<Rightarrow> time \<Rightarrow> string \<Rightarrow> mount_entry \<Rightarrow> mount_entry" where
  "entry_defaults cfg now path e =
     e\<lparr>me_Path := path,
       me_Kind := (if me_Kind e = KindOther [] then KindAPI else me_Kind e),
       me_Mode := (if me_Mode e = 0 then mode_0444 else me_Mode e),
       me_UID := (if me_UID e = 0 then g_DefaultUID cfg else me_UID e),
       me_GID := (if me_GID e = 0 then g_DefaultGID cfg else me_GID e),
       me_ModTime := (if me_ModTime e = 0 then now else me_ModTime e),
       me_serial := (if me_Serial e then True else me_serial e)\<rparr>"

definition mountLocked ::
  "'w env \<Rightarrow> time \<Rightarrow> string \<Rightarrow> mount_entry \<Rightarrow> fs_state \<Rightarrow> fs_state \<times> go_error option" where
  "mountLocked env now path entry fs =
     (if 0 < g_MaxMounts (fs_cfg fs) \<and> g_MaxMounts (fs_cfg fs) \<le> int (router_count (fs_router fs))
        then (fs, Some (posix ENOSPC OpStat path None))
      else if me_Kind entry = KindBlob \<and> g_MaxBlobSize (fs_cfg fs) < int (length (me_BlobData entry))
        then (fs, Some (posix ENOSPC OpStat path None))
      else if length (fs_providers fs) = 0 \<and> hasProviderOps (me_Ops entry)
        then (fs, Some (posix EINVAL OpStat path None))
      else if list_ex (\<lambda>(o1, c). case c of None \<Rightarrow> True
                         | Some cap \<Rightarrow> cc_ProviderID cap \<notin> set (fs_providers fs)) (me_Ops entry)
        then (fs, Some (posix EINVAL OpStat path None))
      else
        (case router_add (fs_router fs) (entry_defaults (fs_cfg fs) now path entry) of
           (r, Inl e) \<Rightarrow> (with_router r fs, Some e)
         | (r, Inr mounted) \<Rightarrow>
             (let fs1 = with_router r fs
              in case me_Skill mounted of
                   None \<Rightarrow> (fs1, None)
                 | Some sk \<Rightarrow>
                     (if \<not> sk_Enabled sk then (fs1, None)
                      else (case Generate (env_render env) sk (fs_skills fs1) of
                              (g, Some e) \<Rightarrow> (router_drop path (fs1\<lparr>fs_skills := g\<rparr>), Some e)
                            | (g, None) \<Rightarrow>
                                (case MountSkillAtRoot sk (fs1\<lparr>fs_skills := g\<rparr>) of
                                   (fs2, Some e) \<Rightarrow> (router_drop path fs2, Some e)
                                 | (fs2, None) \<Rightarrow> (fs2, None)))))))"

definition mount_body ::
  "'w env \<Rightarrow> time \<Rightarrow> string \<Rightarrow> mount_entry \<Rightarrow> fs_state \<Rightarrow> fs_state \<times> go_error option" where
  "mount_body env now p entry fs =
     (case normalizePath p of
        Inl e \<Rightarrow> (fs, Some e)
      | Inr path \<Rightarrow>
          (if isReservedPath path then (fs, Some (posix EINVAL OpStat path None))
           else if entry_Validate entry \<noteq> None then (fs, Some (posix EINVAL OpStat path None))
           else (case mountLocked env now path entry fs of
                   (fs1, Some e) \<Rightarrow> (fs1, Some e)
                 | (fs1, None) \<Rightarrow> (fs_emit path EventCreate fs1, None))))"

definition fs_Mount ::
  "'w env \<Rightarrow> 'w \<Rightarrow> string \<Rightarrow> mount_entry \<Rightarrow> fs_state \<Rightarrow> fs_state \<times> go_error option" where
  "fs_Mount env w p entry fs =
     (let now = env_now env w; (fs1, err) = mount_body env now p entry fs
      in (fs_audit ''mount'' p anonymous now (env_done env w) err fs1, err))"

section \<open>Unmounting and renaming\<close>

definition unmountLocked :: "string \<Rightarrow> fs_state \<Rightarrow> fs_state \<times> go_error option" where
  "unmountLocked path fs =
     (case router_remove (fs_router fs) path of
        (r, Inl e) \<Rightarrow> (with_router r fs, Some e)
      | (r, Inr m) \<Rightarrow>
          (let fs1 = with_router r fs;
               (fs2, err) =
                 (case me_Skill m of
                    None \<Rightarrow> (fs1, None)
                  | Some sk \<Rightarrow>
                      (if sk_Enabled sk
                       then (let (g, e) = skill_Remove (sk_Name sk) (fs_skills fs1)
                             in (fs1\<lparr>fs_skills := g\<rparr>, e))
                       else (fs1, None)))
           in case err of
                Some e \<Rightarrow> (fs2, Some e)
              | None \<Rightarrow> (fs2\<lparr>fs_locks := purge path (fs_locks fs2),
                             fs_streams := fst (sm_remove path (fs_streams fs2))\<rparr>, None)))"

definition unmount_body :: "string \<Rightarrow> fs_state \<Rightarrow> fs_state \<times> go_error option" where
  "unmount_body p fs =
     (case normalizePath p of
        Inl e \<Rightarrow> (fs, Some e)
      | Inr path \<Rightarrow>
          (case unmountLocked path fs of
             (fs1, Some e) \<Rightarrow> (fs1, Some e)
           | (fs1, None) \<Rightarrow> (fs_emit path EventRemove fs1, None)))"

definition fs_Unmount :: "'w env \<Rightarrow> 'w \<Rightarrow> string \<Rightarrow> fs_state \<Rightarrow> fs_state \<times> go_error option" where
  "fs_Unmount env w p fs =
     (let now = env_now env w; (fs1, err) = unmount_body p fs
      in (fs_audit ''unmount'' p anonymous now (env_done env w) err fs1, err))"

definition fs_Remove :: "'w env \<Rightarrow> 'w \<Rightarrow> string \<Rightarrow> fs_state \<Rightarrow> fs_state \<times> go_error option" where
  "fs_Remove env w path fs = fs_Unmount env w path fs"

text \<open>\<open>*m\<close> with its new path is added; when that fails the old path is put back and added
  again, the result of which is ignored.\<close>

definition renameLocked :: "string \<Rightarrow> string \<Rightarrow> router \<Rightarrow> router \<times> go_error option" where
  "renameLocked oldPath newPath r =
     (case router_remove r oldPath of
        (r1, Inl e) \<Rightarrow> (r1, Some e)
      | (r1, Inr m) \<Rightarrow>
          (case router_add r1 (m\<lparr>me_Path := newPath\<rparr>) of
             (r2, Inl e) \<Rightarrow> (fst (router_add r2 (m\<lparr>me_Path := oldPath\<rparr>)), Some e)
           | (r2, Inr m') \<Rightarrow> (r2, None)))"

definition rename_body :: "string \<Rightarrow> string \<Rightarrow> fs_state \<Rightarrow> fs_state \<times> go_error option" where
  "rename_body oldPath newPath fs =
     (case normalizePath oldPath of
        Inl e \<Rightarrow> (fs, Some e)
      | Inr oldP \<Rightarrow>
          (case normalizePath newPath of
             Inl e \<Rightarrow> (fs, Some e)
           | Inr newP \<Rightarrow>
               (case renameLocked oldP newP (fs_router fs) of
                  (r, Some e) \<Rightarrow> (with_router r fs, Some e)
                | (r, None) \<Rightarrow>
                    (fs_emit newP EventCreate (fs_emit oldP EventRemove (with_router r fs)), None))))"

definition fs_Rename ::
  "'w env \<Rightarrow> 'w \<Rightarrow> string \<Rightarrow> string \<Rightarrow> fs_state \<Rightarrow> fs_state \<times> go_error option" where
  "fs_Rename env w oldPath newPath fs =
     (let now = env_now env w; (fs1, err) = rename_body oldPath newPath fs
      in (fs_audit ''rename'' (oldPath @ ''->'' @ newPath) anonymous now (env_done env w) err fs1, err))"

section \<open>Snapshots\<close>

definition fs_Snapshot :: "fs_state \<Rightarrow> mount_entry list" where
  "fs_Snapshot fs = router_snapshot (fs_router fs)"

fun add_all :: "mount_entry list \<Rightarrow> router \<Rightarrow> router \<times> go_error option" where
  "add_all [] r = (r, None)"
| "add_all (e # es) r =
     (case router_add r e of (r', Inl err) \<Rightarrow> (r', Some err) | (r', Inr m) \<Rightarrow> add_all es r')"

definition router_Restore :: "mount_entry list \<Rightarrow> router \<Rightarrow> router \<times> go_error option" where
  "router_Restore entries r =
     add_all entries (fold (\<lambda>e r. fst (router_remove r (me_Path e))) (router_snapshot r) r)"

definition fs_Restore :: "mount_entry list \<Rightarrow> fs_state \<Rightarrow> fs_state \<times> go_error option" where
  "fs_Restore entries fs =
     (let (r, err) = router_Restore entries (fs_router fs) in (with_router r fs, err))"

definition mountEntryEqual :: "mount_entry \<Rightarrow> mount_entry \<Rightarrow> bool" where
  "mountEntryEqual a b =
     (if me_Kind a \<noteq> me_Kind b \<or> me_Mode a \<noteq> me_Mode b \<or> me_UID a \<noteq> me_UID b \<or> me_GID a \<noteq> me_GID b
        then False
      else if me_LinkPath a \<noteq> me_LinkPath b \<or> me_Visibility a \<noteq> me_Visibility b then False
      else if me_ModTime a \<noteq> me_ModTime b then False
      else if me_BlobData a \<noteq> me_BlobData b then False
      else if (me_Stream a = None) \<noteq> (me_Stream b = None) then False
      else if (case (me_Stream a, me_Stream b) of
                 (Some s, Some t) \<Rightarrow> sc_Capacity s \<noteq> sc_Capacity t \<or> sc_Mode s \<noteq> sc_Mode t
               | _ \<Rightarrow> False) then False
      else if (me_Skill a = None) \<noteq> (me_Skill b = None) then False
      else if (case (me_Skill a, me_Skill b) of
                 (Some s, Some t) \<Rightarrow> sk_Name s \<noteq> sk_Name t \<or> sk_Enabled s \<noteq> sk_Enabled t
               | _ \<Rightarrow> False) then False
      else True)"

record snapshot_diff =
  sd_Added :: "mount_entry list"
  sd_Removed :: "mount_entry list"
  sd_Modified :: "(string \<times> mount_entry \<times> mount_entry) list"

definition path_map :: "mount_entry list \<Rightarrow> (string \<times> mount_entry) list" where
  "path_map es = fold (\<lambda>e m. mput (me_Path e) e m) es []"

definition DiffSnapshots :: "mount_entry list \<Rightarrow> mount_entry list \<Rightarrow> snapshot_diff" where
  "DiffSnapshots old new =
     (let oldMap = map_of (path_map old); newMap = map_of (path_map new)
      in \<lparr>sd_Added = filter (\<lambda>e. oldMap (me_Path e) = None) new,
          sd_Removed = filter (\<lambda>e. newMap (me_Path e) = None) old,
          sd_Modified =
            concat (map (\<lambda>e. case oldMap (me_Path e) of
                               None \<Rightarrow> []
                             | Some prev \<Rightarrow>
                                 (if mountEntryEqual prev e then [] else [(me_Path e, prev, e)])) new)\<rparr>)"

end
