(* ===== verification/Permissions.thy ===== *)
theory Permissions
  imports Types
begin

unbundle bit_operations_syntax

text \<open>
  core/permissions.go: the mode check and the namespace check. The mode is a 32-bit word;
  the class that applies is other, unless the group matches, unless the user matches.
\<close>

text \<open>A nil mount is \<open>None\<close>.\<close>

definition canAccessNamespace :: "caller_identity \<Rightarrow> mount_entry option \<Rightarrow> bool" where
  "canAccessNamespace caller m =
     (if ca_Namespace caller = [] then True
      else (case m of
              None \<Rightarrow> True
            | Some e \<Rightarrow> me_Namespace e = [] \<or> ca_Namespace caller = me_Namespace e))"

definition canAccess ::
  "caller_identity \<Rightarrow> u32 \<Rightarrow> u32 \<Rightarrow> u32 \<Rightarrow> op_code \<Rightarrow> bool" where
  "canAccess caller uid gid mode o1 =
     (if o1 = OpStat \<or> o1 = OpReaddir then True
      else if o1 \<noteq> OpRead \<and> o1 \<noteq> OpWrite then False
      else
        let bit = (if o1 = OpRead then 4 else 2);
            perm0 = mode AND 7;
            perm1 = (if ca_GID caller = gid then drop_bit 3 mode AND 7 else perm0);
            perm2 = (if ca_UID caller = uid then drop_bit 6 mode AND 7 else perm1)
        in perm2 AND bit \<noteq> 0)"

section \<open>The bit that decides\<close>

text \<open>The position of the permission bit, counted from the least significant bit.\<close>

definition class_shift :: "caller_identity \<Rightarrow> u32 \<Rightarrow> u32 \<Rightarrow> nat" where
  "class_shift caller uid gid =
     (if ca_UID caller = uid then 6 else if ca_GID caller = gid then 3 else 0)"

definition op_shift :: "op_code \<Rightarrow> nat" where
  "op_shift o1 = (if o1 = OpRead then 2 else 1)"

lemma and_bit_neq_0: "(w :: u32) AND 2 ^ n \<noteq> 0 \<longleftrightarrow> bit w n"
  by (simp add: and_exp_eq_0_iff_not_bit)

lemma class_bits:
  "((drop_bit k mode AND 7) AND (4 :: u32) \<noteq> 0) \<longleftrightarrow> bit mode (k + 2)"
  "((drop_bit k mode AND 7) AND (2 :: u32) \<noteq> 0) \<longleftrightarrow> bit mode (k + 1)"
proof -
  have m4: "(7 :: u32) AND 4 = 2 ^ 2" and m2: "(7 :: u32) AND 2 = 2 ^ 1" by simp_all
  show "((drop_bit k mode AND 7) AND (4 :: u32) \<noteq> 0) \<longleftrightarrow> bit mode (k + 2)"
    unfolding and.assoc m4 and_bit_neq_0 by (simp add: bit_drop_bit_eq)
  show "((drop_bit k mode AND 7) AND (2 :: u32) \<noteq> 0) \<longleftrightarrow> bit mode (k + 1)"
    unfolding and.assoc m2 and_bit_neq_0 by (simp add: bit_drop_bit_eq)
qed

lemma class_bits0:
  "((mode AND 7) AND (4 :: u32) \<noteq> 0) \<longleftrightarrow> bit mode 2"
  "((mode AND 7) AND (2 :: u32) \<noteq> 0) \<longleftrightarrow> bit mode 1"
  using class_bits[of 0 mode] by (simp_all add: numeral_2_eq_2)

lemma canAccess_bit:
  assumes "o1 = OpRead \<or> o1 = OpWrite"
  shows "canAccess caller uid gid mode o1 \<longleftrightarrow>
    bit mode (class_shift caller uid gid + op_shift o1)"
  using assms class_bits[of 3 mode] class_bits[of 6 mode] class_bits0[of mode]
  unfolding canAccess_def class_shift_def op_shift_def Let_def
  by auto

section \<open>Properties\<close>

text \<open>
  Read and write are decided by exactly one bit of the mode, that of the first class the
  caller is in, owner before group before other: an owner whose bit is clear is refused even
  when the group's or everybody's bit is set. Stat and readdir are always allowed, any other
  operation never.
\<close>

theorem canAccess_spec:
  "canAccess caller uid gid mode o1 \<longleftrightarrow>
     (case o1 of
        OpStat \<Rightarrow> True
      | OpReaddir \<Rightarrow> True
      | OpOther s \<Rightarrow> False
      | OpRead \<Rightarrow> bit mode (class_shift caller uid gid + 2)
      | OpWrite \<Rightarrow> bit mode (class_shift caller uid gid + 1))"
proof (cases o1)
  case OpRead
  then show ?thesis using canAccess_bit[of OpRead caller uid gid mode] by (simp add: op_shift_def)
next
  case OpWrite
  then show ?thesis using canAccess_bit[of OpWrite caller uid gid mode] by (simp add: op_shift_def)
qed (simp_all add: canAccess_def)

end
