(* ===== verification/FsOps.thy ===== *)
theory FsOps
  imports FsState Permissions
begin

text \<open>
  The data operations of core/filesystem.go: Stat, Readdir, Read, Write, Resolve, ReadLink and
  FollowLink, with the dynamic directories and the metrics file.

  An operation maps the filesystem and the world to a new pair and a result. Write on a blob
  has two critical sections in the code, the check under the read lock and \<open>writeBlob\<close>
  under the write lock; they are two definitions here, and the operation runs one after the
  other. A write to a stream is one step per chunk; when a chunk has to wait, the result says
  which bytes are left.
\<close>

section \<open>Glue\<close>

type_synonym 'w fsw = "fs_state \<times> 'w"

definition fs_invoke ::
  "'w env \<Rightarrow> cap_config \<Rightarrow> op_code \<Rightarrow> string \<Rightarrow> param_set \<Rightarrow> bytes \<Rightarrow> caller_identity \<Rightarrow>
   'w fsw \<Rightarrow> 'w fsw \<times> (go_error + bytes option)" where
  "fs_invoke env cap o1 path ps payload caller s =
     (let (c, r) = invokeProvider env cap o1 path ps payload caller
            \<lparr>cs_cache = fs_providerCache (fst s), cs_metrics = fs_metrics (fst s), cs_world = snd s\<rparr>
      in (((fst s)\<lparr>fs_providerCache := cs_cache c, fs_metrics := cs_metrics c\<rparr>, cs_world c), r))"

definition fs_providerFor ::
  "'w env \<Rightarrow> mount_entry \<Rightarrow> op_code \<Rightarrow> string \<Rightarrow> 'w fsw \<Rightarrow> 'w fsw \<times> (go_error + cap_config)" where
  "fs_providerFor env m o1 path s =
     (let (bs, r) = providerFor (g_Breaker (fs_cfg (fst s))) (env_now env (snd s))
                      (fs_providers (fst s)) (fs_breakers (fst s)) m o1 path
      in (((fst s)\<lparr>fs_breakers := bs\<rparr>, snd s), r))"

definition fs_record :: "'w env \<Rightarrow> string \<Rightarrow> bool \<Rightarrow> 'w fsw \<Rightarrow> 'w fsw" where
  "fs_record env i success s =
     ((fst s)\<lparr>fs_breakers := recordBreakerResult (g_Breaker (fs_cfg (fst s)))
                (env_now env (snd s)) i success (fs_breakers (fst s))\<rparr>, snd s)"

text \<open>The deferred calls at the return of an operation: the metric, then the audit entry. An
  operation that waits or panics has not returned.\<close>

definition finish ::
  "'w env \<Rightarrow> op_code \<Rightarrow> string \<Rightarrow> string \<Rightarrow> caller_identity \<Rightarrow> time \<Rightarrow>
   'w fsw \<times> 'a res \<Rightarrow> 'w fsw \<times> 'a res" where
  "finish env o1 name path caller t0 out =
     (let ((fs, w), r) = out; t1 = env_done env w
      in case r of
           Wait rest \<Rightarrow> out
         | Crash \<Rightarrow> out
         | _ \<Rightarrow> ((fs_audit name path caller t0 t1 (err_of r)
                   (fs\<lparr>fs_metrics := metrics_record o1 (t1 - t0) (err_of r \<noteq> None) (fs_metrics fs)\<rparr>), w), r))"

definition fs_Prometheus :: "'w env \<Rightarrow> fs_state \<Rightarrow> bytes" where
  "fs_Prometheus env fs =
     metrics_Prometheus (env_secs env) (Some (fs_events fs)) (fs_metrics fs) @
     ''# TYPE skills_fs_mounts_total gauge'' @ nl @
     ''skills_fs_mounts_total '' @ dec_text (router_count (fs_router fs)) @ nl @
     ''# TYPE skills_fs_handles_active gauge'' @ nl @
     ''skills_fs_handles_active '' @ dec_text (nat (hm_active (fs_handles fs))) @ nl @
     ''# TYPE skills_fs_providers_total gauge'' @ nl @
     ''skills_fs_providers_total '' @ dec_text (length (fs_providers fs)) @ nl @
     (if 0 < length (fs_breakers fs) then
        ''# TYPE skills_fs_breaker_state gauge'' @ nl @
        concat (map (\<lambda>(i, cb). ''skills_fs_breaker_state{provider='' @ quote i @ ''} '' @
                       dec_text (currentState cb) @ nl) (fs_breakers fs))
      else [])"

section \<open>Stat\<close>

definition dir_stat :: "string \<Rightarrow> node_kind \<Rightarrow> u32 \<Rightarrow> int \<Rightarrow> fs_state \<Rightarrow> stat" where
  "dir_stat path kind mode sz fs =
     \<lparr>st_Path = path, st_Kind = kind, st_Mode = mode, st_UID = g_DefaultUID (fs_cfg fs),
      st_GID = g_DefaultGID (fs_cfg fs), st_Size = sz, st_ModTime = 0\<rparr>"

definition mount_size :: "mount_entry \<Rightarrow> string \<Rightarrow> fs_state \<Rightarrow> int option" where
  "mount_size m path fs =
     (case me_Kind m of
        KindBlob \<Rightarrow> Some (int (length (me_BlobData m)))
      | KindAPI \<Rightarrow> Some 0
      | KindDir \<Rightarrow> Some 0
      | KindDynamicDir \<Rightarrow> Some 0
      | KindLink \<Rightarrow> Some (int (length (me_LinkPath m)))
      | KindStream \<Rightarrow> Some (sm_size path (fs_streams fs))
      | KindOther _ \<Rightarrow> None)"

definition stat_router :: "string \<Rightarrow> caller_identity \<Rightarrow> fs_state \<Rightarrow> stat res" where
  "stat_router path caller fs =
     (case router_match (fs_router fs) path of
        Inl e \<Rightarrow> Fail e
      | Inr rm \<Rightarrow>
          (if \<not> canAccessNamespace caller (rm_mount rm) then Fail (posix ENOENT OpStat path None)
           else (case rm_mount rm of
                   None \<Rightarrow> Ok (dir_stat path KindDir mode_0555 0 fs)
                 | Some m \<Rightarrow>
                     (case mount_size m path fs of
                        None \<Rightarrow> Fail (posix EINVAL OpStat path None)
                      | Some sz \<Rightarrow>
                          Ok \<lparr>st_Path = path, st_Kind = me_Kind m, st_Mode = me_Mode m,
                              st_UID = me_UID m, st_GID = me_GID m, st_Size = sz,
                              st_ModTime = me_ModTime m\<rparr>))))"

definition stat_body :: "'w env \<Rightarrow> string \<Rightarrow> caller_identity \<Rightarrow> fs_state \<Rightarrow> stat res" where
  "stat_body env path caller fs =
     (if path = ''/sys'' then Ok (dir_stat path KindDir mode_0555 0 fs)
      else if path = ''/sys/metrics''
        then Ok (dir_stat path KindBlob mode_0444 (int (length (fs_Prometheus env fs))) fs)
      else if path = ''/skills'' then Ok (dir_stat path KindDir mode_0555 0 fs)
      else if (case skillDirPath path of Some name \<Rightarrow> skill_Exists name (fs_skills fs) | None \<Rightarrow> False)
        then Ok (dir_stat path KindDir mode_0555 0 fs)
      else (case skillFilePath path of
              Some name \<Rightarrow>
                (case ReadSkillFile name (fs_skills fs) of
                   Inl e \<Rightarrow> Fail (if \<not> isPosix e then posix ENOENT OpStat path (Some e) else e)
                 | Inr data \<Rightarrow> Ok (dir_stat path KindBlob mode_0444 (int (length data)) fs))
            | None \<Rightarrow> stat_router path caller fs))"

definition fs_Stat :: "'w env \<Rightarrow> string \<Rightarrow> caller_identity \<Rightarrow> 'w fsw \<Rightarrow> 'w fsw \<times> stat res" where
  "fs_Stat env path caller s =
     finish env OpStat ''stat'' path caller (env_now env (snd s)) (s, stat_body env path caller (fst s))"

section \<open>Readdir\<close>

text \<open>The map of mergeDirEntries, by name; then its values sorted by name.\<close>

definition mergeDirEntries :: "dir_entry list \<Rightarrow> dir_entry list \<Rightarrow> dir_entry list" where
  "mergeDirEntries a b =
     (let seen = fold (\<lambda>e m. mput (de_Name e) e m) a [];
          all = fold (\<lambda>e m. if map_of m (de_Name e) = None then mput (de_Name e) e m else m) b seen
      in sort_key de_Name (map snd all))"

definition child_path :: "string \<Rightarrow> string \<Rightarrow> string" where
  "child_path parent name = (if parent = ''/'' then ''/'' @ name else parent @ ''/'' @ name)"

definition filterDirEntriesByNamespace ::
  "router \<Rightarrow> dir_entry list \<Rightarrow> string \<Rightarrow> caller_identity \<Rightarrow> dir_entry list" where
  "filterDirEntriesByNamespace r entries parent caller =
     (if ca_Namespace caller = [] then entries
      else filter (\<lambda>e. case router_match r (child_path parent (de_Name e)) of
                         Inl err \<Rightarrow> True
                       | Inr rm \<Rightarrow> canAccessNamespace caller (rm_mount rm)) entries)"

text \<open>strconv.ParseUint in base 8 with 32 bits.\<close>

fun octal :: "nat \<Rightarrow> string \<Rightarrow> nat option" where
  "octal a [] = Some a"
| "octal a (c # cs) =
     (if CHR ''0'' \<le> c \<and> c \<le> CHR ''7'' then octal (8 * a + (of_char c - 48)) cs else None)"

definition parse_mode :: "string \<Rightarrow> u32" where
  "parse_mode s =
     (if s = [] then 0
      else (case octal 0 s of
              None \<Rightarrow> 0
            | Some n \<Rightarrow> if n < 2 ^ 32 then of_nat n else 0))"

definition entries_error :: string where
  "entries_error =
     (let q = [CHR 0x22]
      in ''dynamic directory entries must be a JSON array of names or {'' @ q @ ''entries'' @ q @
         '': [{'' @ q @ ''name'' @ q @ '':'' @ q @ ''...'' @ q @ ''}]}'')"

definition parseDynamicEntries :: "'w env \<Rightarrow> bytes \<Rightarrow> go_error + dir_entry list" where
  "parseDynamicEntries env data =
     (case env_names env data of
        Some names \<Rightarrow>
          Inr (map (\<lambda>name. \<lparr>de_Name = name, de_Kind = KindOther [], de_Mode = 0\<rparr>) names)
      | None \<Rightarrow>
          (case env_wrapped env data of
             Some (Some es) \<Rightarrow>
               Inr (map (\<lambda>de. \<lparr>de_Name = dy_Name de, de_Kind = kind_of (dy_Kind de),
                              de_Mode = parse_mode (dy_Mode de)\<rparr>) es)
           | _ \<Rightarrow> Inl (PlainError entries_error)))"

definition infer_kind :: "router \<Rightarrow> string \<Rightarrow> dir_entry \<Rightarrow> dir_entry" where
  "infer_kind r path e =
     (if de_Kind e = KindOther [] then
        (case router_match r (child_path path (de_Name e)) of
           Inr rm \<Rightarrow>
             (case rm_mount rm of
                Some m \<Rightarrow> e\<lparr>de_Kind := me_Kind m, de_Mode := me_Mode m\<rparr>
              | None \<Rightarrow> e\<lparr>de_Kind := KindDir, de_Mode := mode_0555\<rparr>)
         | Inl err \<Rightarrow> e\<lparr>de_Kind := KindDir, de_Mode := mode_0555\<rparr>)
      else e)"

definition listDynamicDir ::
  "'w env \<Rightarrow> mount_entry \<Rightarrow> string \<Rightarrow> param_set \<Rightarrow> caller_identity \<Rightarrow> 'w fsw \<Rightarrow>
   'w fsw \<times> (go_error + dir_entry list)" where
  "listDynamicDir env m path ps caller s =
     (case fs_providerFor env m OpRead path s of
        (s1, Inl e) \<Rightarrow> (s1, Inl e)
      | (s1, Inr cap) \<Rightarrow>
          (case fs_invoke env cap OpRead path ps [] caller s1 of
             (s2, Inl e) \<Rightarrow> (s2, Inl e)
           | (s2, Inr data) \<Rightarrow>
               (s2, map_sum id (map (infer_kind (fs_router (fst s2)) path))
                      (parseDynamicEntries env (case data of None \<Rightarrow> [] | Some d \<Rightarrow> d)))))"

text \<open>The mount that readdir found and its parameters, or the error that ends it.\<close>

definition readdir_match ::
  "string \<Rightarrow> caller_identity \<Rightarrow> fs_state \<Rightarrow> go_error + (mount_entry \<times> param_set) option" where
  "readdir_match path caller fs =
     (if path = ''/'' then Inr None
      else (case router_match (fs_router fs) path of
              Inl e \<Rightarrow> Inr None
            | Inr rm \<Rightarrow>
                (case rm_mount rm of
                   None \<Rightarrow> Inr None
                 | Some m \<Rightarrow>
                     (if \<not> canAccessNamespace caller (Some m) then Inl (posix ENOENT OpReaddir path None)
                      else if \<not> canAccess caller (me_UID m) (me_GID m) (me_Mode m) OpReaddir
                        then Inl (posix EACCES OpReaddir path None)
                      else if me_Kind m \<noteq> KindDir \<and> me_Kind m \<noteq> KindDynamicDir
                        then Inl (posix ENOTDIR OpReaddir path None)
                      else Inr (Some (m, rm_params rm))))))"

definition plain_dir :: "string \<Rightarrow> dir_entry" where
  "plain_dir name = \<lparr>de_Name = name, de_Kind = KindDir, de_Mode = mode_0555\<rparr>"

definition blob_file :: "string \<Rightarrow> dir_entry" where
  "blob_file name = \<lparr>de_Name = name, de_Kind = KindBlob, de_Mode = mode_0444\<rparr>"

definition readdir_router ::
  "'w env \<Rightarrow> string \<Rightarrow> caller_identity \<Rightarrow> 'w fsw \<Rightarrow> 'w fsw \<times> dir_entry list res" where
  "readdir_router env path caller s =
     (case readdir_match path caller (fst s) of
        Inl e \<Rightarrow> (s, Fail e)
      | Inr matched \<Rightarrow>
          (case router_list (fs_router (fst s)) path of
             Inl e \<Rightarrow> (s, Fail e)
           | Inr entries0 \<Rightarrow>
               (let entries1 = filterDirEntriesByNamespace (fs_router (fst s)) entries0 path caller;
                    (s1, entries2) =
                      (case matched of
                         Some (m, ps) \<Rightarrow>
                           (if me_Kind m = KindDynamicDir then
                              (case listDynamicDir env m path ps caller s of
                                 (s1, Inl e) \<Rightarrow> (s1, entries1)
                               | (s1, Inr dyn) \<Rightarrow>
                                   (s1, if 0 < length dyn then mergeDirEntries entries1 dyn else entries1))
                            else (s, entries1))
                       | None \<Rightarrow> (s, entries1));
                    entries3 =
                      (case matched of
                         Some (m, ps) \<Rightarrow>
                           (if me_Kind m = KindDynamicDir
                            then filter (\<lambda>e. \<not> has_prefix (de_Name e) '':'') entries2 else entries2)
                       | None \<Rightarrow> entries2);
                    entries4 =
                      (if path = ''/'' then
                         sort_key de_Name
                           (mergeDirEntries [] (entries3 @ [plain_dir ''sys'', plain_dir ''skills'']))
                       else entries3)
                in (s1, Ok entries4))))"

definition readdir_body ::
  "'w env \<Rightarrow> string \<Rightarrow> caller_identity \<Rightarrow> 'w fsw \<Rightarrow> 'w fsw \<times> dir_entry list res" where
  "readdir_body env path caller s =
     (if path = ''/sys'' then (s, Ok [blob_file ''metrics''])
      else if path = ''/skills'' then
        (let entries = map (\<lambda>sk. plain_dir (sk_Name sk)) (skill_List (fs_skills (fst s)))
         in (s, Ok (case router_list (fs_router (fst s)) path of
                      Inl e \<Rightarrow> entries
                    | Inr routeEntries \<Rightarrow> mergeDirEntries entries routeEntries)))
      else if (case skillDirPath path of Some name \<Rightarrow> skill_Exists name (fs_skills (fst s)) | None \<Rightarrow> False)
        then (s, Ok [blob_file ''SKILL.md''])
      else readdir_router env path caller s)"

definition fs_Readdir ::
  "'w env \<Rightarrow> string \<Rightarrow> caller_identity \<Rightarrow> 'w fsw \<Rightarrow> 'w fsw \<times> dir_entry list res" where
  "fs_Readdir env path caller s =
     finish env OpReaddir ''readdir'' path caller (env_now env (snd s)) (readdir_body env path caller s)"

section \<open>Read\<close>

text \<open>The checks of Read and Write up to the switch on the kind; \<open>what\<close> is the adjective in
  the message.\<close>

definition access_check ::
  "op_code \<Rightarrow> string \<Rightarrow> string \<Rightarrow> caller_identity \<Rightarrow> router \<Rightarrow> go_error + (mount_entry \<times> param_set)" where
  "access_check o1 what path caller r =
     (case router_match r path of
        Inl e \<Rightarrow> Inl e
      | Inr rm \<Rightarrow>
          (case rm_mount rm of
             None \<Rightarrow> Inl (posix ENOTDIR o1 path (Some (PlainError (''not a '' @ what @ '' path: '' @ path))))
           | Some m \<Rightarrow>
               (if \<not> canAccessNamespace caller (Some m) then Inl (posix ENOENT o1 path None)
                else if \<not> canAccess caller (me_UID m) (me_GID m) (me_Mode m) o1
                  then Inl (posix EACCES o1 path None)
                else Inr (m, rm_params rm))))"

definition nil_to_empty :: "bytes option \<Rightarrow> bytes" where
  "nil_to_empty d = (case d of None \<Rightarrow> [] | Some b \<Rightarrow> b)"

definition read_api ::
  "'w env \<Rightarrow> string \<Rightarrow> caller_identity \<Rightarrow> mount_entry \<Rightarrow> param_set \<Rightarrow> 'w fsw \<Rightarrow> 'w fsw \<times> bytes res" where
  "read_api env path caller m ps s =
     (case (if me_Writeback m then map_of (fs_writeback (fst s)) path else None) of
        Some stored \<Rightarrow> (s, Ok stored)
      | None \<Rightarrow>
          (case fs_providerFor env m OpRead path s of
             (s1, Inl e) \<Rightarrow> (s1, Fail e)
           | (s1, Inr cap) \<Rightarrow>
               (if cc_Async cap then
                  (((fst s1)\<lparr>fs_async := fs_async (fst s1) @
                       [\<lparr>ac_cap = cap, ac_path = path, ac_params = ps, ac_caller = caller\<rparr>]\<rparr>, snd s1), Ok [])
                else
                  (let (s2, r) = fs_invoke env cap OpRead path ps [] caller s1
                   in (fs_record env (cc_ProviderID cap) (\<not> isl r) s2,
                       case r of Inl e \<Rightarrow> Fail e | Inr d \<Rightarrow> Ok (nil_to_empty d))))))"

text \<open>The goroutine of an asynchronous read.\<close>

definition run_async :: "'w env \<Rightarrow> 'w fsw \<Rightarrow> 'w fsw" where
  "run_async env s =
     (case fs_async (fst s) of
        [] \<Rightarrow> s
      | c # cs \<Rightarrow>
          (let (s1, r) = fs_invoke env (ac_cap c) OpRead (ac_path c) (ac_params c) [] (ac_caller c)
                           ((fst s)\<lparr>fs_async := cs\<rparr>, snd s)
           in fs_record env (cc_ProviderID (ac_cap c)) (\<not> isl r) s1))"

definition put_stream :: "string \<Rightarrow> stream_buffer \<Rightarrow> 'w fsw \<Rightarrow> 'w fsw" where
  "put_stream path b s = ((fst s)\<lparr>fs_streams := mput path b (fs_streams (fst s))\<rparr>, snd s)"

definition read_size :: "stream_config option \<Rightarrow> nat" where
  "read_size cfg =
     (case cfg of
        None \<Rightarrow> streamReadChunk
      | Some c \<Rightarrow> if 0 < sc_MaxChunkSize c \<and> sc_MaxChunkSize c < int streamReadChunk
                  then nat (sc_MaxChunkSize c) else streamReadChunk)"

definition stream_read ::
  "string \<Rightarrow> stream_config option \<Rightarrow> nat option \<Rightarrow> bool \<Rightarrow> 'w fsw \<Rightarrow> 'w fsw \<times> bytes res" where
  "stream_read path cfg len nonblock s =
     (let (sm, b) = sm_getOrCreate path cfg (fs_streams (fst s));
          s1 = ((fst s)\<lparr>fs_streams := sm\<rparr>, snd s);
          n = (case len of Some k \<Rightarrow> k | None \<Rightarrow> sb_maxChunkSize b)
      in case sb_read b n nonblock of
           Return (b', Inr data) \<Rightarrow> (put_stream path b' s1, Ok data)
         | Return (b', Inl e) \<Rightarrow> (put_stream path b' s1, Fail e)
         | Panic \<Rightarrow> (s1, Crash)
         | Block \<Rightarrow> (s1, Wait []))"

definition read_body ::
  "'w env \<Rightarrow> string \<Rightarrow> caller_identity \<Rightarrow> 'w fsw \<Rightarrow> 'w fsw \<times> bytes res" where
  "read_body env path caller s =
     (if path = ''/sys/metrics'' then (s, Ok (fs_Prometheus env (fst s)))
      else (case skillFilePath path of
              Some name \<Rightarrow>
                (case ReadSkillFile name (fs_skills (fst s)) of
                   Inl e \<Rightarrow> (s, Fail e)
                 | Inr data \<Rightarrow> (s, Ok data))
            | None \<Rightarrow>
                (case access_check OpRead ''readable'' path caller (fs_router (fst s)) of
                   Inl e \<Rightarrow> (s, Fail e)
                 | Inr (m, ps) \<Rightarrow>
                     (case me_Kind m of
                        KindBlob \<Rightarrow> (s, Ok (me_BlobData m))
                      | KindAPI \<Rightarrow> read_api env path caller m ps s
                      | KindLink \<Rightarrow> (s, Ok (me_LinkPath m))
                      | KindStream \<Rightarrow> stream_read path (me_Stream m) (Some (read_size (me_Stream m))) False s
                      | KindDir \<Rightarrow> (s, Fail (posix EISDIR OpRead path None))
                      | KindDynamicDir \<Rightarrow> (s, Fail (posix EISDIR OpRead path None))
                      | KindOther _ \<Rightarrow> (s, Fail (posix ENOSYS OpRead path None))))))"

definition fs_Read ::
  "'w env \<Rightarrow> string \<Rightarrow> caller_identity \<Rightarrow> 'w fsw \<Rightarrow> 'w fsw \<times> bytes res" where
  "fs_Read env path caller s =
     finish env OpRead ''read'' path caller (env_now env (snd s)) (read_body env path caller s)"

section \<open>Write\<close>

text \<open>Changing the mount a path matches, in place.\<close>

fun node_update :: "string list \<Rightarrow> ('a \<Rightarrow> 'a) \<Rightarrow> 'a route_node \<Rightarrow> 'a route_node" where
  "node_update [] f (RouteNode st pr mt) = RouteNode st pr (map_option f mt)"
| "node_update (s # segs) f (RouteNode st pr mt) =
     (case map_of st s of
        Some c \<Rightarrow> RouteNode (mput s (node_update segs f c) st) pr mt
      | None \<Rightarrow>
          (case pr of
             Some (key, c) \<Rightarrow> RouteNode st (Some (key, node_update segs f c)) mt
           | None \<Rightarrow> RouteNode st pr mt))"

definition router_update :: "string \<Rightarrow> (mount_entry \<Rightarrow> mount_entry) \<Rightarrow> router \<Rightarrow> router" where
  "router_update path f r = r\<lparr>r_root := node_update (path_segs path) f (r_root r)\<rparr>"

text \<open>writeBlob: the second critical section. The mount is nil when the path has become an
  intermediate directory in the meantime, and its UID is read without a check.\<close>

definition writeBlob ::
  "time \<Rightarrow> string \<Rightarrow> bytes \<Rightarrow> caller_identity \<Rightarrow> fs_state \<Rightarrow> fs_state \<times> unit res" where
  "writeBlob now path payload caller fs =
     (case router_match (fs_router fs) path of
        Inl e \<Rightarrow> (fs, Fail e)
      | Inr rm \<Rightarrow>
          (if \<not> canAccessNamespace caller (rm_mount rm) then (fs, Fail (posix ENOENT OpWrite path None))
           else (case rm_mount rm of
                   None \<Rightarrow> (fs, Crash)
                 | Some m \<Rightarrow>
                     (if \<not> canAccess caller (me_UID m) (me_GID m) (me_Mode m) OpWrite
                        then (fs, Fail (posix EACCES OpWrite path None))
                      else if g_MaxBlobSize (fs_cfg fs) < int (length payload)
                        then (fs, Fail (posix ENOSPC OpWrite path None))
                      else (with_router (router_update path
                                (\<lambda>m. m\<lparr>me_BlobData := payload, me_ModTime := now\<rparr>) (fs_router fs)) fs,
                            Ok ())))))"

definition write_blob_step ::
  "'w env \<Rightarrow> string \<Rightarrow> bytes \<Rightarrow> caller_identity \<Rightarrow> 'w fsw \<Rightarrow> 'w fsw \<times> unit res" where
  "write_blob_step env path payload caller s =
     (case writeBlob (env_now env (snd s)) path payload caller (fst s) of
        (fs1, Ok u) \<Rightarrow> ((fs_emit path EventWrite fs1, snd s), Ok ())
      | (fs1, r) \<Rightarrow> ((fs1, snd s), r))"

definition schemaErrJSON :: "'w env \<Rightarrow> string \<Rightarrow> go_error \<Rightarrow> string \<Rightarrow> bytes" where
  "schemaErrJSON env schema err p =
     env_marshal env
       [(''error'', JStr (error_text err)),
        (''expected_schema'',
           if schema = [] then JNull
           else if \<not> env_json_ok env schema then JStr schema else JRaw schema),
        (''hint'', JStr (''write valid JSON matching expected_schema; see '' @ p @ ''.schema''))]"

definition write_api ::
  "'w env \<Rightarrow> string \<Rightarrow> bytes \<Rightarrow> caller_identity \<Rightarrow> mount_entry \<Rightarrow> param_set \<Rightarrow> 'w fsw \<Rightarrow>
   'w fsw \<times> unit res" where
  "write_api env path payload caller m ps s =
     (case fs_providerFor env m OpWrite path s of
        (s1, Inl e) \<Rightarrow> (s1, Fail e)
      | (s1, Inr cap) \<Rightarrow>
          (let (s2, r) = fs_invoke env cap OpWrite path ps payload caller s1;
               s3 = fs_record env (cc_ProviderID cap) (\<not> isl r) s2;
               store = (\<lambda>d. ((fst s3)\<lparr>fs_writeback := mput path d (fs_writeback (fst s3))\<rparr>, snd s3))
           in case r of
                Inl e \<Rightarrow>
                  (if me_Writeback m then (store (schemaErrJSON env (me_Schema m) e path), Ok ())
                   else (s3, Fail e))
              | Inr None \<Rightarrow> (s3, Ok ())
              | Inr (Some d) \<Rightarrow> (if me_Writeback m then (store d, Ok ()) else (s3, Ok ()))))"

text \<open>The loop over the chunks of a payload.\<close>

datatype chunk_end = AllWritten | ChunkErr go_error | ChunkWait bytes | ChunkPanic

lemma write_progress:
  "sb_write b p nonblock = Return (b', Inr n) \<Longrightarrow> p \<noteq> [] \<Longrightarrow> 0 < n \<and> n \<le> length p"
  by (auto simp: sb_write_def chunk_of_def Let_def split: if_splits backpressure.splits)

function chunk_loop :: "bool \<Rightarrow> bytes \<Rightarrow> stream_buffer \<Rightarrow> stream_buffer \<times> chunk_end" where
  "chunk_loop nonblock payload b =
     (if payload = [] then (b, AllWritten)
      else (case sb_write b payload nonblock of
              Return (b', Inr n) \<Rightarrow> chunk_loop nonblock (drop n payload) b'
            | Return (b', Inl e) \<Rightarrow> (b', ChunkErr e)
            | Panic \<Rightarrow> (b, ChunkPanic)
            | Block \<Rightarrow> (b, ChunkWait payload)))"
  by pat_completeness auto
termination
  by (relation "measure (\<lambda>(nonblock, payload, b). length payload)") (auto dest: write_progress)

declare chunk_loop.simps [simp del]

definition stream_write ::
  "string \<Rightarrow> stream_config option \<Rightarrow> bool \<Rightarrow> bytes \<Rightarrow> 'w fsw \<Rightarrow> 'w fsw \<times> unit res" where
  "stream_write path cfg nonblock payload s =
     (let (sm, b) = sm_getOrCreate path cfg (fs_streams (fst s));
          s1 = ((fst s)\<lparr>fs_streams := sm\<rparr>, snd s);
          (b', r) = chunk_loop nonblock payload b
      in (put_stream path b' s1,
          case r of AllWritten \<Rightarrow> Ok () | ChunkErr e \<Rightarrow> Fail e | ChunkWait rest \<Rightarrow> Wait rest
           | ChunkPanic \<Rightarrow> Crash))"

definition write_body ::
  "'w env \<Rightarrow> string \<Rightarrow> bytes \<Rightarrow> caller_identity \<Rightarrow> 'w fsw \<Rightarrow> 'w fsw \<times> unit res" where
  "write_body env path payload caller s =
     (case access_check OpWrite ''writable'' path caller (fs_router (fst s)) of
        Inl e \<Rightarrow> (s, Fail e)
      | Inr (m, ps) \<Rightarrow>
          (case me_Kind m of
             KindBlob \<Rightarrow> write_blob_step env path payload caller s
           | KindAPI \<Rightarrow> write_api env path payload caller m ps s
           | KindStream \<Rightarrow>
               (case stream_write path (me_Stream m) False payload s of
                  (s1, Ok u) \<Rightarrow> ((fs_emit path EventWrite (fst s1), snd s1), Ok ())
                | (s1, r) \<Rightarrow> (s1, r))
           | _ \<Rightarrow> (s, Fail (posix ENOSYS OpWrite path None))))"

definition fs_Write ::
  "'w env \<Rightarrow> string \<Rightarrow> bytes \<Rightarrow> caller_identity \<Rightarrow> 'w fsw \<Rightarrow> 'w fsw \<times> unit res" where
  "fs_Write env path payload caller s =
     finish env OpWrite ''write'' path caller (env_now env (snd s)) (write_body env path payload caller s)"

section \<open>Resolve and links\<close>

definition fs_Resolve :: "string \<Rightarrow> fs_state \<Rightarrow> (mount_entry \<times> (string \<Rightarrow> string option)) res" where
  "fs_Resolve path fs =
     (case router_match (fs_router fs) path of
        Inl e \<Rightarrow> Fail e
      | Inr rm \<Rightarrow>
          (case rm_mount rm of
             None \<Rightarrow> Fail (PlainError (''not a mounted path: '' @ path))
           | Some m \<Rightarrow> Ok (m, ps_ToMap (rm_params rm))))"

definition fs_ResolveParams :: "string \<Rightarrow> fs_state \<Rightarrow> (mount_entry \<times> param_set) res" where
  "fs_ResolveParams path fs =
     (case router_match (fs_router fs) path of
        Inl e \<Rightarrow> Fail e
      | Inr rm \<Rightarrow>
          (case rm_mount rm of
             None \<Rightarrow> Fail (PlainError (''not a mounted path: '' @ path))
           | Some m \<Rightarrow> Ok (m, rm_params rm)))"

definition ReadLink :: "fs_state \<Rightarrow> string \<Rightarrow> string res" where
  "ReadLink fs path =
     (case router_match (fs_router fs) path of
        Inl e \<Rightarrow> Fail e
      | Inr rm \<Rightarrow>
          (case rm_mount rm of
             None \<Rightarrow> Crash
           | Some m \<Rightarrow>
               (if me_Kind m \<noteq> KindLink then Fail (posix EINVAL OpRead path None)
                else Ok (me_LinkPath m))))"

text \<open>\<open>fuel\<close> is what is left of \<open>maxDepth\<close>.\<close>

fun follow_loop :: "nat \<Rightarrow> fs_state \<Rightarrow> string \<Rightarrow> string res" where
  "follow_loop 0 fs p = Fail (posix ELOOP OpRead p None)"
| "follow_loop (Suc fuel) fs p =
     (case ReadLink fs p of
        Fail e \<Rightarrow> (if as_posix e = Some EINVAL then Ok p else Fail e)
      | Ok target \<Rightarrow> follow_loop fuel fs (link_target p target)
      | Wait rest \<Rightarrow> Wait rest
      | Crash \<Rightarrow> Crash)"

definition FollowLink :: "fs_state \<Rightarrow> string \<Rightarrow> string res" where
  "FollowLink fs p = follow_loop 16 fs p"

end
