(* ===== verification/Handles.thy ===== *)
theory Handles
  imports FsOps
begin

text \<open>
  The operations on open files of core/handles.go and the teardown of core/filesystem.go:
  Open, ReadAll, Write with its buffering, Flush, Flock, Funlock, Close, the function of the
  flush timer, CloseAllHandles, OnShutdown and Shutdown.

  A handle is named by its id. An operation runs while it holds the handle's mutex where the
  code does. An operation that waits inside a stream or a lock has not returned; the result
  says so, and what it has done until then is in the state.
\<close>

section \<open>Opening\<close>

definition fs_Open :: "string \<Rightarrow> u32 \<Rightarrow> caller_identity \<Rightarrow> fs_state \<Rightarrow> fs_state \<times> u64 res" where
  "fs_Open path flags caller fs =
     (if \<not> flag_Has flags OpenRead \<and> \<not> flag_Has flags OpenWrite \<and> \<not> flag_Has flags OpenAppend
        then (fs, Fail (posix EINVAL OpStat path None))
      else (case router_match (fs_router fs) path of
              Inl e \<Rightarrow> (fs, Fail e)
            | Inr rm \<Rightarrow>
                (if \<not> canAccessNamespace caller (rm_mount rm) then (fs, Fail (posix ENOENT OpStat path None))
                 else (case rm_mount rm of
                         None \<Rightarrow> (fs, Crash)
                       | Some m \<Rightarrow>
                           (if flag_Has flags OpenRead \<and>
                               \<not> canAccess caller (me_UID m) (me_GID m) (me_Mode m) OpRead
                              then (fs, Fail (posix EACCES OpRead path None))
                            else if (flag_Has flags OpenWrite \<or> flag_Has flags OpenAppend) \<and>
                               \<not> canAccess caller (me_UID m) (me_GID m) (me_Mode m) OpWrite
                              then (fs, Fail (posix EACCES OpWrite path None))
                            else
                              (let policy = (case me_BufferPolicy m of None \<Rightarrow> zero_policy | Some p \<Rightarrow> p);
                                   (hm, r) = hm_open (\<lambda>i. \<lparr>hd_id = i, hd_path = path, hd_mount = m,
                                     hd_caller = caller, hd_flags = flags, hd_closed = False, hd_buf = [],
                                     hd_policy = policy, hd_timer = TimerNil\<rparr>) (fs_handles fs)
                               in (fs\<lparr>fs_handles := hm\<rparr>,
                                   case r of Inl e \<Rightarrow> Fail e | Inr i \<Rightarrow> Ok i)))))))"

section \<open>Handle objects\<close>

definition handle_of :: "u64 \<Rightarrow> fs_state \<Rightarrow> handle option" where
  "handle_of i fs = map_of (hm_objects (fs_handles fs)) i"

definition set_handle :: "u64 \<Rightarrow> handle \<Rightarrow> 'w fsw \<Rightarrow> 'w fsw" where
  "set_handle i h s =
     ((fst s)\<lparr>fs_handles := (fs_handles (fst s))\<lparr>hm_objects :=
        mput i h (hm_objects (fs_handles (fst s)))\<rparr>\<rparr>, snd s)"

text \<open>A method on the handle with this id; there is always an object behind a pointer.\<close>

definition on_handle :: "u64 \<Rightarrow> (handle \<Rightarrow> 'w fsw \<times> 'a res) \<Rightarrow> 'w fsw \<Rightarrow> 'w fsw \<times> 'a res" where
  "on_handle i f s = (case handle_of i (fst s) of None \<Rightarrow> (s, Crash) | Some h \<Rightarrow> f h)"

text \<open>One step after another; anything but a normal return ends the function.\<close>

definition and_then :: "'w fsw \<times> unit res \<Rightarrow> ('w fsw \<Rightarrow> 'w fsw \<times> unit res) \<Rightarrow> 'w fsw \<times> unit res" where
  "and_then x f = (case snd x of Ok u \<Rightarrow> f (fst x) | _ \<Rightarrow> x)"

definition stop_timer :: "handle \<Rightarrow> handle" where
  "stop_timer h = h\<lparr>hd_timer := TimerNil\<rparr>"

definition flushPrefixLocked :: "'w env \<Rightarrow> u64 \<Rightarrow> nat \<Rightarrow> 'w fsw \<Rightarrow> 'w fsw \<times> unit res" where
  "flushPrefixLocked env i n s = on_handle i (\<lambda>h.
     if n = 0 then (s, Ok ())
     else and_then (fs_Write env (hd_path h) (take n (hd_buf h)) (hd_caller h) s) (\<lambda>s1.
            let h1 = h\<lparr>hd_buf := drop n (hd_buf h)\<rparr>
            in (set_handle i (if hd_buf h1 = [] then stop_timer h1 else h1) s1, Ok ()))) s"

definition flushAllLocked :: "'w env \<Rightarrow> u64 \<Rightarrow> 'w fsw \<Rightarrow> 'w fsw \<times> unit res" where
  "flushAllLocked env i s = on_handle i (\<lambda>h.
     if hd_buf h = [] then (set_handle i (stop_timer h) s, Ok ())
     else flushPrefixLocked env i (length (hd_buf h)) s) s"

section \<open>Reading and writing\<close>

definition h_ReadAll :: "'w env \<Rightarrow> u64 \<Rightarrow> 'w fsw \<Rightarrow> 'w fsw \<times> bytes res" where
  "h_ReadAll env i s = on_handle i (\<lambda>h.
     if hd_closed h then (s, Fail (posix EBUSY OpRead (hd_path h) None))
     else if \<not> flag_Has (hd_flags h) OpenRead then (s, Fail (posix EACCES OpRead (hd_path h) None))
     else if me_Kind (hd_mount h) = KindStream
       then stream_read (hd_path h) (me_Stream (hd_mount h)) None (flag_Has (hd_flags h) OpenNonBlock) s
     else fs_Read env (hd_path h) (hd_caller h) s) s"

text \<open>bytes.LastIndexByte.\<close>

fun last_index :: "char \<Rightarrow> bytes \<Rightarrow> nat option" where
  "last_index c [] = None"
| "last_index c (x # xs) =
     (case last_index c xs of
        Some k \<Rightarrow> Some (Suc k)
      | None \<Rightarrow> if x = c then Some 0 else None)"

definition flush_lines :: "'w env \<Rightarrow> u64 \<Rightarrow> 'w fsw \<Rightarrow> 'w fsw \<times> unit res" where
  "flush_lines env i s = on_handle i (\<lambda>h.
     if bp_FlushOnNewline (hd_policy h) then
       (case last_index (CHR 0x0A) (hd_buf h) of
          Some idx \<Rightarrow> flushPrefixLocked env i (idx + 1) s
        | None \<Rightarrow> (s, Ok ()))
     else (s, Ok ())) s"

definition flush_full :: "'w env \<Rightarrow> u64 \<Rightarrow> 'w fsw \<Rightarrow> 'w fsw \<times> unit res" where
  "flush_full env i s = on_handle i (\<lambda>h.
     let maxSize = (if bp_MaxSize (hd_policy h) \<le> 0 then 64 * 1024 else bp_MaxSize (hd_policy h))
     in if maxSize \<le> int (length (hd_buf h)) then flushAllLocked env i s else (s, Ok ())) s"

definition arm_timer :: "u64 \<Rightarrow> 'w fsw \<Rightarrow> 'w fsw \<times> unit res" where
  "arm_timer i s = on_handle i (\<lambda>h.
     if 0 < length (hd_buf h) \<and> 0 < bp_MaxDelay (hd_policy h) \<and> hd_timer h = TimerNil
     then (set_handle i (h\<lparr>hd_timer := TimerArmed\<rparr>) s, Ok ())
     else (s, Ok ())) s"

definition write_buffered :: "'w env \<Rightarrow> u64 \<Rightarrow> bytes \<Rightarrow> 'w fsw \<Rightarrow> 'w fsw \<times> unit res" where
  "write_buffered env i payload s = on_handle i (\<lambda>h.
     and_then
       (and_then (flush_lines env i (set_handle i (h\<lparr>hd_buf := hd_buf h @ payload\<rparr>) s)) (flush_full env i))
       (arm_timer i)) s"

definition h_Write :: "'w env \<Rightarrow> u64 \<Rightarrow> bytes \<Rightarrow> 'w fsw \<Rightarrow> 'w fsw \<times> unit res" where
  "h_Write env i payload s = on_handle i (\<lambda>h.
     if hd_closed h then (s, Fail (posix EBUSY OpWrite (hd_path h) None))
     else if \<not> flag_Has (hd_flags h) OpenWrite \<and> \<not> flag_Has (hd_flags h) OpenAppend
       then (s, Fail (posix EACCES OpWrite (hd_path h) None))
     else if me_Kind (hd_mount h) = KindStream
       then stream_write (hd_path h) (me_Stream (hd_mount h)) (flag_Has (hd_flags h) OpenNonBlock) payload s
     else if bp_Mode (hd_policy h) \<noteq> WriteBuffered
       then fs_Write env (hd_path h) payload (hd_caller h) s
     else write_buffered env i payload s) s"

definition h_Flush :: "'w env \<Rightarrow> u64 \<Rightarrow> 'w fsw \<Rightarrow> 'w fsw \<times> unit res" where
  "h_Flush env i s = on_handle i (\<lambda>h.
     if hd_closed h then (s, Fail (posix EBUSY OpWrite (hd_path h) None))
     else flushAllLocked env i s) s"

text \<open>The function of the timer; its error is dropped.\<close>

definition timer_fires :: "'w env \<Rightarrow> u64 \<Rightarrow> 'w fsw \<Rightarrow> 'w fsw \<times> unit res" where
  "timer_fires env i s = on_handle i (\<lambda>h.
     if hd_timer h = TimerArmed
     then h_Flush env i (set_handle i (h\<lparr>hd_timer := TimerFired\<rparr>) s)
     else (s, Ok ())) s"

section \<open>Locks and closing\<close>

definition with_locks :: "lock_manager \<Rightarrow> 'w fsw \<Rightarrow> 'w fsw" where
  "with_locks m s = ((fst s)\<lparr>fs_locks := m\<rparr>, snd s)"

definition h_Funlock :: "u64 \<Rightarrow> 'w fsw \<Rightarrow> 'w fsw \<times> unit res" where
  "h_Funlock i s = on_handle i (\<lambda>h.
     if hd_closed h then (s, Fail (posix EBUSY OpWrite (hd_path h) None))
     else if lm_kind (fs_locks (fst s)) (unat i) = LockNone then (s, Ok ())
     else (with_locks (lock_release (hd_path h) (unat i) (fs_locks (fst s))) s, Ok ())) s"

definition h_Flock :: "u64 \<Rightarrow> lock_kind \<Rightarrow> bool \<Rightarrow> 'w fsw \<Rightarrow> 'w fsw \<times> unit res" where
  "h_Flock i kind nonblock s = on_handle i (\<lambda>h.
     if hd_closed h then (s, Fail (posix EBUSY OpWrite (hd_path h) None))
     else if kind = LockNone then h_Funlock i s
     else (case acquire_start (hd_path h) (unat i) kind (fs_locks (fst s)) of
             (m, Inl e) \<Rightarrow> (with_locks m s, Fail e)
           | (m, Inr None) \<Rightarrow> (with_locks m s, Ok ())
           | (m, Inr (Some c)) \<Rightarrow>
               (case acquire_try (hd_path h) c (unat i) kind nonblock m of
                  Return (m', None) \<Rightarrow> (with_locks m' s, Ok ())
                | Return (m', Some e) \<Rightarrow> (with_locks m' s, Fail e)
                | Block \<Rightarrow> (with_locks m s, Wait [])
                | Panic \<Rightarrow> (with_locks m s, Crash)))) s"

definition drop_handle :: "u64 \<Rightarrow> 'w fsw \<Rightarrow> 'w fsw" where
  "drop_handle i s = ((fst s)\<lparr>fs_handles := hm_drop i (fs_handles (fst s))\<rparr>, snd s)"

text \<open>What Close does after the flush: the timer, the lock, the table.\<close>

definition close_rest :: "u64 \<Rightarrow> string \<Rightarrow> 'w fsw \<Rightarrow> 'w fsw" where
  "close_rest i path s =
     (let s1 = (case handle_of i (fst s) of None \<Rightarrow> s | Some h \<Rightarrow> set_handle i (stop_timer h) s);
          s2 = (if lm_kind (fs_locks (fst s1)) (unat i) \<noteq> LockNone
                then with_locks (lock_release path (unat i) (fs_locks (fst s1))) s1 else s1)
      in drop_handle i s2)"

definition h_Close :: "'w env \<Rightarrow> u64 \<Rightarrow> 'w fsw \<Rightarrow> 'w fsw \<times> unit res" where
  "h_Close env i s = on_handle i (\<lambda>h.
     if hd_closed h then (s, Fail (posix EBUSY OpNone (hd_path h) None))
     else (case flushAllLocked env i (set_handle i (h\<lparr>hd_closed := True\<rparr>) s) of
             (s1, Ok u) \<Rightarrow> (close_rest i (hd_path h) s1, Ok ())
           | (s1, Fail e) \<Rightarrow> (close_rest i (hd_path h) s1, Fail e)
           | (s1, Wait rest) \<Rightarrow> (s1, Wait rest)
           | (s1, Crash) \<Rightarrow> (s1, Crash))) s"

section \<open>Teardown\<close>

text \<open>\<open>ctx\<close> is what ctx.Err() returns in a world. The errors of the closes are dropped.\<close>

fun close_each :: "'w env \<Rightarrow> ('w \<Rightarrow> go_error option) \<Rightarrow> u64 list \<Rightarrow> 'w fsw \<Rightarrow> 'w fsw \<times> unit res" where
  "close_each env ctx [] s = (s, Ok ())"
| "close_each env ctx (i # is) s =
     (case ctx (snd s) of
        Some e \<Rightarrow> (s, Fail e)
      | None \<Rightarrow>
          (case h_Close env i s of
             (s1, Wait rest) \<Rightarrow> (s1, Wait rest)
           | (s1, Crash) \<Rightarrow> (s1, Crash)
           | (s1, r) \<Rightarrow> close_each env ctx is s1))"

definition CloseAllHandles :: "'w env \<Rightarrow> 'w fsw \<Rightarrow> 'w fsw \<times> unit res" where
  "CloseAllHandles env s = close_each env (\<lambda>w. None) (hm_snapshot (fs_handles (fst s))) s"

text \<open>The hooks are functions of the embedding program; the ones that run are recorded.\<close>

definition runCleanup :: "fs_state \<Rightarrow> fs_state" where
  "runCleanup fs = fs\<lparr>fs_cleanup := [], fs_hooks_run := fs_hooks_run fs @ rev (fs_cleanup fs)\<rparr>"

definition Shutdown :: "'w env \<Rightarrow> ('w \<Rightarrow> go_error option) \<Rightarrow> 'w fsw \<Rightarrow> 'w fsw \<times> unit res" where
  "Shutdown env ctx s =
     and_then (close_each env ctx (hm_snapshot (fs_handles (fst s))) s) (\<lambda>s1.
       ((runCleanup ((fst s1)\<lparr>fs_streams := sm_closeAll (fs_streams (fst s1)),
                             fs_events := clear (fs_events (fst s1))\<rparr>), snd s1), Ok ()))"

end
