(* ===== verification/Namespace.thy ===== *)
theory Namespace
  imports FsState
begin

text \<open>
  What the namespace operations of theory FsState do to the mounts: rename, restoring a
  snapshot, and the comparison of snapshots. A mount table is read through \<open>look\<close>, which is
  the mount at a pattern; entries are compared without the identifier the router gives them.
\<close>

section \<open>Adding and removing at a known place\<close>

definition no_id :: "mount_entry \<Rightarrow> mount_entry" where
  "no_id e = e\<lparr>me_ID := 0\<rparr>"

lemma no_id_set_ID [simp]: "no_id (e\<lparr>me_ID := i\<rparr>) = no_id e"
  by (simp add: no_id_def)

lemma no_id_path: "no_id a = no_id b \<Longrightarrow> me_Path a = me_Path b"
  unfolding no_id_def by (metis mount_entry.select_convs(2) mount_entry.surjective mount_entry.update_convs(1))

lemma names_in_fit: "names_in ps n \<Longrightarrow> keys_fit ps n"
proof (induction ps n rule: names_in.induct)
  case (2 p ps st pr mt)
  then show ?case by (auto split: option.splits if_splits)
qed simp

lemma names_in_pat_ok:
  "names_in ps n \<Longrightarrow> node_ok (inlineParams - k) n \<Longrightarrow> k \<le> inlineParams \<Longrightarrow> pat_ok k ps"
proof (induction ps n arbitrary: k rule: names_in.induct)
  case (1 n)
  then show ?case by (simp add: pat_ok_def)
next
  case (2 p ps st pr mt)
  show ?case
  proof (cases "is_param p")
    case True
    then obtain key c where pr: "pr = Some (key, c)" and key: "key = tl p" and c: "names_in ps c"
      using "2.prems"(1) by (auto split: option.splits)
    have k: "key \<noteq> []" "0 < inlineParams - k" "node_ok (inlineParams - Suc k) c"
      using "2.prems"(2) pr by auto
    then show ?thesis
      using "2.IH"(1)[OF True pr refl c, of "Suc k"] True key by (auto simp: pat_ok_Cons)
  next
    case False
    then obtain c where c: "map_of st p = Some c" "names_in ps c"
      using "2.prems"(1) by (auto split: option.splits)
    have "node_ok (inlineParams - k) c" using node_ok_child[OF "2.prems"(2) c(1)] by simp
    with "2.IH"(2)[OF False c(1) c(2) _ "2.prems"(3)] False show ?thesis by (simp add: pat_ok_Cons)
  qed
qed

lemma router_add_there:
  assumes ok: "router_ok r" and c: "cleanParts (me_Path e) = Inr pat"
    and nm: "names_in pat (r_root r)" and free: "look pat (r_root r) = None"
  obtains r' where "router_add r e = (r', Inr (e\<lparr>me_ID := r_seq r + 1\<rparr>))" "router_ok r'"
    "\<And>qs. look qs (r_root r') =
      (if same_pat pat qs then Some (e\<lparr>me_ID := r_seq r + 1\<rparr>) else look qs (r_root r))"
    "\<And>qs. names_in qs (r_root r) \<Longrightarrow> names_in qs (r_root r')"
proof -
  let ?x = "e\<lparr>me_ID := r_seq r + 1\<rparr>"
  have nok: "node_ok (inlineParams - 0) (r_root r)" using ok by (simp add: router_ok_def)
  have "snd (node_add 0 pat ?x (r_root r)) = None"
    using add_ok_iff[of 0 pat ?x "r_root r"] names_in_pat_ok[OF nm nok] names_in_fit[OF nm] free
    by simp
  then obtain n' where a: "node_add 0 pat ?x (r_root r) = (n', None)"
    by (cases "node_add 0 pat ?x (r_root r)") auto
  let ?r = "r\<lparr>r_root := n', r_seq := r_seq r + 1\<rparr>"
  have ra: "router_add r e = (?r, Inr ?x)" using c a by (simp add: router_add_def Let_def)
  show ?thesis
  proof (rule that[OF ra])
    show "router_ok ?r" using router_add_ok[OF ok, of e] ra by simp
    show "look qs (r_root ?r) = (if same_pat pat qs then Some ?x else look qs (r_root r))" for qs
      using look_add_ok[OF a, of qs] by simp
    show "names_in qs (r_root ?r)" if "names_in qs (r_root r)" for qs
      using names_in_add[OF that, of 0 pat ?x] a by simp
  qed
qed

lemma router_remove_there:
  assumes ok: "router_ok r" and c: "cleanParts path = Inr pat" and l: "look pat (r_root r) = Some m"
  obtains r' where "router_remove r path = (r', Inr m)" "router_ok r'"
    "\<And>qs. look qs (r_root r') = (if same_pat pat qs then None else look qs (r_root r))"
    "\<And>qs. names_in qs (r_root r) \<Longrightarrow> names_in qs (r_root r')"
proof -
  obtain n' x where nr: "node_remove pat (r_root r) = (n', x)" by (cases "node_remove pat (r_root r)")
  have x: "x = Some m" using look_remove[OF nr] l by simp
  let ?r = "r\<lparr>r_root := n'\<rparr>"
  have rr: "router_remove r path = (?r, Inr m)" using c nr x by (simp add: router_remove_def)
  show ?thesis
  proof (rule that[OF rr])
    show "router_ok ?r" using router_remove_ok[OF ok, of path] rr by simp
    show "look qs (r_root ?r) = (if same_pat pat qs then None else look qs (r_root r))" for qs
      using look_remove[OF nr, of qs] by simp
    show "names_in qs (r_root ?r)" if "names_in qs (r_root r)" for qs
      using names_in_remove[OF that, of pat] nr by simp
  qed
qed

lemma router_add_fail_look:
  assumes "router_add r m = (r', Inl e)"
  shows "look qs (r_root r') = look qs (r_root r)"
  using assms by (cases rule: router_add_cases) (auto simp: look_add_fail)

lemma router_add_names: "names_in qs (r_root r) \<Longrightarrow> names_in qs (r_root (fst (router_add r m)))"
proof -
  assume nm: "names_in qs (r_root r)"
  obtain r' res where ra: "router_add r m = (r', res)" by fastforce
  from ra have "names_in qs (r_root r')"
  proof (cases rule: router_add_cases)
    case (fail parts n' c)
    with names_in_add[OF nm, of 0 parts "m\<lparr>me_ID := r_seq r + 1\<rparr>"] show ?thesis by simp
  next
    case (ok parts n')
    with names_in_add[OF nm, of 0 parts "m\<lparr>me_ID := r_seq r + 1\<rparr>"] show ?thesis by simp
  qed (use nm in simp)
  with ra show ?thesis by simp
qed

lemma router_remove_names: "names_in qs (r_root r) \<Longrightarrow> names_in qs (r_root (fst (router_remove r path)))"
proof -
  assume nm: "names_in qs (r_root r)"
  obtain r' res where rr: "router_remove r path = (r', res)" by fastforce
  from rr have "names_in qs (r_root r')"
  proof (cases rule: router_remove_cases)
    case (ok parts n' m)
    with names_in_remove[OF nm, of parts] show ?thesis by simp
  qed (use nm in simp_all)
  with rr show ?thesis by simp
qed

lemma router_add_err: "router_add r m = (r', Inl e) \<Longrightarrow> \<exists>c. e = posix c OpStat (me_Path m) None"
  by (cases rule: router_add_cases)
     (auto simp: cleanParts_def einval_path_def Let_def split: if_splits)

section \<open>Rename\<close>

text \<open>The mount a path names as a pattern.\<close>

definition mount_at :: "router \<Rightarrow> string \<Rightarrow> mount_entry option" where
  "mount_at r path = (case cleanParts path of Inl e \<Rightarrow> None | Inr pat \<Rightarrow> look pat (r_root r))"

lemma rename_missing:
  assumes "cleanParts oldP = Inr old" and "look old (r_root r) = None"
  shows "renameLocked oldP newP r = (r, Some (posix ENOENT OpStat oldP None))"
proof -
  have "router_remove r oldP = (r, Inl (posix ENOENT OpStat oldP None))"
    using assms look_remove[of old "r_root r"]
    by (cases "node_remove old (r_root r)") (auto simp: router_remove_def)
  then show ?thesis by (simp add: renameLocked_def)
qed

lemma router_add_look:
  assumes "router_add r e = (r', Inr m)"
  obtains new where "cleanParts (me_Path e) = Inr new" "look new (r_root r) = None"
    "m = e\<lparr>me_ID := r_seq r + 1\<rparr>"
    "\<And>qs. look qs (r_root r') = (if same_pat new qs then Some m else look qs (r_root r))"
proof -
  from assms obtain new n' where c: "cleanParts (me_Path e) = Inr new" "m = e\<lparr>me_ID := r_seq r + 1\<rparr>"
    and n: "node_add 0 new m (r_root r) = (n', None)" "r_root r' = n'"
    by (cases rule: router_add_cases) auto
  have "look new (r_root r) = None" using look_add_ok[OF n(1), of new] by simp
  moreover have "look qs (r_root r') = (if same_pat new qs then Some m else look qs (r_root r))" for qs
    using look_add_ok[OF n(1), of qs] n(2) by simp
  ultimately show ?thesis by (rule that[OF c(1) _ c(2)])
qed

lemma rename_taken:
  assumes "cleanParts newP = Inr new" and "router_add r1 (m\<lparr>me_Path := newP\<rparr>) = (r2, Inr m')"
  shows "no_id m' = no_id (m\<lparr>me_Path := newP\<rparr>) \<and>
    (\<forall>qs. look qs (r_root r2) = (if same_pat new qs then Some m' else look qs (r_root r1)))"
  by (rule router_add_look[OF assms(2)]) (use assms(1) no_id_set_ID in simp)

text \<open>Putting the mount back under its own path succeeds and restores the mount table.\<close>

lemma rename_put_back:
  assumes "cleanParts oldP = Inr old" and "me_Path m = oldP" and "look old (r_root r) = Some m"
    and l1: "\<And>qs. look qs (r_root r1) = (if same_pat old qs then None else look qs (r_root r))"
    and "router_ok r1" and "names_in old (r_root r1)" and "router_add r1 (m\<lparr>me_Path := newP\<rparr>) = (r2, Inl e)"
  obtains r3 m3 where "router_add r2 (m\<lparr>me_Path := oldP\<rparr>) = (r3, Inr m3)" "router_ok r3"
    "\<And>qs. map_option no_id (look qs (r_root r3)) = map_option no_id (look qs (r_root r))"
proof -
  let ?m = "m\<lparr>me_Path := oldP\<rparr>" and ?m3 = "m\<lparr>me_Path := oldP\<rparr>\<lparr>me_ID := r_seq r2 + 1\<rparr>"
  note l2 = router_add_fail_look[OF assms(7)]
  have ok2: "router_ok r2" using router_add_ok[OF assms(5), of "m\<lparr>me_Path := newP\<rparr>"] assms(7) by simp
  have nm: "names_in old (r_root r2)" using router_add_names[OF assms(6)] assms(7) by (metis fst_conv)
  have free: "look old (r_root r2) = None" unfolding l2 l1 by simp
  have c: "cleanParts (me_Path ?m) = Inr old" using assms(1) by simp
  obtain r3 where r3: "router_add r2 ?m = (r3, Inr ?m3)" "router_ok r3"
    "\<And>qs. look qs (r_root r3) = (if same_pat old qs then Some ?m3 else look qs (r_root r2))"
    "\<And>qs. names_in qs (r_root r2) \<Longrightarrow> names_in qs (r_root r3)"
    by (rule router_add_there[OF ok2 c nm free]) (rule that)
  have "?m = m" using assms(2) by (cases m) simp
  then have id: "no_id ?m3 = no_id m" by (simp only: no_id_set_ID)
  have "map_option no_id (look qs (r_root r3)) = map_option no_id (look qs (r_root r))" for qs
  proof (cases "same_pat old qs")
    case True
    then have "look qs (r_root r) = Some m" using assms(3) look_same by metis
    with True id show ?thesis unfolding r3(3) by (simp only: if_True option.map)
  next
    case False
    then show ?thesis unfolding r3(3) l2 l1 by (simp only: if_False)
  qed
  with r3(1,2) that show ?thesis by blast
qed

text \<open>
  C11: a successful rename takes the entry from the old path to the new one, where it keeps
  every field but its path and identifier, and changes no other mount. A failed one leaves
  every mount where it was, as long as the old path is spelled the way the entry was mounted.
\<close>

theorem rename_moves:
  assumes "router_ok r" and "renameLocked oldP newP r = (r', err)"
    and "cleanParts oldP = Inr old" and "cleanParts newP = Inr new"
    and "\<And>m. look old (r_root r) = Some m \<Longrightarrow> me_Path m = oldP"
  shows "router_ok r' \<and>
    (case err of
       None \<Rightarrow> \<exists>m m'. look old (r_root r) = Some m \<and> no_id m' = no_id (m\<lparr>me_Path := newP\<rparr>) \<and>
         (\<forall>qs. look qs (r_root r') = (if same_pat new qs then Some m'
                else if same_pat old qs then None else look qs (r_root r)))
     | Some e \<Rightarrow> \<forall>qs. map_option no_id (look qs (r_root r')) = map_option no_id (look qs (r_root r)))"
proof (cases "look old (r_root r)")
  case None
  then show ?thesis using rename_missing[OF assms(3) None] assms(1,2) by auto
next
  case (Some m)
  obtain r1 where r1: "router_remove r oldP = (r1, Inr m)" "router_ok r1"
    "\<And>qs. look qs (r_root r1) = (if same_pat old qs then None else look qs (r_root r))"
    "\<And>qs. names_in qs (r_root r) \<Longrightarrow> names_in qs (r_root r1)"
    by (rule router_remove_there[OF assms(1,3) Some]) (rule that)
  obtain r2 res where r2: "router_add r1 (m\<lparr>me_Path := newP\<rparr>) = (r2, res)" by fastforce
  show ?thesis
  proof (cases res)
    case (Inr m')
    then have e: "r' = r2" "err = None" using assms(2) r1(1) r2 by (simp_all add: renameLocked_def)
    have ok2: "router_ok r2" using router_add_ok[OF r1(2), of "m\<lparr>me_Path := newP\<rparr>"] r2 by simp
    note t = rename_taken[OF assms(4) r2[unfolded Inr], unfolded r1(3)]
    show ?thesis
      unfolding e option.case using ok2 Some t by blast
  next
    case (Inl e)
    have "names_in old (r_root r)"
      using assms(1,3) Some assms(5)[OF Some] same_pat_refl unfolding router_ok_def by fastforce
    from rename_put_back[OF assms(3) assms(5)[OF Some] Some r1(3) r1(2) r1(4)[OF this] r2[unfolded Inl]]
    obtain r3 m3 where r3: "router_add r2 (m\<lparr>me_Path := oldP\<rparr>) = (r3, Inr m3)" "router_ok r3"
      "\<And>qs. map_option no_id (look qs (r_root r3)) = map_option no_id (look qs (r_root r))" by blast
    then have "r' = r3" "err = Some e" using assms(2) r1(1) r2 Inl by (simp_all add: renameLocked_def)
    with r3(2,3) show ?thesis by simp
  qed
qed

lemma rename_moves_witness:
  "map_option me_Path (look [''b''] (r_root (fst (renameLocked ''/a'' ''/b''
      (fst (router_add newRouter (demo_entry ''/a'' KindBlob))))))) = Some ''/b''"
proof -
  let ?r = "fst (router_add newRouter (demo_entry ''/a'' KindBlob))"
  let ?m = "demo_entry ''/a'' KindBlob\<lparr>me_ID := 1\<rparr>"
  obtain r' err where rn: "renameLocked ''/a'' ''/b'' ?r = (r', err)" by fastforce
  have ok: "router_ok ?r" by (rule router_add_ok[OF router_ok_new])
  have l: "look [''a''] (r_root ?r) = Some ?m" by (simp add: demo_eval)
  have c: "cleanParts ''/a'' = Inr [''a'']" "cleanParts ''/b'' = Inr [''b'']" by (simp_all add: demo_eval)
  have p: "\<And>m. look [''a''] (r_root ?r) = Some m \<Longrightarrow> me_Path m = ''/a''"
    using l by (simp add: demo_eval)
  have "err = None" using rn by (simp add: renameLocked_def router_remove_def demo_eval)
  with rename_moves[OF ok rn c p] obtain m' where
    "no_id m' = no_id (?m\<lparr>me_Path := ''/b''\<rparr>)" "look [''b''] (r_root r') = Some m'"
    using l by auto
  then show ?thesis using rn by (auto dest: no_id_path)
qed

text \<open>
  The condition on the spelling is needed. A parameter in the old path may be given any
  name, but the entry is put back under the path as it was spelled: when the target is taken,
  renaming \<open>/a/:y\<close> removes the mount \<open>/a/:x\<close> and reports an error, and the mount is lost.
\<close>

theorem rename_loses_mount:
  "\<exists>r. router_ok r \<and> router_count r = 2 \<and>
     snd (renameLocked ''/a/:y'' ''/b'' r) = Some (posix EEXIST OpStat ''/b'' None) \<and>
     router_count (fst (renameLocked ''/a/:y'' ''/b'' r)) = 1 \<and>
     mount_at r ''/a/:x'' \<noteq> None \<and> mount_at (fst (renameLocked ''/a/:y'' ''/b'' r)) ''/a/:x'' = None"
proof -
  let ?r1 = "fst (router_add newRouter (demo_entry ''/a/:x'' KindBlob))"
  let ?r = "fst (router_add ?r1 (demo_entry ''/b'' KindBlob))"
  have "router_ok ?r" by (intro router_add_ok router_ok_new)
  moreover have "router_count ?r = 2 \<and>
      snd (renameLocked ''/a/:y'' ''/b'' ?r) = Some (posix EEXIST OpStat ''/b'' None) \<and>
      router_count (fst (renameLocked ''/a/:y'' ''/b'' ?r)) = 1 \<and>
      mount_at ?r ''/a/:x'' \<noteq> None \<and> mount_at (fst (renameLocked ''/a/:y'' ''/b'' ?r)) ''/a/:x'' = None"
    by (simp add: renameLocked_def router_remove_def router_count_def mount_at_def demo_eval)
  ultimately show ?thesis by blast
qed

section \<open>Restoring a snapshot\<close>

definition pat_of :: "mount_entry \<Rightarrow> string list" where
  "pat_of e = projr (cleanParts (me_Path e))"

text \<open>The entries of a snapshot of \<open>r\<close>: each sits at its own path.\<close>

definition placed :: "router \<Rightarrow> mount_entry \<Rightarrow> bool" where
  "placed r e \<longleftrightarrow> cleanParts (me_Path e) = Inr (pat_of e) \<and> names_in (pat_of e) (r_root r)"

lemma snapshot_placed:
  assumes ok: "router_ok r"
  shows "m \<in> set (router_snapshot r) \<longleftrightarrow> placed r m \<and> look (pat_of m) (r_root r) = Some m"
proof -
  have nok: "node_ok inlineParams (r_root r)" using ok by (simp add: router_ok_def)
  have "m \<in> set (router_snapshot r) \<longleftrightarrow> (\<exists>ps. look ps (r_root r) = Some m)"
    unfolding router_snapshot_def by (rule node_mounts_look[OF nok])
  also have "\<dots> \<longleftrightarrow> placed r m \<and> look (pat_of m) (r_root r) = Some m"
  proof
    assume "\<exists>ps. look ps (r_root r) = Some m"
    then obtain ps where l: "look ps (r_root r) = Some m" by blast
    with ok obtain pat where "cleanParts (me_Path m) = Inr pat" "same_pat pat ps" "names_in pat (r_root r)"
      unfolding router_ok_def by blast
    moreover from this have "look pat (r_root r) = Some m" using l look_same by metis
    ultimately show "placed r m \<and> look (pat_of m) (r_root r) = Some m"
      by (simp add: placed_def pat_of_def)
  qed blast
  finally show ?thesis .
qed

lemma snapshot_distinct_places:
  assumes ok: "router_ok r" and m: "m \<in> set (router_snapshot r)"
    and x: "x \<in># mset (router_snapshot r) - {#m#}"
  shows "\<not> same_pat (pat_of m) (pat_of x)"
proof -
  have pm: "cleanParts (me_Path m) = Inr (pat_of m)" "look (pat_of m) (r_root r) = Some m"
    using m unfolding snapshot_placed[OF ok] placed_def by simp_all
  obtain r1 where r1: "router_remove r (me_Path m) = (r1, Inr m)" "router_ok r1"
    "\<And>qs. look qs (r_root r1) = (if same_pat (pat_of m) qs then None else look qs (r_root r))"
    "\<And>qs. names_in qs (r_root r) \<Longrightarrow> names_in qs (r_root r1)"
    by (rule router_remove_there[OF ok pm]) (rule that)
  have "mset (router_snapshot r) = add_mset m (mset (router_snapshot r1))"
    using node_mounts_remove[of inlineParams "r_root r" "pat_of m"] ok pm r1(1)
    by (auto simp: router_ok_def router_snapshot_def router_remove_def split: prod.splits option.splits)
  with x have "x \<in> set (router_snapshot r1)" by simp
  then have "look (pat_of x) (r_root r1) = Some x" unfolding snapshot_placed[OF r1(2)] by simp
  then show ?thesis unfolding r1(3) by (simp split: if_splits)
qed

lemma sorted_wrt_mset:
  "\<forall>m\<in>set es. \<forall>x\<in>#mset es - {#m#}. P m x \<Longrightarrow> sorted_wrt P es"
proof (induction es)
  case (Cons e es)
  have "\<forall>m\<in>set es. \<forall>x\<in>#mset es - {#m#}. P m x"
  proof (intro ballI)
    fix m x
    assume m: "m \<in> set es" and x: "x \<in># mset es - {#m#}"
    then have "x \<in># mset (e # es) - {#m#}" by (simp add: add_mset_diff_bothsides in_diff_count)
    with Cons.prems m show "P m x" by auto
  qed
  with Cons show ?case by simp
qed simp

lemma remove_all:
  "router_ok r \<Longrightarrow> \<forall>e\<in>set es. cleanParts (me_Path e) = Inr (pat_of e) \<Longrightarrow>
   router_ok (fold (\<lambda>e r. fst (router_remove r (me_Path e))) es r) \<and>
   (\<forall>qs. look qs (r_root (fold (\<lambda>e r. fst (router_remove r (me_Path e))) es r)) =
      (if \<exists>e\<in>set es. same_pat (pat_of e) qs then None else look qs (r_root r))) \<and>
   (\<forall>qs. names_in qs (r_root r) \<longrightarrow>
      names_in qs (r_root (fold (\<lambda>e r. fst (router_remove r (me_Path e))) es r)))"
proof (induction es arbitrary: r)
  case (Cons e es)
  let ?r1 = "fst (router_remove r (me_Path e))"
  have ok1: "router_ok ?r1" by (rule router_remove_ok[OF Cons.prems(1)])
  have l1: "look qs (r_root ?r1) = (if same_pat (pat_of e) qs then None else look qs (r_root r))" for qs
  proof (cases "look (pat_of e) (r_root r)")
    case None
    then have "?r1 = r" using Cons.prems(2) look_remove[of "pat_of e" "r_root r"]
      by (cases "node_remove (pat_of e) (r_root r)") (auto simp: router_remove_def)
    then show ?thesis using None look_same[of "pat_of e" qs "r_root r"] by (simp add: if_distrib)
  next
    case (Some m)
    have c: "cleanParts (me_Path e) = Inr (pat_of e)" using Cons.prems(2) by simp
    obtain r1 where "router_remove r (me_Path e) = (r1, Inr m)" "router_ok r1"
      "\<And>qs. look qs (r_root r1) = (if same_pat (pat_of e) qs then None else look qs (r_root r))"
      "\<And>qs. names_in qs (r_root r) \<Longrightarrow> names_in qs (r_root r1)"
      by (rule router_remove_there[OF Cons.prems(1) c Some]) (rule that)
    then show ?thesis by simp
  qed
  have n1: "names_in qs (r_root r) \<Longrightarrow> names_in qs (r_root ?r1)" for qs by (rule router_remove_names)
  have "\<forall>e\<in>set es. cleanParts (me_Path e) = Inr (pat_of e)" using Cons.prems(2) by simp
  from Cons.IH[OF ok1 this] show ?case using l1 n1 by auto
qed simp

text \<open>Adding entries of pairwise different places, all of them free, whose names the trie
  already has: every add succeeds.\<close>

lemma add_all_ok:
  "router_ok r \<Longrightarrow> \<forall>e\<in>set es. placed r e \<and> look (pat_of e) (r_root r) = None \<Longrightarrow>
   sorted_wrt (\<lambda>a b. \<not> same_pat (pat_of a) (pat_of b)) es \<Longrightarrow>
   \<exists>r'. add_all es r = (r', None) \<and> router_ok r' \<and>
     (\<forall>qs. map_option no_id (look qs (r_root r')) =
        (case find (\<lambda>e. same_pat (pat_of e) qs) es of
           Some e \<Rightarrow> Some (no_id e)
         | None \<Rightarrow> map_option no_id (look qs (r_root r))))"
proof (induction es arbitrary: r)
  case (Cons e es)
  have c: "cleanParts (me_Path e) = Inr (pat_of e)" "names_in (pat_of e) (r_root r)"
    and free: "look (pat_of e) (r_root r) = None" using Cons.prems(2) by (simp_all add: placed_def)
  obtain r1 where r1: "router_add r e = (r1, Inr (e\<lparr>me_ID := r_seq r + 1\<rparr>))" "router_ok r1"
    "\<And>qs. look qs (r_root r1) =
      (if same_pat (pat_of e) qs then Some (e\<lparr>me_ID := r_seq r + 1\<rparr>) else look qs (r_root r))"
    "\<And>qs. names_in qs (r_root r) \<Longrightarrow> names_in qs (r_root r1)"
    by (rule router_add_there[OF Cons.prems(1) c free]) (rule that)
  have rest: "\<forall>x\<in>set es. placed r1 x \<and> look (pat_of x) (r_root r1) = None"
    using Cons.prems(2,3) r1(3,4) by (simp add: placed_def)
  have "sorted_wrt (\<lambda>a b. \<not> same_pat (pat_of a) (pat_of b)) es" using Cons.prems(3) by simp
  from Cons.IH[OF r1(2) rest this] obtain r' where r': "add_all es r1 = (r', None)" "router_ok r'"
    "\<forall>qs. map_option no_id (look qs (r_root r')) =
        (case find (\<lambda>e. same_pat (pat_of e) qs) es of
           Some e \<Rightarrow> Some (no_id e)
         | None \<Rightarrow> map_option no_id (look qs (r_root r1)))" by blast
  have none: "find (\<lambda>x. same_pat (pat_of x) qs) es = None" if "same_pat (pat_of e) qs" for qs
  proof -
    have "\<not> same_pat (pat_of x) qs" if "x \<in> set es" for x
      using Cons.prems(3) that \<open>same_pat (pat_of e) qs\<close> same_pat_sym same_pat_trans by (metis sorted_wrt.simps(2))
    then show ?thesis by (simp add: find_None_iff)
  qed
  have "map_option no_id (look qs (r_root r')) =
        (case find (\<lambda>e. same_pat (pat_of e) qs) (e # es) of
           Some e \<Rightarrow> Some (no_id e)
         | None \<Rightarrow> map_option no_id (look qs (r_root r)))" for qs
    using r'(3) none[of qs] r1(3)[of qs]
    by (cases "same_pat (pat_of e) qs") (auto split: option.split)
  then show ?case using r1(1) r'(1,2) by simp
qed simp

lemma rename_is_run: "\<exists>ops. fst (renameLocked oldP newP r) = fold router_step ops r"
proof -
  obtain r1 res where rm: "router_remove r oldP = (r1, res)" by fastforce
  show ?thesis
  proof (cases res)
    case (Inl e)
    with rm show ?thesis by (intro exI[of _ "[RRemove oldP]"]) (simp add: renameLocked_def)
  next
    case (Inr m)
    obtain r2 res2 where ra: "router_add r1 (m\<lparr>me_Path := newP\<rparr>) = (r2, res2)" by fastforce
    with rm Inr show ?thesis
      by (cases res2)
        (auto simp: renameLocked_def intro: exI[of _ "[RRemove oldP, RAdd (m\<lparr>me_Path := newP\<rparr>)]"]
           exI[of _ "[RRemove oldP, RAdd (m\<lparr>me_Path := newP\<rparr>), RAdd (m\<lparr>me_Path := oldP\<rparr>)]"])
  qed
qed

lemma names_in_run: "names_in qs (r_root r) \<Longrightarrow> names_in qs (r_root (fold router_step os r))"
proof (induction os arbitrary: r)
  case (Cons a os)
  then show ?case by (cases a) (simp_all add: router_add_names router_remove_names)
qed simp

lemma snapshot_covers:
  assumes "router_ok r" and "look qs (r_root r) = Some m"
  shows "m \<in> set (router_snapshot r) \<and> same_pat (pat_of m) qs"
proof -
  from assms obtain pat where "cleanParts (me_Path m) = Inr pat" "same_pat pat qs"
    unfolding router_ok_def by blast
  moreover have "m \<in> set (router_snapshot r)"
    using assms node_mounts_look[of inlineParams "r_root r"] by (auto simp: router_snapshot_def router_ok_def)
  ultimately show ?thesis by (simp add: pat_of_def)
qed

lemma clear_all:
  assumes "router_ok r" and "c = fold (\<lambda>e r. fst (router_remove r (me_Path e))) (router_snapshot r) r"
  shows "router_ok c \<and> (\<forall>qs. look qs (r_root c) = None) \<and> (\<forall>qs. names_in qs (r_root r) \<longrightarrow> names_in qs (r_root c))"
proof -
  have "\<forall>e\<in>set (router_snapshot r). cleanParts (me_Path e) = Inr (pat_of e)"
    using snapshot_placed[OF assms(1)] by (auto simp: placed_def)
  note rm = remove_all[OF assms(1) this]
  have "look qs (r_root c) = None" for qs
    using rm snapshot_covers[OF assms(1), of qs] unfolding assms(2) by (cases "look qs (r_root r)") auto
  with rm show ?thesis unfolding assms(2) by blast
qed

text \<open>The mounts of a snapshot, looked up by their patterns, are those of the router.\<close>

lemma snapshot_find:
  assumes "router_ok r"
  shows "find (\<lambda>e. same_pat (pat_of e) qs) (router_snapshot r) = look qs (r_root r)"
proof (cases "find (\<lambda>e. same_pat (pat_of e) qs) (router_snapshot r)")
  case (Some e)
  then have "e \<in> set (router_snapshot r)" "same_pat (pat_of e) qs" by (auto simp: find_Some_iff)
  with Some snapshot_placed[OF assms] look_same show ?thesis by metis
next
  case None
  with snapshot_covers[OF assms, of qs] show ?thesis
    by (cases "look qs (r_root r)") (auto simp: find_None_iff)
qed

section \<open>Comparing snapshots\<close>

lemma path_map_lookup:
  "map_of (path_map es) p = find (\<lambda>e. me_Path e = p) (rev es)"
proof -
  have "map_of (fold (\<lambda>e m. mput (me_Path e) e m) es m) p =
      (case find (\<lambda>e. me_Path e = p) (rev es) of Some e \<Rightarrow> Some e | None \<Rightarrow> map_of m p)" for m
  proof (induction es arbitrary: m rule: rev_induct)
    case (snoc e es)
    then show ?case by auto
  qed simp
  then show ?thesis by (auto simp: path_map_def split: option.split)
qed

lemma find_SomeD: "find P xs = Some x \<Longrightarrow> P x \<and> x \<in> set xs"
  by (induction xs) (auto split: if_splits)

lemma path_map_Some:
  "distinct (map me_Path es) \<Longrightarrow> map_of (path_map es) p = Some e \<longleftrightarrow> e \<in> set es \<and> me_Path e = p"
proof -
  assume d: "distinct (map me_Path es)"
  have uniq: "a \<in> set es \<Longrightarrow> b \<in> set es \<Longrightarrow> me_Path a = me_Path b \<Longrightarrow> a = b" for a b
    using d by (auto simp: distinct_map dest: inj_onD)
  show ?thesis
  proof
    assume "map_of (path_map es) p = Some e"
    then show "e \<in> set es \<and> me_Path e = p"
      unfolding path_map_lookup by (auto dest: find_SomeD)
  next
    assume e: "e \<in> set es \<and> me_Path e = p"
    then have "find (\<lambda>e. me_Path e = p) (rev es) \<noteq> None" by (auto simp: find_None_iff)
    then obtain a where a: "find (\<lambda>e. me_Path e = p) (rev es) = Some a" by blast
    then have "a \<in> set es" "me_Path a = p" by (auto dest: find_SomeD)
    with uniq e a show "map_of (path_map es) p = Some e" by (simp add: path_map_lookup)
  qed
qed

lemma path_map_None: "map_of (path_map es) p = None \<longleftrightarrow> p \<notin> me_Path ` set es"
  by (auto simp: path_map_lookup find_None_iff)

text \<open>
  For snapshots with one entry per path the difference lists exactly the entries of the
  new one at new paths, those of the old one at vanished paths, and the pairs at a common
  path that differ in a compared field. Operations, namespace, write-back, schema, buffering
  and the chunk size of a stream are not compared, so a change of these alone is no change.
\<close>

theorem diff_exact:
  assumes "distinct (map me_Path old)" and "distinct (map me_Path new)"
  shows "(e \<in> set (sd_Added (DiffSnapshots old new)) \<longleftrightarrow> e \<in> set new \<and> me_Path e \<notin> me_Path ` set old) \<and>
    (e \<in> set (sd_Removed (DiffSnapshots old new)) \<longleftrightarrow> e \<in> set old \<and> me_Path e \<notin> me_Path ` set new) \<and>
    ((p, a, b) \<in> set (sd_Modified (DiffSnapshots old new)) \<longleftrightarrow>
       a \<in> set old \<and> b \<in> set new \<and> me_Path a = p \<and> me_Path b = p \<and> \<not> mountEntryEqual a b) \<and>
    mountEntryEqual a (a\<lparr>me_Ops := ops, me_Namespace := ns, me_Writeback := wb, me_Schema := sch,
      me_BufferPolicy := bp\<rparr>)"
proof -
  have "mountEntryEqual a (a\<lparr>me_Ops := ops, me_Namespace := ns, me_Writeback := wb, me_Schema := sch,
      me_BufferPolicy := bp\<rparr>)"
    by (auto simp: mountEntryEqual_def split: option.splits)
  moreover have "(p, a, b) \<in> set (sd_Modified (DiffSnapshots old new)) \<longleftrightarrow>
       a \<in> set old \<and> b \<in> set new \<and> me_Path a = p \<and> me_Path b = p \<and> \<not> mountEntryEqual a b"
    using path_map_Some[OF assms(1), of p a]
    by (auto simp: DiffSnapshots_def Let_def split: option.splits if_splits)
      (rule bexI[of _ b], rule exI[of _ a], simp_all)
  ultimately show ?thesis
    by (auto simp: DiffSnapshots_def Let_def path_map_None)
qed

lemma diff_exact_witness:
  "(''/a'', demo_entry ''/a'' KindBlob, demo_entry ''/a'' KindDir) \<in>
     set (sd_Modified (DiffSnapshots [demo_entry ''/a'' KindBlob] [demo_entry ''/a'' KindDir]))"
  using diff_exact[of "[demo_entry ''/a'' KindBlob]" "[demo_entry ''/a'' KindDir]" undefined "''/a''"
      "demo_entry ''/a'' KindBlob" "demo_entry ''/a'' KindDir"]
  by (simp add: demo_entry_def zero_entry_def mountEntryEqual_def)

section \<open>Mount\<close>

definition plain_entry :: "mount_entry \<Rightarrow> bool" where
  "plain_entry e \<longleftrightarrow> (case me_Skill e of None \<Rightarrow> True | Some sk \<Rightarrow> \<not> sk_Enabled sk)"

definition ops_registered :: "mount_entry \<Rightarrow> fs_state \<Rightarrow> bool" where
  "ops_registered e fs \<longleftrightarrow>
     (\<forall>(o1, c) \<in> set (me_Ops e). \<exists>cap. c = Some cap \<and> cc_ProviderID cap \<in> set (fs_providers fs))"

lemma fs_audit_frame [simp]:
  "fs_router (fs_audit o1 p c t0 t1 err fs) = fs_router fs"
  "fs_events (fs_audit o1 p c t0 t1 err fs) = fs_events fs"
  "fs_skills (fs_audit o1 p c t0 t1 err fs) = fs_skills fs"
  "fs_streams (fs_audit o1 p c t0 t1 err fs) = fs_streams fs"
  "fs_locks (fs_audit o1 p c t0 t1 err fs) = fs_locks fs"
  "fs_cfg (fs_audit o1 p c t0 t1 err fs) = fs_cfg fs"
  by (simp_all add: fs_audit_def)

lemma fs_emit_frame [simp]:
  "fs_cfg (fs_emit p k fs) = fs_cfg fs" "fs_router (fs_emit p k fs) = fs_router fs" "fs_skills (fs_emit p k fs) = fs_skills fs"
  "fs_streams (fs_emit p k fs) = fs_streams fs" "fs_locks (fs_emit p k fs) = fs_locks fs"
  "eb_emitted (fs_events (fs_emit p k fs)) = eb_emitted (fs_events fs) + 1"
  by (simp_all add: fs_emit_def emit_def Let_def split_beta)

lemma with_router_frame [simp]:
  "fs_router (with_router r fs) = r" "fs_events (with_router r fs) = fs_events fs"
  "fs_skills (with_router r fs) = fs_skills fs" "fs_cfg (with_router r fs) = fs_cfg fs"
  by (simp_all add: with_router_def)

lemma router_add_snapshot:
  assumes "router_ok r" and "router_add r m = (r', res)"
  shows "mset (router_snapshot r') =
    (case res of Inl e \<Rightarrow> {#} | Inr m' \<Rightarrow> {#m'#}) + mset (router_snapshot r)"
  using assms(2)
proof (cases rule: router_add_cases)
  case (fail parts n' c)
  with node_mounts_add[of inlineParams "r_root r" 0 parts "m\<lparr>me_ID := r_seq r + 1\<rparr>"] assms(1)
  show ?thesis by (simp add: router_snapshot_def router_ok_def)
next
  case (ok parts n')
  with node_mounts_add[of inlineParams "r_root r" 0 parts "m\<lparr>me_ID := r_seq r + 1\<rparr>"] assms(1)
  show ?thesis by (simp add: router_snapshot_def router_ok_def)
qed simp

text \<open>The checks of mountLocked that come before the router.\<close>

definition mount_gate :: "mount_entry \<Rightarrow> fs_state \<Rightarrow> errno option" where
  "mount_gate entry fs =
     (if 0 < g_MaxMounts (fs_cfg fs) \<and> g_MaxMounts (fs_cfg fs) \<le> int (router_count (fs_router fs))
        then Some ENOSPC
      else if me_Kind entry = KindBlob \<and> g_MaxBlobSize (fs_cfg fs) < int (length (me_BlobData entry))
        then Some ENOSPC
      else if \<not> ops_registered entry fs then Some EINVAL else None)"

lemma mountLocked_plain:
  assumes "plain_entry entry"
  shows "mountLocked env now path entry fs =
    (case mount_gate entry fs of
       Some c \<Rightarrow> (fs, Some (posix c OpStat path None))
     | None \<Rightarrow>
         (case router_add (fs_router fs) (entry_defaults (fs_cfg fs) now path entry) of
            (r, Inl e) \<Rightarrow> (with_router r fs, Some e)
          | (r, Inr m) \<Rightarrow> (with_router r fs, None)))"
proof -
  let ?e = "entry_defaults (fs_cfg fs) now path entry"
  have reg: "ops_registered entry fs \<longleftrightarrow>
      \<not> list_ex (\<lambda>(o1, c). case c of None \<Rightarrow> True
          | Some cap \<Rightarrow> cc_ProviderID cap \<notin> set (fs_providers fs)) (me_Ops entry)"
    by (fastforce simp: ops_registered_def list_ex_iff split: option.splits)
  have none: "length (fs_providers fs) = 0 \<Longrightarrow> hasProviderOps (me_Ops entry) \<Longrightarrow> \<not> ops_registered entry fs"
    by (cases "me_Ops entry") (auto simp: ops_registered_def hasProviderOps_def)
  obtain r res where ra: "router_add (fs_router fs) ?e = (r, res)" by fastforce
  have skill: "me_Skill m = me_Skill entry" if "res = Inr m" for m
    using ra[unfolded that] by (cases rule: router_add_cases) (simp_all add: entry_defaults_def)
  have inner: "(case me_Skill m of None \<Rightarrow> x | Some sk \<Rightarrow> if \<not> sk_Enabled sk then x else y sk) = x"
    if "res = Inr m" for m and x :: "fs_state \<times> go_error option" and y
    using assms skill[OF that] by (auto simp: plain_entry_def split: option.splits)
  show ?thesis
  proof (cases "mount_gate entry fs")
    case None
    with none have g: "\<not> (0 < g_MaxMounts (fs_cfg fs) \<and>
        g_MaxMounts (fs_cfg fs) \<le> int (router_count (fs_router fs)))"
      "\<not> (me_Kind entry = KindBlob \<and> g_MaxBlobSize (fs_cfg fs) < int (length (me_BlobData entry)))"
      "\<not> (length (fs_providers fs) = 0 \<and> hasProviderOps (me_Ops entry))" "ops_registered entry fs"
      by (auto simp: mount_gate_def split: if_splits)
    show ?thesis
    proof (cases res)
      case (Inl e)
      with g None ra show ?thesis by (simp only: mountLocked_def reg if_False prod.case sum.case option.case simp_thms)
    next
      case (Inr m)
      with g None ra inner[OF Inr] show ?thesis
        by (simp add: mountLocked_def reg Let_def)
    qed
  next
    case (Some c)
    with none reg show ?thesis
      by (auto simp: mountLocked_def mount_gate_def split: if_splits)
  qed
qed

text \<open>The path and the entry pass every check before the router is asked.\<close>

definition mount_admitted :: "string \<Rightarrow> mount_entry \<Rightarrow> fs_state \<Rightarrow> bool" where
  "mount_admitted p entry fs \<longleftrightarrow> normalizePath p = Inr p \<and> \<not> isReservedPath p \<and>
     entry_Validate entry = None \<and> mount_gate entry fs = None"

lemma mount_refused:
  assumes "plain_entry entry" and "\<not> mount_admitted p entry fs"
  shows "\<exists>c. mount_body env now p entry fs = (fs, Some (posix c OpStat p None))"
proof (cases "normalizePath p")
  case (Inl e)
  then have "e = posix EINVAL OpStat p None" by (auto simp: normalizePath_def split: if_splits)
  with Inl show ?thesis by (auto simp: mount_body_def)
next
  case (Inr q)
  then have q: "q = p" using normalize_good by blast
  show ?thesis
  proof (cases "isReservedPath p \<or> entry_Validate entry \<noteq> None")
    case True
    then have "mount_body env now p entry fs = (fs, Some (posix EINVAL OpStat p None))"
      using Inr q unfolding mount_body_def by (cases "isReservedPath p") simp_all
    then show ?thesis by auto
  next
    case False
    with assms(2) Inr q obtain c where "mount_gate entry fs = Some c" by (auto simp: mount_admitted_def)
    with False Inr q show ?thesis by (auto simp: mount_body_def mountLocked_plain[OF assms(1)])
  qed
qed

lemma mount_admitted_body:
  assumes "plain_entry entry" and "mount_admitted p entry fs"
  shows "mount_body env now p entry fs =
    (case router_add (fs_router fs) (entry_defaults (fs_cfg fs) now p entry) of
       (r, Inl e) \<Rightarrow> (with_router r fs, Some e)
     | (r, Inr m) \<Rightarrow> (fs_emit p EventCreate (with_router r fs), None))"
  using assms
  by (auto simp: mount_admitted_def mount_body_def mountLocked_plain split: prod.splits sum.splits)

lemma mount_gate_None:
  "mount_gate entry fs = None \<longleftrightarrow> ops_registered entry fs \<and>
     (me_Kind entry = KindBlob \<longrightarrow> int (length (me_BlobData entry)) \<le> g_MaxBlobSize (fs_cfg fs)) \<and>
     (0 < g_MaxMounts (fs_cfg fs) \<longrightarrow> int (router_count (fs_router fs)) < g_MaxMounts (fs_cfg fs))"
  by (auto simp: mount_gate_def)

text \<open>What adding a mount does to the mount table.\<close>

lemma router_add_new_mount:
  assumes "router_ok r" and "router_add r e = (r', Inr m)"
  shows "m = e\<lparr>me_ID := r_seq r + 1\<rparr> \<and> router_ok r' \<and> mount_at r (me_Path e) = None \<and>
    mount_at r' (me_Path e) = Some m \<and> mset (router_snapshot r') = add_mset m (mset (router_snapshot r)) \<and>
    length (router_snapshot r') = Suc (router_count r)"
proof -
  from assms(2) obtain parts n' where c: "cleanParts (me_Path e) = Inr parts"
    and a: "node_add 0 parts m (r_root r) = (n', None)" and r': "r_root r' = n'"
    and m: "m = e\<lparr>me_ID := r_seq r + 1\<rparr>" by (cases rule: router_add_cases) auto
  have "mount_at r (me_Path e) = None" "mount_at r' (me_Path e) = Some m"
    using c look_add_ok[OF a, of parts] r' by (simp_all add: mount_at_def)
  moreover have snap: "mset (router_snapshot r') = add_mset m (mset (router_snapshot r))"
    using router_add_snapshot[OF assms] by simp
  moreover from snap have "length (router_snapshot r') = Suc (router_count r)"
    by (metis node_count_mounts router_count_def router_snapshot_def size_add_mset size_mset)
  moreover have "router_ok r'" using router_add_ok[OF assms(1), of e] assms(2) by simp
  ultimately show ?thesis using m by simp
qed

text \<open>A call of Mount, seen from the router.\<close>

lemma mount_outcome:
  assumes "plain_entry entry" and "fs_Mount env w p entry fs = (fs', err)"
  shows "fs_skills fs' = fs_skills fs \<and> fs_cfg fs' = fs_cfg fs \<and>
    (case err of
       None \<Rightarrow> mount_admitted p entry fs \<and> eb_emitted (fs_events fs') = eb_emitted (fs_events fs) + 1 \<and>
         (\<exists>m. router_add (fs_router fs) (entry_defaults (fs_cfg fs) (env_now env w) p entry) = (fs_router fs', Inr m))
     | Some e \<Rightarrow> (\<exists>c. e = posix c OpStat p None) \<and> fs_events fs' = fs_events fs \<and>
         (fs_router fs' = fs_router fs \<or>
          router_add (fs_router fs) (entry_defaults (fs_cfg fs) (env_now env w) p entry) = (fs_router fs', Inl e)))"
proof -
  let ?e = "entry_defaults (fs_cfg fs) (env_now env w) p entry"
  obtain fs1 where body: "mount_body env (env_now env w) p entry fs = (fs1, err)"
    and fs': "fs' = fs_audit ''mount'' p anonymous (env_now env w) (env_done env w) err fs1"
    using assms(2) by (auto simp: fs_Mount_def Let_def split: prod.splits)
  show ?thesis
  proof (cases "mount_admitted p entry fs")
    case False
    with mount_refused[OF assms(1), of p fs env "env_now env w"] body fs' show ?thesis by auto
  next
    case True
    obtain r1 res where ra: "router_add (fs_router fs) ?e = (r1, res)" by fastforce
    have "\<exists>c. e = posix c OpStat p None" if "res = Inl e" for e
      using router_add_err[of "fs_router fs" ?e r1 e] ra that by (simp add: entry_defaults_def)
    with True ra body[unfolded mount_admitted_body[OF assms(1) True] ra] fs' show ?thesis
      by (cases res) auto
  qed
qed

lemma unmount_outcome:
  assumes "normalizePath p = Inr p" and "router_remove (fs_router fs) p = (r, Inr m)" and "plain_entry m"
  shows "\<exists>fs'. fs_Unmount env w p fs = (fs', None) \<and> fs_router fs' = r \<and> fs_skills fs' = fs_skills fs"
  using assms
  by (auto simp: fs_Unmount_def unmount_body_def unmountLocked_def plain_entry_def Let_def split: option.splits)

lemma router_remove_snapshot:
  assumes "router_ok r" and "router_remove r p = (r', Inr m)"
  shows "mset (router_snapshot r) = add_mset m (mset (router_snapshot r'))"
  using assms(2)
proof (cases rule: router_remove_cases)
  case (ok parts n' m')
  with node_mounts_remove[of inlineParams "r_root r" parts] assms(1) show ?thesis
    by (auto simp: router_ok_def router_snapshot_def)
qed simp_all

text \<open>When a plain mount succeeds: admitted, and the pattern fits the trie at a free place.\<close>

lemma mount_accepts:
  assumes "plain_entry entry" and "fs_Mount env w p entry fs = (fs', err)"
  shows "err = None \<longleftrightarrow> mount_admitted p entry fs \<and> pat_ok 0 (path_segs p) \<and>
    keys_fit (path_segs p) (r_root (fs_router fs)) \<and> mount_at (fs_router fs) p = None"
proof (cases "mount_admitted p entry fs")
  case False
  with mount_outcome[OF assms] show ?thesis by (cases err) auto
next
  case True
  let ?e = "entry_defaults (fs_cfg fs) (env_now env w) p entry"
  have c: "cleanParts (me_Path ?e) = Inr (path_segs p)" "cleanParts p = Inr (path_segs p)"
    using True normalize_parts[of p p] by (simp_all add: mount_admitted_def entry_defaults_def)
  obtain r1 res where ra: "router_add (fs_router fs) ?e = (r1, res)" by fastforce
  have "err = None \<longleftrightarrow> (\<exists>m. res = Inr m)"
    using assms(2) mount_admitted_body[OF assms(1) True, of env "env_now env w"] ra
    by (cases res) (auto simp: fs_Mount_def Let_def split: prod.splits)
  also have "\<dots> \<longleftrightarrow> pat_ok 0 (path_segs p) \<and> keys_fit (path_segs p) (r_root (fs_router fs)) \<and>
      look (path_segs p) (r_root (fs_router fs)) = None"
    using router_add_outcome[where r = "fs_router fs" and m = ?e] ra c(1) by (cases res) auto
  finally show ?thesis using True c(2) by (simp add: mount_at_def)
qed

lemma snapshot_length: "length (router_snapshot r) = router_count r"
  by (simp add: router_snapshot_def router_count_def node_count_mounts)


definition demo_fs :: fs_state where
  "demo_fs = (case NewFS \<lparr>g_Label = [], g_MaxOpenHandles = 0, g_MaxMounts = 2, g_MaxBlobSize = 4,
     g_ZeroCopyThreshold = 0, g_StatCacheTTL = 0, g_DefaultUID = 0, g_DefaultGID = 0,
     g_SkillsRoot = [], g_LockTimeout = 0,
     g_Breaker = \<lparr>bc_Enabled = False, bc_FailureThreshold = 0, bc_ResetTimeout = 0,
                  bc_HalfOpenMaxCalls = 0\<rparr>, g_Audit = True\<rparr> of Return fs \<Rightarrow> fs)"

lemmas demo_fs_eval = demo_fs_def NewFS_def config_Validate_def withDefaults_def dflt_def Let_def second_def


end
