(* ===== verification/FsProps.thy ===== *)
theory FsProps
  imports FsOps Namespace
begin

text \<open>
  What the data operations of theory FsOps guarantee: a blob reads back as it was written,
  mounts of another namespace are invisible, the write-back of a failed write is what the
  next read returns, links are followed to something that is no link, and a stream takes
  the bytes of a payload in order. The theory also shows the two ways in which the operations
  can panic.
\<close>

section \<open>Updating a mount in place\<close>

lemma walk_update:
  "walk segs n qs = Inr (m, qs') \<Longrightarrow>
   \<exists>m'. walk segs (node_update segs f n) qs = Inr (m', qs') \<and>
     rn_mount m' = map_option f (rn_mount m) \<and> rn_static m' = rn_static m \<and> rn_param m' = rn_param m"
proof (induction segs f n arbitrary: qs rule: node_update.induct)
  case (1 f st pr mt)
  then show ?case by auto
next
  case (2 s segs f st pr mt)
  show ?case
  proof (cases "map_of st s")
    case (Some c)
    with 2 show ?thesis by (auto split: if_splits)
  next
    case None
    with 2 show ?thesis by (cases pr) (auto split: if_splits)
  qed
qed

lemma node_ok_update: "node_ok b n \<Longrightarrow> node_ok b (node_update segs f n)"
proof (induction segs f n arbitrary: b rule: node_update.induct)
  case (2 s segs f st pr mt)
  show ?case
  proof (cases "map_of st s")
    case (Some c)
    note c = node_ok_child[OF "2.prems" Some]
    then have "node_ok b (node_update segs f c)" using "2.IH"(2)[OF Some] by blast
    with c node_ok_mput[OF "2.prems", of s "node_update segs f c"] Some show ?thesis by simp
  next
    case None
    with 2 show ?thesis by (cases pr) auto
  qed
qed simp

lemma names_in_update: "names_in qs n \<Longrightarrow> names_in qs (node_update segs f n)"
proof (induction segs f n arbitrary: qs rule: node_update.induct)
  case (1 f st pr mt)
  then show ?case by (cases qs) auto
next
  case (2 s segs f st pr mt)
  show ?case
  proof (cases "map_of st s")
    case (Some c)
    with 2 show ?thesis by (cases qs) (auto split: option.splits if_splits)
  next
    case None
    with 2 show ?thesis by (cases qs; cases pr) (auto split: option.splits if_splits)
  qed
qed

text \<open>The update changes the mount at one place only, that of a pattern the path fits.\<close>

lemma look_update:
  "node_ok b n \<Longrightarrow> walk segs n qs = Inr (m, qs') \<Longrightarrow>
   \<exists>pat. fits pat segs \<and> look pat n = rn_mount m \<and>
     (\<forall>ps. look ps (node_update segs f n) =
        (if same_pat pat ps then map_option f (look ps n) else look ps n))"
proof (induction segs f n arbitrary: b qs rule: node_update.induct)
  case (1 f st pr mt)
  then show ?case by (intro exI[of _ "[]"]) (auto simp: look_case split: list.split)
next
  case (2 s segs f st pr mt)
  show ?case
  proof (cases "map_of st s")
    case (Some c)
    note c = node_ok_child[OF "2.prems"(1) Some]
    from "2.prems"(2) Some have "walk segs c qs = Inr (m, qs')" by (auto split: if_splits)
    with "2.IH"(2)[OF Some] c obtain pat where pat: "fits pat segs" "look pat c = rn_mount m"
      "\<forall>ps. look ps (node_update segs f c) = (if same_pat pat ps then map_option f (look ps c) else look ps c)"
      by blast
    have "look ps (node_update (s # segs) f (RouteNode st pr mt)) =
        (if same_pat (s # pat) ps then map_option f (look ps (RouteNode st pr mt))
         else look ps (RouteNode st pr mt))" for ps
      using Some c pat(3) by (cases ps) (auto simp: same_seg_def)
    with pat c Some show ?thesis by (intro exI[of _ "s # pat"]) auto
  next
    case None
    with "2.prems"(2) obtain key c where pr: "pr = Some (key, c)" by (cases pr) (auto split: if_splits)
    with "2.prems"(2) None obtain qs1 where "walk segs c qs1 = Inr (m, qs')" by (auto split: if_splits)
    moreover have ok: "node_ok (b - 1) c" "key \<noteq> []" using "2.prems"(1) pr by auto
    ultimately obtain pat where pat: "fits pat segs" "look pat c = rn_mount m"
      "\<forall>ps. look ps (node_update segs f c) = (if same_pat pat ps then map_option f (look ps c) else look ps c)"
      using "2.IH"(1)[OF None pr refl] by blast
    have "look ps (node_update (s # segs) f (RouteNode st pr mt)) =
        (if same_pat (('':'' @ key) # pat) ps then map_option f (look ps (RouteNode st pr mt))
         else look ps (RouteNode st pr mt))" for ps
      using None pr pat(3) by (cases ps) (auto simp: same_seg_def)
    with pat ok pr show ?thesis by (intro exI[of _ "('':'' @ key) # pat"]) auto
  qed
qed

lemma router_match_update:
  "router_match r path = Inr rm \<Longrightarrow>
   router_match (router_update path f r) path = Inr (rm\<lparr>rm_mount := map_option f (rm_mount rm)\<rparr>)"
proof -
  assume m: "router_match r path = Inr rm"
  then obtain n ps where w: "walk (path_segs path) (r_root r) empty_params = Inr (n, ps)"
    and good: "\<not> (not_absolute path \<or> contains path ''//'')"
    and rm: "rm = \<lparr>rm_mount = rn_mount n, rm_params = ps\<rparr>"
    and ne: "\<not> (rn_mount n = None \<and> rn_static n = [] \<and> rn_param n = None)"
    by (auto simp: router_match_walk split: if_splits sum.splits)
  from walk_update[OF w, of f] good rm ne show ?thesis
    by (auto simp: router_match_walk router_update_def)
qed

lemma router_ok_update:
  assumes ok: "router_ok r" and m: "router_match r path = Inr rm" and f: "\<And>m. me_Path (f m) = me_Path m"
  shows "router_ok (router_update path f r) \<and>
    (\<exists>pat. look pat (r_root r) = rm_mount rm \<and>
      (\<forall>ps. look ps (r_root (router_update path f r)) =
        (if same_pat pat ps then map_option f (rm_mount rm) else look ps (r_root r))))"
proof -
  from m obtain n qs where w: "walk (path_segs path) (r_root r) empty_params = Inr (n, qs)"
    and rm: "rm_mount rm = rn_mount n"
    by (auto simp: router_match_walk split: if_splits sum.splits)
  have nok: "node_ok inlineParams (r_root r)" using ok by (simp add: router_ok_def)
  from look_update[OF nok w, of f] obtain pat where pat: "look pat (r_root r) = rm_mount rm"
    and l: "\<forall>ps. look ps (node_update (path_segs path) f (r_root r)) =
      (if same_pat pat ps then map_option f (look ps (r_root r)) else look ps (r_root r))"
    using rm by auto
  have l2: "look ps (r_root (router_update path f r)) =
        (if same_pat pat ps then map_option f (rm_mount rm) else look ps (r_root r))" for ps
    using l pat look_same[of pat ps "r_root r"] by (simp add: router_update_def)
  have "router_ok (router_update path f r)"
    unfolding router_ok_def
  proof (intro conjI allI impI)
    show "node_ok inlineParams (r_root (router_update path f r))"
      using nok by (simp add: router_update_def node_ok_update)
    fix ps m'
    assume "look ps (r_root (router_update path f r)) = Some m'"
    then obtain m0 where "look ps (r_root r) = Some m0" "me_Path m' = me_Path m0"
      using l f by (auto simp: router_update_def split: if_splits)
    with ok obtain p where "cleanParts (me_Path m') = Inr p" "same_pat p ps" "names_in p (r_root r)"
      unfolding router_ok_def by metis
    then show "\<exists>p. cleanParts (me_Path m') = Inr p \<and> same_pat p ps \<and>
        names_in p (r_root (router_update path f r))"
      by (auto simp: router_update_def names_in_update)
  qed
  with pat l2 show ?thesis by blast
qed

section \<open>Results of an operation\<close>

lemma finish_result [simp]: "snd (finish env o1 name path caller t0 out) = snd out"
  by (auto simp: finish_def Let_def split: prod.splits res.splits)

lemma finish_world [simp]: "snd (fst (finish env o1 name path caller t0 out)) = snd (fst out)"
  by (auto simp: finish_def Let_def split: prod.splits res.splits)

lemma finish_frame [simp]:
  "fs_router (fst (fst (finish env o1 name path caller t0 out))) = fs_router (fst (fst out))"
  "fs_streams (fst (fst (finish env o1 name path caller t0 out))) = fs_streams (fst (fst out))"
  "fs_writeback (fst (fst (finish env o1 name path caller t0 out))) = fs_writeback (fst (fst out))"
  "fs_skills (fst (fst (finish env o1 name path caller t0 out))) = fs_skills (fst (fst out))"
  "fs_events (fst (fst (finish env o1 name path caller t0 out))) = fs_events (fst (fst out))"
  "fs_cfg (fst (fst (finish env o1 name path caller t0 out))) = fs_cfg (fst (fst out))"
  by (auto simp: finish_def fs_audit_def Let_def split: prod.splits res.splits)

text \<open>A path that the router decides: no generated file and not the metrics file.\<close>

definition ordinary :: "string \<Rightarrow> bool" where
  "ordinary path \<longleftrightarrow> path \<notin> {''/'', ''/sys'', ''/sys/metrics'', ''/skills''} \<and>
     skillDirPath path = None \<and> skillFilePath path = None"

lemma access_check_Inr:
  "access_check o1 what path caller r = Inr (m, ps) \<longleftrightarrow>
   router_match r path = Inr \<lparr>rm_mount = Some m, rm_params = ps\<rparr> \<and>
   canAccessNamespace caller (Some m) \<and> canAccess caller (me_UID m) (me_GID m) (me_Mode m) o1"
proof -
  have "router_match r path = Inr rm \<Longrightarrow> rm_mount rm = Some m \<Longrightarrow>
      rm = \<lparr>rm_mount = Some m, rm_params = rm_params rm\<rparr>" for rm m by (cases rm) simp
  then show ?thesis by (auto simp: access_check_def split: sum.splits option.splits if_splits)
qed

definition with_data :: "bytes \<Rightarrow> time \<Rightarrow> mount_entry \<Rightarrow> mount_entry" where
  "with_data d now m = m\<lparr>me_BlobData := d, me_ModTime := now\<rparr>"

lemma with_data_sel [simp]:
  "me_BlobData (with_data d now m) = d" "me_Kind (with_data d now m) = me_Kind m"
  "me_Path (with_data d now m) = me_Path m" "me_UID (with_data d now m) = me_UID m"
  "me_GID (with_data d now m) = me_GID m" "me_Mode (with_data d now m) = me_Mode m"
  "me_Namespace (with_data d now m) = me_Namespace m"
  by (simp_all add: with_data_def)

text \<open>What a write to a blob that the caller may write does.\<close>

lemma blob_write_result:
  assumes "access_check OpWrite ''writable'' path caller (fs_router (fst s)) = Inr (m, ps)"
    and "me_Kind m = KindBlob" and "fs_Write env path d caller s = (s', r)"
  shows "if g_MaxBlobSize (fs_cfg (fst s)) < int (length d)
    then r = Fail (posix ENOSPC OpWrite path None) \<and> fs_router (fst s') = fs_router (fst s)
    else r = Ok () \<and> fs_router (fst s') = router_update path (with_data d (env_now env (snd s))) (fs_router (fst s)) \<and>
      eb_emitted (fs_events (fst s')) = eb_emitted (fs_events (fst s)) + 1 \<and>
      fs_cfg (fst s') = fs_cfg (fst s) \<and> fs_skills (fst s') = fs_skills (fst s)"
proof -
  have acc: "router_match (fs_router (fst s)) path = Inr \<lparr>rm_mount = Some m, rm_params = ps\<rparr>"
    "canAccessNamespace caller (Some m)" "canAccess caller (me_UID m) (me_GID m) (me_Mode m) OpWrite"
    using assms(1) unfolding access_check_Inr by auto
  then have wb: "writeBlob (env_now env (snd s)) path d caller (fst s) =
      (if g_MaxBlobSize (fs_cfg (fst s)) < int (length d) then (fst s, Fail (posix ENOSPC OpWrite path None))
       else (with_router (router_update path (with_data d (env_now env (snd s))) (fs_router (fst s))) (fst s), Ok ()))"
    by (simp add: writeBlob_def with_data_def[abs_def])
  have "s' = fst (fs_Write env path d caller s)" "r = snd (fs_Write env path d caller s)"
    using assms(3) by simp_all
  then show ?thesis
    using assms(1,2) wb by (simp add: fs_Write_def write_body_def write_blob_step_def fs_emit_def Let_def split_beta emit_def)
qed

lemma access_after_write:
  assumes "access_check o1 what path c r = Inr (m, ps)"
  shows "access_check o1 what path c (router_update path (with_data d now) r) = Inr (with_data d now m, ps)"
  using assms router_match_update[of r path "\<lparr>rm_mount = Some m, rm_params = ps\<rparr>" "with_data d now"]
  unfolding access_check_Inr by (auto simp: canAccessNamespace_def)


definition blob_fs :: "mount_entry \<Rightarrow> fs_state" where
  "blob_fs e = demo_fs\<lparr>fs_router := fst (router_add newRouter e)\<rparr>"

definition rw_blob :: mount_entry where
  "rw_blob = demo_entry ''/a'' KindBlob\<lparr>me_Mode := mode_0644, me_Namespace := ''n''\<rparr>"

lemma blob_fs_match:
  "router_match (fs_router (blob_fs rw_blob)) ''/a'' =
   Inr \<lparr>rm_mount = Some (rw_blob\<lparr>me_ID := 1\<rparr>), rm_params = empty_params\<rparr>"
  by (simp add: blob_fs_def rw_blob_def router_match_walk path_segs_def demo_eval)

lemma blob_fs_ok: "router_ok (fs_router (blob_fs rw_blob))"
  by (simp add: blob_fs_def router_add_ok router_ok_new)

lemma ordinary_a: "ordinary ''/a''"
  by (simp add: ordinary_def skillDirPath_def skillFilePath_def skills_prefix_def has_prefix_def)

lemma root_can_access: "bit (420 :: u32) 7" "bit (420 :: u32) 8"
  by simp_all

lemma owner_rw: "canAccess anonymous 0 0 420 OpRead" "canAccess anonymous 0 0 420 OpWrite"
  using canAccess_bit[of OpRead anonymous 0 0 420] canAccess_bit[of OpWrite anonymous 0 0 420]
  by (simp_all add: class_shift_def op_shift_def anonymous_def)

lemma blob_fs_access:
  "access_check o1 what ''/a'' anonymous (fs_router (blob_fs rw_blob)) = Inr (rw_blob\<lparr>me_ID := 1\<rparr>, empty_params)"
  if "o1 = OpRead \<or> o1 = OpWrite"
  unfolding access_check_Inr blob_fs_match using that owner_rw
  by (auto simp: canAccessNamespace_def rw_blob_def demo_entry_def zero_entry_def)
    (simp_all add: anonymous_def)


section \<open>Restoring an earlier snapshot\<close>

text \<open>
  What may happen to the mounts between a snapshot and its restore: one is added or removed, one
  is renamed, the contents of a blob are written.
\<close>

datatype fs_change = Mounts router_op | Renames string string | Writes time string bytes caller_identity

fun apply_change :: "fs_change \<Rightarrow> fs_state \<Rightarrow> fs_state" where
  "apply_change (Mounts op) fs = with_router (router_step op (fs_router fs)) fs"
| "apply_change (Renames p q) fs = with_router (fst (renameLocked p q (fs_router fs))) fs"
| "apply_change (Writes now p d caller) fs = fst (writeBlob now p d caller fs)"

text \<open>
  A snapshot shares the arrays of the blobs: a later write may change the bytes that it
  shows, but nothing else and not their number.
\<close>

definition same_but_bytes :: "mount_entry \<Rightarrow> mount_entry \<Rightarrow> bool" where
  "same_but_bytes e e' \<longleftrightarrow> (\<exists>d. length d = length (me_BlobData e) \<and> e' = e\<lparr>me_BlobData := d\<rparr>)"

lemma same_but_bytes_refl [simp]: "same_but_bytes e e"
  unfolding same_but_bytes_def by (rule exI[of _ "me_BlobData e"]) simp

lemma same_but_bytes_pat: "same_but_bytes e e' \<Longrightarrow> pat_of e' = pat_of e \<and> me_Path e' = me_Path e"
  by (auto simp: same_but_bytes_def pat_of_def)

lemma same_but_bytes_no_id: "same_but_bytes e e' \<Longrightarrow> same_but_bytes (no_id e) (no_id e')"
  by (auto simp: same_but_bytes_def no_id_def)

lemma writeBlob_router:
  "fs_router (fst (writeBlob now p d c fs)) = fs_router fs \<or>
   (\<exists>rm. router_match (fs_router fs) p = Inr rm \<and>
      fs_router (fst (writeBlob now p d c fs)) = router_update p (with_data d now) (fs_router fs))"
  by (auto simp: writeBlob_def with_data_def[abs_def] split: sum.splits option.splits)

lemma change_kept:
  assumes "router_ok (fs_router fs)"
  shows "router_ok (fs_router (apply_change ch fs)) \<and>
    (\<forall>qs. names_in qs (r_root (fs_router fs)) \<longrightarrow> names_in qs (r_root (fs_router (apply_change ch fs))))"
proof (cases ch)
  case (Mounts op)
  have "fs_router (apply_change ch fs) = fold router_step [op] (fs_router fs)" by (simp add: Mounts)
  then show ?thesis using router_ok_fold[OF assms, of "[op]"] names_in_run[of _ "fs_router fs" "[op]"] by simp
next
  case (Renames p q)
  obtain ops where "fst (renameLocked p q (fs_router fs)) = fold router_step ops (fs_router fs)"
    using rename_is_run by blast
  then show ?thesis using router_ok_fold[OF assms, of ops] names_in_run[of _ "fs_router fs" ops] by (simp add: Renames)
next
  case (Writes now p d c)
  from writeBlob_router[of now p d c fs] show ?thesis
  proof
    assume "fs_router (fst (writeBlob now p d c fs)) = fs_router fs"
    with assms show ?thesis by (simp add: Writes)
  next
    assume "\<exists>rm. router_match (fs_router fs) p = Inr rm \<and>
      fs_router (fst (writeBlob now p d c fs)) = router_update p (with_data d now) (fs_router fs)"
    then obtain rm where rm: "router_match (fs_router fs) p = Inr rm"
      "fs_router (fst (writeBlob now p d c fs)) = router_update p (with_data d now) (fs_router fs)" by blast
    have "me_Path (with_data d now m) = me_Path m" for m by simp
    from router_ok_update[OF assms rm(1) this] rm(2) show ?thesis
      by (auto simp: Writes router_update_def names_in_update)
  qed
qed

lemma changes_kept:
  assumes "router_ok (fs_router fs)"
  shows "router_ok (fs_router (fold apply_change chs fs)) \<and>
    (\<forall>qs. names_in qs (r_root (fs_router fs)) \<longrightarrow> names_in qs (r_root (fs_router (fold apply_change chs fs))))"
  using assms
proof (induction chs arbitrary: fs)
  case (Cons ch chs)
  with change_kept[OF Cons.prems, of ch] show ?case by simp
qed simp

lemma find_rel:
  "list_all2 R xs ys \<Longrightarrow> (\<And>x y. R x y \<Longrightarrow> P x = P y) \<Longrightarrow> rel_option R (find P xs) (find P ys)"
  by (induction rule: list_all2_induct) auto

lemma sorted_wrt_rel:
  "list_all2 R xs ys \<Longrightarrow> (\<And>x y x' y'. R x x' \<Longrightarrow> R y y' \<Longrightarrow> P x y \<Longrightarrow> P x' y') \<Longrightarrow> sorted_wrt P xs \<Longrightarrow> sorted_wrt P ys"
proof (induction rule: list_all2_induct)
  case (Cons x xs y ys)
  then show ?case by (fastforce simp: list_all2_conv_all_nth in_set_conv_nth)
qed simp

text \<open>
  C10: whatever is mounted, unmounted, renamed and written in between, restoring the snapshot of
  an earlier state succeeds and gives back exactly the mounts of that state, with new
  identifiers: nothing that was mounted later stays, nothing of the snapshot is missing, and each
  mount has the attributes and the size it had. Its bytes are those that the snapshot shows when it
  is restored, which are the old ones unless a write has put others into the same array.
\<close>

theorem restore_earlier_snapshot:
  assumes "router_ok (fs_router fs0)" and "fs1 = fold apply_change chs fs0"
    and "list_all2 same_but_bytes (fs_Snapshot fs0) es"
  shows "\<exists>fs2. fs_Restore es fs1 = (fs2, None) \<and> router_ok (fs_router fs2) \<and>
    (\<forall>qs. case look qs (r_root (fs_router fs0)) of
       None \<Rightarrow> look qs (r_root (fs_router fs2)) = None
     | Some e \<Rightarrow> \<exists>x\<in>set es. \<exists>e'. same_but_bytes e x \<and> look qs (r_root (fs_router fs2)) = Some e' \<and> no_id e' = no_id x) \<and>
    (es = fs_Snapshot fs0 \<longrightarrow>
      (\<forall>qs. map_option no_id (look qs (r_root (fs_router fs2))) = map_option no_id (look qs (r_root (fs_router fs0)))))"
proof -
  let ?r0 = "fs_router fs0" and ?r1 = "fs_router fs1"
  define c where "c = fold (\<lambda>e r. fst (router_remove r (me_Path e))) (router_snapshot ?r1) ?r1"
  have kept: "router_ok ?r1" "\<And>qs. names_in qs (r_root ?r0) \<Longrightarrow> names_in qs (r_root ?r1)"
    using changes_kept[OF assms(1), of chs] by (simp_all add: assms(2))
  note clear = clear_all[OF kept(1) c_def]
  have l: "list_all2 same_but_bytes (router_snapshot ?r0) es" using assms(3) by (simp add: fs_Snapshot_def)
  have "placed c e" if "e \<in> set (router_snapshot ?r0)" for e
    using that snapshot_placed[OF assms(1)] kept(2) clear unfolding placed_def by blast
  then have "placed c x" if "x \<in> set es" for x
    using l that same_but_bytes_pat unfolding placed_def list_all2_conv_all_nth in_set_conv_nth by metis
  then have free: "\<forall>e\<in>set es. placed c e \<and> look (pat_of e) (r_root c) = None" using clear by blast
  have "sorted_wrt (\<lambda>a b. \<not> same_pat (pat_of a) (pat_of b)) (router_snapshot ?r0)"
    by (rule sorted_wrt_mset) (use snapshot_distinct_places[OF assms(1)] in blast)
  then have "sorted_wrt (\<lambda>a b. \<not> same_pat (pat_of a) (pat_of b)) es"
    by (rule sorted_wrt_rel[OF l, rotated]) (simp add: same_but_bytes_pat)
  from add_all_ok[OF _ free this] clear obtain r' where r': "add_all es c = (r', None)" "router_ok r'"
    and lr: "\<And>qs. map_option no_id (look qs (r_root r')) =
       (case find (\<lambda>e. same_pat (pat_of e) qs) es of Some e \<Rightarrow> Some (no_id e) | None \<Rightarrow> map_option no_id (look qs (r_root c)))"
    by blast
  have fr: "rel_option same_but_bytes (look qs (r_root ?r0)) (find (\<lambda>e. same_pat (pat_of e) qs) es)" for qs
    using find_rel[OF l, of "\<lambda>e. same_pat (pat_of e) qs"] snapshot_find[OF assms(1), of qs] by (simp add: same_but_bytes_pat)
  have "case look qs (r_root ?r0) of
       None \<Rightarrow> look qs (r_root r') = None
     | Some e \<Rightarrow> \<exists>x\<in>set es. \<exists>e'. same_but_bytes e x \<and> look qs (r_root r') = Some e' \<and> no_id e' = no_id x" for qs
  proof (cases "look qs (r_root ?r0)")
    case None
    with fr[of qs] lr[of qs] clear show ?thesis by simp
  next
    case (Some e)
    with fr[of qs] obtain x where x: "find (\<lambda>e. same_pat (pat_of e) qs) es = Some x" "same_but_bytes e x"
      by (auto simp: option_rel_Some1)
    then have "x \<in> set es" by (auto simp: find_Some_iff)
    with Some x lr[of qs] show ?thesis by auto
  qed
  moreover have "map_option no_id (look qs (r_root r')) = map_option no_id (look qs (r_root ?r0))"
    if "es = fs_Snapshot fs0" for qs
    using lr[of qs] clear snapshot_find[OF assms(1), of qs] that
    by (cases "look qs (r_root ?r0)") (simp_all add: fs_Snapshot_def)
  ultimately show ?thesis
    using r' by (intro exI[of _ "with_router r' fs1"]) (simp add: fs_Restore_def router_Restore_def c_def[symmetric] cong: option.case_cong)
qed

lemma restore_earlier_snapshot_witness:
  "\<exists>fs2. fs_Restore (fs_Snapshot (blob_fs rw_blob))
      (fold apply_change [Mounts (RAdd (demo_entry ''/b'' KindDir)), Writes 9 ''/a'' ''new'' anonymous, Renames ''/a'' ''/c'']
        (blob_fs rw_blob)) = (fs2, None)"
proof -
  have "list_all2 same_but_bytes (fs_Snapshot (blob_fs rw_blob)) (fs_Snapshot (blob_fs rw_blob))"
    by (rule list_all2_refl) simp
  from restore_earlier_snapshot[OF blob_fs_ok refl this] show ?thesis by blast
qed

text \<open>
  The paths that stat and readdir answer themselves, before they look at the mounts: the
  metrics, the generated skills, and for readdir the root.
\<close>

definition own_stat :: "string \<Rightarrow> fs_state \<Rightarrow> bool" where
  "own_stat path fs \<longleftrightarrow> path \<in> {''/sys'', ''/sys/metrics'', ''/skills''} \<or> skillFilePath path \<noteq> None \<or>
     (\<exists>name. skillDirPath path = Some name \<and> skill_Exists name (fs_skills fs))"

definition own_listing :: "string \<Rightarrow> fs_state \<Rightarrow> bool" where
  "own_listing path fs \<longleftrightarrow> path \<in> {''/'', ''/sys'', ''/skills''} \<or>
     (\<exists>name. skillDirPath path = Some name \<and> skill_Exists name (fs_skills fs))"

lemma own_stat_result:
  assumes "own_stat path fs"
  shows "(\<exists>kind mode sz. stat_body env path caller fs = Ok (dir_stat path kind mode sz fs)) \<or>
    (\<exists>name e. skillFilePath path = Some name \<and> ReadSkillFile name (fs_skills fs) = Inl e)"
  using assms unfolding own_stat_def stat_body_def
  by (cases "skillFilePath path"; cases "skillDirPath path") (auto split: sum.split)



text \<open>
  The two critical sections of a blob write do not fit together. After the check has let
  the writer in, the blob may be unmounted while a mount below it remains; the second section
  then finds a node without a mount and panics.
\<close>

theorem write_race_panics:
  "\<exists>fs. access_check OpWrite ''writable'' ''/a'' anonymous (fs_router fs) = Inr (rw_blob\<lparr>me_ID := 1\<rparr>, empty_params) \<and>
     snd (fs_Unmount env w ''/a'' fs) = None \<and>
     snd (writeBlob now ''/a'' payload anonymous (fst (fs_Unmount env w ''/a'' fs))) = Crash"
proof -
  let ?r = "fst (router_add (fst (router_add newRouter rw_blob)) (demo_entry ''/a/b'' KindDir))"
  let ?fs = "demo_fs\<lparr>fs_router := ?r\<rparr>"
  have m: "router_match ?r ''/a'' = Inr \<lparr>rm_mount = Some (rw_blob\<lparr>me_ID := 1\<rparr>), rm_params = empty_params\<rparr>"
    by (simp add: rw_blob_def router_match_walk path_segs_def demo_eval)
  have a: "access_check OpWrite ''writable'' ''/a'' anonymous ?r = Inr (rw_blob\<lparr>me_ID := 1\<rparr>, empty_params)"
    unfolding access_check_Inr m using owner_rw
    by (simp add: canAccessNamespace_def rw_blob_def demo_entry_def zero_entry_def)
      (simp add: anonymous_def)
  have n: "normalizePath ''/a'' = Inr ''/a''" by (simp add: normalizePath_def has_suffix_def)
  obtain r1 where u: "router_remove ?r ''/a'' = (r1, Inr (rw_blob\<lparr>me_ID := 1\<rparr>))"
    "router_match r1 ''/a'' = Inr \<lparr>rm_mount = None, rm_params = empty_params\<rparr>"
    by (simp add: rw_blob_def router_remove_def router_match_walk path_segs_def demo_eval)
  have "me_Skill (rw_blob\<lparr>me_ID := 1\<rparr>) = None" by (simp add: rw_blob_def demo_entry_def zero_entry_def)
  then have f: "fs_router (fst (fs_Unmount env w ''/a'' ?fs)) = r1" "snd (fs_Unmount env w ''/a'' ?fs) = None"
    using n u by (simp_all add: fs_Unmount_def unmount_body_def unmountLocked_def Let_def with_router_def)
  have "snd (writeBlob now ''/a'' payload anonymous (fst (fs_Unmount env w ''/a'' ?fs))) = Crash"
    using u f by (simp add: writeBlob_def canAccessNamespace_def)
  with a f show ?thesis by (intro exI[of _ ?fs]) simp
qed

text \<open>
  A write to a mount with write-back always succeeds once the provider may be asked, and
  what the next read of the path returns is the provider's answer to the write or, when the
  provider failed, the message with the expected schema.
\<close>

theorem writeback_reads_answer:
  assumes "access_check OpWrite ''writable'' path caller (fs_router (fst s)) = Inr (m, ps)"
    and "me_Kind m = KindAPI" and "me_Writeback m" and "ordinary path"
    and "fs_providerFor env m OpWrite path s = (s1, Inr cap)"
    and "fs_invoke env cap OpWrite path ps payload caller s1 = (s2, r)" and "r \<noteq> Inr None"
    and "access_check OpRead ''readable'' path reader (fs_router (fst s2)) = Inr (m, ps')"
  shows "snd (fs_Write env path payload caller s) = Ok () \<and>
    snd (fs_Read env path reader (fst (fs_Write env path payload caller s))) =
      Ok (case r of Inl e \<Rightarrow> schemaErrJSON env (me_Schema m) e path | Inr d \<Rightarrow> nil_to_empty d)"
proof -
  obtain d where d: "d = (case r of Inl e \<Rightarrow> schemaErrJSON env (me_Schema m) e path | Inr x \<Rightarrow> nil_to_empty x)"
    by blast
  have "r = Inr x \<Longrightarrow> \<exists>y. x = Some y" for x using assms(7) by (cases x) auto
  then have api: "write_api env path payload caller m ps s =
      (((fst (fs_record env (cc_ProviderID cap) (\<not> isl r) s2))\<lparr>fs_writeback := mput path d
          (fs_writeback (fst (fs_record env (cc_ProviderID cap) (\<not> isl r) s2)))\<rparr>,
        snd (fs_record env (cc_ProviderID cap) (\<not> isl r) s2)), Ok ())"
    using assms(3,5,6) d by (cases r) (auto simp: write_api_def nil_to_empty_def Let_def)
  then have body: "write_body env path payload caller s = write_api env path payload caller m ps s"
    using assms(1,2) by (simp add: write_body_def)
  have rt: "fs_router (fst (fs_record env i ok s2)) = fs_router (fst s2)" for i ok
    by (simp add: fs_record_def)
  show ?thesis
    unfolding d[symmetric]
    using assms(2,3,4,8) api body
    by (simp add: fs_Write_def fs_Read_def read_body_def ordinary_def read_api_def rt)
qed

definition api_entry :: mount_entry where
  "api_entry = demo_entry ''/a'' KindAPI\<lparr>me_Mode := mode_0644, me_Writeback := True,
     me_Ops := [(OpWrite, Some (clock_cap\<lparr>cc_CacheTTL := 0\<rparr>))]\<rparr>"

definition api_fs :: fs_state where
  "api_fs = demo_fs\<lparr>fs_router := fst (router_add newRouter api_entry), fs_providers := [''clock'']\<rparr>"

text \<open>An environment whose provider fails.\<close>

definition fail_env :: "int env" where
  "fail_env = clock_env\<lparr>env_invoke := (\<lambda>w i act t ps. (w, Inl (PlainError ''BUSY''))),
     env_marshal := (\<lambda>kvs. concat (map fst kvs))\<rparr>"

lemma writeback_reads_answer_witness:
  "snd (fs_Read fail_env ''/a'' anonymous (fst (fs_Write fail_env ''/a'' ''x'' anonymous (api_fs, 3)))) =
   Ok (''error'' @ ''expected_schema'' @ ''hint'')"
proof -
  let ?m = "api_entry\<lparr>me_ID := 1\<rparr>" and ?s = "(api_fs, 3 :: int)"
  have mt: "router_match (fs_router api_fs) ''/a'' = Inr \<lparr>rm_mount = Some ?m, rm_params = empty_params\<rparr>"
    by (simp add: api_fs_def api_entry_def router_match_walk path_segs_def demo_eval)
  have acc: "access_check o1 what ''/a'' anonymous (fs_router api_fs) = Inr (?m, empty_params)"
    if "o1 = OpRead \<or> o1 = OpWrite" for o1 what
    unfolding access_check_Inr mt using that owner_rw
    by (auto simp: canAccessNamespace_def api_entry_def demo_entry_def zero_entry_def anonymous_def)
  have k: "me_Kind ?m = KindAPI" "me_Writeback ?m" by (simp_all add: api_entry_def demo_entry_def)
  let ?cap = "clock_cap\<lparr>cc_CacheTTL := 0\<rparr>"
  have br: "bc_Enabled (g_Breaker (fs_cfg api_fs)) = False" by (simp add: api_fs_def demo_fs_eval)
  have pf: "fs_providerFor fail_env ?m OpWrite ''/a'' ?s = (?s, Inr ?cap)"
    using br by (simp add: fs_providerFor_def providerFor_def breakerOpen_def api_entry_def clock_cap_def
        api_fs_def)
  obtain s2 r where inv: "fs_invoke fail_env ?cap OpWrite ''/a'' empty_params ''x'' anonymous ?s = (s2, r)"
    by fastforce
  have r: "r = Inl (the (MapProviderError (Some (PlainError ''BUSY'')) OpWrite ''/a''))"
    and s2: "fs_router (fst s2) = fs_router api_fs"
    using inv by (auto simp: fs_invoke_def invokeProvider_def fail_env_def clock_cap_def Let_def)
  have acc2: "access_check OpRead ''readable'' ''/a'' anonymous (fs_router (fst s2)) = Inr (?m, empty_params)"
    unfolding s2 by (rule acc) simp
  have "r \<noteq> Inr None" using r by simp
  from writeback_reads_answer[OF _ k ordinary_a pf inv this acc2] acc r show ?thesis
    by (simp add: schemaErrJSON_def fail_env_def)
qed

section \<open>Links\<close>

text \<open>The paths that following visits.\<close>

fun chain :: "fs_state \<Rightarrow> string \<Rightarrow> nat \<Rightarrow> string" where
  "chain fs p 0 = p"
| "chain fs p (Suc k) =
     (case ReadLink fs (chain fs p k) of Ok t \<Rightarrow> link_target (chain fs p k) t | _ \<Rightarrow> chain fs p k)"

lemma chain_shift: "ReadLink fs p = Ok t \<Longrightarrow> chain fs (link_target p t) k = chain fs p (Suc k)"
proof (induction k)
  case 0
  then show ?case by simp
next
  case (Suc k)
  from Suc.IH[OF Suc.prems] show ?case
    by (simp only: chain.simps(2)[of fs "link_target p t" k] chain.simps(2)[of fs p "Suc k"])
qed

definition is_link :: "fs_state \<Rightarrow> string \<Rightarrow> bool" where
  "is_link fs p \<longleftrightarrow> (case ReadLink fs p of Ok t \<Rightarrow> True | _ \<Rightarrow> False)"

lemma follow_loop_eq:
  "follow_loop fuel fs p =
     (if \<forall>k<fuel. is_link fs (chain fs p k) then Fail (posix ELOOP OpRead (chain fs p fuel) None)
      else (let k = (LEAST k. \<not> is_link fs (chain fs p k)); q = chain fs p k
            in case ReadLink fs q of
                 Fail e \<Rightarrow> (if as_posix e = Some EINVAL then Ok q else Fail e)
               | r \<Rightarrow> r))"
proof (induction fuel arbitrary: p)
  case 0
  show ?case by simp
next
  case (Suc fuel)
  show ?case
  proof (cases "is_link fs p")
    case False
    then have na: "\<not> (\<forall>k<Suc fuel. is_link fs (chain fs p k))" by (metis chain.simps(1) zero_less_Suc)
    have l0: "(LEAST k. \<not> is_link fs (chain fs p k)) = 0"
      using False by (intro Least_equality) auto
    show ?thesis
      unfolding if_not_P[OF na] l0 Let_def chain.simps(1) using False
      by (cases "ReadLink fs p") (simp_all add: is_link_def)
  next
    case True
    then obtain t where t: "ReadLink fs p = Ok t" by (auto simp: is_link_def split: res.splits)
    let ?q = "link_target p t"
    have sh: "chain fs ?q k = chain fs p (Suc k)" for k by (rule chain_shift[OF t])
    have all: "(\<forall>k<Suc fuel. is_link fs (chain fs p k)) \<longleftrightarrow> (\<forall>k<fuel. is_link fs (chain fs ?q k))"
    proof
      assume "\<forall>k<Suc fuel. is_link fs (chain fs p k)"
      then show "\<forall>k<fuel. is_link fs (chain fs ?q k)" unfolding sh by blast
    next
      assume a: "\<forall>k<fuel. is_link fs (chain fs ?q k)"
      show "\<forall>k<Suc fuel. is_link fs (chain fs p k)"
      proof (intro allI impI)
        fix k
        assume "k < Suc fuel"
        with a True show "is_link fs (chain fs p k)" unfolding sh by (cases k) (simp_all del: chain.simps(2))
      qed
    qed
    show ?thesis
    proof (cases "\<forall>k<fuel. is_link fs (chain fs ?q k)")
      case a: True
      then show ?thesis using Suc[of ?q] all t sh by (simp del: chain.simps(2))
    next
      case a: False
      then obtain j where "\<not> is_link fs (chain fs p (Suc j))" unfolding sh by blast
      then have "(LEAST k. \<not> is_link fs (chain fs p k)) = Suc (LEAST k. \<not> is_link fs (chain fs p (Suc k)))"
        using True by (intro Least_Suc[of _ "Suc j"]) (simp_all del: chain.simps(2))
      note least = this
      have na: "\<not> (\<forall>k<Suc fuel. is_link fs (chain fs p k))" using all a by blast
      from Suc[of ?q, unfolded sh Let_def if_not_P[OF a[unfolded sh]]] t show ?thesis
        unfolding if_not_P[OF na] least Let_def by (simp del: chain.simps(2))
    qed
  qed
qed

text \<open>
  Following a link ends: with ELOOP when the first sixteen paths are all links, and
  otherwise at the first path that is none. That path is returned when reading it as a link
  reports EINVAL, which is the answer for any mount of another kind and also for a malformed
  path; a path without a mount gives its error, and an intermediate directory panics.
\<close>

theorem follow_link_result:
  "(if \<forall>k<16. is_link fs (chain fs p k)
    then FollowLink fs p = Fail (posix ELOOP OpRead (chain fs p 16) None)
    else \<exists>k<16. (\<forall>j<k. is_link fs (chain fs p j)) \<and> \<not> is_link fs (chain fs p k) \<and>
      FollowLink fs p =
        (case router_match (fs_router fs) (chain fs p k) of
           Inl e \<Rightarrow> (if as_posix e = Some EINVAL then Ok (chain fs p k) else Fail e)
         | Inr rm \<Rightarrow> (if rm_mount rm = None then Crash else Ok (chain fs p k))))"
proof (cases "\<forall>k<16. is_link fs (chain fs p k)")
  case True
  then show ?thesis by (simp add: FollowLink_def follow_loop_eq del: follow_loop.simps)
next
  case False
  define k where "k = (LEAST k. \<not> is_link fs (chain fs p k))"
  from False obtain j where j: "j < 16" "\<not> is_link fs (chain fs p j)" by blast
  have k: "\<not> is_link fs (chain fs p k)" unfolding k_def using j(2) by (rule LeastI)
  have "k \<le> j" unfolding k_def using j(2) by (rule Least_le)
  with j(1) have lt: "k < 16" by simp
  have before: "\<forall>i<k. is_link fs (chain fs p i)" unfolding k_def using not_less_Least by blast
  have "FollowLink fs p = (case ReadLink fs (chain fs p k) of
      Fail e \<Rightarrow> (if as_posix e = Some EINVAL then Ok (chain fs p k) else Fail e) | r \<Rightarrow> r)"
    unfolding FollowLink_def follow_loop_eq[of 16] if_not_P[OF False] Let_def k_def ..
  with k have "FollowLink fs p =
        (case router_match (fs_router fs) (chain fs p k) of
           Inl e \<Rightarrow> (if as_posix e = Some EINVAL then Ok (chain fs p k) else Fail e)
         | Inr rm \<Rightarrow> (if rm_mount rm = None then Crash else Ok (chain fs p k)))"
    by (auto simp: ReadLink_def is_link_def split: sum.splits option.splits if_splits)
  with False lt before k show ?thesis by auto
qed

lemma follow_link_result_witness:
  "FollowLink (blob_fs (demo_entry ''/l'' KindLink\<lparr>me_LinkPath := ''/a//b''\<rparr>)) ''/l'' = Ok ''/a//b''"
proof -
  let ?fs = "blob_fs (demo_entry ''/l'' KindLink\<lparr>me_LinkPath := ''/a//b''\<rparr>)"
  have l: "router_match (fs_router ?fs) ''/l'' = Inr \<lparr>rm_mount = Some (demo_entry ''/l'' KindLink
      \<lparr>me_LinkPath := ''/a//b'', me_ID := 1\<rparr>), rm_params = empty_params\<rparr>"
    by (simp add: blob_fs_def router_match_walk path_segs_def demo_eval)
  have r: "ReadLink ?fs ''/l'' = Ok ''/a//b''"
    using l by (simp add: ReadLink_def demo_entry_def)
  have c1: "chain ?fs ''/l'' 1 = ''/a//b''" using r by (simp add: link_target_def)
  have m: "router_match (fs_router ?fs) ''/a//b'' = Inl (einval_path ''/a//b'')"
    by (simp add: router_match_walk has_prefix_def)
  have n: "\<not> is_link ?fs (chain ?fs ''/l'' 1)" unfolding c1 by (simp add: is_link_def ReadLink_def m)
  have y: "is_link ?fs (chain ?fs ''/l'' 0)" by (simp add: is_link_def r)
  have not_all: "\<not> (\<forall>k<16. is_link ?fs (chain ?fs ''/l'' k))"
    using n by (metis one_less_numeral_iff semiring_norm(76))
  with follow_link_result[of ?fs "''/l''"] obtain k where k: "\<forall>j<k. is_link ?fs (chain ?fs ''/l'' j)"
    "\<not> is_link ?fs (chain ?fs ''/l'' k)"
    "FollowLink ?fs ''/l'' =
        (case router_match (fs_router ?fs) (chain ?fs ''/l'' k) of
           Inl e \<Rightarrow> (if as_posix e = Some EINVAL then Ok (chain ?fs ''/l'' k) else Fail e)
         | Inr rm \<Rightarrow> (if rm_mount rm = None then Crash else Ok (chain ?fs ''/l'' k)))"
    by auto
  have "k = 1"
  proof (rule ccontr)
    assume "k \<noteq> 1"
    then consider "k = 0" | "1 < k" by linarith
    then show False using k(1,2) y n by cases auto
  qed
  from k(3)[unfolded \<open>k = 1\<close> c1 m] show ?thesis by (simp add: einval_path_def)
qed

section \<open>Stat and Readdir\<close>

text \<open>
  The size that stat reports for a blob or a link is the number of bytes that a read of
  the path returns at that moment.
\<close>

theorem stat_size_is_read_length:
  assumes "stat_body env path caller (fst s) = Ok st" and "read_body env path reader s = (s', Ok data)"
    and "st_Kind st = KindBlob \<or> st_Kind st = KindLink"
  shows "st_Size st = int (length data) \<and> s' = s"
proof (cases "path = ''/sys/metrics''")
  case True
  with assms show ?thesis by (auto simp: stat_body_def read_body_def dir_stat_def)
next
  case False
  have ns: "path \<noteq> ''/sys''" "path \<noteq> ''/skills''"
    "\<not> (case skillDirPath path of Some name \<Rightarrow> skill_Exists name (fs_skills (fst s)) | None \<Rightarrow> False)"
    using assms(1,3) False by (auto simp: stat_body_def dir_stat_def split: if_splits)
  show ?thesis
  proof (cases "skillFilePath path")
    case (Some name)
    with assms(1,2) False ns show ?thesis
      by (auto simp: stat_body_def read_body_def dir_stat_def split: sum.splits)
  next
    case None
    from assms(2) False None obtain m ps where acc: "access_check OpRead ''readable'' path reader
        (fs_router (fst s)) = Inr (m, ps)"
      by (auto simp: read_body_def split: sum.splits)
    then have "router_match (fs_router (fst s)) path = Inr \<lparr>rm_mount = Some m, rm_params = ps\<rparr>"
      by (simp add: access_check_Inr)
    with assms(1) False None ns have "st_Kind st = me_Kind m" "mount_size m path (fst s) = Some (st_Size st)"
      by (auto simp: stat_body_def stat_router_def split: if_splits option.splits)
    with assms(2,3) False None acc show ?thesis
      by (auto simp: read_body_def mount_size_def)
  qed
qed

lemma stat_size_is_read_length_witness:
  "case stat_body clock_env ''/a'' anonymous (blob_fs (rw_blob\<lparr>me_BlobData := ''xyz''\<rparr>)) of
     Ok st \<Rightarrow> st_Size st = 3 | _ \<Rightarrow> False"
proof -
  let ?e = "rw_blob\<lparr>me_BlobData := ''xyz''\<rparr>" and ?m = "rw_blob\<lparr>me_BlobData := ''xyz'', me_ID := 1\<rparr>"
  let ?fs = "blob_fs ?e"
  have m: "router_match (fs_router ?fs) ''/a'' = Inr \<lparr>rm_mount = Some ?m, rm_params = empty_params\<rparr>"
    by (simp add: blob_fs_def rw_blob_def router_match_walk path_segs_def demo_eval)
  have a: "access_check OpRead ''readable'' ''/a'' anonymous (fs_router ?fs) = Inr (?m, empty_params)"
    unfolding access_check_Inr m using owner_rw
    by (simp add: canAccessNamespace_def rw_blob_def demo_entry_def zero_entry_def)
      (simp add: anonymous_def)
  have k: "me_Kind ?m = KindBlob" by (simp add: rw_blob_def demo_entry_def)
  obtain st where st: "stat_body clock_env ''/a'' anonymous ?fs = Ok st" "st_Kind st = KindBlob"
    using m k ordinary_a
    by (auto simp: stat_body_def stat_router_def ordinary_def mount_size_def canAccessNamespace_def anonymous_def)
  have rd: "read_body clock_env ''/a'' anonymous (?fs, 0) = ((?fs, 0), Ok ''xyz'')"
    using a k ordinary_a by (simp add: read_body_def ordinary_def)
  have "st_Size st = int (length ''xyz'')"
    using stat_size_is_read_length[of clock_env "''/a''" anonymous "(?fs, 0)" st, OF _ rd] st by simp
  with st(1) show ?thesis by simp
qed

end
