(* ===== verification/HandleProps.thy ===== *)
theory HandleProps
  imports Handles FsProps
begin

text \<open>
  What the operations on handles guarantee: which opens succeed, that buffering loses and
  reorders nothing, that a closed handle is refused, and what a shutdown leaves behind.
\<close>

section \<open>What a write does not touch\<close>

text \<open>The parts of the state that belong to handles, locks and hooks.\<close>

definition handle_parts :: "fs_state \<Rightarrow> handle_manager \<times> lock_manager \<times> nat list \<times> nat list" where
  "handle_parts fs = (fs_handles fs, fs_locks fs, fs_cleanup fs, fs_hooks_run fs)"

lemma parts_finish [simp]:
  "handle_parts (fst (fst (finish env o1 name path caller t0 out))) = handle_parts (fst (fst out))"
  by (auto simp: handle_parts_def finish_def fs_audit_def Let_def split: prod.splits res.splits)

lemma parts_emit [simp]: "handle_parts (fs_emit path k fs) = handle_parts fs"
  by (simp add: handle_parts_def fs_emit_def case_prod_beta)

lemma parts_invoke [simp]:
  "handle_parts (fst (fst (fs_invoke env cap o1 path ps payload caller s))) = handle_parts (fst s)"
  by (simp add: handle_parts_def fs_invoke_def Let_def case_prod_beta)

lemma parts_provider [simp]:
  "handle_parts (fst (fst (fs_providerFor env m o1 path s))) = handle_parts (fst s)"
  by (simp add: handle_parts_def fs_providerFor_def Let_def case_prod_beta)

lemma parts_record [simp]: "handle_parts (fst (fs_record env i ok s)) = handle_parts (fst s)"
  by (simp add: handle_parts_def fs_record_def)

lemma parts_writeBlob [simp]:
  "handle_parts (fst (writeBlob now path payload caller fs)) = handle_parts fs"
  by (auto simp: handle_parts_def writeBlob_def with_router_def split: sum.splits option.splits)

lemma parts_blob_step [simp]:
  "handle_parts (fst (fst (write_blob_step env path payload caller s))) = handle_parts (fst s)"
  using parts_writeBlob[of "env_now env (snd s)" path payload caller "fst s"]
  by (auto simp: write_blob_step_def simp del: parts_writeBlob split: prod.splits res.splits)

lemma parts_stream_write [simp]:
  "handle_parts (fst (fst (stream_write path cfg nonblock payload s))) = handle_parts (fst s)"
  by (simp add: handle_parts_def stream_write_def put_stream_def Let_def case_prod_beta)

lemma parts_write_api [simp]:
  "handle_parts (fst (fst (write_api env path payload caller m ps s))) = handle_parts (fst s)"
proof -
  obtain s1 r where p: "fs_providerFor env m OpWrite path s = (s1, r)" by fastforce
  have s1: "handle_parts (fst s1) = handle_parts (fst s)"
    using parts_provider[of env m OpWrite path s] p by simp
  have st: "handle_parts (fs\<lparr>fs_writeback := x\<rparr>) = handle_parts fs" for fs x
    by (simp add: handle_parts_def)
  show ?thesis
    using s1 by (auto simp: write_api_def p Let_def case_prod_beta st split: sum.splits option.splits)
qed

lemma parts_write_body: "handle_parts (fst (fst (write_body env path payload caller s))) = handle_parts (fst s)"
proof -
  have "handle_parts (fst s1) = handle_parts (fst s)"
    if "stream_write path cfg False payload s = (s1, r)" for cfg s1 r
    using parts_stream_write[of path cfg False payload s] that by simp
  then show ?thesis by (auto simp: write_body_def split: sum.splits node_kind.splits prod.splits res.splits)
qed

lemma parts_write [simp]: "handle_parts (fst (fst (fs_Write env path payload caller s))) = handle_parts (fst s)"
  by (simp add: fs_Write_def parts_write_body)

lemmas write_frame = parts_write[unfolded handle_parts_def prod.inject]

lemma handle_of_set [simp]:
  "handle_of j (fst (set_handle i h s)) = (if j = i then Some h else handle_of j (fst s))"
  by (simp add: handle_of_def set_handle_def)

lemma handle_of_write [simp]: "handle_of i (fst (fst (fs_Write env path p caller s))) = handle_of i (fst s)"
  using write_frame(1)[of env path p caller s] by (simp add: handle_of_def)

lemma set_handle_locks [simp]: "fs_locks (fst (set_handle i h s)) = fs_locks (fst s)"
  by (simp add: set_handle_def)

lemma on_handle_some: "handle_of i (fst s) = Some h \<Longrightarrow> on_handle i f s = f h"
  by (simp add: on_handle_def)

section \<open>Buffering\<close>

text \<open>
  The writes of the filesystem that happen on the way from one state to another, with whether
  each succeeded; in between only the handle itself changes.
\<close>

inductive write_trace ::
  "'w env \<Rightarrow> u64 \<Rightarrow> string \<Rightarrow> caller_identity \<Rightarrow> 'w fsw \<Rightarrow> (bytes \<times> bool) list \<Rightarrow> 'w fsw \<Rightarrow> bool"
  for env :: "'w env" and i :: u64 and path :: string and caller :: caller_identity where
  start: "write_trace env i path caller s [] s"
| own: "write_trace env i path caller s tr s1 \<Longrightarrow> write_trace env i path caller s tr (set_handle i h s1)"
| wrote: "write_trace env i path caller s tr s1 \<Longrightarrow> fs_Write env path p caller s1 = (s2, r) \<Longrightarrow>
     write_trace env i path caller s (tr @ [(p, r = Ok ())]) s2"

lemma write_trace_trans:
  "write_trace env i path caller s1 tr2 s2 \<Longrightarrow> write_trace env i path caller s tr1 s1 \<Longrightarrow>
   write_trace env i path caller s (tr1 @ tr2) s2"
proof (induction rule: write_trace.induct)
  case (wrote s tr s1 p s2 r)
  then show ?case using write_trace.wrote[of env i path caller _ "tr1 @ tr"] by simp
qed (auto intro: write_trace.intros)

definition sent :: "(bytes \<times> bool) list \<Rightarrow> bytes" where
  "sent tr = concat (map fst (filter snd tr))"

lemma sent_append [simp]: "sent (tr1 @ tr2) = sent tr1 @ sent tr2"
  by (simp add: sent_def)

text \<open>The part of a handle that its methods never change.\<close>

definition fixed_part where
  "fixed_part h = (hd_id h, hd_path h, hd_mount h, hd_caller h, hd_flags h, hd_closed h, hd_policy h)"

text \<open>From one state to the other the handle took \<open>x\<close> and sent the rest of what it holds.\<close>

definition conserves :: "'w env \<Rightarrow> u64 \<Rightarrow> bytes \<Rightarrow> handle \<Rightarrow> 'w fsw \<Rightarrow> 'w fsw \<Rightarrow> bool" where
  "conserves env i x h s s' \<longleftrightarrow>
     (\<exists>h' tr. handle_of i (fst s') = Some h' \<and> fixed_part h' = fixed_part h \<and>
        write_trace env i (hd_path h) (hd_caller h) s tr s' \<and> sent tr @ hd_buf h' = hd_buf h @ x)"

lemma conserves_refl: "handle_of i (fst s) = Some h \<Longrightarrow> conserves env i [] h s s"
  unfolding conserves_def by (intro exI[of _ h] exI[of _ "[]"]) (simp add: start sent_def)

lemma conserves_own:
  "fixed_part h' = fixed_part h \<Longrightarrow> hd_buf h' = hd_buf h @ x \<Longrightarrow> conserves env i x h s (set_handle i h' s)"
  unfolding conserves_def
  by (intro exI[of _ h'] exI[of _ "[]"]) (simp add: sent_def start own)

lemma conserves_trans:
  assumes "conserves env i x h s s1" and "handle_of i (fst s1) = Some h1"
    and "conserves env i y h1 s1 s2"
  shows "conserves env i (x @ y) h s s2"
proof -
  from assms(1,2) obtain tr1 where a: "fixed_part h1 = fixed_part h"
    "write_trace env i (hd_path h) (hd_caller h) s tr1 s1" "sent tr1 @ hd_buf h1 = hd_buf h @ x"
    by (auto simp: conserves_def)
  from assms(3) obtain h2 tr2 where b: "handle_of i (fst s2) = Some h2" "fixed_part h2 = fixed_part h1"
    "write_trace env i (hd_path h1) (hd_caller h1) s1 tr2 s2" "sent tr2 @ hd_buf h2 = hd_buf h1 @ y"
    by (auto simp: conserves_def)
  have "hd_path h1 = hd_path h" "hd_caller h1 = hd_caller h" using a(1) by (simp_all add: fixed_part_def)
  then have "write_trace env i (hd_path h) (hd_caller h) s (tr1 @ tr2) s2"
    using b(3) a(2) by (simp add: write_trace_trans)
  moreover have "sent (tr1 @ tr2) @ hd_buf h2 = hd_buf h @ x @ y"
    using a(3) b(4) by (simp flip: append_assoc) (simp add: append_assoc)
  ultimately show ?thesis using a(1) b(1,2) unfolding conserves_def by metis
qed

lemma conserves_handle:
  "conserves env i x h s s' \<Longrightarrow> \<exists>h'. handle_of i (fst s') = Some h' \<and> fixed_part h' = fixed_part h"
  by (auto simp: conserves_def)

lemma flushPrefix_conserves:
  assumes h: "handle_of i (fst s) = Some h"
  shows "conserves env i [] h s (fst (flushPrefixLocked env i n s))"
proof (cases "n = 0")
  case True
  with h show ?thesis by (simp add: flushPrefixLocked_def on_handle_some conserves_refl)
next
  case False
  obtain s1 r where w: "fs_Write env (hd_path h) (take n (hd_buf h)) (hd_caller h) s = (s1, r)" by fastforce
  note tr = write_trace.wrote[OF write_trace.start w, simplified]
  have h1: "handle_of i (fst s1) = Some h"
    using handle_of_write[of i env "hd_path h" "take n (hd_buf h)" "hd_caller h" s] w h by simp
  show ?thesis
  proof (cases "r = Ok ()")
    case True
    let ?h1 = "h\<lparr>hd_buf := drop n (hd_buf h)\<rparr>"
    let ?h2 = "if hd_buf ?h1 = [] then stop_timer ?h1 else ?h1"
    have "fst (flushPrefixLocked env i n s) = set_handle i ?h2 s1"
      using False h w True by (simp add: flushPrefixLocked_def on_handle_some and_then_def Let_def)
    moreover have "fixed_part ?h2 = fixed_part h" "hd_buf ?h2 = drop n (hd_buf h)"
      by (simp_all add: fixed_part_def stop_timer_def)
    ultimately show ?thesis
      unfolding conserves_def using own[OF tr] True
      by (intro exI[of _ ?h2] exI[of _ "[(take n (hd_buf h), True)]"]) (simp add: sent_def)
  next
    case f: False
    then have "fst (flushPrefixLocked env i n s) = s1"
      using False h w by (cases r) (simp_all add: flushPrefixLocked_def on_handle_some and_then_def)
    with f h1 tr show ?thesis
      unfolding conserves_def
      by (intro exI[of _ h] exI[of _ "[(take n (hd_buf h), False)]"]) (simp add: sent_def)
  qed
qed

lemma flushAll_conserves:
  assumes h: "handle_of i (fst s) = Some h"
  shows "conserves env i [] h s (fst (flushAllLocked env i s))"
  using h flushPrefix_conserves[OF h] conserves_own[of "stop_timer h" h "[]" env i s]
  by (simp add: flushAllLocked_def on_handle_some stop_timer_def fixed_part_def)

lemma and_then_conserves:
  assumes "conserves env i x h s (fst a)"
    and "\<And>h1. handle_of i (fst (fst a)) = Some h1 \<Longrightarrow> fixed_part h1 = fixed_part h \<Longrightarrow>
      conserves env i [] h1 (fst a) (fst (f (fst a)))"
  shows "conserves env i x h s (fst (and_then a f))"
proof (cases "snd a")
  case (Ok u)
  from conserves_handle[OF assms(1)] obtain h1 where h1: "handle_of i (fst (fst a)) = Some h1"
    "fixed_part h1 = fixed_part h" by blast
  from conserves_trans[OF assms(1) h1(1) assms(2)[OF h1]] Ok show ?thesis by (simp add: and_then_def)
qed (use assms(1) in \<open>simp_all add: and_then_def\<close>)

lemma flush_lines_conserves: "handle_of i (fst s) = Some h \<Longrightarrow> conserves env i [] h s (fst (flush_lines env i s))"
  by (auto simp: flush_lines_def on_handle_some conserves_refl flushPrefix_conserves split: option.splits)

lemma flush_full_conserves: "handle_of i (fst s) = Some h \<Longrightarrow> conserves env i [] h s (fst (flush_full env i s))"
  by (simp add: flush_full_def on_handle_some conserves_refl flushAll_conserves Let_def)

lemma arm_timer_conserves: "handle_of i (fst s) = Some h \<Longrightarrow> conserves env i [] h s (fst (arm_timer i s))"
  by (auto simp: arm_timer_def on_handle_some conserves_refl fixed_part_def intro: conserves_own)

lemma write_buffered_conserves:
  assumes h: "handle_of i (fst s) = Some h"
  shows "conserves env i payload h s (fst (write_buffered env i payload s))"
proof -
  let ?s = "set_handle i (h\<lparr>hd_buf := hd_buf h @ payload\<rparr>) s"
  have 0: "conserves env i payload h s ?s" by (rule conserves_own) (simp_all add: fixed_part_def)
  have "conserves env i payload h s (fst (flush_lines env i ?s))"
    using conserves_trans[OF 0 _ flush_lines_conserves] by simp
  then have "conserves env i payload h s (fst (and_then (flush_lines env i ?s) (flush_full env i)))"
    by (rule and_then_conserves) (rule flush_full_conserves)
  then have "conserves env i payload h s
      (fst (and_then (and_then (flush_lines env i ?s) (flush_full env i)) (arm_timer i)))"
    by (rule and_then_conserves) (rule arm_timer_conserves)
  with h show ?thesis by (simp add: write_buffered_def on_handle_some)
qed

text \<open>A handle whose writes are buffered.\<close>

definition buffering :: "handle \<Rightarrow> bool" where
  "buffering h \<longleftrightarrow> \<not> hd_closed h \<and> (flag_Has (hd_flags h) OpenWrite \<or> flag_Has (hd_flags h) OpenAppend) \<and>
     me_Kind (hd_mount h) \<noteq> KindStream \<and> bp_Mode (hd_policy h) = WriteBuffered"

lemma h_Write_buffering:
  "handle_of i (fst s) = Some h \<Longrightarrow> buffering h \<Longrightarrow> h_Write env i payload s = write_buffered env i payload s"
  by (auto simp: h_Write_def on_handle_some buffering_def)

text \<open>What can happen to an open handle, and a run of it up to a call that does not return.
  The run also gives what was passed to its writes.\<close>

datatype handle_op = DoWrite bytes | DoFlush | DoFire

fun handle_step :: "'w env \<Rightarrow> u64 \<Rightarrow> handle_op \<Rightarrow> 'w fsw \<Rightarrow> 'w fsw \<times> unit res" where
  "handle_step env i (DoWrite p) s = h_Write env i p s"
| "handle_step env i DoFlush s = h_Flush env i s"
| "handle_step env i DoFire s = timer_fires env i s"

fun payload_of :: "handle_op \<Rightarrow> bytes" where
  "payload_of (DoWrite p) = p"
| "payload_of DoFlush = []"
| "payload_of DoFire = []"

fun handle_run :: "'w env \<Rightarrow> u64 \<Rightarrow> handle_op list \<Rightarrow> 'w fsw \<Rightarrow> 'w fsw \<times> bytes" where
  "handle_run env i [] s = (s, [])"
| "handle_run env i (a # as) s =
     (case handle_step env i a s of
        (s1, Wait rest) \<Rightarrow> (s1, payload_of a)
      | (s1, Crash) \<Rightarrow> (s1, payload_of a)
      | (s1, r) \<Rightarrow> (let (s2, x) = handle_run env i as s1 in (s2, payload_of a @ x)))"

lemma handle_step_conserves:
  assumes h: "handle_of i (fst s) = Some h" and b: "buffering h"
  shows "conserves env i (payload_of a) h s (fst (handle_step env i a s))"
proof (cases a)
  case (DoWrite p)
  with h b show ?thesis by (simp add: h_Write_buffering write_buffered_conserves)
next
  case DoFlush
  with h b flushAll_conserves[OF h] show ?thesis by (simp add: h_Flush_def on_handle_some buffering_def)
next
  case DoFire
  let ?h1 = "h\<lparr>hd_timer := TimerFired\<rparr>"
  let ?s1 = "set_handle i ?h1 s"
  have "conserves env i [] h s ?s1" by (rule conserves_own) (simp_all add: fixed_part_def)
  from conserves_trans[OF this _ flushAll_conserves, of ?h1] have "conserves env i [] h s (fst (flushAllLocked env i ?s1))"
    by simp
  with h b DoFire conserves_refl[OF h] show ?thesis
    by (simp add: timer_fires_def h_Flush_def on_handle_some buffering_def)
qed

lemma buffering_fixed: "fixed_part h' = fixed_part h \<Longrightarrow> buffering h' = buffering h"
  by (simp add: fixed_part_def buffering_def)

lemma handle_run_conserves:
  "handle_of i (fst s) = Some h \<Longrightarrow> buffering h \<Longrightarrow>
   conserves env i (snd (handle_run env i as s)) h s (fst (handle_run env i as s))"
proof (induction as arbitrary: s h)
  case Nil
  then show ?case by (simp add: conserves_refl)
next
  case (Cons a as)
  obtain s1 r where st: "handle_step env i a s = (s1, r)" by fastforce
  have c: "conserves env i (payload_of a) h s s1"
    using handle_step_conserves[OF Cons.prems, of env a] st by simp
  then obtain h1 where h1: "handle_of i (fst s1) = Some h1" "fixed_part h1 = fixed_part h"
    using conserves_handle by blast
  have b1: "buffering h1" using Cons.prems(2) buffering_fixed[OF h1(2)] by simp
  note next1 = conserves_trans[OF c h1(1) Cons.IH[OF h1(1) b1]]
  show ?case using st c next1 by (cases r) (auto simp: case_prod_beta)
qed

text \<open>
  C8: buffering neither loses nor invents nor reorders a byte: over any run of writes, flushes
  and timer calls on a handle with buffered writes, what the filesystem was given in
  successful writes followed by what is still in the buffer is exactly the concatenation of
  all payloads, the ones of calls that returned an error included. A caller that repeats a
  failed write therefore writes its payload twice.
\<close>

theorem buffering_conserves:
  assumes "handle_of i (fst s) = Some h" and "buffering h" and "handle_run env i as s = (s', accepted)"
  shows "\<exists>h' tr. handle_of i (fst s') = Some h' \<and> write_trace env i (hd_path h) (hd_caller h) s tr s' \<and>
    concat (map fst (filter snd tr)) @ hd_buf h' = hd_buf h @ accepted"
  using handle_run_conserves[OF assms(1,2), of env as] assms(3)
  by (auto simp: conserves_def sent_def)

text \<open>A filesystem with one open handle for writing, on a blob whose writes are buffered.\<close>

definition lazy_handle :: handle where
  "lazy_handle = \<lparr>hd_id = 1, hd_path = ''/a'', hd_mount = rw_blob\<lparr>me_ID := 1\<rparr>, hd_caller = anonymous,
     hd_flags = OpenWrite, hd_closed = False, hd_buf = [],
     hd_policy = \<lparr>bp_Mode = WriteBuffered, bp_MaxSize = 8, bp_MaxDelay = 5, bp_FlushOnNewline = True\<rparr>,
     hd_timer = TimerNil\<rparr>"

definition lazy_fs :: fs_state where
  "lazy_fs = (blob_fs rw_blob)\<lparr>fs_handles :=
     fst (hm_open (\<lambda>i. lazy_handle\<lparr>hd_id := i\<rparr>) (newHandleManager 4))\<rparr>"

lemma lazy_handle_of: "handle_of 1 lazy_fs = Some lazy_handle"
  by (simp add: handle_of_def lazy_fs_def hm_open_def hm_acquire_def newHandleManager_def hm_put_def lazy_handle_def)

lemma lazy_buffering: "buffering lazy_handle"
  by (simp add: buffering_def lazy_handle_def flag_Has_def rw_blob_def demo_entry_def)

lemma buffering_conserves_witness:
  "\<exists>h' tr. handle_of 1 (fst (fst (handle_run clock_env 1 [DoWrite ''ab'', DoFlush] (lazy_fs, 7)))) = Some h' \<and>
     write_trace clock_env 1 ''/a'' anonymous (lazy_fs, 7) tr
       (fst (handle_run clock_env 1 [DoWrite ''ab'', DoFlush] (lazy_fs, 7))) \<and>
     concat (map fst (filter snd tr)) @ hd_buf h' =
       snd (handle_run clock_env 1 [DoWrite ''ab'', DoFlush] (lazy_fs, 7))"
  using buffering_conserves[of 1 "(lazy_fs, 7)" lazy_handle clock_env "[DoWrite ''ab'', DoFlush]"]
    lazy_handle_of lazy_buffering
  by (simp add: lazy_handle_def)

section \<open>After a buffered write\<close>

lemma and_then_ok: "and_then x f = (s2, Ok u) \<longleftrightarrow> (\<exists>s1. x = (s1, Ok ()) \<and> f s1 = (s2, Ok u))"
  by (cases x) (auto simp: and_then_def split: res.splits)

lemma last_index_none: "last_index c xs = None \<longleftrightarrow> c \<notin> set xs"
  by (induction xs) (auto split: option.splits)

lemma last_index_some: "last_index c xs = Some k \<Longrightarrow> k < length xs \<and> xs ! k = c \<and> c \<notin> set (drop (Suc k) xs)"
  by (induction xs arbitrary: k) (auto simp: last_index_none split: option.splits if_splits)

lemma flushPrefix_ok:
  assumes h: "handle_of i (fst s) = Some h" and f: "flushPrefixLocked env i n s = (s1, Ok u)" and n: "0 < n"
  shows "\<exists>h1. handle_of i (fst s1) = Some h1 \<and> fixed_part h1 = fixed_part h \<and>
    hd_buf h1 = drop n (hd_buf h) \<and> (hd_buf h1 \<noteq> [] \<longrightarrow> hd_timer h1 = hd_timer h)"
proof -
  let ?h1 = "h\<lparr>hd_buf := drop n (hd_buf h)\<rparr>"
  from h f n obtain s0 where "fs_Write env (hd_path h) (take n (hd_buf h)) (hd_caller h) s = (s0, Ok ())"
    and "s1 = set_handle i (if hd_buf ?h1 = [] then stop_timer ?h1 else ?h1) s0"
    by (auto simp: flushPrefixLocked_def on_handle_some and_then_ok Let_def)
  then show ?thesis by (auto simp: fixed_part_def stop_timer_def)
qed

lemma flushAll_ok:
  assumes h: "handle_of i (fst s) = Some h" and f: "flushAllLocked env i s = (s1, Ok u)"
  shows "\<exists>h1. handle_of i (fst s1) = Some h1 \<and> fixed_part h1 = fixed_part h \<and> hd_buf h1 = []"
proof (cases "hd_buf h = []")
  case True
  with h f show ?thesis by (auto simp: flushAllLocked_def on_handle_some stop_timer_def fixed_part_def)
next
  case False
  then have "flushPrefixLocked env i (length (hd_buf h)) s = (s1, Ok u)"
    using h f by (simp add: flushAllLocked_def on_handle_some)
  from flushPrefix_ok[OF h this] False show ?thesis by auto
qed

definition max_buffer :: "handle \<Rightarrow> int" where
  "max_buffer h = (if bp_MaxSize (hd_policy h) \<le> 0 then 64 * 1024 else bp_MaxSize (hd_policy h))"

text \<open>What a buffered handle looks like between calls.\<close>

definition settled :: "handle \<Rightarrow> bool" where
  "settled h \<longleftrightarrow> int (length (hd_buf h)) < max_buffer h \<and>
     (bp_FlushOnNewline (hd_policy h) \<longrightarrow> CHR 0x0A \<notin> set (hd_buf h)) \<and>
     (hd_buf h \<noteq> [] \<and> 0 < bp_MaxDelay (hd_policy h) \<longrightarrow> hd_timer h \<noteq> TimerNil)"

lemma same_policy: "fixed_part h = fixed_part h' \<Longrightarrow> hd_policy h = hd_policy h'"
  by (simp add: fixed_part_def)

lemma flush_lines_settles:
  assumes "handle_of i (fst s) = Some h0" and "flush_lines env i s = (s1, Ok ())"
  obtains h1 where "handle_of i (fst s1) = Some h1" "fixed_part h1 = fixed_part h0"
    "bp_FlushOnNewline (hd_policy h1) \<longrightarrow> CHR 0x0A \<notin> set (hd_buf h1)"
proof (cases "bp_FlushOnNewline (hd_policy h0)")
  case False
  with assms that[of h0] show ?thesis by (auto simp: flush_lines_def on_handle_some)
next
  case True
  show ?thesis
  proof (cases "last_index (CHR 0x0A) (hd_buf h0)")
    case None
    have "s1 = s" using assms(2) unfolding flush_lines_def on_handle_some[OF assms(1)] using True None by simp
    with assms(1) None that[of h0] show ?thesis by (simp add: last_index_none)
  next
    case (Some k)
    then have "flushPrefixLocked env i (k + 1) s = (s1, Ok ())"
      using assms(2) unfolding flush_lines_def on_handle_some[OF assms(1)] using True by simp
    from flushPrefix_ok[OF assms(1) this] last_index_some[OF Some] that show ?thesis by auto
  qed
qed

lemma flush_full_settles:
  assumes "handle_of i (fst s) = Some h1" and "flush_full env i s = (s2, Ok ())"
  obtains h2 where "handle_of i (fst s2) = Some h2" "fixed_part h2 = fixed_part h1"
    "int (length (hd_buf h2)) < max_buffer h2" "set (hd_buf h2) \<subseteq> set (hd_buf h1)"
proof (cases "max_buffer h1 \<le> int (length (hd_buf h1))")
  case False
  with assms that[of h1] show ?thesis by (auto simp: flush_full_def on_handle_some max_buffer_def Let_def)
next
  case True
  then have "flushAllLocked env i s = (s2, Ok ())"
    using assms by (simp add: flush_full_def on_handle_some max_buffer_def Let_def)
  from flushAll_ok[OF assms(1) this] that show ?thesis by (auto simp: max_buffer_def)
qed

text \<open>
  A buffered write that returns normally leaves less in the buffer than its limit, no
  complete line when lines are flushed, and a timer that was started for what is left, when
  there is a delay.
\<close>

theorem buffered_write_settles:
  assumes "handle_of i (fst s) = Some h" and "buffering h" and "h_Write env i payload s = (s', Ok ())"
  shows "\<exists>h'. handle_of i (fst s') = Some h' \<and> settled h'"
proof -
  let ?s = "set_handle i (h\<lparr>hd_buf := hd_buf h @ payload\<rparr>) s"
  from assms obtain s1 s2 where w: "flush_lines env i ?s = (s1, Ok ())"
    "flush_full env i s1 = (s2, Ok ())" "arm_timer i s2 = (s', Ok ())"
    by (auto simp: h_Write_buffering write_buffered_def on_handle_some and_then_ok)
  have "handle_of i (fst ?s) = Some (h\<lparr>hd_buf := hd_buf h @ payload\<rparr>)" by simp
  from flush_lines_settles[OF this w(1)] obtain h1 where h1: "handle_of i (fst s1) = Some h1"
    "bp_FlushOnNewline (hd_policy h1) \<longrightarrow> CHR 0x0A \<notin> set (hd_buf h1)" by blast
  from flush_full_settles[OF h1(1) w(2)] obtain h2 where h2: "handle_of i (fst s2) = Some h2"
    "fixed_part h2 = fixed_part h1" "int (length (hd_buf h2)) < max_buffer h2" "set (hd_buf h2) \<subseteq> set (hd_buf h1)"
    by blast
  let ?h' = "if 0 < length (hd_buf h2) \<and> 0 < bp_MaxDelay (hd_policy h2) \<and> hd_timer h2 = TimerNil
    then h2\<lparr>hd_timer := TimerArmed\<rparr> else h2"
  have "handle_of i (fst s') = Some ?h'"
    using w(3) h2(1) by (auto simp: arm_timer_def on_handle_some split: if_splits)
  moreover have "settled ?h'"
    using h1(2) h2(3,4) same_policy[OF h2(2)] by (auto simp: settled_def max_buffer_def)
  ultimately show ?thesis by blast
qed

lemma buffered_write_settles_witness:
  "\<exists>h'. handle_of 1 (fst (fst (h_Write clock_env 1 ''ab'' (lazy_fs, 7)))) = Some h' \<and> settled h'"
proof -
  let ?o = "h_Write clock_env 1 ''ab'' (lazy_fs, 7 :: int)"
  have h: "handle_of 1 (fst (lazy_fs, 7 :: int)) = Some lazy_handle" by (simp add: lazy_handle_of)
  have "snd ?o = Ok ()"
    using h lazy_buffering
    by (simp add: h_Write_buffering write_buffered_def on_handle_some)
      (simp add: lazy_handle_def flush_lines_def flush_full_def arm_timer_def on_handle_some and_then_def)
  then have "?o = (fst ?o, Ok ())" by (metis prod.collapse)
  from buffered_write_settles[OF h lazy_buffering this] show ?thesis .
qed

text \<open>
  After a flush by the timer has failed, the timer stays in the handle although it has
  run, so that no later write starts a new one: what is in the buffer, and what further
  writes add to it, is not flushed after the delay any more.
\<close>

theorem failed_timer_never_rearms:
  assumes h: "handle_of i (fst s) = Some h" and b: "buffering h"
    and t: "hd_timer h = TimerArmed" "hd_buf h \<noteq> []"
    and f: "fs_Write env (hd_path h) (hd_buf h) (hd_caller h) (set_handle i (h\<lparr>hd_timer := TimerFired\<rparr>) s) = (s1, Fail e)"
    and p: "int (length (hd_buf h @ payload)) < max_buffer h"
      "bp_FlushOnNewline (hd_policy h) \<Longrightarrow> CHR 0x0A \<notin> set (hd_buf h @ payload)"
  shows "timer_fires env i s = (s1, Fail e) \<and>
    (\<exists>s2. h_Write env i payload s1 = (s2, Ok ()) \<and> timer_fires env i s2 = (s2, Ok ()) \<and>
       map_option hd_buf (handle_of i (fst s2)) = Some (hd_buf h @ payload))"
proof -
  let ?h1 = "h\<lparr>hd_timer := TimerFired\<rparr>"
  let ?h2 = "?h1\<lparr>hd_buf := hd_buf h @ payload\<rparr>"
  let ?s2 = "set_handle i ?h2 s1"
  have closed: "\<not> hd_closed h" using b by (simp add: buffering_def)
  have "timer_fires env i s = (s1, Fail e)"
    using h t closed f
    by (simp add: timer_fires_def h_Flush_def flushAllLocked_def flushPrefixLocked_def on_handle_some and_then_def)
  moreover have h1: "handle_of i (fst s1) = Some ?h1"
    using handle_of_write[of i env "hd_path h" "hd_buf h" "hd_caller h" "set_handle i ?h1 s"] f by simp
  moreover have "buffering ?h1" using b by (simp add: buffering_def)
  moreover have "flush_lines env i ?s2 = (?s2, Ok ())"
    using p(2) by (simp add: flush_lines_def on_handle_some last_index_none[THEN iffD2])
  moreover have "flush_full env i ?s2 = (?s2, Ok ())"
    using p(1) by (simp add: flush_full_def on_handle_some max_buffer_def Let_def split: if_splits)
  moreover have "arm_timer i ?s2 = (?s2, Ok ())" by (simp add: arm_timer_def on_handle_some)
  ultimately have "timer_fires env i s = (s1, Fail e)" "h_Write env i payload s1 = (?s2, Ok ())"
    by (simp_all add: h_Write_buffering write_buffered_def on_handle_some and_then_def)
  moreover have "timer_fires env i ?s2 = (?s2, Ok ())" by (simp add: timer_fires_def on_handle_some)
  ultimately show ?thesis by simp
qed

text \<open>Five buffered bytes, on a filesystem whose blobs hold four.\<close>

definition stuck_handle :: handle where
  "stuck_handle = lazy_handle\<lparr>hd_buf := ''abcde'', hd_timer := TimerArmed\<rparr>"

lemma failed_timer_never_rearms_witness:
  "\<exists>s1 e. timer_fires clock_env 1 (set_handle 1 stuck_handle (lazy_fs, 7 :: int)) = (s1, Fail e) \<and>
     (\<exists>s2. h_Write clock_env 1 ''f'' s1 = (s2, Ok ()) \<and> timer_fires clock_env 1 s2 = (s2, Ok ()) \<and>
       map_option hd_buf (handle_of 1 (fst s2)) = Some ''abcdef'')"
proof -
  let ?s = "set_handle 1 stuck_handle (lazy_fs, 7 :: int)"
  let ?t = "set_handle 1 (stuck_handle\<lparr>hd_timer := TimerFired\<rparr>) ?s"
  let ?w = "fs_Write clock_env (hd_path stuck_handle) (hd_buf stuck_handle) (hd_caller stuck_handle) ?t"
  have b: "buffering stuck_handle" using lazy_buffering by (simp add: buffering_def stuck_handle_def)
  have f: "hd_path stuck_handle = ''/a''" "hd_caller stuck_handle = anonymous" "hd_buf stuck_handle = ''abcde''"
    by (simp_all add: stuck_handle_def lazy_handle_def)
  have ro: "fs_router (fst ?t) = fs_router (blob_fs rw_blob)" "fs_cfg (fst ?t) = fs_cfg (blob_fs rw_blob)"
    by (simp_all add: set_handle_def lazy_fs_def)
  have a: "access_check OpWrite ''writable'' ''/a'' anonymous (fs_router (blob_fs rw_blob)) =
      Inr (rw_blob\<lparr>me_ID := 1\<rparr>, empty_params)" by (simp add: blob_fs_access)
  have k: "me_Kind (rw_blob\<lparr>me_ID := 1\<rparr>) = KindBlob" by (simp add: rw_blob_def demo_entry_def)
  have "g_MaxBlobSize (fs_cfg (blob_fs rw_blob)) = 4" by (simp add: blob_fs_def demo_fs_eval)
  then have "snd ?w = Fail (posix ENOSPC OpWrite ''/a'' None)"
    using a k ro unfolding access_check_Inr
    by (simp add: fs_Write_def write_body_def write_blob_step_def writeBlob_def a f)
  then have w: "?w = (fst ?w, Fail (posix ENOSPC OpWrite ''/a'' None))" by (metis prod.collapse)
  have p: "int (length (hd_buf stuck_handle @ ''f'')) < max_buffer stuck_handle"
    "CHR 0x0A \<notin> set (hd_buf stuck_handle @ ''f'')"
    by (simp_all add: stuck_handle_def lazy_handle_def max_buffer_def)
  have t: "hd_timer stuck_handle = TimerArmed" "hd_buf stuck_handle \<noteq> []" by (simp_all add: stuck_handle_def)
  have h: "handle_of 1 (fst ?s) = Some stuck_handle" by simp
  show ?thesis
    using failed_timer_never_rearms[OF h b t w p] unfolding f(3) append.simps by blast
qed

section \<open>Closing\<close>

text \<open>The parts of the state outside the handle objects.\<close>

definition outer_part where
  "outer_part fs = (hm_shards (fs_handles fs), hm_active (fs_handles fs), hm_max (fs_handles fs),
     fs_locks fs, fs_cleanup fs, fs_hooks_run fs)"

lemma outer_set_handle [simp]: "outer_part (fst (set_handle i h s)) = outer_part (fst s)"
  by (simp add: outer_part_def set_handle_def)

lemma outer_write [simp]: "outer_part (fst (fst (fs_Write env path p caller s))) = outer_part (fst s)"
  by (simp add: outer_part_def write_frame)

lemma flushAll_frame:
  "outer_part (fst (fst (flushAllLocked env i s))) = outer_part (fst s) \<and>
   (j \<noteq> i \<longrightarrow> handle_of j (fst (fst (flushAllLocked env i s))) = handle_of j (fst s))"
  by (auto simp: flushAllLocked_def flushPrefixLocked_def on_handle_def and_then_def Let_def
      split: option.splits res.splits)

lemma set_snapshot_drop:
  assumes ok: "handles_ok m"
  shows "set (hm_snapshot (hm_drop i m)) = set (hm_snapshot m) - {i}"
proof (cases "i \<in> set (hm_shards m ! shardOf i)")
  case True
  let ?xs = "hm_shards m" and ?k = "shardOf i"
  have k: "?k < length ?xs" using shard_of(1)[OF ok] .
  have other: "l = ?k" if "l < length ?xs" "i \<in> set (?xs ! l)" for l
    using ok that by (auto simp: handles_ok_def)
  have t: "i \<notin> set (concat (take ?k ?xs))"
  proof
    assume "i \<in> set (concat (take ?k ?xs))"
    then obtain n where "n < length (take ?k ?xs)" "i \<in> set (take ?k ?xs ! n)"
      by (auto simp only: set_concat UN_iff in_set_conv_nth[of _ "take ?k ?xs"])
    with other[of n] show False by simp
  qed
  have d: "i \<notin> set (concat (drop (Suc ?k) ?xs))"
  proof
    assume "i \<in> set (concat (drop (Suc ?k) ?xs))"
    then obtain n where "n < length ?xs - Suc ?k" "i \<in> set (?xs ! (Suc ?k + n))"
      by (auto simp only: set_concat UN_iff in_set_conv_nth[of _ "drop (Suc ?k) ?xs"] length_drop
          nth_drop Suc_leI[OF k])
    moreover from this have "Suc ?k + n < length ?xs" by linarith
    ultimately show False using other[of "Suc ?k + n"] by simp
  qed
  have "set (concat ?xs) = set (concat (take ?k ?xs)) \<union> set (?xs ! ?k) \<union> set (concat (drop (Suc ?k) ?xs))"
    by (subst id_take_nth_drop[OF k]) auto
  moreover have "set (concat (?xs[?k := removeAll i (?xs ! ?k)])) =
      set (concat (take ?k ?xs)) \<union> (set (?xs ! ?k) - {i}) \<union> set (concat (drop (Suc ?k) ?xs))"
    using upd_conv_take_nth_drop[OF k, of "removeAll i (?xs ! ?k)"] by auto
  ultimately have "set (concat (?xs[?k := removeAll i (?xs ! ?k)])) = set (concat ?xs) - {i}"
    using t d by auto
  with True show ?thesis by (simp add: hm_snapshot_def hm_drop_def)
next
  case False
  then have "i \<notin> set (hm_snapshot m)"
  proof -
    have "length (hm_shards m) = handleShardCount" using ok by (simp add: handles_ok_def)
    then have "shardOf i = l" if "l < length (hm_shards m)" "i \<in> set (hm_shards m ! l)" for l
      using ok that by (auto simp: handles_ok_def)
    with False show ?thesis
      by (auto simp only: hm_snapshot_def set_concat UN_iff in_set_conv_nth[of _ "hm_shards m"])
  qed
  with False show ?thesis by (simp add: hm_drop_def)
qed

lemma handles_ok_cong:
  "handles_ok m \<Longrightarrow> hm_shards m' = hm_shards m \<Longrightarrow> hm_active m' = hm_active m \<Longrightarrow> hm_max m' = hm_max m \<Longrightarrow>
   handles_ok m'"
  by (cases m; cases m') (auto simp: handles_ok_def hm_snapshot_def)

lemma snapshot_distinct:
  assumes ok: "handles_ok m"
  shows "distinct (hm_snapshot m)"
proof -
  have len: "length (hm_shards m) = handleShardCount" using ok by (simp add: handles_ok_def)
  have "distinct (concat xss)"
    if "\<forall>k<length xss. distinct (xss ! k) \<and> (\<forall>i\<in>set (xss ! k). shardOf i = k + n)" for xss n
    using that
  proof (induction xss arbitrary: n)
    case (Cons xs xss)
    have 0: "distinct xs" "\<forall>i\<in>set xs. shardOf i = n" using Cons.prems[rule_format, of 0] by auto
    have S: "\<forall>k<length xss. distinct (xss ! k) \<and> (\<forall>i\<in>set (xss ! k). shardOf i = k + Suc n)"
      using Cons.prems by fastforce
    have "shardOf i \<noteq> n" if "i \<in> set (concat xss)" for i
    proof -
      from that obtain k where "k < length xss" "i \<in> set (xss ! k)"
        by (auto simp only: set_concat UN_iff in_set_conv_nth[of _ xss])
      with S have "shardOf i = k + Suc n" by blast
      then show ?thesis by simp
    qed
    with 0 Cons.IH[OF S] show ?case by auto
  qed simp
  from this[of "hm_shards m" 0] ok len show ?thesis by (simp add: hm_snapshot_def handles_ok_def)
qed

text \<open>A close that has returned: the object is closed, its lock and its place are free, and
  nothing else has changed but what the flush wrote.\<close>

lemma close_result:
  assumes h: "handle_of i (fst s) = Some h" and "\<not> hd_closed h" and ok: "handles_ok (fs_handles (fst s))"
    and c: "h_Close env i s = (s', r)" and r: "r = Ok () \<or> r = Fail e"
  obtains h' where "handle_of i (fst s') = Some h'" and "hd_closed h'" and "hd_path h' = hd_path h"
    and "r = Ok () \<Longrightarrow> hd_buf h' = []" and "r = Fail e \<Longrightarrow> hd_buf h' = hd_buf h"
    and "handles_ok (fs_handles (fst s'))"
    and "set (hm_snapshot (fs_handles (fst s'))) = set (hm_snapshot (fs_handles (fst s))) - {i}"
    and "lm_kind (fs_locks (fst s')) (unat i) = LockNone"
    and "\<And>j. j \<noteq> i \<Longrightarrow> handle_of j (fst s') = handle_of j (fst s)"
    and "fs_cleanup (fst s') = fs_cleanup (fst s)" and "fs_hooks_run (fst s') = fs_hooks_run (fst s)"
    and "hm_max (fs_handles (fst s')) = hm_max (fs_handles (fst s))"
proof -
  let ?s0 = "set_handle i (h\<lparr>hd_closed := True\<rparr>) s"
  have h0: "handle_of i (fst ?s0) = Some (h\<lparr>hd_closed := True\<rparr>)" by simp
  obtain s1 where fl: "flushAllLocked env i ?s0 = (s1, r)" and s': "s' = close_rest i (hd_path h) s1"
    using c assms(1,2) r by (auto simp: h_Close_def on_handle_some split: prod.splits res.splits)
  note fr = flushAll_frame[of env i ?s0, unfolded fl fst_conv]
  obtain h1 where h1: "handle_of i (fst s1) = Some h1" "fixed_part h1 = fixed_part (h\<lparr>hd_closed := True\<rparr>)"
    using conserves_handle[OF flushAll_conserves[OF h0, of env]] fl by auto
  have buf_ok: "hd_buf h1 = []" if "r = Ok ()"
    using flushAll_ok[OF h0] fl h1 that by fastforce
  have buf_err: "hd_buf h1 = hd_buf h" if "r = Fail e"
  proof -
    have "s1 = fst (fs_Write env (hd_path h) (hd_buf h) (hd_caller h) ?s0)"
      using fl that h0 by (auto simp: flushAllLocked_def flushPrefixLocked_def on_handle_some and_then_def
        split: if_splits res.splits)
    then have "handle_of i (fst s1) = Some (h\<lparr>hd_closed := True\<rparr>)" by simp
    then have "h1 = h\<lparr>hd_closed := True\<rparr>" using h1(1) by simp
    then show ?thesis by simp
  qed
  let ?m1 = "fs_handles (fst s1)"
  have same: "hm_shards ?m1 = hm_shards (fs_handles (fst s))" "hm_active ?m1 = hm_active (fs_handles (fst s))"
    "hm_max ?m1 = hm_max (fs_handles (fst s))" "fs_cleanup (fst s1) = fs_cleanup (fst s)"
    "fs_hooks_run (fst s1) = fs_hooks_run (fst s)"
    using fr by (auto simp: outer_part_def set_handle_def)
  have ok1: "handles_ok ?m1" by (rule handles_ok_cong[OF ok same(1-3)])
  have ok2: "handles_ok (?m1\<lparr>hm_objects := x\<rparr>)" for x
    by (rule handles_ok_cong[OF ok1]) simp_all
  have obj: "map_of (hm_objects (hm_drop j m)) k = map_of (hm_objects m) k" for j k m
    by (simp add: hm_drop_def)
  define m where "m = fs_handles (fst (set_handle i (stop_timer h1) s1))"
  have m: "m = ?m1\<lparr>hm_objects := mput i (stop_timer h1) (hm_objects ?m1)\<rparr>"
    by (simp add: m_def set_handle_def)
  have fields: "fs_handles (fst s') = hm_drop i m" "fs_cleanup (fst s') = fs_cleanup (fst s1)"
    "fs_hooks_run (fst s') = fs_hooks_run (fst s1)"
    "lm_kind (fs_locks (fst s')) (unat i) = LockNone"
    using h1(1) by (auto simp: s' close_rest_def m_def drop_handle_def with_locks_def Let_def set_handle_def
      lock_release_def set_kind_def set_cell_def split: option.splits)
  show thesis
  proof (rule that[of "stop_timer h1"])
    show "handle_of i (fst s') = Some (stop_timer h1)"
      by (simp add: handle_of_def fields obj m)
    show "hd_closed (stop_timer h1)" "hd_path (stop_timer h1) = hd_path h"
      using h1(2) by (simp_all add: stop_timer_def fixed_part_def)
    show "r = Ok () \<Longrightarrow> hd_buf (stop_timer h1) = []" "r = Fail e \<Longrightarrow> hd_buf (stop_timer h1) = hd_buf h"
      using buf_ok buf_err by (simp_all add: stop_timer_def)
    show "handles_ok (fs_handles (fst s'))" unfolding fields m by (rule handles_ok_drop[OF ok2])
    show "set (hm_snapshot (fs_handles (fst s'))) = set (hm_snapshot (fs_handles (fst s))) - {i}"
      unfolding fields m set_snapshot_drop[OF ok2] using same by (simp add: hm_snapshot_def)
    show "\<And>j. j \<noteq> i \<Longrightarrow> handle_of j (fst s') = handle_of j (fst s)"
      using fr by (simp add: handle_of_def fields obj m set_handle_def)
    show "lm_kind (fs_locks (fst s')) (unat i) = LockNone" by (rule fields(4))
    show "fs_cleanup (fst s') = fs_cleanup (fst s)" "fs_hooks_run (fst s') = fs_hooks_run (fst s)"
      using fields same by simp_all
    show "hm_max (fs_handles (fst s')) = hm_max (fs_handles (fst s))"
      using same by (simp add: fields m hm_drop_def)
  qed
qed

text \<open>
  C12: a handle whose close has returned, with success or with the error of the flush, has no
  entry in the table and no lock, and every later method on it is refused with EBUSY and
  changes nothing. When the flush failed, the buffered bytes stay in the dead handle and are
  never written.
\<close>

theorem closed_handle_is_dead:
  assumes "handle_of i (fst s) = Some h" and "\<not> hd_closed h" and "handles_ok (fs_handles (fst s))"
    and "h_Close env i s = (s', r)" and "r = Ok () \<or> r = Fail e"
  shows "hm_get i (fs_handles (fst s')) = None \<and> lm_kind (fs_locks (fst s')) (unat i) = LockNone \<and>
    (r = Fail e \<longrightarrow> map_option hd_buf (handle_of i (fst s')) = Some (hd_buf h)) \<and>
    h_ReadAll env i s' = (s', Fail (posix EBUSY OpRead (hd_path h) None)) \<and>
    h_Write env i payload s' = (s', Fail (posix EBUSY OpWrite (hd_path h) None)) \<and>
    h_Flush env i s' = (s', Fail (posix EBUSY OpWrite (hd_path h) None)) \<and>
    h_Flock i kind nonblock s' = (s', Fail (posix EBUSY OpWrite (hd_path h) None)) \<and>
    h_Funlock i s' = (s', Fail (posix EBUSY OpWrite (hd_path h) None)) \<and>
    h_Close env i s' = (s', Fail (posix EBUSY OpNone (hd_path h) None))"
proof -
  obtain h' where h': "handle_of i (fst s') = Some h'" "hd_closed h'" "hd_path h' = hd_path h"
    "r = Fail e \<Longrightarrow> hd_buf h' = hd_buf h" "handles_ok (fs_handles (fst s'))"
    "set (hm_snapshot (fs_handles (fst s'))) = set (hm_snapshot (fs_handles (fst s))) - {i}"
    "lm_kind (fs_locks (fst s')) (unat i) = LockNone"
    by (rule close_result[OF assms]) (rule that)
  have "i \<notin> set (hm_shards (fs_handles (fst s')) ! shardOf i)"
  proof
    assume "i \<in> set (hm_shards (fs_handles (fst s')) ! shardOf i)"
    then have "i \<in> set (hm_snapshot (fs_handles (fst s')))"
      using shard_of(1)[OF h'(5), of i] by (auto simp: hm_snapshot_def)
    with h'(6) show False by simp
  qed
  then have "hm_get i (fs_handles (fst s')) = None" by (simp add: hm_get_def)
  with h' show ?thesis
    by (simp add: h_ReadAll_def h_Write_def h_Flush_def h_Flock_def h_Funlock_def h_Close_def on_handle_some)
qed

lemma closed_handle_is_dead_witness:
  "let s' = fst (h_Close clock_env 1 (lazy_fs, 7 :: int))
   in h_Write clock_env 1 ''x'' s' = (s', Fail (posix EBUSY OpWrite ''/a'' None))"
proof -
  let ?o = "h_Close clock_env 1 (lazy_fs, 7 :: int)"
  have h: "handle_of 1 (fst (lazy_fs, 7 :: int)) = Some lazy_handle" by (simp add: lazy_handle_of)
  have o: "\<not> hd_closed lazy_handle" by (simp add: lazy_handle_def)
  have "hm_seq (newHandleManager 4) + 1 \<notin>
      set (hm_shards (newHandleManager 4) ! shardOf (hm_seq (newHandleManager 4) + 1))"
    using shardOf_lt by (simp add: newHandleManager_def)
  then have ok: "handles_ok (fs_handles (fst (lazy_fs, 7 :: int)))"
    using handles_ok_open[OF handles_ok_new, of "\<lambda>i. lazy_handle\<lparr>hd_id := i\<rparr>" 4] by (simp add: lazy_fs_def)
  have "hd_buf (lazy_handle\<lparr>hd_closed := True\<rparr>) = []" by (simp add: lazy_handle_def)
  then have "snd ?o = Ok ()"
    using h o by (simp add: h_Close_def flushAllLocked_def on_handle_some)
  then have c: "?o = (fst ?o, Ok ())" by (metis prod.collapse)
  have p: "hd_path lazy_handle = ''/a''" by (simp add: lazy_handle_def)
  show ?thesis
    using closed_handle_is_dead[OF h o ok c, of undefined "''x''"] p by (simp add: Let_def)
qed

section \<open>Shutdown\<close>

lemma close_each_result:
  assumes "close_each env ctx is s = (s', Ok ())" and "handles_ok (fs_handles (fst s))" and "distinct is"
    and "\<And>i. i \<in> set is \<Longrightarrow> \<exists>h. handle_of i (fst s) = Some h \<and> \<not> hd_closed h"
  shows "handles_ok (fs_handles (fst s')) \<and>
    set (hm_snapshot (fs_handles (fst s'))) = set (hm_snapshot (fs_handles (fst s))) - set is \<and>
    (\<forall>i\<in>set is. \<exists>h. handle_of i (fst s') = Some h \<and> hd_closed h) \<and>
    (\<forall>j. j \<notin> set is \<longrightarrow> handle_of j (fst s') = handle_of j (fst s)) \<and>
    fs_cleanup (fst s') = fs_cleanup (fst s) \<and> fs_hooks_run (fst s') = fs_hooks_run (fst s) \<and>
    hm_max (fs_handles (fst s')) = hm_max (fs_handles (fst s))"
  using assms
proof (induction "is" arbitrary: s)
  case Nil
  then show ?case by simp
next
  case (Cons i "is")
  obtain h where h: "handle_of i (fst s) = Some h" "\<not> hd_closed h" using Cons.prems(4)[of i] by auto
  obtain s1 r where c: "h_Close env i s = (s1, r)" by fastforce
  from Cons.prems(1) c obtain e where r: "r = Ok () \<or> r = Fail e" and rest: "close_each env ctx is s1 = (s', Ok ())"
    by (cases r) (auto split: option.splits)
  obtain h' where h': "handle_of i (fst s1) = Some h'" "hd_closed h'" "handles_ok (fs_handles (fst s1))"
    "set (hm_snapshot (fs_handles (fst s1))) = set (hm_snapshot (fs_handles (fst s))) - {i}"
    "\<And>j. j \<noteq> i \<Longrightarrow> handle_of j (fst s1) = handle_of j (fst s)"
    "fs_cleanup (fst s1) = fs_cleanup (fst s)" "fs_hooks_run (fst s1) = fs_hooks_run (fst s)"
    "hm_max (fs_handles (fst s1)) = hm_max (fs_handles (fst s))"
    by (rule close_result[OF h Cons.prems(2) c r]) (rule that)
  have "\<exists>h. handle_of j (fst s1) = Some h \<and> \<not> hd_closed h" if "j \<in> set is" for j
    using Cons.prems(3,4) that h'(5)[of j] by fastforce
  from Cons.IH[OF rest h'(3) _ this] Cons.prems(3) h' show ?case by auto
qed

text \<open>
  C13: a shutdown that succeeds leaves an empty handle table with no active handle, every
  handle that was open closed, every stream closed, no listener, and has run the hooks, each
  once, the last registered first.
\<close>

theorem shutdown_complete:
  assumes "Shutdown env ctx s = (s', Ok ())" and "handles_ok (fs_handles (fst s))"
    and "\<And>i. i \<in> set (hm_snapshot (fs_handles (fst s))) \<Longrightarrow>
      \<exists>h. handle_of i (fst s) = Some h \<and> \<not> hd_closed h"
  shows "hm_snapshot (fs_handles (fst s')) = [] \<and>
    (0 < hm_max (fs_handles (fst s)) \<longrightarrow> hm_active (fs_handles (fst s')) = 0) \<and>
    (\<forall>i\<in>set (hm_snapshot (fs_handles (fst s))). \<exists>h. handle_of i (fst s') = Some h \<and> hd_closed h) \<and>
    (\<forall>b\<in>set (map snd (fs_streams (fst s'))). sb_closed b) \<and> eb_subs (fs_events (fst s')) = [] \<and>
    fs_cleanup (fst s') = [] \<and>
    fs_hooks_run (fst s') = fs_hooks_run (fst s) @ rev (fs_cleanup (fst s))"
proof -
  from assms(1) obtain s1 where c: "close_each env ctx (hm_snapshot (fs_handles (fst s))) s = (s1, Ok ())"
    and s': "s' = (runCleanup ((fst s1)\<lparr>fs_streams := sm_closeAll (fs_streams (fst s1)),
        fs_events := clear (fs_events (fst s1))\<rparr>), snd s1)"
    by (auto simp: Shutdown_def and_then_ok)
  note r = close_each_result[OF c assms(2) snapshot_distinct[OF assms(2)] assms(3)]
  then have "hm_snapshot (fs_handles (fst s1)) = []" by auto
  moreover from this r have "0 < hm_max (fs_handles (fst s)) \<longrightarrow> hm_active (fs_handles (fst s1)) = 0"
    by (simp add: handles_ok_def)
  ultimately show ?thesis
    using r by (auto simp: s' runCleanup_def handle_of_def sm_closeAll_def sb_close_def clear_def)
qed

definition hooked_fs :: fs_state where
  "hooked_fs = OnShutdown 2 (OnShutdown 1 lazy_fs)"

lemma hooked_handles: "fs_handles hooked_fs = fs_handles lazy_fs"
  by (simp add: hooked_fs_def OnShutdown_def)

lemma lazy_ok: "handles_ok (fs_handles lazy_fs)"
proof -
  have "hm_seq (newHandleManager 4) + 1 \<notin>
      set (hm_shards (newHandleManager 4) ! shardOf (hm_seq (newHandleManager 4) + 1))"
    using shardOf_lt by (simp add: newHandleManager_def)
  then show ?thesis
    using handles_ok_open[OF handles_ok_new, of "\<lambda>i. lazy_handle\<lparr>hd_id := i\<rparr>" 4] by (simp add: lazy_fs_def)
qed

lemma lazy_snapshot: "hm_snapshot (fs_handles lazy_fs) = [1]"
proof -
  have ev: "hm_active (fs_handles lazy_fs) = 1" "hm_max (fs_handles lazy_fs) = 4"
    "1 \<in> set (hm_shards (fs_handles lazy_fs) ! shardOf 1)"
    using shardOf_lt[of 1]
    by (simp_all add: lazy_fs_def hm_open_def hm_acquire_def newHandleManager_def hm_put_def lazy_handle_def)
  then have "1 \<in> set (hm_snapshot (fs_handles lazy_fs))"
    using shard_of(1)[OF lazy_ok, of 1] by (auto simp: hm_snapshot_def)
  moreover have "length (hm_snapshot (fs_handles lazy_fs)) = 1" using lazy_ok ev by (simp add: handles_ok_def)
  ultimately show ?thesis by (auto simp: length_Suc_conv)
qed

lemma shutdown_complete_witness:
  "fs_hooks_run (fst (fst (Shutdown clock_env (\<lambda>w. None) (hooked_fs, 7)))) = [2, 1]"
proof -
  let ?s = "(hooked_fs, 7 :: int)"
  let ?o = "Shutdown clock_env (\<lambda>w. None) ?s"
  have snap: "hm_snapshot (fs_handles (fst ?s)) = [1]" using lazy_snapshot by (simp add: hooked_handles)
  have h: "handle_of 1 (fst ?s) = Some lazy_handle"
    using lazy_handle_of by (simp add: handle_of_def hooked_handles)
  have o: "\<not> hd_closed lazy_handle" "hd_buf lazy_handle = []" by (simp_all add: lazy_handle_def)
  have "snd (h_Close clock_env 1 ?s) = Ok ()"
    using h o by (simp add: h_Close_def flushAllLocked_def on_handle_some)
  then obtain s1 where "h_Close clock_env 1 ?s = (s1, Ok ())" by (metis prod.collapse)
  then have "snd ?o = Ok ()" unfolding Shutdown_def snap by (simp add: and_then_def)
  then have sh: "?o = (fst ?o, Ok ())" by (metis prod.collapse)
  have ok: "handles_ok (fs_handles (fst ?s))" using lazy_ok by (simp add: hooked_handles)
  have opn: "\<exists>h. handle_of i (fst ?s) = Some h \<and> \<not> hd_closed h"
    if "i \<in> set (hm_snapshot (fs_handles (fst ?s)))" for i
    using that snap h o by simp
  have "fs_cleanup hooked_fs = [1, 2]" "fs_hooks_run hooked_fs = []"
    by (simp_all add: hooked_fs_def OnShutdown_def lazy_fs_def blob_fs_def demo_fs_eval)
  then show ?thesis using shutdown_complete[OF sh ok opn] by simp
qed

section \<open>Opening\<close>

definition some_access :: "u32 \<Rightarrow> bool" where
  "some_access flags \<longleftrightarrow> flag_Has flags OpenRead \<or> flag_Has flags OpenWrite \<or> flag_Has flags OpenAppend"

text \<open>
  An open that succeeds was of a mount in the caller's namespace whose mode allows every
  kind of access asked for, and it returns a new handle with the path, the caller and the
  buffer policy of the mount. An open of an intermediate directory, a path that matches and
  carries no mount, does not return an error: it dereferences the missing mount and panics,
  and this is the only way it can.
\<close>

theorem open_outcome:
  "(snd (fs_Open path flags caller fs) = Crash \<longleftrightarrow>
      some_access flags \<and> (\<exists>ps. router_match (fs_router fs) path = Inr \<lparr>rm_mount = None, rm_params = ps\<rparr>)) \<and>
   (snd (fs_Open path flags caller fs) = Ok i \<longrightarrow>
      (\<exists>m ps h. router_match (fs_router fs) path = Inr \<lparr>rm_mount = Some m, rm_params = ps\<rparr> \<and>
         canAccessNamespace caller (Some m) \<and> some_access flags \<and>
         (flag_Has flags OpenRead \<longrightarrow> canAccess caller (me_UID m) (me_GID m) (me_Mode m) OpRead) \<and>
         (flag_Has flags OpenWrite \<or> flag_Has flags OpenAppend \<longrightarrow>
            canAccess caller (me_UID m) (me_GID m) (me_Mode m) OpWrite) \<and>
         handle_of i (fst (fs_Open path flags caller fs)) = Some h \<and> hd_id h = i \<and> hd_path h = path \<and>
         hd_caller h = caller \<and> hd_flags h = flags \<and> hd_buf h = [] \<and> \<not> hd_closed h \<and>
         (\<forall>p. me_BufferPolicy m = Some p \<longrightarrow> hd_policy h = p)))"
proof (cases "some_access flags")
  case False
  then show ?thesis by (simp add: fs_Open_def some_access_def)
next
  case True
  note acc = this
  show ?thesis
  proof (cases "router_match (fs_router fs) path")
    case (Inl e)
    with acc show ?thesis by (simp add: fs_Open_def some_access_def)
  next
    case (Inr rm)
    have rm: "rm = \<lparr>rm_mount = rm_mount rm, rm_params = rm_params rm\<rparr>" by simp
    show ?thesis
    proof (cases "rm_mount rm")
      case None
      with Inr acc rm show ?thesis
        by (auto simp: fs_Open_def some_access_def canAccessNamespace_def intro!: exI[of _ "rm_params rm"])
    next
      case (Some m)
      let ?mk = "\<lambda>i. \<lparr>hd_id = i, hd_path = path, hd_mount = m, hd_caller = caller, hd_flags = flags,
        hd_closed = False, hd_buf = [],
        hd_policy = (case me_BufferPolicy m of None \<Rightarrow> zero_policy | Some p \<Rightarrow> p), hd_timer = TimerNil\<rparr>"
      obtain m1 r where o: "hm_open ?mk (fs_handles fs) = (m1, r)" by fastforce
      have got: "r = Inr j \<Longrightarrow> map_of (hm_objects m1) j = Some (?mk j)" for j
        using o by (auto simp: hm_open_def hm_put_def split: prod.splits sum.splits)
      show ?thesis
        using Inr Some acc got
        by (cases rm; cases r) (auto simp: fs_Open_def some_access_def Let_def handle_of_def o)
    qed
  qed
qed

lemma open_outcome_witness:
  "\<exists>h. handle_of 1 (fst (fs_Open ''/a'' OpenRead anonymous (blob_fs rw_blob))) = Some h \<and> hd_path h = ''/a''"
proof -
  have r: "router_match (fs_router (blob_fs rw_blob)) ''/a'' =
      Inr \<lparr>rm_mount = Some (rw_blob\<lparr>me_ID := 1\<rparr>), rm_params = empty_params\<rparr>" by (rule blob_fs_match)
  have "access_check OpRead ''readable'' ''/a'' anonymous (fs_router (blob_fs rw_blob)) =
      Inr (rw_blob\<lparr>me_ID := 1\<rparr>, empty_params)" by (simp add: blob_fs_access)
  then have "snd (fs_Open ''/a'' OpenRead anonymous (blob_fs rw_blob)) = Ok 1"
    using r unfolding access_check_Inr
    by (simp add: fs_Open_def flag_Has_def hm_open_def hm_acquire_def blob_fs_def demo_fs_eval newHandleManager_def)
  then show ?thesis using open_outcome[of "''/a''" OpenRead anonymous "blob_fs rw_blob" 1] by blast
qed

end
