(* ===== verification/ErrorProps.thy ===== *)
theory ErrorProps
  imports Handles Namespace
begin

text \<open>
  Every error of the filesystem's operations is a PosixError, as core/errors.go says of the
  type. One lemma per operation, from the router up.
\<close>

definition posix_err :: "go_error \<Rightarrow> bool" where
  "posix_err e \<longleftrightarrow> (\<exists>c o1 p x. e = posix c o1 p x)"

lemma posix_err_posix [simp]: "posix_err (posix c o1 p x)"
  unfolding posix_err_def by blast

lemma posix_err_code: "posix_err e \<Longrightarrow> as_posix e \<noteq> None"
  by (auto simp: posix_err_def)

lemma posix_err_text: "posix_err e \<Longrightarrow> error_text e \<noteq> []"
proof -
  assume "posix_err e"
  then obtain c o1 p x where "e = posix c o1 p x" by (auto simp: posix_err_def)
  then show ?thesis by (cases x) (simp_all add: posix_def)
qed

named_theorems errs "errors that are POSIX errors"

section \<open>The parts\<close>

lemma err_cleanParts [errs]: "cleanParts p = Inl e \<Longrightarrow> posix_err e"
  by (auto simp: cleanParts_def einval_path_def Let_def split: if_splits)

lemma err_match [errs]: "router_match r p = Inl e \<Longrightarrow> posix_err e"
  by (auto simp: router_match_def einval_path_def split: if_splits sum.splits prod.splits)

lemma err_node [errs]: "router_node r p = Inl e \<Longrightarrow> posix_err e"
  by (auto simp: router_node_def einval_path_def split: if_splits sum.splits prod.splits)

lemma err_list [errs]: "router_list r p = Inl e \<Longrightarrow> posix_err e"
  by (auto simp: router_list_def errs split: if_splits sum.splits)

lemma err_add [errs]: "router_add r m = (r', Inl e) \<Longrightarrow> posix_err e"
  by (auto simp: router_add_def errs Let_def split: sum.splits prod.splits option.splits)

lemma err_remove [errs]: "router_remove r p = (r', Inl e) \<Longrightarrow> posix_err e"
  by (auto simp: router_remove_def errs Let_def split: sum.splits prod.splits option.splits)

lemma err_normalize [errs]: "normalizePath p = Inl e \<Longrightarrow> posix_err e"
  by (auto simp: normalizePath_def split: if_splits)

lemma err_skill_file [errs]: "ReadSkillFile n g = Inl e \<Longrightarrow> posix_err e"
  by (auto simp: ReadSkillFile_def split: if_splits option.splits)

lemma err_skill_remove [errs]: "skill_Remove n g = (g', Some e) \<Longrightarrow> posix_err e"
  by (auto simp: skill_Remove_def split: if_splits)

lemma err_access [errs]: "access_check o1 what p c r = Inl e \<Longrightarrow> posix_err e"
  by (auto simp: access_check_def errs split: sum.splits option.splits if_splits)

lemma err_mapped [simp]: "posix_err (the (MapProviderError (Some e) o1 p))"
  by (simp add: MapProviderError_def split: option.splits)

lemma err_invoke [errs]: "fs_invoke env cap o1 p ps payload c s = (s', Inl e) \<Longrightarrow> posix_err e"
  by (auto simp: fs_invoke_def invokeProvider_def errs Let_def split: sum.splits prod.splits option.splits if_splits)

lemma err_providerFor [errs]: "fs_providerFor env m o1 p s = (s', Inl e) \<Longrightarrow> posix_err e"
  by (auto simp: fs_providerFor_def providerFor_def Let_def split: prod.splits option.splits if_splits)

lemma err_sb_read [errs]: "sb_read b n nonblock = Return (b', Inl e) \<Longrightarrow> posix_err e"
  by (auto simp: sb_read_def Let_def split: if_splits prod.splits)

lemma err_sb_write [errs]: "sb_write b p nonblock = Return (b', Inl e) \<Longrightarrow> posix_err e"
  by (auto simp: sb_write_def Let_def split: if_splits backpressure.splits)

lemma err_chunk_loop [errs]: "chunk_loop nonblock p b = (b', ChunkErr e) \<Longrightarrow> posix_err e"
proof (induction nonblock p b rule: chunk_loop.induct)
  case (1 nonblock p b)
  from "1.prems" show ?case
    by (subst (asm) chunk_loop.simps)
      (auto split: if_splits go.splits sum.splits prod.splits dest: "1.IH" err_sb_write)
qed

lemma err_stream_read [errs]: "stream_read p cfg n nonblock s = (s', Fail e) \<Longrightarrow> posix_err e"
  by (auto simp: stream_read_def Let_def split: prod.splits go.splits sum.splits dest: errs)

lemma err_stream_write [errs]: "stream_write p cfg nonblock payload s = (s', Fail e) \<Longrightarrow> posix_err e"
  by (auto simp: stream_write_def Let_def split: prod.splits chunk_end.splits dest: errs)

lemma err_writeBlob [errs]: "writeBlob now p payload c fs = (fs', Fail e) \<Longrightarrow> posix_err e"
  by (auto simp: writeBlob_def split: sum.splits option.splits if_splits dest: errs)

lemma err_write_api [errs]: "write_api env p payload c m ps s = (s', Fail e) \<Longrightarrow> posix_err e"
  by (auto simp: write_api_def Let_def split: prod.splits sum.splits option.splits if_splits dest: errs)

lemma err_read_api [errs]: "read_api env p c m ps s = (s', Fail e) \<Longrightarrow> posix_err e"
  by (auto simp: read_api_def Let_def split: prod.splits sum.splits option.splits if_splits dest: errs)

section \<open>The operations\<close>

lemma finish_Fail:
  "finish env o1 name p c t0 out = (s', Fail e) \<Longrightarrow> \<exists>s1. out = (s1, Fail e)"
  by (cases out) (auto simp: finish_def Let_def split: prod.splits res.splits)

lemma err_Write [errs]: "fs_Write env p payload c s = (s', Fail e) \<Longrightarrow> posix_err e"
  by (auto simp: fs_Write_def write_body_def write_blob_step_def dest!: finish_Fail
      split: sum.splits node_kind.splits prod.splits res.splits dest: errs)

lemma err_Read [errs]: "fs_Read env p c s = (s', Fail e) \<Longrightarrow> posix_err e"
  by (auto simp: fs_Read_def read_body_def dest!: finish_Fail
      split: if_splits sum.splits node_kind.splits prod.splits res.splits option.splits dest: errs)

lemma err_Stat [errs]: "fs_Stat env p c s = (s', Fail e) \<Longrightarrow> posix_err e"
  by (auto simp: fs_Stat_def stat_body_def stat_router_def dest!: finish_Fail
      split: if_splits sum.splits option.splits dest: errs)

lemma err_Readdir [errs]: "fs_Readdir env p c s = (s', Fail e) \<Longrightarrow> posix_err e"
  by (auto simp: fs_Readdir_def readdir_body_def readdir_router_def readdir_match_def Let_def dest!: finish_Fail
      split: if_splits sum.splits option.splits prod.splits dest: errs)

lemma err_Unmount [errs]: "fs_Unmount env w p fs = (fs', Some e) \<Longrightarrow> posix_err e"
  by (auto simp: fs_Unmount_def unmount_body_def unmountLocked_def Let_def
      split: sum.splits prod.splits option.splits if_splits dest: errs)

lemma err_Rename [errs]: "fs_Rename env w p q fs = (fs', Some e) \<Longrightarrow> posix_err e"
  by (auto simp: fs_Rename_def rename_body_def renameLocked_def Let_def
      split: sum.splits prod.splits option.splits if_splits dest: errs)

lemma err_RegisterProvider [errs]: "RegisterProvider p fs = (fs', Some e) \<Longrightarrow> posix_err e"
  by (auto simp: RegisterProvider_def split: option.splits if_splits)

lemma err_validateSkill [errs]: "validateSkillConfig cfg = Some e \<Longrightarrow> posix_err e"
  by (auto simp: validateSkillConfig_def Let_def split: if_splits)

lemma err_agents_file [errs]: "ReadAgentsFile n g = Inl e \<Longrightarrow> posix_err e"
  by (auto simp: ReadAgentsFile_def split: if_splits option.splits)

lemma err_root_file [errs]: "mount_root_file p d fs = (fs', Some e) \<Longrightarrow> d = Inl e \<or> posix_err e"
  by (auto simp: mount_root_file_def split: sum.splits prod.splits dest: errs)

lemma err_SkillAtRoot [errs]: "MountSkillAtRoot cfg fs = (fs', Some e) \<Longrightarrow> posix_err e"
  by (auto simp: MountSkillAtRoot_def split: if_splits prod.splits option.splits dest!: err_root_file dest: errs)

lemma err_UnmountSkillAtRoot [errs]: "UnmountSkillAtRoot fs = (fs', Some e) \<Longrightarrow> posix_err e"
  by (auto simp: UnmountSkillAtRoot_def Let_def split: sum.splits prod.splits dest: errs)

lemma err_add_all [errs]: "add_all es r = (r', Some e) \<Longrightarrow> posix_err e"
  by (induction es r rule: add_all.induct) (auto split: sum.splits prod.splits dest: errs)

lemma err_Restore [errs]: "fs_Restore es fs = (fs', Some e) \<Longrightarrow> posix_err e"
  by (auto simp: fs_Restore_def router_Restore_def Let_def split: prod.splits dest: errs)

lemma err_ReadLink [errs]: "ReadLink fs p = Fail e \<Longrightarrow> posix_err e"
  by (auto simp: ReadLink_def split: sum.splits option.splits if_splits dest: errs)

lemma err_follow_loop [errs]: "follow_loop n fs p = Fail e \<Longrightarrow> posix_err e"
  by (induction n fs p rule: follow_loop.induct) (auto split: res.splits if_splits dest: errs)

lemma err_FollowLink [errs]: "FollowLink fs p = Fail e \<Longrightarrow> posix_err e"
  by (auto simp: FollowLink_def dest: errs)

lemma err_acquire_start [errs]: "acquire_start p i k m = (m', Inl e) \<Longrightarrow> posix_err e"
  by (auto simp: acquire_start_def Let_def split: if_splits prod.splits)

lemma err_acquire_try [errs]: "acquire_try p c i k nonblock m = Return (m', Some e) \<Longrightarrow> posix_err e"
  by (auto simp: acquire_try_def Let_def split: if_splits prod.splits option.splits)

text \<open>A mount with a generated skill can also fail with the error of a template.\<close>

lemma err_Generate: "Generate render cfg g = (g', Some e) \<Longrightarrow> posix_err e \<or> (\<exists>t. render t cfg = Inl e)"
  by (auto simp: Generate_def split: option.splits sum.splits if_splits dest: errs)

lemma err_skill_mount:
  assumes "(case Generate (env_render env) sk g of
      (g, Some e) \<Rightarrow> (drop1 g, Some e)
    | (g, None) \<Rightarrow> (case MountSkillAtRoot sk (with_skills g) of
         (fs2, Some e) \<Rightarrow> (drop2 fs2, Some e)
       | (fs2, None) \<Rightarrow> (fs2, None))) = (fs', Some e)"
  shows "posix_err e \<or> (\<exists>t. env_render env t sk = Inl e)"
  using assms by (auto split: prod.splits option.splits dest: err_Generate err_SkillAtRoot)

lemma err_mountLocked:
  assumes "mountLocked env now p m fs = (fs', Some e)"
  shows "posix_err e \<or> (\<exists>t sk. me_Skill m = Some sk \<and> sk_Enabled sk \<and> env_render env t sk = Inl e)"
proof -
  let ?e = "entry_defaults (fs_cfg fs) now p m"
  obtain r res where ra: "router_add (fs_router fs) ?e = (r, res)" by fastforce
  show ?thesis
  proof (cases "posix_err e")
    case False
    then have "\<exists>m'. res = Inr m' \<and> (case me_Skill m' of None \<Rightarrow> (with_router r fs, None)
        | Some sk \<Rightarrow> (if \<not> sk_Enabled sk then (with_router r fs, None)
             else (case Generate (env_render env) sk (fs_skills (with_router r fs)) of
                     (g, Some e) \<Rightarrow> (router_drop p ((with_router r fs)\<lparr>fs_skills := g\<rparr>), Some e)
                   | (g, None) \<Rightarrow> (case MountSkillAtRoot sk ((with_router r fs)\<lparr>fs_skills := g\<rparr>) of
                        (fs2, Some e) \<Rightarrow> (router_drop p fs2, Some e)
                      | (fs2, None) \<Rightarrow> (fs2, None))))) = (fs', Some e)"
      using assms err_add[of "fs_router fs" ?e r] ra unfolding mountLocked_def Let_def
      by (cases res) (auto split: if_split_asm)
    then obtain m' sk where sk: "res = Inr m'" "me_Skill m' = Some sk" "sk_Enabled sk"
      and k: "posix_err e \<or> (\<exists>t. env_render env t sk = Inl e)"
      by (force split: option.splits if_splits dest: err_skill_mount)
    have "me_Skill m' = me_Skill m"
      using ra sk(1) by (auto simp: router_add_def entry_defaults_def Let_def split: sum.splits prod.splits option.splits)
    with sk k show ?thesis by auto
  qed simp
qed

lemma err_Mount:
  "fs_Mount env w p m fs = (fs', Some e) \<Longrightarrow>
   posix_err e \<or> (\<exists>t sk. me_Skill m = Some sk \<and> sk_Enabled sk \<and> env_render env t sk = Inl e)"
proof -
  assume "fs_Mount env w p m fs = (fs', Some e)"
  then obtain fs1 where "mount_body env (env_now env w) p m fs = (fs1, Some e)"
    by (auto simp: fs_Mount_def Let_def split: prod.splits)
  then show ?thesis
    unfolding mount_body_def
    by (auto split: sum.splits prod.splits option.splits if_splits dest: errs dest!: err_mountLocked)
qed

lemma err_Mount_plain [errs]: "plain_entry m \<Longrightarrow> fs_Mount env w p m fs = (fs', Some e) \<Longrightarrow> posix_err e"
  using err_Mount by (fastforce simp: plain_entry_def)

lemma err_Open [errs]: "fs_Open p flags c fs = (fs', Fail e) \<Longrightarrow> posix_err e"
  by (auto simp: fs_Open_def hm_open_def hm_acquire_def Let_def
      split: if_splits sum.splits option.splits prod.splits dest: errs)

lemma and_then_Fail:
  "and_then x f = (s', Fail e) \<longleftrightarrow> x = (s', Fail e) \<or> (\<exists>s1. x = (s1, Ok ()) \<and> f s1 = (s', Fail e))"
  by (cases x) (auto simp: and_then_def split: res.splits)

lemma err_flushPrefix [errs]: "flushPrefixLocked env i n s = (s', Fail e) \<Longrightarrow> posix_err e"
  by (auto simp: flushPrefixLocked_def on_handle_def and_then_Fail Let_def
      split: if_splits option.splits dest: errs)

lemma err_flushAll [errs]: "flushAllLocked env i s = (s', Fail e) \<Longrightarrow> posix_err e"
  by (auto simp: flushAllLocked_def on_handle_def split: if_splits option.splits dest: errs)

lemma err_write_buffered [errs]: "write_buffered env i p s = (s', Fail e) \<Longrightarrow> posix_err e"
  by (auto simp: write_buffered_def on_handle_def and_then_Fail flush_lines_def flush_full_def arm_timer_def
      Let_def split: if_splits option.splits dest: errs)

lemma err_h_ReadAll [errs]: "h_ReadAll env i s = (s', Fail e) \<Longrightarrow> posix_err e"
  by (auto simp: h_ReadAll_def on_handle_def split: if_splits option.splits dest: errs)

lemma err_h_Write [errs]: "h_Write env i p s = (s', Fail e) \<Longrightarrow> posix_err e"
  by (auto simp: h_Write_def on_handle_def split: if_splits option.splits dest: errs)

lemma err_h_Flush [errs]: "h_Flush env i s = (s', Fail e) \<Longrightarrow> posix_err e"
  by (auto simp: h_Flush_def on_handle_def split: if_splits option.splits dest: errs)

lemma err_h_Close [errs]: "h_Close env i s = (s', Fail e) \<Longrightarrow> posix_err e"
  by (auto simp: h_Close_def on_handle_def split: if_splits option.splits prod.splits res.splits dest: errs)

lemma err_h_Funlock [errs]: "h_Funlock i s = (s', Fail e) \<Longrightarrow> posix_err e"
  by (auto simp: h_Funlock_def on_handle_def split: if_splits option.splits)

lemma err_h_Flock [errs]: "h_Flock i k nonblock s = (s', Fail e) \<Longrightarrow> posix_err e"
  by (auto simp: h_Flock_def on_handle_def split: if_splits option.splits prod.splits sum.splits go.splits dest: errs)

text \<open>A shutdown ignores what closing the handles returns and fails only when its context has ended.\<close>

lemma err_close_each: "close_each env ctx is s = (s', Fail e) \<Longrightarrow> \<exists>w. ctx w = Some e"
  by (induction env ctx "is" s rule: close_each.induct) (auto split: option.splits prod.splits res.splits)

lemma err_Shutdown: "Shutdown env ctx s = (s', Fail e) \<Longrightarrow> \<exists>w. ctx w = Some e"
  by (auto simp: Shutdown_def and_then_Fail dest: err_close_each)

section \<open>The interface\<close>

text \<open>
  The calls of the interface that can fail, those on an open file given by its handle, and the
  error of one. The rest of the interface returns no error.
\<close>

datatype 'w fs_call =
    CallMount string mount_entry | CallUnmount string | CallRemove string | CallRename string string
  | CallStat string | CallReaddir string | CallRead string | CallWrite string bytes
  | CallReadLink string | CallFollowLink string | CallResolve string | CallResolveParams string
  | CallRestore "mount_entry list" | CallRegisterProvider "string option"
  | CallMountSkillAtRoot skill_config | CallUnmountSkillAtRoot | CallShutdown "'w \<Rightarrow> go_error option"
  | CallOpen string u32 | CallReadAll u64 | CallHWrite u64 bytes | CallFlush u64 | CallClose u64
  | CallFlock u64 lock_kind bool | CallFunlock u64

fun call_error :: "'w env \<Rightarrow> caller_identity \<Rightarrow> 'w fs_call \<Rightarrow> 'w fsw \<Rightarrow> go_error option" where
  "call_error env c (CallMount p m) s = snd (fs_Mount env (snd s) p m (fst s))"
| "call_error env c (CallUnmount p) s = snd (fs_Unmount env (snd s) p (fst s))"
| "call_error env c (CallRemove p) s = snd (fs_Remove env (snd s) p (fst s))"
| "call_error env c (CallRename p q) s = snd (fs_Rename env (snd s) p q (fst s))"
| "call_error env c (CallStat p) s = err_of (snd (fs_Stat env p c s))"
| "call_error env c (CallReaddir p) s = err_of (snd (fs_Readdir env p c s))"
| "call_error env c (CallRead p) s = err_of (snd (fs_Read env p c s))"
| "call_error env c (CallWrite p b) s = err_of (snd (fs_Write env p b c s))"
| "call_error env c (CallReadLink p) s = err_of (ReadLink (fst s) p)"
| "call_error env c (CallFollowLink p) s = err_of (FollowLink (fst s) p)"
| "call_error env c (CallResolve p) s = err_of (fs_Resolve p (fst s))"
| "call_error env c (CallResolveParams p) s = err_of (fs_ResolveParams p (fst s))"
| "call_error env c (CallRestore es) s = snd (fs_Restore es (fst s))"
| "call_error env c (CallRegisterProvider p) s = snd (RegisterProvider p (fst s))"
| "call_error env c (CallMountSkillAtRoot cfg) s = snd (MountSkillAtRoot cfg (fst s))"
| "call_error env c CallUnmountSkillAtRoot s = snd (UnmountSkillAtRoot (fst s))"
| "call_error env c (CallShutdown ctx) s = err_of (snd (Shutdown env ctx s))"
| "call_error env c (CallOpen p flags) s = err_of (snd (fs_Open p flags c (fst s)))"
| "call_error env c (CallReadAll i) s = err_of (snd (h_ReadAll env i s))"
| "call_error env c (CallHWrite i b) s = err_of (snd (h_Write env i b s))"
| "call_error env c (CallFlush i) s = err_of (snd (h_Flush env i s))"
| "call_error env c (CallClose i) s = err_of (snd (h_Close env i s))"
| "call_error env c (CallFlock i k nonblock) s = err_of (snd (h_Flock i k nonblock s))"
| "call_error env c (CallFunlock i) s = err_of (snd (h_Funlock i s))"

text \<open>
  The errors that are no PosixErrors: of the template of a skill that is mounted, of the context
  of a shutdown, and the two of Resolve and ResolveParams for a path without a mount.
\<close>

fun foreign_error :: "'w env \<Rightarrow> 'w fs_call \<Rightarrow> go_error \<Rightarrow> bool" where
  "foreign_error env (CallMount p m) e =
     (\<exists>t sk. me_Skill m = Some sk \<and> sk_Enabled sk \<and> env_render env t sk = Inl e)"
| "foreign_error env (CallShutdown ctx) e = (\<exists>w. ctx w = Some e)"
| "foreign_error env (CallResolve p) e = (e = PlainError (''not a mounted path: '' @ p))"
| "foreign_error env (CallResolveParams p) e = (e = PlainError (''not a mounted path: '' @ p))"
| "foreign_error env call e = False"

lemma err_of_Some: "err_of r = Some e \<longleftrightarrow> r = Fail e"
  by (cases r) (simp_all add: err_of_def)

lemma err_Resolve:
  "fs_Resolve p fs = Fail e \<Longrightarrow> posix_err e \<or> e = PlainError (''not a mounted path: '' @ p)"
  "fs_ResolveParams p fs = Fail e \<Longrightarrow> posix_err e \<or> e = PlainError (''not a mounted path: '' @ p)"
  by (auto simp: fs_Resolve_def fs_ResolveParams_def split: sum.splits option.splits dest: errs)

text \<open>
  C15: whatever a call of the interface fails with is a PosixError with a code, an operation
  and a path, so that every adapter can map it. The exceptions are these: a mount that
  generates a skill hands on the error of a template, a shutdown that of its context, and Resolve
  and ResolveParams fail on a path without a mount with an error that has no code.
\<close>

theorem errors_are_posix:
  assumes "call_error env c call s = Some e"
  shows "(\<exists>code o1 p cause. e = posix code o1 p cause) \<or> foreign_error env call e"
proof -
  have pair: "snd x = y \<Longrightarrow> x = (fst x, y)" for x :: "'x \<times> 'y" and y by (cases x) simp
  have "posix_err e \<or> foreign_error env call e"
    using assms
    by (cases call)
      (auto simp: err_of_Some fs_Remove_def dest!: pair err_Mount err_Resolve err_Shutdown dest: errs)
  then show ?thesis by (simp add: posix_err_def)
qed

lemma errors_are_posix_witness:
  "\<exists>code o1 p cause. the (call_error clock_env anonymous (CallOpen ''/a'' 0) (demo_fs, 0)) = posix code o1 p cause"
proof -
  have w: "call_error clock_env anonymous (CallOpen ''/a'' 0) (demo_fs, 0) = Some (posix EINVAL OpStat ''/a'' None)"
    by (simp add: fs_Open_def flag_Has_def err_of_def)
  from errors_are_posix[OF w] show ?thesis unfolding w option.sel by simp
qed

end
