(* ===== verification/ProviderCache.thy ===== *)
theory ProviderCache
  imports Providers
begin

text \<open>
  provider/cache/cache.go: a provider that answers from a cache in front of another one. The
  inner provider acts on a world of its own; \<open>now\<close> reads the clock of the world, \<open>digest\<close> is
  the hexadecimal SHA-256 digest and \<open>marshal\<close> is json.Marshal, None when it fails (the code
  then hashes the action alone). A call returns, or it panics where the code dereferences the
  nil result that a provider may return.
\<close>

section \<open>The provider\<close>

record 'w inner =
  in_id :: string
  in_now :: "'w \<Rightarrow> time"
  in_invoke :: "'w \<Rightarrow> string \<Rightarrow> params \<Rightarrow> 'w \<times> (go_error + provider_result option)"
  in_digest :: "bytes \<Rightarrow> string"
  in_marshal :: "params \<Rightarrow> bytes option"

record cache_provider =
  cp_ttl :: duration
  cp_store :: "(string \<times> (provider_result option \<times> time)) list"

definition cache_New :: "duration \<Rightarrow> cache_provider" where
  "cache_New ttl = \<lparr>cp_ttl = ttl, cp_store = []\<rparr>"

definition cache_ID :: "'w inner \<Rightarrow> string" where
  "cache_ID p = in_id p"

definition cacheKey :: "'w inner \<Rightarrow> string \<Rightarrow> params \<Rightarrow> string" where
  "cacheKey p action ps =
     in_digest p (action @ (case in_marshal p ps of None \<Rightarrow> [] | Some b \<Rightarrow> b))"

text \<open>\<open>append([]byte(nil), data...)\<close> is nil for an empty slice; copyMap copies its map.\<close>

definition copy_data :: "bytes option \<Rightarrow> bytes option" where
  "copy_data d = (case d of None \<Rightarrow> None | Some b \<Rightarrow> if b = [] then None else Some b)"

definition copyMap :: "(string \<times> string) list \<Rightarrow> (string \<times> string) list" where
  "copyMap m = fold (\<lambda>(k, v) out. mput k v out) m []"

definition copy_result :: "provider_result \<Rightarrow> provider_result" where
  "copy_result r =
     \<lparr>pr_Data = copy_data (pr_Data r), pr_Meta = copyMap (pr_Meta r), pr_ContentType = pr_ContentType r\<rparr>"

definition store_fetch ::
  "(string \<times> (provider_result option \<times> time)) list \<Rightarrow> string \<Rightarrow> time \<Rightarrow> provider_result option option" where
  "store_fetch c key now =
     (case map_of c key of
        None \<Rightarrow> None
      | Some (r, expires) \<Rightarrow> if now < expires then Some r else None)"

definition store_keep where
  "store_keep key r expires c = mput key (r, expires) c"

interpretation provider_store: ttl_cache store_fetch store_keep
  by unfold_locales (auto simp: store_fetch_def store_keep_def split: option.splits if_splits)

text \<open>The state is the cache with the world.\<close>

type_synonym 'w cp_state = "cache_provider \<times> 'w"

definition cache_Invoke ::
  "'w inner \<Rightarrow> string \<Rightarrow> params \<Rightarrow> 'w cp_state \<Rightarrow> 'w cp_state \<times> (go_error + provider_result) go" where
  "cache_Invoke p action ps s =
     (let (c, w) = s; key = cacheKey p action ps
      in case store_fetch (cp_store c) key (in_now p w) of
           Some r \<Rightarrow> (s, case r of None \<Rightarrow> Panic | Some res \<Rightarrow> Return (Inr (copy_result res)))
         | None \<Rightarrow>
             (case in_invoke p w action ps of
                (w1, Inl e) \<Rightarrow> ((c, w1), Return (Inl e))
              | (w1, Inr r) \<Rightarrow>
                  ((c\<lparr>cp_store := store_keep key r (in_now p w1 + cp_ttl c) (cp_store c)\<rparr>, w1),
                   case r of None \<Rightarrow> Panic | Some res \<Rightarrow> Return (Inr (copy_result res)))))"

definition Invalidate :: "cache_provider \<Rightarrow> cache_provider" where
  "Invalidate c = c\<lparr>cp_store := []\<rparr>"

section \<open>Properties\<close>

lemma copy_data_idem [simp]: "copy_data (copy_data d) = copy_data d"
  by (simp add: copy_data_def split: option.splits)

lemma fold_mput_fresh:
  "distinct (map fst (out @ m)) \<Longrightarrow> fold (\<lambda>(k, v) out. mput k v out) m out = out @ m"
proof (induction m arbitrary: out)
  case (Cons a m)
  obtain k v where a: "a = (k, v)" by (cases a)
  with Cons.prems have "mput k v out = out @ [(k, v)]" by (auto intro: mput_fresh)
  with Cons a show ?case by simp
qed simp

lemma copyMap_same [simp]: "distinct (map fst m) \<Longrightarrow> copyMap m = m"
  using fold_mput_fresh[of "[]" m] by (simp add: copyMap_def)

text \<open>
  A call that misses asks the inner provider once. When that returns a result, every call
  with the same key before the time of expiry is answered with a copy of it and without the
  inner provider, and after the expiry or an invalidation the inner provider is asked again.
  When it returns an error, nothing is kept.
\<close>

theorem cache_answers_once:
  assumes "store_fetch (cp_store c) (cacheKey p action ps) (in_now p w) = None"
    and "in_invoke p w action ps = (w1, r)"
    and "cache_Invoke p action ps (c, w) = ((c', w'), out)"
    and "cacheKey p action2 ps2 = cacheKey p action ps"
  shows "w' = w1 \<and> (\<forall>e. r = Inl e \<longrightarrow> out = Return (Inl e) \<and> c' = c) \<and>
    (\<forall>x. r = Inr (Some x) \<longrightarrow> out = Return (Inr (copy_result x)) \<and>
       (in_now p w2 < in_now p w1 + cp_ttl c \<longrightarrow>
          cache_Invoke p action2 ps2 (c', w2) = ((c', w2), Return (Inr (copy_result x)))) \<and>
       (in_now p w1 + cp_ttl c \<le> in_now p w2 \<longrightarrow>
          snd (fst (cache_Invoke p action2 ps2 (c', w2))) = fst (in_invoke p w2 action2 ps2)) \<and>
       snd (fst (cache_Invoke p action2 ps2 (Invalidate c', w2))) = fst (in_invoke p w2 action2 ps2))"
  using assms
  by (auto simp: cache_Invoke_def provider_store.keep_law Invalidate_def Let_def store_fetch_def[of "[]"]
      split: sum.splits option.splits prod.splits)

text \<open>A world that is the clock and counts the calls; its provider knows one action.\<close>

definition tick_inner :: "(int \<times> nat) inner" where
  "tick_inner = \<lparr>in_id = ''tick'', in_now = fst,
     in_invoke = (\<lambda>(t, n) action ps. ((t, n + 1),
        if action = ''get'' then Inr (Some \<lparr>pr_Data = Some ''x'', pr_Meta = [], pr_ContentType = []\<rparr>)
        else Inr None)),
     in_digest = id, in_marshal = (\<lambda>ps. Some [])\<rparr>"

lemma cache_answers_once_witness:
  "let (s, out) = cache_Invoke tick_inner ''get'' [] (cache_New 10, (5, 0))
   in snd (snd s) = 1 \<and> cache_Invoke tick_inner ''get'' [] (fst s, (14, 1)) = ((fst s, (14, 1)), out)"
proof -
  let ?r = "\<lparr>pr_Data = Some ''x'', pr_Meta = [], pr_ContentType = []\<rparr>"
  have m: "store_fetch (cp_store (cache_New 10)) (cacheKey tick_inner ''get'' []) (in_now tick_inner (5, 0)) = None"
    by (simp add: cache_New_def store_fetch_def)
  have i: "in_invoke tick_inner (5, 0) ''get'' [] = ((5, 1), Inr (Some ?r))"
    by (simp add: tick_inner_def)
  obtain c' w' out where o: "cache_Invoke tick_inner ''get'' [] (cache_New 10, (5, 0)) = ((c', w'), out)"
    by (metis prod.collapse)
  from cache_answers_once[OF m i o refl, of "(14, 1)"] o show ?thesis
    by (auto simp: tick_inner_def cache_New_def)
qed

text \<open>
  A provider may return no result and no error, which the filesystem takes for empty data.
  Behind the cache such a call panics, after the missing result has been stored: until it
  expires, every further call with the same key panics too and never reaches the provider.
\<close>

theorem cache_nil_poisons:
  assumes "store_fetch (cp_store c) (cacheKey p action ps) (in_now p w) = None"
    and "in_invoke p w action ps = (w1, Inr None)"
    and "cache_Invoke p action ps (c, w) = ((c', w'), out)"
    and "in_now p w2 < in_now p w1 + cp_ttl c"
  shows "out = Panic \<and> cache_Invoke p action ps (c', w2) = ((c', w2), Panic)"
  using assms by (auto simp: cache_Invoke_def provider_store.keep_law Let_def split: option.splits)

lemma cache_nil_poisons_witness:
  "let (s, out) = cache_Invoke tick_inner ''none'' [] (cache_New 10, (5, 0))
   in snd (cache_Invoke tick_inner ''none'' [] (fst s, (14, 1))) = Panic"
proof -
  have m: "store_fetch (cp_store (cache_New 10)) (cacheKey tick_inner ''none'' []) (in_now tick_inner (5, 0)) = None"
    by (simp add: cache_New_def store_fetch_def)
  have i: "in_invoke tick_inner (5, 0) ''none'' [] = ((5, 1), Inr None)"
    by (simp add: tick_inner_def)
  obtain c' w' out where o: "cache_Invoke tick_inner ''none'' [] (cache_New 10, (5, 0)) = ((c', w'), out)"
    by (metis prod.collapse)
  from cache_nil_poisons[OF m i o, of "(14, 1)"] o show ?thesis
    by (simp add: tick_inner_def cache_New_def)
qed

end
