(* ===== verification/Bridge.thy ===== *)
theory Bridge
  imports ErrorProps
begin

text \<open>
  The C interface of the engine: binding/registry/registry.go, the table of filesystems by
  handle with their last error, and the exported functions of binding/go-bridge/bridge.go.

  A handle is a 64-bit uintptr. The registry maps it to a pointer; here it maps it to the state
  of the filesystem, which a call updates. C strings are given as the Go strings made of them;
  json.Marshal of the two answer types is a parameter (it cannot fail on strings and numbers).
\<close>

section \<open>The registry\<close>

record 'f registry =
  rg_counter :: u64
  rg_fs :: "(u64 \<times> 'f) list"
  rg_err :: "(u64 \<times> string) list"

definition registry_New :: "'f registry" where
  "registry_New = \<lparr>rg_counter = 0, rg_fs = [], rg_err = []\<rparr>"

definition Register :: "'f \<Rightarrow> 'f registry \<Rightarrow> 'f registry \<times> u64" where
  "Register fs r =
     (let h = rg_counter r + 1
      in (r\<lparr>rg_counter := h, rg_fs := mput h fs (rg_fs r)\<rparr>, h))"

definition registry_Get :: "u64 \<Rightarrow> 'f registry \<Rightarrow> 'f option" where
  "registry_Get h r = map_of (rg_fs r) h"

definition Unregister :: "u64 \<Rightarrow> 'f registry \<Rightarrow> 'f registry \<times> 'f option" where
  "Unregister h r =
     (case map_of (rg_fs r) h of
        None \<Rightarrow> (r, None)
      | Some fs \<Rightarrow> (r\<lparr>rg_fs := mdel h (rg_fs r), rg_err := mdel h (rg_err r)\<rparr>, Some fs))"

definition SetError :: "u64 \<Rightarrow> string \<Rightarrow> 'f registry \<Rightarrow> 'f registry" where
  "SetError h msg r =
     (if msg = [] then r\<lparr>rg_err := mdel h (rg_err r)\<rparr> else r\<lparr>rg_err := mput h msg (rg_err r)\<rparr>)"

definition LastError :: "u64 \<Rightarrow> 'f registry \<Rightarrow> string" where
  "LastError h r = (case map_of (rg_err r) h of None \<Rightarrow> [] | Some m \<Rightarrow> m)"

definition registry_Len :: "'f registry \<Rightarrow> nat" where
  "registry_Len r = length (rg_fs r)"

definition put_fs :: "u64 \<Rightarrow> 'f \<Rightarrow> 'f registry \<Rightarrow> 'f registry" where
  "put_fs h fs r = r\<lparr>rg_fs := mput h fs (rg_fs r)\<rparr>"

section \<open>The exported functions\<close>

text \<open>
  What a function returns: a C int, a buffer with the length stored for it (a 32-bit C int),
  a nil pointer; or it does not return.
\<close>

datatype c_result = CInt int | CBuf bytes "32 word" | CNil | CWait | CPanic

record statDTO =
  sd_path :: string
  sd_kind :: string
  sd_mode :: u32
  sd_uid :: u32
  sd_gid :: u32
  sd_size :: int

record dirEntryDTO =
  dd_name :: string
  dd_kind :: string
  dd_mode :: u32

definition stat_dto :: "stat \<Rightarrow> statDTO" where
  "stat_dto st = \<lparr>sd_path = st_Path st, sd_kind = kind_text (st_Kind st), sd_mode = st_Mode st,
     sd_uid = st_UID st, sd_gid = st_GID st, sd_size = st_Size st\<rparr>"

definition dirent_dto :: "dir_entry \<Rightarrow> dirEntryDTO" where
  "dirent_dto e = \<lparr>dd_name = de_Name e, dd_kind = kind_text (de_Kind e), dd_mode = de_Mode e\<rparr>"

record bridge_env =
  be_stat :: "statDTO \<Rightarrow> bytes"
  be_dirents :: "dirEntryDTO list \<Rightarrow> bytes"

type_synonym 'w bridge = "fs_state registry \<times> 'w"

definition errUnknownHandle :: string where
  "errUnknownHandle = ''unknown filesystem handle''"

text \<open>\<open>resolveFS\<close> and the body that runs on the filesystem it finds.\<close>

definition resolveFS ::
  "u64 \<Rightarrow> c_result \<Rightarrow> (fs_state \<Rightarrow> 'w bridge \<times> c_result) \<Rightarrow> 'w bridge \<Rightarrow> 'w bridge \<times> c_result" where
  "resolveFS h failed body s =
     (case registry_Get h (fst s) of
        None \<Rightarrow> ((SetError h errUnknownHandle (fst s), snd s), failed)
      | Some fs \<Rightarrow> body fs)"

text \<open>The end of a call whose filesystem and world are \<open>fs\<close> and \<open>w\<close>: store the message of an
  error, or clear the slot and answer.\<close>

definition bridge_end ::
  "u64 \<Rightarrow> c_result \<Rightarrow> ('a \<Rightarrow> c_result) \<Rightarrow> 'w fsw \<times> 'a res \<Rightarrow> 'w bridge \<Rightarrow> 'w bridge \<times> c_result" where
  "bridge_end h failed answer out s =
     (let ((fs, w), r) = out; reg = put_fs h fs (fst s)
      in case r of
           Ok x \<Rightarrow> ((SetError h [] reg, w), answer x)
         | Fail e \<Rightarrow> ((SetError h (error_text e) reg, w), failed)
         | Wait rest \<Rightarrow> ((reg, w), CWait)
         | Crash \<Rightarrow> ((reg, w), CPanic))"

definition c_buffer :: "bytes \<Rightarrow> c_result" where
  "c_buffer b = CBuf b (of_nat (length b))"

definition plain_out :: "fs_state \<times> go_error option \<Rightarrow> 'w \<Rightarrow> 'w fsw \<times> unit res" where
  "plain_out x w = ((fst x, w), case snd x of None \<Rightarrow> Ok () | Some e \<Rightarrow> Fail e)"

definition zero_config :: global_config where
  "zero_config = \<lparr>g_Label = [], g_MaxOpenHandles = 0, g_MaxMounts = 0, g_MaxBlobSize = 0,
     g_ZeroCopyThreshold = 0, g_StatCacheTTL = 0, g_DefaultUID = 0, g_DefaultGID = 0,
     g_SkillsRoot = [], g_LockTimeout = 0,
     g_Breaker = \<lparr>bc_Enabled = False, bc_FailureThreshold = 0, bc_ResetTimeout = 0,
                  bc_HalfOpenMaxCalls = 0\<rparr>, g_Audit = False\<rparr>"

definition skills_fs_create :: "'w bridge \<Rightarrow> 'w bridge \<times> u64 go" where
  "skills_fs_create s =
     (case NewFS zero_config of
        Return fs \<Rightarrow> (let (r, h) = Register fs (fst s) in ((r, snd s), Return h))
      | Panic \<Rightarrow> (s, Panic)
      | Block \<Rightarrow> (s, Block))"

definition skills_fs_shutdown :: "'w env \<Rightarrow> u64 \<Rightarrow> 'w bridge \<Rightarrow> 'w bridge \<times> unit res" where
  "skills_fs_shutdown env h s =
     (let (reg, found) = Unregister h (fst s)
      in case found of
           None \<Rightarrow> ((reg, snd s), Ok ())
         | Some fs \<Rightarrow>
             (let ((fs', w'), r) = Shutdown env (\<lambda>w. None) (fs, snd s)
              in ((reg, w'), case r of Fail e \<Rightarrow> Ok () | _ \<Rightarrow> r)))"

definition skills_fs_last_error :: "u64 \<Rightarrow> 'w bridge \<Rightarrow> string option" where
  "skills_fs_last_error h s = (let msg = LastError h (fst s) in if msg = [] then None else Some msg)"

definition skills_fs_mount_blob ::
  "'w env \<Rightarrow> u64 \<Rightarrow> string \<Rightarrow> u32 \<Rightarrow> 'w bridge \<Rightarrow> 'w bridge \<times> c_result" where
  "skills_fs_mount_blob env h path mode s = resolveFS h (CInt (- 1)) (\<lambda>fs.
     bridge_end h (CInt (- 1)) (\<lambda>u. CInt 0)
       (plain_out (fs_Mount env (snd s) path (zero_entry\<lparr>me_Kind := KindBlob, me_Mode := mode\<rparr>) fs) (snd s)) s) s"

definition skills_fs_mount_api ::
  "'w env \<Rightarrow> u64 \<Rightarrow> string \<Rightarrow> string \<Rightarrow> string \<Rightarrow> 'w bridge \<Rightarrow> 'w bridge \<times> c_result" where
  "skills_fs_mount_api env h path providerID action s = resolveFS h (CInt (- 1)) (\<lambda>fs.
     bridge_end h (CInt (- 1)) (\<lambda>u. CInt 0)
       (plain_out (fs_Mount env (snd s) path (zero_entry\<lparr>me_Kind := KindAPI, me_Mode := mode_0644,
          me_Ops := [(OpRead, Some \<lparr>cc_ProviderID = providerID, cc_Action = action, cc_ParamsFn = None,
            cc_Async = False, cc_Timeout = 0, cc_CacheTTL = 0\<rparr>)]\<rparr>) fs) (snd s)) s) s"

definition skills_fs_unmount :: "'w env \<Rightarrow> u64 \<Rightarrow> string \<Rightarrow> 'w bridge \<Rightarrow> 'w bridge \<times> c_result" where
  "skills_fs_unmount env h path s = resolveFS h (CInt (- 1)) (\<lambda>fs.
     bridge_end h (CInt (- 1)) (\<lambda>u. CInt 0) (plain_out (fs_Unmount env (snd s) path fs) (snd s)) s) s"

definition skills_fs_rename :: "'w env \<Rightarrow> u64 \<Rightarrow> string \<Rightarrow> string \<Rightarrow> 'w bridge \<Rightarrow> 'w bridge \<times> c_result" where
  "skills_fs_rename env h oldPath newPath s = resolveFS h (CInt (- 1)) (\<lambda>fs.
     bridge_end h (CInt (- 1)) (\<lambda>u. CInt 0) (plain_out (fs_Rename env (snd s) oldPath newPath fs) (snd s)) s) s"

definition skills_fs_stat ::
  "bridge_env \<Rightarrow> 'w env \<Rightarrow> u64 \<Rightarrow> string \<Rightarrow> 'w bridge \<Rightarrow> 'w bridge \<times> c_result" where
  "skills_fs_stat be env h path s = resolveFS h CNil (\<lambda>fs.
     bridge_end h CNil (\<lambda>st. c_buffer (be_stat be (stat_dto st))) (fs_Stat env path anonymous (fs, snd s)) s) s"

definition skills_fs_readdir ::
  "bridge_env \<Rightarrow> 'w env \<Rightarrow> u64 \<Rightarrow> string \<Rightarrow> 'w bridge \<Rightarrow> 'w bridge \<times> c_result" where
  "skills_fs_readdir be env h path s = resolveFS h CNil (\<lambda>fs.
     bridge_end h CNil (\<lambda>es. c_buffer (be_dirents be (map dirent_dto es))) (fs_Readdir env path anonymous (fs, snd s)) s) s"

definition skills_fs_read :: "'w env \<Rightarrow> u64 \<Rightarrow> string \<Rightarrow> 'w bridge \<Rightarrow> 'w bridge \<times> c_result" where
  "skills_fs_read env h path s = resolveFS h CNil (\<lambda>fs.
     bridge_end h CNil c_buffer (fs_Read env path anonymous (fs, snd s)) s) s"

text \<open>\<open>mem\<close> is the memory at the data pointer; C.GoBytes panics on a negative length.\<close>

definition skills_fs_write ::
  "'w env \<Rightarrow> u64 \<Rightarrow> string \<Rightarrow> bytes \<Rightarrow> int \<Rightarrow> 'w bridge \<Rightarrow> 'w bridge \<times> c_result" where
  "skills_fs_write env h path mem len s = resolveFS h (CInt (- 1)) (\<lambda>fs.
     if len < 0 then (s, CPanic)
     else bridge_end h (CInt (- 1)) (\<lambda>u. CInt 0)
            (fs_Write env path (take (nat len) mem) anonymous (fs, snd s)) s) s"

definition skills_fs_register_provider ::
  "u64 \<Rightarrow> string \<Rightarrow> 'w bridge \<Rightarrow> 'w bridge \<times> c_result" where
  "skills_fs_register_provider h i s = resolveFS h (CInt (- 1)) (\<lambda>fs.
     bridge_end h (CInt (- 1)) (\<lambda>u. CInt 0) (plain_out (RegisterProvider (Some i) fs) (snd s)) s) s"

text \<open>
  The provider that \<open>skills_fs_register_provider\<close> wraps around a C callback. \<open>cb\<close> is the callback
  with its handle: it gets the action and the parameters as JSON (no payload) and gives its
  return code and the buffer it has set; \<open>dec\<close> is the text of %d.
\<close>

definition callback_Invoke ::
  "(params \<Rightarrow> go_error + bytes) \<Rightarrow> (int \<Rightarrow> string) \<Rightarrow> ('w \<Rightarrow> u64 \<Rightarrow> string \<Rightarrow> bytes \<Rightarrow> 'w \<times> int \<times> bytes) \<Rightarrow>
   string \<Rightarrow> u64 \<Rightarrow> string \<Rightarrow> params \<Rightarrow> 'w \<Rightarrow> 'w \<times> (go_error + provider_result option)" where
  "callback_Invoke marshal dec cb i h action ps w =
     (case marshal ps of
        Inl e \<Rightarrow> (w, Inl e)
      | Inr json \<Rightarrow>
          (let (w', rc, out) = cb w h action json
           in (w', if rc \<noteq> 0
                   then Inl (PlainError (''provider '' @ i @ '': callback returned '' @ dec rc))
                   else Inr (Some \<lparr>pr_Data = Some out, pr_Meta = [], pr_ContentType = []\<rparr>))))"

section \<open>The last error\<close>

text \<open>The calls that report their errors by a return value and the error slot.\<close>

datatype bridge_call =
    BMountBlob string u32 | BMountApi string string string | BUnmount string | BRename string string
  | BStat string | BReaddir string | BRead string | BWrite string bytes int | BRegister string

fun bridge_run :: "bridge_env \<Rightarrow> 'w env \<Rightarrow> u64 \<Rightarrow> bridge_call \<Rightarrow> 'w bridge \<Rightarrow> 'w bridge \<times> c_result" where
  "bridge_run be env h (BMountBlob p m) s = skills_fs_mount_blob env h p m s"
| "bridge_run be env h (BMountApi p i a) s = skills_fs_mount_api env h p i a s"
| "bridge_run be env h (BUnmount p) s = skills_fs_unmount env h p s"
| "bridge_run be env h (BRename p q) s = skills_fs_rename env h p q s"
| "bridge_run be env h (BStat p) s = skills_fs_stat be env h p s"
| "bridge_run be env h (BReaddir p) s = skills_fs_readdir be env h p s"
| "bridge_run be env h (BRead p) s = skills_fs_read env h p s"
| "bridge_run be env h (BWrite p mem len) s = skills_fs_write env h p mem len s"
| "bridge_run be env h (BRegister i) s = skills_fs_register_provider h i s"

lemmas bridge_defs = skills_fs_mount_blob_def skills_fs_mount_api_def skills_fs_unmount_def
  skills_fs_rename_def skills_fs_stat_def skills_fs_readdir_def skills_fs_read_def skills_fs_write_def
  skills_fs_register_provider_def

definition failed :: "c_result \<Rightarrow> bool" where
  "failed r \<longleftrightarrow> r = CInt (- 1) \<or> r = CNil"

definition returned :: "c_result \<Rightarrow> bool" where
  "returned r \<longleftrightarrow> r \<noteq> CWait \<and> r \<noteq> CPanic"

text \<open>What a call on \<open>h\<close> may do: nothing to other handles, and it fails exactly when it leaves a
  message in the slot.\<close>

definition call_ok :: "u64 \<Rightarrow> 'w bridge \<Rightarrow> 'w bridge \<times> c_result \<Rightarrow> bool" where
  "call_ok h s out \<longleftrightarrow>
     (\<forall>g. g \<noteq> h \<longrightarrow> registry_Get g (fst (fst out)) = registry_Get g (fst s) \<and>
        LastError g (fst (fst out)) = LastError g (fst s)) \<and>
     rg_counter (fst (fst out)) = rg_counter (fst s) \<and>
     (returned (snd out) \<longrightarrow> (failed (snd out) \<longleftrightarrow> LastError h (fst (fst out)) \<noteq> []))"

lemma LastError_SetError [simp]:
  "LastError g (SetError h m r) = (if g = h then m else LastError g r)"
  by (simp add: LastError_def SetError_def)

lemma Get_SetError [simp]: "registry_Get g (SetError h m r) = registry_Get g r"
  by (simp add: registry_Get_def SetError_def)

lemma counter_SetError [simp]: "rg_counter (SetError h m r) = rg_counter r"
  by (simp add: SetError_def)

lemma put_fs_frame [simp]:
  "LastError g (put_fs h fs r) = LastError g r" "rg_counter (put_fs h fs r) = rg_counter r"
  "registry_Get g (put_fs h fs r) = (if g = h then Some fs else registry_Get g r)"
  by (simp_all add: LastError_def put_fs_def registry_Get_def)

lemma bridge_end_ok:
  assumes "\<And>s' e. out = (s', Fail e) \<Longrightarrow> posix_err e" and "failed bad" and "\<And>x. \<not> failed (answer x)"
  shows "call_ok h s (bridge_end h bad answer out s)"
proof -
  obtain fs w r where out: "out = ((fs, w), r)" by (metis prod.collapse)
  show ?thesis
  proof (cases r)
    case (Fail e)
    then have "error_text e \<noteq> []" using assms(1)[of "(fs, w)" e] out posix_err_text by simp
    with Fail out assms(2) show ?thesis by (simp add: call_ok_def bridge_end_def)
  qed (use out assms(3) in \<open>auto simp: call_ok_def bridge_end_def returned_def\<close>)
qed

lemma resolve_ok:
  assumes "failed bad" and "\<And>fs. registry_Get h (fst s) = Some fs \<Longrightarrow> call_ok h s (body fs)"
  shows "call_ok h s (resolveFS h bad body s)"
  using assms by (auto simp: resolveFS_def call_ok_def errUnknownHandle_def split: option.splits)

lemma plain_out_Fail: "plain_out x w = (s', Fail e) \<Longrightarrow> x = (fst x, Some e)"
  by (cases x) (auto simp: plain_out_def split: option.splits)

text \<open>
  A call through the C interface concerns its own handle only: filesystems and error slots
  of all other handles stay as they are. When it returns, it reports a failure exactly when
  the error slot of its handle holds a message afterwards, also for an unknown handle; so a
  host may ask for the last error after a failure and never sees a stale one after a success.
\<close>

theorem bridge_reports_errors:
  assumes "bridge_run be env h call s = (s', r)"
  shows "(\<forall>g. g \<noteq> h \<longrightarrow> registry_Get g (fst s') = registry_Get g (fst s) \<and>
       skills_fs_last_error g s' = skills_fs_last_error g s) \<and>
    (r \<noteq> CWait \<and> r \<noteq> CPanic \<longrightarrow> (r = CInt (- 1) \<or> r = CNil \<longleftrightarrow> skills_fs_last_error h s' \<noteq> None))"
proof -
  have f: "failed (CInt (- 1))" "failed CNil" "\<not> failed (CInt 0)" "\<not> failed (c_buffer b)" for b
    by (simp_all add: failed_def c_buffer_def)
  have pl: "plain_entry (zero_entry\<lparr>me_Kind := k, me_Mode := m, me_Ops := ops\<rparr>)"
    "plain_entry (zero_entry\<lparr>me_Kind := k, me_Mode := m\<rparr>)" for k m ops
    by (simp_all add: plain_entry_def zero_entry_def)
  have panic: "call_ok h s (s, CPanic)" by (simp add: call_ok_def returned_def)
  have "call_ok h s (bridge_run be env h call s)"
    by (cases call)
      (auto simp: bridge_defs f panic intro!: resolve_ok bridge_end_ok dest!: plain_out_Fail dest: errs err_Mount_plain[OF pl(1)] err_Mount_plain[OF pl(2)])
  with assms show ?thesis
    by (auto simp: call_ok_def skills_fs_last_error_def returned_def failed_def Let_def)
qed

definition text_env :: bridge_env where
  "text_env = \<lparr>be_stat = sd_path, be_dirents = (\<lambda>ds. concat (map dd_name ds))\<rparr>"

lemma bridge_reports_errors_witness:
  "skills_fs_last_error 7 (fst (bridge_run text_env clock_env 7 (BUnmount ''/a'') (registry_New, 0))) \<noteq> None"
proof -
  obtain s' r where o: "bridge_run text_env clock_env 7 (BUnmount ''/a'') (registry_New, 0 :: int) = (s', r)"
    by fastforce
  moreover from o have "r = CInt (- 1)"
    by (simp add: skills_fs_unmount_def resolveFS_def registry_Get_def registry_New_def)
  ultimately show ?thesis using bridge_reports_errors[OF o] by simp
qed

end
