(* ===== verification/Adapter.thy ===== *)
theory Adapter
  imports Prelude Complex_Main
begin

text \<open>
  adapter/adapter.go: the options every adapter is mounted with, and the deadline of a
  shutdown. A float64 rate is a rational number; a context is whether it has a deadline.
\<close>

record mount_options =
  mo_ReadOnly :: bool
  mo_AllowOther :: bool
  mo_TLSCertFile :: string
  mo_TLSKeyFile :: string
  mo_AllowedOrigins :: "string list"
  mo_EnableGzip :: bool
  mo_ShutdownTimeout :: duration
  mo_RateLimitRPS :: rat
  mo_RateLimitBurst :: int
  mo_CORSOrigins :: "string list"
  mo_MaxConnections :: int
  mo_Debug :: bool
  mo_MaxRequestSize :: int
  mo_MaxResponseSize :: int
  mo_MaxPropfindDepth :: int
  mo_MaxBatchSize :: int
  mo_PropfindCacheTTL :: duration

text \<open>The options that a caller leaves out.\<close>

definition plain_opts :: mount_options where
  "plain_opts =
     \<lparr>mo_ReadOnly = False, mo_AllowOther = False, mo_TLSCertFile = [], mo_TLSKeyFile = [],
      mo_AllowedOrigins = [], mo_EnableGzip = False, mo_ShutdownTimeout = 0, mo_RateLimitRPS = 0,
      mo_RateLimitBurst = 0, mo_CORSOrigins = [], mo_MaxConnections = 0, mo_Debug = False,
      mo_MaxRequestSize = 0, mo_MaxResponseSize = 0, mo_MaxPropfindDepth = 0, mo_MaxBatchSize = 0,
      mo_PropfindCacheTTL = 0\<rparr>"

definition DefaultShutdownTimeout :: duration where
  "DefaultShutdownTimeout = 30 * 1000000000"

text \<open>The timeout set on a context that has or has not a deadline of its own.\<close>

definition ShutdownContext :: "mount_options \<Rightarrow> bool \<Rightarrow> duration option" where
  "ShutdownContext o1 has_deadline =
     (let timeout = (if mo_ShutdownTimeout o1 \<le> 0 then DefaultShutdownTimeout else mo_ShutdownTimeout o1)
      in if has_deadline then None else Some timeout)"

end
