(* ===== verification/WebDav.thy ===== *)
theory WebDav
  imports Adapter FsOps Paths
begin

text \<open>
  The WebDAV server, adapter/webdav/webdav.go: every handler of a request, from the method to
  the response, on the state of the engine and the property cache.

  A request carries its headers under the names the code asks for; http.Header.Get gives the
  empty string for an absent one. A handler fills a response; http.Error and the implicit
  status 200 of the first Write are those of net/http. What the code computes with the
  libraries for digests, compression, URLs, base64, XML, dates and glob patterns is a function
  of the record \<open>server\<close>. A handler ends with a response, or it waits on a stream, or it panics
  (net/http then drops the connection).
\<close>

section \<open>Requests and responses\<close>

text \<open>A body may break off before its end: \<open>rq_Broken\<close>.\<close>

record http_request =
  rq_Method :: string
  rq_Path :: string
  rq_Header :: "(string \<times> string) list"
  rq_Body :: bytes
  rq_Broken :: bool

definition get_header :: "http_request \<Rightarrow> string \<Rightarrow> string" where
  "get_header rq name = (case map_of (rq_Header rq) name of None \<Rightarrow> [] | Some v \<Rightarrow> v)"

record http_response =
  rs_Status :: "nat option"
  rs_Header :: "(string \<times> string) list"
  rs_Body :: bytes

definition new_response :: http_response where
  "new_response = \<lparr>rs_Status = None, rs_Header = [], rs_Body = []\<rparr>"

definition set_header :: "string \<Rightarrow> string \<Rightarrow> http_response \<Rightarrow> http_response" where
  "set_header k v rs = rs\<lparr>rs_Header := mput k v (rs_Header rs)\<rparr>"

definition write_header :: "nat \<Rightarrow> http_response \<Rightarrow> http_response" where
  "write_header code rs = (if rs_Status rs = None then rs\<lparr>rs_Status := Some code\<rparr> else rs)"

definition write_bytes :: "bytes \<Rightarrow> http_response \<Rightarrow> http_response" where
  "write_bytes b rs = (write_header 200 rs)\<lparr>rs_Body := rs_Body rs @ b\<rparr>"

definition http_Error :: "string \<Rightarrow> nat \<Rightarrow> http_response \<Rightarrow> http_response" where
  "http_Error msg code rs =
     write_bytes (msg @ [CHR 0x0A]) (write_header code
       (set_header ''X-Content-Type-Options'' ''nosniff''
         (set_header ''Content-Type'' ''text/plain; charset=utf-8''
           (rs\<lparr>rs_Header := mdel ''Content-Length'' (rs_Header rs)\<rparr>))))"

text \<open>http.StatusText on the codes of \<open>HTTPStatusFromError\<close>.\<close>

definition status_text :: "nat \<Rightarrow> string" where
  "status_text code =
     (if code = 400 then ''Bad Request'' else if code = 403 then ''Forbidden''
      else if code = 404 then ''Not Found'' else if code = 408 then ''Request Timeout''
      else if code = 409 then ''Conflict'' else if code = 500 then ''Internal Server Error''
      else if code = 501 then ''Not Implemented'' else if code = 503 then ''Service Unavailable''
      else if code = 507 then ''Insufficient Storage'' else [])"

definition writeError :: "go_error \<Rightarrow> http_response \<Rightarrow> http_response" where
  "writeError e rs = (let code = HTTPStatusFromError (Some e) in http_Error (status_text code) code rs)"

section \<open>XML structures\<close>

record dav_prop =
  dp_DisplayName :: string
  dp_GetContentLength :: int
  dp_GetContentType :: string
  dp_GetETag :: string
  dp_Collection :: bool
  dp_CreationDate :: string
  dp_GetLastModified :: string
  dp_QuotaAvailableBytes :: int
  dp_QuotaUsedBytes :: int

record dav_response =
  dr_Href :: string
  dr_Prop :: dav_prop
  dr_Status :: string

record lock_discovery =
  ld_Depth :: string
  ld_Owner :: string
  ld_Timeout :: string
  ld_LockToken :: string

definition empty_prop :: dav_prop where
  "empty_prop = \<lparr>dp_DisplayName = [], dp_GetContentLength = 0, dp_GetContentType = [], dp_GetETag = [],
     dp_Collection = False, dp_CreationDate = [], dp_GetLastModified = [],
     dp_QuotaAvailableBytes = 0, dp_QuotaUsedBytes = 0\<rparr>"

section \<open>The server\<close>

text \<open>
  \<open>sv_sha8\<close> is the hexadecimal text of the first 8 bytes of the SHA-256 digest, \<open>sv_url\<close> the path
  of a parsed URL, \<open>sv_search\<close> the literal of a decoded search request, \<open>sv_match\<close> is
  path.Match (False for a bad pattern), \<open>sv_health\<close> the JSON text of the health report.
\<close>

record 'w server =
  sv_env :: "'w env"
  sv_opts :: mount_options
  sv_sha8 :: "bytes \<Rightarrow> string"
  sv_gzip :: "bytes \<Rightarrow> bytes"
  sv_url :: "string \<Rightarrow> string option"
  sv_base64 :: "string \<Rightarrow> string option"
  sv_multistatus :: "dav_response list \<Rightarrow> bytes"
  sv_lock :: "lock_discovery \<Rightarrow> bytes"
  sv_search :: "bytes \<Rightarrow> string option"
  sv_match :: "string \<Rightarrow> string \<Rightarrow> bool"
  sv_rfc3339 :: "time \<Rightarrow> string"
  sv_httptime :: "time \<Rightarrow> string"
  sv_health :: "(string \<times> string) list \<Rightarrow> bytes"

section \<open>The property cache\<close>

record prop_cache =
  pc_entries :: "(string \<times> ((stat \<times> string) \<times> time)) list"
  pc_ttl :: duration

definition newPropCache :: "duration \<Rightarrow> prop_cache option" where
  "newPropCache ttl = (if ttl \<le> 0 then None else Some \<lparr>pc_entries = [], pc_ttl = ttl\<rparr>)"

definition pc_get :: "string \<Rightarrow> time \<Rightarrow> prop_cache option \<Rightarrow> (stat \<times> string) option" where
  "pc_get path now c =
     (case c of
        None \<Rightarrow> None
      | Some pc \<Rightarrow>
          (case map_of (pc_entries pc) path of
             None \<Rightarrow> None
           | Some (v, expires) \<Rightarrow> if now > expires then None else Some v))"

definition pc_set :: "string \<Rightarrow> stat \<Rightarrow> string \<Rightarrow> time \<Rightarrow> prop_cache option \<Rightarrow> prop_cache option" where
  "pc_set path st etag now c =
     map_option (\<lambda>pc. pc\<lparr>pc_entries := mput path ((st, etag), now + pc_ttl pc) (pc_entries pc)\<rparr>) c"

definition pc_invalidate :: "string \<Rightarrow> prop_cache option \<Rightarrow> prop_cache option" where
  "pc_invalidate path c =
     map_option (\<lambda>pc. pc\<lparr>pc_entries :=
       filter (\<lambda>(p, v). \<not> (p = path \<or> has_prefix p (path @ ''/''))) (mdel path (pc_entries pc))\<rparr>) c"

section \<open>Functions on texts\<close>

definition etag :: "'w server \<Rightarrow> bytes \<Rightarrow> string" where
  "etag sv data = [CHR 0x22] @ sv_sha8 sv data @ [CHR 0x22]"

definition matchETag :: "string \<Rightarrow> string \<Rightarrow> bool" where
  "matchETag reqETag currentETag \<longleftrightarrow> reqETag = currentETag \<or> reqETag = ''*''"

fun contentTypeFromKind :: "node_kind \<Rightarrow> string" where
  "contentTypeFromKind KindDir = ''httpd/unix-directory''"
| "contentTypeFromKind KindDynamicDir = ''httpd/unix-directory''"
| "contentTypeFromKind KindAPI = ''application/json''"
| "contentTypeFromKind KindStream = ''application/octet-stream''"
| "contentTypeFromKind _ = ''application/octet-stream''"

text \<open>\<open>p\<close> with one slash at its end stripped, unless a segment is empty or a dot segment.\<close>

definition sanitizePath :: "string \<Rightarrow> string" where
  "sanitizePath p =
     (if p = [] \<or> p = ''/'' then ''/''
      else if hd p \<noteq> CHR ''/'' then []
      else (let q = (if last p = CHR ''/'' then butlast p else p)
            in if list_ex (\<lambda>seg. seg = [] \<or> seg = ''.'' \<or> seg = ''..'') (split_on (CHR ''/'') (tl q))
               then [] else q))"

text \<open>fmt.Sscanf with %d into an int64 and into a uint32 (ASCII blanks only).\<close>

definition is_blank :: "char \<Rightarrow> bool" where
  "is_blank c \<longleftrightarrow> c \<in> {CHR 0x09, CHR 0x0B, CHR 0x0C, CHR 0x0D, CHR '' ''}"

definition is_digit :: "char \<Rightarrow> bool" where
  "is_digit c \<longleftrightarrow> CHR ''0'' \<le> c \<and> c \<le> CHR ''9''"

definition dec_val :: "string \<Rightarrow> int" where
  "dec_val ds = foldl (\<lambda>a c. 10 * a + (of_char c - 48)) 0 ds"

definition scan_int :: "string \<Rightarrow> int option" where
  "scan_int s =
     (let t = dropWhile is_blank s;
          neg = (t \<noteq> [] \<and> hd t = CHR ''-'');
          u = (if t \<noteq> [] \<and> (hd t = CHR ''-'' \<or> hd t = CHR ''+'') then tl t else t);
          ds = takeWhile is_digit u;
          v = (if neg then - dec_val ds else dec_val ds)
      in if ds = [] \<or> v < - (2 ^ 63) \<or> 2 ^ 63 \<le> v then None else Some v)"

definition scan_uint32 :: "string \<Rightarrow> u32 option" where
  "scan_uint32 s =
     (let ds = takeWhile is_digit (dropWhile is_blank s); v = dec_val ds
      in if ds = [] \<or> 2 ^ 32 \<le> v then None else Some (word_of_int v))"

text \<open>strings.SplitN with a limit of two: the parts before and after the first separator.\<close>

definition cut_at :: "char \<Rightarrow> string \<Rightarrow> (string \<times> string) option" where
  "cut_at c s = (if c \<in> set s then Some (takeWhile (\<lambda>x. x \<noteq> c) s, tl (dropWhile (\<lambda>x. x \<noteq> c) s)) else None)"

text \<open>64-bit wrap-around.\<close>

definition wrap64 :: "int \<Rightarrow> int" where
  "wrap64 x = signed_take_bit 63 x"

definition bytes_prefix :: string where
  "bytes_prefix = ''bytes=''"

text \<open>The bounds a range names, before they are checked: a suffix, or a start with an end.\<close>

definition range_bounds :: "string \<Rightarrow> string \<Rightarrow> int \<Rightarrow> (int \<times> int) option" where
  "range_bounds a b len =
     (if a = [] then
        (case scan_int b of
           None \<Rightarrow> None
         | Some n \<Rightarrow> (let start = wrap64 (len - n) in Some (if start < 0 then 0 else start, len - 1)))
      else
        (case scan_int a of
           None \<Rightarrow> None
         | Some start \<Rightarrow>
             (if b = [] then Some (start, len - 1)
              else (case scan_int b of None \<Rightarrow> None | Some e \<Rightarrow> Some (start, e)))))"

definition parseRange :: "string \<Rightarrow> int \<Rightarrow> (int \<times> int) option" where
  "parseRange rng len =
     (if \<not> has_prefix rng bytes_prefix then None
      else (case cut_at (CHR ''-'') (drop (length bytes_prefix) rng) of
              None \<Rightarrow> None
            | Some (a, b) \<Rightarrow>
                (case range_bounds a b len of
                   None \<Rightarrow> None
                 | Some (start, e) \<Rightarrow>
                     (if start < 0 \<or> start \<ge> len \<or> e < start then None
                      else Some (start, if e \<ge> len then len - 1 else e)))))"

definition dec_int :: "int \<Rightarrow> string" where
  "dec_int x = (if x < 0 then ''-'' @ dec_text (nat (- x)) else dec_text (nat x))"

text \<open>path.Base\<close>

definition path_Base :: "string \<Rightarrow> string" where
  "path_Base p =
     (if p = [] then ''.''
      else (let t = rev (dropWhile (\<lambda>c. c = CHR ''/'') (rev p));
                b = rev (takeWhile (\<lambda>c. c \<noteq> CHR ''/'') (rev t))
            in if b = [] then ''/'' else b))"

text \<open>The password is not looked at, and a name that is no number is the user 0.\<close>

definition basic_prefix :: string where
  "basic_prefix = ''Basic ''"

definition callerFromRequest :: "'w server \<Rightarrow> http_request \<Rightarrow> caller_identity" where
  "callerFromRequest sv rq =
     (let auth = get_header rq ''Authorization''
      in if \<not> has_prefix auth basic_prefix then anonymous
         else (case sv_base64 sv (drop (length basic_prefix) auth) of
                 None \<Rightarrow> anonymous
               | Some decoded \<Rightarrow>
                   (case cut_at (CHR '':'') decoded of
                      None \<Rightarrow> anonymous
                    | Some (user, pass) \<Rightarrow>
                        (let uid = (case scan_uint32 user of None \<Rightarrow> 0 | Some u \<Rightarrow> u)
                         in anonymous\<lparr>ca_UID := uid, ca_GID := uid\<rparr>))))"

definition destinationPath :: "'w server \<Rightarrow> http_request \<Rightarrow> string option" where
  "destinationPath sv rq =
     (let dst = get_header rq ''Destination''
      in if dst = [] then None
         else (case sv_url sv dst of
                 None \<Rightarrow> None
               | Some p \<Rightarrow> Some (if p = [] then ''/'' else p)))"

end
