(* ===== verification/DavHandlers.thy ===== *)
theory DavHandlers
  imports WebDav
begin

text \<open>
  The handlers of adapter/webdav/webdav.go. The state is the engine with its world and the
  property cache. A handler calls the engine and goes on with what the call returned; a call
  that waits or panics ends the handler.
\<close>

section \<open>Calling the engine\<close>

type_synonym 'w dav = "prop_cache option \<times> 'w fsw"

datatype 'a http_end = Done 'a | Failed go_error | Hangs | Aborts | OutOfFuel

definition lift_call :: "('w fsw \<Rightarrow> 'w fsw \<times> 'a res) \<Rightarrow> 'w dav \<Rightarrow> 'w dav \<times> 'a http_end" where
  "lift_call op s =
     (let (fsw, r) = op (snd s)
      in ((fst s, fsw),
          case r of Ok x \<Rightarrow> Done x | Fail e \<Rightarrow> Failed e | Wait rest \<Rightarrow> Hangs | Crash \<Rightarrow> Aborts))"

definition lift_err ::
  "('w \<Rightarrow> fs_state \<Rightarrow> fs_state \<times> go_error option) \<Rightarrow> 'w dav \<Rightarrow> 'w dav \<times> unit http_end" where
  "lift_err op s =
     (let (c, fs, w) = s; (fs', err) = op w fs
      in ((c, fs', w), case err of None \<Rightarrow> Done () | Some e \<Rightarrow> Failed e))"

definition next_do ::
  "'w dav \<times> 'a http_end \<Rightarrow> ('w dav \<Rightarrow> go_error + 'a \<Rightarrow> 'w dav \<times> 'b http_end) \<Rightarrow> 'w dav \<times> 'b http_end" where
  "next_do out k =
     (case out of
        (s, Done x) \<Rightarrow> k s (Inr x)
      | (s, Failed e) \<Rightarrow> k s (Inl e)
      | (s, Hangs) \<Rightarrow> (s, Hangs)
      | (s, Aborts) \<Rightarrow> (s, Aborts)
      | (s, OutOfFuel) \<Rightarrow> (s, OutOfFuel))"

lemma next_do_simps [simp]:
  "next_do (s, Done x) k = k s (Inr x)" "next_do (s, Failed e) k = k s (Inl e)"
  "next_do (s, Hangs) k = (s, Hangs)" "next_do (s, Aborts) k = (s, Aborts)"
  "next_do (s, OutOfFuel) k = (s, OutOfFuel)"
  by (simp_all add: next_do_def)

lemma next_call:
  "snd (op (snd s)) = Ok x \<Longrightarrow> next_do (lift_call op s) k = k (fst s, fst (op (snd s))) (Inr x)"
  "snd (op (snd s)) = Fail e \<Longrightarrow> next_do (lift_call op s) k = k (fst s, fst (op (snd s))) (Inl e)"
  by (simp_all add: lift_call_def Let_def split_beta)

abbreviation (input) dav_read :: "'w server \<Rightarrow> string \<Rightarrow> caller_identity \<Rightarrow> 'w dav \<Rightarrow> 'w dav \<times> bytes http_end" where
  "dav_read sv p c s \<equiv> lift_call (fs_Read (sv_env sv) p c) s"

abbreviation (input) dav_stat :: "'w server \<Rightarrow> string \<Rightarrow> caller_identity \<Rightarrow> 'w dav \<Rightarrow> 'w dav \<times> stat http_end" where
  "dav_stat sv p c s \<equiv> lift_call (fs_Stat (sv_env sv) p c) s"

abbreviation (input) dav_mount :: "'w server \<Rightarrow> string \<Rightarrow> mount_entry \<Rightarrow> 'w dav \<Rightarrow> 'w dav \<times> unit http_end" where
  "dav_mount sv p m s \<equiv> lift_err (\<lambda>w. fs_Mount (sv_env sv) w p m) s"

abbreviation (input) dav_unmount :: "'w server \<Rightarrow> string \<Rightarrow> 'w dav \<Rightarrow> 'w dav \<times> unit http_end" where
  "dav_unmount sv p s \<equiv> lift_err (\<lambda>w. fs_Unmount (sv_env sv) w p) s"

definition dav_invalidate :: "string \<Rightarrow> 'w dav \<Rightarrow> 'w dav" where
  "dav_invalidate p s = (pc_invalidate p (fst s), snd s)"

definition read_only_error :: "http_response \<Rightarrow> http_response" where
  "read_only_error rs = http_Error ''read-only filesystem'' 403 rs"

definition precondition_failed :: "http_response \<Rightarrow> http_response" where
  "precondition_failed rs = http_Error ''precondition failed'' 412 rs"

section \<open>GET, HEAD and PUT\<close>

text \<open>The partial response; slicing out of bounds panics.\<close>

definition send_range :: "string \<Rightarrow> bytes \<Rightarrow> http_response \<Rightarrow> http_response http_end" where
  "send_range rng data rs =
     (case parseRange rng (int (length data)) of
        None \<Rightarrow> Done (http_Error ''range not satisfiable'' 416 rs)
      | Some (start, e) \<Rightarrow>
          (if 0 \<le> start \<and> start \<le> e + 1 \<and> e + 1 \<le> int (length data)
           then Done (write_bytes (take (nat (e + 1 - start)) (drop (nat start) data))
                  (write_header 206
                    (set_header ''Content-Length'' (dec_int (e - start + 1))
                      (set_header ''Content-Range''
                        (''bytes '' @ dec_int start @ ''-'' @ dec_int e @ ''/'' @ dec_text (length data)) rs))))
           else Aborts))"

definition handleGet ::
  "'w server \<Rightarrow> http_request \<Rightarrow> string \<Rightarrow> caller_identity \<Rightarrow> http_response \<Rightarrow> 'w dav \<Rightarrow>
   'w dav \<times> http_response http_end" where
  "handleGet sv rq path caller rs0 s0 =
     next_do (dav_read sv path caller s0) (\<lambda>s r.
       case r of
         Inl e \<Rightarrow> (s, Done (writeError e rs0))
       | Inr data \<Rightarrow>
           (if 0 < mo_MaxResponseSize (sv_opts sv) \<and> mo_MaxResponseSize (sv_opts sv) < int (length data)
            then (s, Done (http_Error ''response too large'' 500 rs0))
            else
              (let tag = etag sv data;
                   rs = set_header ''ETag'' tag rs0;
                   ifNoneMatch = get_header rq ''If-None-Match''
               in if ifNoneMatch \<noteq> [] \<and> matchETag ifNoneMatch tag
                  then (s, Done (write_header 304 rs))
                  else next_do (dav_stat sv path caller s) (\<lambda>s st.
                    let rs1 = (case st of
                                 Inl e \<Rightarrow> rs
                               | Inr x \<Rightarrow> set_header ''Content-Type'' (contentTypeFromKind (st_Kind x)) rs);
                        rng = get_header rq ''Range''
                    in if rng \<noteq> [] then (s, send_range rng data rs1)
                       else (s, Done (write_bytes data
                              (set_header ''Content-Length'' (dec_text (length data)) rs1)))))))"

definition handleHead ::
  "'w server \<Rightarrow> http_request \<Rightarrow> string \<Rightarrow> caller_identity \<Rightarrow> http_response \<Rightarrow> 'w dav \<Rightarrow>
   'w dav \<times> http_response http_end" where
  "handleHead sv rq path caller rs0 s0 =
     next_do (dav_stat sv path caller s0) (\<lambda>s st.
       case st of
         Inl e \<Rightarrow> (s, Done (writeError e rs0))
       | Inr x \<Rightarrow>
           (let finish_head = (\<lambda>rs. write_header 200
                  (set_header ''Content-Length'' (dec_int (st_Size x))
                    (set_header ''Content-Type'' (contentTypeFromKind (st_Kind x)) rs)))
            in if st_Kind x = KindBlob \<or> st_Kind x = KindLink
               then next_do (dav_read sv path caller s) (\<lambda>s r.
                      (s, Done (finish_head
                        (case r of Inl e \<Rightarrow> rs0 | Inr data \<Rightarrow> set_header ''ETag'' (etag sv data) rs0))))
               else (s, Done (finish_head rs0))))"

text \<open>Reading the body through http.MaxBytesReader.\<close>

definition read_body_limited :: "int \<Rightarrow> http_request \<Rightarrow> bytes option" where
  "read_body_limited limit rq =
     (if rq_Broken rq \<or> limit < int (length (rq_Body rq)) then None else Some (rq_Body rq))"

definition put_limit :: "mount_options \<Rightarrow> int" where
  "put_limit o1 = (if 0 < mo_MaxRequestSize o1 then mo_MaxRequestSize o1 else 64 * 1024 * 1024)"

definition put_write ::
  "'w server \<Rightarrow> http_request \<Rightarrow> string \<Rightarrow> caller_identity \<Rightarrow> http_response \<Rightarrow> 'w dav \<Rightarrow>
   'w dav \<times> http_response http_end" where
  "put_write sv rq path caller rs s0 =
     (case read_body_limited (put_limit (sv_opts sv)) rq of
        None \<Rightarrow> (s0, Done (http_Error ''request body too large'' 413 rs))
      | Some data \<Rightarrow>
          next_do (lift_call (fs_Write (sv_env sv) path data caller) s0) (\<lambda>s r.
            case r of
              Inl e \<Rightarrow> (s, Done (writeError e rs))
            | Inr u \<Rightarrow> (dav_invalidate path s, Done (write_header 204 rs))))"

text \<open>
  Whether a PUT may go on to write: a response None says so. The check and the write are calls
  of their own on the engine; \<open>handlePut\<close> makes one after the other, with no lock held between
  them.
\<close>

definition put_check ::
  "'w server \<Rightarrow> http_request \<Rightarrow> string \<Rightarrow> caller_identity \<Rightarrow> http_response \<Rightarrow> 'w dav \<Rightarrow>
   'w dav \<times> http_response option http_end" where
  "put_check sv rq path caller rs s0 =
     (if mo_ReadOnly (sv_opts sv) then (s0, Done (Some (read_only_error rs)))
      else (let ifMatch = get_header rq ''If-Match''
            in if ifMatch = [] then (s0, Done None)
               else next_do (dav_read sv path caller s0) (\<lambda>s cur.
                 (s, case cur of
                       Inl e \<Rightarrow> Done (Some (precondition_failed (set_header ''ETag'' [] rs)))
                     | Inr d \<Rightarrow>
                         (if \<not> matchETag ifMatch (etag sv d) then Done (Some (precondition_failed rs))
                          else Done None)))))"

definition handlePut ::
  "'w server \<Rightarrow> http_request \<Rightarrow> string \<Rightarrow> caller_identity \<Rightarrow> http_response \<Rightarrow> 'w dav \<Rightarrow>
   'w dav \<times> http_response http_end" where
  "handlePut sv rq path caller rs s0 =
     next_do (put_check sv rq path caller rs s0) (\<lambda>s refused.
       case refused of
         Inl e \<Rightarrow> (s, Failed e)
       | Inr (Some rs1) \<Rightarrow> (s, Done rs1)
       | Inr None \<Rightarrow> put_write sv rq path caller rs s)"

section \<open>MKCOL, COPY, MOVE and DELETE\<close>

definition mode_0755 :: u32 where
  "mode_0755 = 493"

definition handleMkcol ::
  "'w server \<Rightarrow> string \<Rightarrow> caller_identity \<Rightarrow> http_response \<Rightarrow> 'w dav \<Rightarrow> 'w dav \<times> http_response http_end" where
  "handleMkcol sv path caller rs s0 =
     (if mo_ReadOnly (sv_opts sv) then (s0, Done (read_only_error rs))
      else next_do (dav_mount sv path (zero_entry\<lparr>me_Kind := KindDir, me_Mode := mode_0755,
                      me_UID := ca_UID caller, me_GID := ca_GID caller\<rparr>) s0) (\<lambda>s r.
             case r of
               Inl e \<Rightarrow> (s, Done (writeError e rs))
             | Inr u \<Rightarrow> (dav_invalidate path s, Done (write_header 201 rs))))"

text \<open>Whether the preconditions hold; a response None says that the handler may go on.\<close>

definition checkCopyMovePreconditions ::
  "'w server \<Rightarrow> http_request \<Rightarrow> string \<Rightarrow> string \<Rightarrow> caller_identity \<Rightarrow> http_response \<Rightarrow> 'w dav \<Rightarrow>
   'w dav \<times> http_response option http_end" where
  "checkCopyMovePreconditions sv rq src dst caller rs s0 =
     (let refuse = Done (Some (precondition_failed rs));
          ifMatch = get_header rq ''If-Match'';
          ifNoneMatch = get_header rq ''If-None-Match'';
          check_dst = (\<lambda>s1.
            if ifNoneMatch = [] then (s1, Done None)
            else if ifNoneMatch = ''*'' then
              next_do (dav_stat sv dst caller s1) (\<lambda>s st.
                (s, case st of Inl e \<Rightarrow> Done None | Inr x \<Rightarrow> refuse))
            else
              next_do (dav_read sv dst caller s1) (\<lambda>s cur.
                (s, case cur of
                      Inl e \<Rightarrow> Done None
                    | Inr d \<Rightarrow> (if matchETag ifNoneMatch (etag sv d) then refuse else Done None))))
      in if ifMatch = [] then check_dst s0
         else next_do (dav_read sv src caller s0) (\<lambda>s cur.
           case cur of
             Inl e \<Rightarrow> (s, refuse)
           | Inr d \<Rightarrow> (if \<not> matchETag ifMatch (etag sv d) then (s, refuse) else check_dst s)))"

definition allowOverwrite ::
  "'w server \<Rightarrow> http_request \<Rightarrow> string \<Rightarrow> caller_identity \<Rightarrow> 'w dav \<Rightarrow> 'w dav \<times> bool http_end" where
  "allowOverwrite sv rq dst caller s0 =
     (let ov = get_header rq ''Overwrite''
      in if ov = [] \<or> ov = ''T'' then (s0, Done True)
         else if ov \<noteq> ''F'' then (s0, Done True)
         else next_do (dav_stat sv dst caller s0) (\<lambda>s st. (s, Done (isl st))))"

definition copyResource ::
  "'w server \<Rightarrow> string \<Rightarrow> string \<Rightarrow> caller_identity \<Rightarrow> 'w dav \<Rightarrow> 'w dav \<times> unit http_end" where
  "copyResource sv src dst caller s0 =
     next_do (dav_stat sv src caller s0) (\<lambda>s r.
       case r of
         Inl e \<Rightarrow> (s, Failed e)
       | Inr st \<Rightarrow>
           (let e0 = zero_entry\<lparr>me_Mode := st_Mode st, me_UID := st_UID st, me_GID := st_GID st\<rparr>;
                copy_data = (\<lambda>mk. next_do (dav_read sv src caller s) (\<lambda>s d.
                  case d of Inl e \<Rightarrow> (s, Failed e) | Inr data \<Rightarrow> dav_mount sv dst (mk data) s))
            in case st_Kind st of
                 KindBlob \<Rightarrow> copy_data (\<lambda>data. e0\<lparr>me_Kind := KindBlob, me_BlobData := data\<rparr>)
               | KindDir \<Rightarrow> dav_mount sv dst (e0\<lparr>me_Kind := KindDir\<rparr>) s
               | KindDynamicDir \<Rightarrow> dav_mount sv dst (e0\<lparr>me_Kind := KindDir\<rparr>) s
               | KindLink \<Rightarrow> copy_data (\<lambda>data. e0\<lparr>me_Kind := KindLink, me_LinkPath := data\<rparr>)
               | _ \<Rightarrow> (s, Failed (PosixError EINVAL (OpOther ''copy'') [] None))))"

text \<open>What COPY and MOVE have in common: the checks, the removal of an existing destination,
  the copy; \<open>after\<close> is what follows a copy that succeeded.\<close>

definition copy_or_move ::
  "('w dav \<Rightarrow> 'w dav \<times> unit http_end) \<Rightarrow> 'w server \<Rightarrow> http_request \<Rightarrow> string \<Rightarrow> caller_identity \<Rightarrow>
   http_response \<Rightarrow> 'w dav \<Rightarrow> 'w dav \<times> http_response http_end" where
  "copy_or_move after sv rq src caller rs s0 =
     (if mo_ReadOnly (sv_opts sv) then (s0, Done (read_only_error rs))
      else
        (case destinationPath sv rq of
           None \<Rightarrow> (s0, Done (http_Error ''bad destination'' 400 rs))
         | Some dst \<Rightarrow>
             next_do (checkCopyMovePreconditions sv rq src dst caller rs s0) (\<lambda>s p.
             case p of
               Inl e \<Rightarrow> (s, Failed e)
             | Inr (Some refused) \<Rightarrow> (s, Done refused)
             | Inr None \<Rightarrow>
             next_do (allowOverwrite sv rq dst caller s) (\<lambda>s ok.
             case ok of
               Inl e \<Rightarrow> (s, Failed e)
             | Inr False \<Rightarrow> (s, Done (precondition_failed rs))
             | Inr True \<Rightarrow>
             next_do (dav_stat sv dst caller s) (\<lambda>s st.
               let s1 = (if isl st then s else fst (dav_unmount sv dst s)) in
             next_do (copyResource sv src dst caller s1) (\<lambda>s r.
             case r of
               Inl e \<Rightarrow> (s, Done (writeError e rs))
             | Inr u \<Rightarrow>
             next_do (after s) (\<lambda>s r.
             case r of
               Inl e \<Rightarrow> (s, Done (writeError e rs))
             | Inr u \<Rightarrow> (dav_invalidate dst (dav_invalidate src s), Done (write_header 204 rs)))))))))"

definition handleCopy where
  "handleCopy sv rq src caller rs s = copy_or_move (\<lambda>s. (s, Done ())) sv rq src caller rs s"

definition handleMove where
  "handleMove sv rq src caller rs s = copy_or_move (\<lambda>s. dav_unmount sv src s) sv rq src caller rs s"

definition handleDelete ::
  "'w server \<Rightarrow> string \<Rightarrow> http_response \<Rightarrow> 'w dav \<Rightarrow> 'w dav \<times> http_response http_end" where
  "handleDelete sv path rs s0 =
     (if mo_ReadOnly (sv_opts sv) then (s0, Done (read_only_error rs))
      else next_do (dav_unmount sv path s0) (\<lambda>s r.
             case r of
               Inl e \<Rightarrow> (s, Done (writeError e rs))
             | Inr u \<Rightarrow> (dav_invalidate path s, Done (write_header 204 rs))))"

section \<open>PROPFIND and SEARCH\<close>

definition is_dir :: "node_kind \<Rightarrow> bool" where
  "is_dir k \<longleftrightarrow> k = KindDir \<or> k = KindDynamicDir"

definition propfindResponseCached :: "'w server \<Rightarrow> time \<Rightarrow> string \<Rightarrow> stat \<Rightarrow> string \<Rightarrow> dav_response" where
  "propfindResponseCached sv now p st etagStr =
     (let modTime = (if st_ModTime st = 0 then now else st_ModTime st)
      in \<lparr>dr_Href = p,
          dr_Prop = \<lparr>dp_DisplayName = path_Base p, dp_GetContentLength = st_Size st,
            dp_GetContentType = contentTypeFromKind (st_Kind st), dp_GetETag = etagStr,
            dp_Collection = is_dir (st_Kind st), dp_CreationDate = sv_rfc3339 sv modTime,
            dp_GetLastModified = sv_httptime sv modTime, dp_QuotaAvailableBytes = 2 ^ 62,
            dp_QuotaUsedBytes = 0\<rparr>,
          dr_Status = ''HTTP/1.1 200 OK''\<rparr>)"

definition data_etag :: "'w server \<Rightarrow> bytes \<Rightarrow> string" where
  "data_etag sv data = (if 0 < length data then etag sv data else [])"

definition propfindResponse :: "'w server \<Rightarrow> time \<Rightarrow> string \<Rightarrow> stat \<Rightarrow> bytes \<Rightarrow> dav_response" where
  "propfindResponse sv now p st data = propfindResponseCached sv now p st (data_etag sv data)"

definition dav_now :: "'w server \<Rightarrow> 'w dav \<Rightarrow> time" where
  "dav_now sv s = env_now (sv_env sv) (snd (snd s))"

text \<open>The stat and the entity tag of a path, from the cache or from the engine.\<close>

definition cached_props ::
  "'w server \<Rightarrow> string \<Rightarrow> caller_identity \<Rightarrow> 'w dav \<Rightarrow> 'w dav \<times> (stat \<times> string) http_end" where
  "cached_props sv p caller s0 =
     (case pc_get p (dav_now sv s0) (fst s0) of
        Some v \<Rightarrow> (s0, Done v)
      | None \<Rightarrow>
          next_do (dav_stat sv p caller s0) (\<lambda>s r.
            case r of
              Inl e \<Rightarrow> (s, Failed e)
            | Inr st \<Rightarrow>
                next_do (dav_read sv p caller s) (\<lambda>s d.
                  let tag = data_etag sv (case d of Inl e \<Rightarrow> [] | Inr data \<Rightarrow> data)
                  in ((pc_set p st tag (dav_now sv s) (fst s), snd s), Done (st, tag)))))"

text \<open>The loop over the children: a child that fails is left out.\<close>

fun each_child ::
  "('c \<Rightarrow> 'w dav \<Rightarrow> 'w dav \<times> 'r list http_end) \<Rightarrow> 'c list \<Rightarrow> 'w dav \<Rightarrow> 'w dav \<times> 'r list http_end" where
  "each_child f [] s = (s, Done [])"
| "each_child f (c # cs) s =
     next_do (f c s) (\<lambda>s r.
       next_do (each_child f cs s) (\<lambda>s rest.
         (s, case rest of
               Inl e \<Rightarrow> Failed e
             | Inr rs \<Rightarrow> Done ((case r of Inl e \<Rightarrow> [] | Inr x \<Rightarrow> x) @ rs))))"

primrec propfindRecursive ::
  "nat \<Rightarrow> 'w server \<Rightarrow> int \<Rightarrow> caller_identity \<Rightarrow> string \<Rightarrow> int \<Rightarrow> 'w dav \<Rightarrow>
   'w dav \<times> dav_response list http_end" where
  "propfindRecursive 0 sv maxDepth caller p currentDepth s0 = (s0, OutOfFuel)"
| "propfindRecursive (Suc n) sv maxDepth caller p currentDepth s0 =
     next_do (cached_props sv p caller s0) (\<lambda>s r.
       case r of
         Inl e \<Rightarrow> (s, Failed e)
       | Inr (st, tag) \<Rightarrow>
           (let entry = propfindResponseCached sv (dav_now sv s) p st tag
            in if 0 \<le> maxDepth \<and> maxDepth \<le> currentDepth \<or> \<not> is_dir (st_Kind st)
               then (s, Done [entry])
               else next_do (lift_call (fs_Readdir (sv_env sv) p caller) s) (\<lambda>s r.
                 case r of
                   Inl e \<Rightarrow> (s, Failed e)
                 | Inr children \<Rightarrow>
                     next_do (each_child (\<lambda>name. propfindRecursive n sv maxDepth caller
                                  (path_Join p name) (currentDepth + 1)) (map de_Name children) s)
                       (\<lambda>s r. (s, case r of Inl e \<Rightarrow> Failed e | Inr rs \<Rightarrow> Done (entry # rs))))))"

definition propfind_depth :: "mount_options \<Rightarrow> string \<Rightarrow> int" where
  "propfind_depth o1 depth =
     (let maxDepth = (if mo_MaxPropfindDepth o1 = 0 then 3 else mo_MaxPropfindDepth o1)
      in if depth = ''0'' then 0 else if depth = ''1'' then 1
         else if depth = ''infinity'' then (if maxDepth < 0 then - 1 else maxDepth)
         else 0)"

definition buildPropfindEntries ::
  "nat \<Rightarrow> 'w server \<Rightarrow> string \<Rightarrow> string \<Rightarrow> caller_identity \<Rightarrow> 'w dav \<Rightarrow> 'w dav \<times> dav_response list http_end" where
  "buildPropfindEntries n sv p depth caller s =
     propfindRecursive n sv (propfind_depth (sv_opts sv) depth) caller p 0 s"

definition send_multistatus :: "'w server \<Rightarrow> dav_response list \<Rightarrow> http_response \<Rightarrow> http_response" where
  "send_multistatus sv entries rs =
     write_bytes (sv_multistatus sv entries)
       (write_header 207 (set_header ''Content-Type'' ''text/xml; charset=utf-8'' rs))"

definition handlePropfind ::
  "nat \<Rightarrow> 'w server \<Rightarrow> http_request \<Rightarrow> string \<Rightarrow> caller_identity \<Rightarrow> http_response \<Rightarrow> 'w dav \<Rightarrow>
   'w dav \<times> http_response http_end" where
  "handlePropfind n sv rq p caller rs s0 =
     (let depth = (let d = get_header rq ''Depth'' in if d = [] then ''infinity'' else d)
      in next_do (buildPropfindEntries n sv p depth caller s0) (\<lambda>s r.
           (s, Done (case r of
                       Inl e \<Rightarrow> writeError e rs
                     | Inr entries \<Rightarrow> send_multistatus sv entries rs))))"

definition search_entry ::
  "'w server \<Rightarrow> caller_identity \<Rightarrow> mount_entry \<Rightarrow> 'w dav \<Rightarrow> 'w dav \<times> dav_response list http_end" where
  "search_entry sv caller e s0 =
     next_do (dav_read sv (me_Path e) caller s0) (\<lambda>s d.
       let data = (case d of Inl err \<Rightarrow> [] | Inr x \<Rightarrow> x)
       in (s, Done [propfindResponse sv (dav_now sv s) (me_Path e)
                \<lparr>st_Path = me_Path e, st_Kind = me_Kind e, st_Mode = me_Mode e, st_UID = me_UID e,
                 st_GID = me_GID e, st_Size = int (length data), st_ModTime = 0\<rparr> data]))"

definition searchEntries ::
  "'w server \<Rightarrow> string \<Rightarrow> caller_identity \<Rightarrow> 'w dav \<Rightarrow> 'w dav \<times> dav_response list http_end" where
  "searchEntries sv pattern caller s =
     each_child (search_entry sv caller)
       (filter (\<lambda>e. sv_match sv pattern (path_Base (me_Path e))) (fs_Snapshot (fst (snd s)))) s"

definition like_pattern :: "string \<Rightarrow> string" where
  "like_pattern pattern =
     map (\<lambda>c. if c = CHR ''_'' then CHR ''?'' else c) (map (\<lambda>c. if c = CHR ''%'' then CHR ''*'' else c) pattern)"

definition handleSearch ::
  "'w server \<Rightarrow> http_request \<Rightarrow> caller_identity \<Rightarrow> http_response \<Rightarrow> 'w dav \<Rightarrow>
   'w dav \<times> http_response http_end" where
  "handleSearch sv rq caller rs s0 =
     (case sv_search sv (rq_Body rq) of
        None \<Rightarrow> (s0, Done (http_Error ''invalid search body'' 400 rs))
      | Some pattern \<Rightarrow>
          next_do (searchEntries sv (like_pattern pattern) caller s0) (\<lambda>s r.
            (s, Done (case r of
                        Inl e \<Rightarrow> writeError e rs
                      | Inr entries \<Rightarrow> send_multistatus sv entries rs))))"

section \<open>The stubs and the reports\<close>

definition handleProppatch ::
  "'w server \<Rightarrow> string \<Rightarrow> http_response \<Rightarrow> 'w dav \<Rightarrow> 'w dav \<times> http_response http_end" where
  "handleProppatch sv p rs s =
     (if mo_ReadOnly (sv_opts sv) then (s, Done (read_only_error rs))
      else (dav_invalidate p s,
            Done (send_multistatus sv
              [\<lparr>dr_Href = p, dr_Prop = empty_prop, dr_Status = ''HTTP/1.1 200 OK''\<rparr>] rs)))"

definition handleLock :: "'w server \<Rightarrow> http_response \<Rightarrow> 'w dav \<Rightarrow> 'w dav \<times> http_response http_end" where
  "handleLock sv rs s =
     (if mo_ReadOnly (sv_opts sv) then (s, Done (read_only_error rs))
      else (let token = ''opaquelocktoken:'' @ dec_int (dav_now sv s)
            in (s, Done (write_bytes
                  (sv_lock sv \<lparr>ld_Depth = ''infinity'', ld_Owner = ''skills-fs'',
                     ld_Timeout = ''Second-3600'', ld_LockToken = token\<rparr>)
                  (write_header 200 (set_header ''Lock-Token'' (''<'' @ token @ ''>'')
                    (set_header ''Content-Type'' ''text/xml; charset=utf-8'' rs)))))))"

definition handleUnlock :: "'w server \<Rightarrow> http_response \<Rightarrow> 'w dav \<Rightarrow> 'w dav \<times> http_response http_end" where
  "handleUnlock sv rs s =
     (s, Done (if mo_ReadOnly (sv_opts sv) then read_only_error rs else write_header 204 rs))"

definition handleOptions :: "http_response \<Rightarrow> http_response" where
  "handleOptions rs =
     write_header 200 (set_header ''DAV'' ''1''
       (set_header ''Allow'' ''GET, HEAD, PUT, DELETE, MKCOL, COPY, MOVE, PROPFIND, PROPPATCH, OPTIONS'' rs))"

definition handleHealthz :: "'w server \<Rightarrow> 'w dav \<Rightarrow> http_response \<Rightarrow> http_response" where
  "handleHealthz sv s rs =
     write_bytes (sv_health sv (ProviderHealth (sv_env sv) (snd (snd s)) (fst (snd s))))
       (write_header 200 (set_header ''Content-Type'' ''application/json; charset=utf-8'' rs))"

definition handleMetrics :: "'w server \<Rightarrow> 'w dav \<Rightarrow> http_response \<Rightarrow> http_response" where
  "handleMetrics sv s rs =
     write_bytes (fs_Prometheus (sv_env sv) (fst (snd s)))
       (write_header 200 (set_header ''Content-Type'' ''text/plain; version=0.0.4; charset=utf-8'' rs))"

section \<open>Dispatch\<close>

definition guarded_methods :: "string list" where
  "guarded_methods = [''PUT'', ''DELETE'', ''PATCH'', ''POST'', ''MKCOL'', ''COPY'', ''MOVE'', ''LOCK'', ''UNLOCK'', ''PROPPATCH'']"

definition dispatch ::
  "nat \<Rightarrow> 'w server \<Rightarrow> http_request \<Rightarrow> string \<Rightarrow> caller_identity \<Rightarrow> http_response \<Rightarrow> 'w dav \<Rightarrow>
   'w dav \<times> http_response http_end" where
  "dispatch n sv rq path caller rs s =
     (let m = rq_Method rq
      in if m = ''GET'' then handleGet sv rq path caller rs s
         else if m = ''HEAD'' then handleHead sv rq path caller rs s
         else if m = ''PUT'' then handlePut sv rq path caller rs s
         else if m = ''DELETE'' then handleDelete sv path rs s
         else if m = ''MKCOL'' then handleMkcol sv path caller rs s
         else if m = ''COPY'' then handleCopy sv rq path caller rs s
         else if m = ''MOVE'' then handleMove sv rq path caller rs s
         else if m = ''PROPFIND'' then handlePropfind n sv rq path caller rs s
         else if m = ''PROPPATCH'' then handleProppatch sv path rs s
         else if m = ''LOCK'' then handleLock sv rs s
         else if m = ''UNLOCK'' then handleUnlock sv rs s
         else if m = ''SEARCH'' then handleSearch sv rq caller rs s
         else if m = ''OPTIONS'' then (s, Done (handleOptions rs))
         else (s, Done (http_Error ''method not allowed'' 405
                (set_header ''Allow'' ''GET, HEAD, PUT, DELETE, MKCOL, COPY, MOVE, PROPFIND, PROPPATCH, OPTIONS, LOCK, UNLOCK, SEARCH'' rs))))"

text \<open>
  gzipResponseWriter: the header is set before the handler runs and what the handler writes
  goes through the compressor, which closes its stream at the end; a response 204 or 304
  has no body.
\<close>

definition wants_gzip :: "'w server \<Rightarrow> http_request \<Rightarrow> bool" where
  "wants_gzip sv rq \<longleftrightarrow> mo_EnableGzip (sv_opts sv) \<and>
     contains (get_header rq ''Accept-Encoding'') ''gzip'' \<and> rq_Method rq \<in> {''GET'', ''PROPFIND'', ''SEARCH''}"

definition gzip_end :: "'w server \<Rightarrow> http_response http_end \<Rightarrow> http_response http_end" where
  "gzip_end sv r =
     (case r of
        Done rs \<Rightarrow> Done (rs\<lparr>rs_Body := if rs_Status rs \<in> {Some 204, Some 304} then [] else sv_gzip sv (rs_Body rs)\<rparr>)
      | _ \<Rightarrow> r)"

definition handleWebDAV ::
  "nat \<Rightarrow> 'w server \<Rightarrow> http_request \<Rightarrow> 'w dav \<Rightarrow> 'w dav \<times> http_response http_end" where
  "handleWebDAV n sv rq s =
     (if mo_ReadOnly (sv_opts sv) \<and> rq_Method rq \<in> set guarded_methods
        then (s, Done (read_only_error new_response))
      else (let caller = callerFromRequest sv rq; path = sanitizePath (rq_Path rq)
            in if path = [] then (s, Done (http_Error ''bad request'' 400 new_response))
               else if wants_gzip sv rq then
                 (let (s', r) = dispatch n sv rq path caller (set_header ''Content-Encoding'' ''gzip'' new_response) s
                  in (s', gzip_end sv r))
               else dispatch n sv rq path caller new_response s))"

section \<open>A server for the examples\<close>

definition demo_server :: "mount_options \<Rightarrow> int server" where
  "demo_server o1 = \<lparr>sv_env = clock_env, sv_opts = o1, sv_sha8 = take 8, sv_gzip = (\<lambda>b. ''gz'' @ b),
     sv_url = Some, sv_base64 = Some, sv_multistatus = (\<lambda>es. concat (map dr_Href es)),
     sv_lock = ld_LockToken, sv_search = Some, sv_match = (=), sv_rfc3339 = dec_int, sv_httptime = dec_int,
     sv_health = (\<lambda>hs. concat (map fst hs))\<rparr>"

end
