(* ===== verification/DavRange.thy ===== *)
theory DavRange
  imports DavHandlers FsProps
begin

text \<open>
  Range requests of adapter/webdav/webdav.go: what \<open>parseRange\<close> makes of a header, and that a
  partial response is exactly the range it names.
\<close>

section \<open>Decimal numbers\<close>

lemma digit_char: "n < 10 \<Longrightarrow> is_digit (char_of (48 + n :: nat))"
  by (simp add: is_digit_def less_eq_char_def)

lemma digits_dec: "list_all is_digit (dec_text n)"
proof (induction n rule: dec_text.induct)
  case (1 n)
  then show ?case by (subst dec_text.simps) (auto simp: digit_char)
qed

lemma dec_text_not_Nil [simp]: "dec_text n \<noteq> []"
  by (subst dec_text.simps) simp

lemma of_char_dec: "(of_char (char_of (n :: nat)) :: int) = int (n mod 256)"
  by (metis of_char_of of_nat_of_char)

lemma dec_val_snoc: "dec_val (ds @ [c]) = 10 * dec_val ds + (of_char c - 48)"
  by (simp add: dec_val_def)

lemma dec_val_dec [simp]: "dec_val (dec_text n) = int n"
proof (induction n rule: dec_text.induct)
  case (1 n)
  show ?case
  proof (cases "n < 10")
    case True
    then show ?thesis by (subst dec_text.simps) (simp add: dec_val_def of_char_dec)
  next
    case False
    with 1 have "dec_val (dec_text n) = 10 * int (n div 10) + int (n mod 10)"
      by (subst dec_text.simps) (simp add: dec_val_snoc of_char_dec)
    then show ?thesis by (simp add: zdiv_int zmod_int)
  qed
qed

lemma digit_no_blank: "is_digit c \<Longrightarrow> \<not> is_blank c \<and> c \<noteq> CHR ''-'' \<and> c \<noteq> CHR ''+''"
  by (auto simp: is_digit_def is_blank_def less_eq_char_def)

lemma takeWhile_all: "list_all P xs \<Longrightarrow> takeWhile P xs = xs"
  by (induction xs) auto

lemma scan_int_dec: "n < 2 ^ 63 \<Longrightarrow> scan_int (dec_text n) = Some (int n)"
proof -
  assume "n < 2 ^ 63"
  then have n: "int n < 2 ^ 63" by simp
  obtain c cs where d: "dec_text n = c # cs" using dec_text_not_Nil[of n] by (cases "dec_text n") auto
  moreover from digits_dec[of n] d have "is_digit c" by simp
  ultimately have "dropWhile is_blank (dec_text n) = dec_text n" "hd (dec_text n) \<noteq> CHR ''-''"
    "hd (dec_text n) \<noteq> CHR ''+''" using digit_no_blank by auto
  with n show ?thesis by (simp add: scan_int_def Let_def takeWhile_all[OF digits_dec])
qed

lemma dec_no_dash: "CHR ''-'' \<notin> set (dec_text n)"
  using digits_dec[of n] digit_no_blank by (auto simp: list_all_iff)

section \<open>Ranges\<close>

lemma cut_at_first: "c \<notin> set a \<Longrightarrow> cut_at c (a @ c # b) = Some (a, b)"
proof -
  assume "c \<notin> set a"
  then have "\<forall>x\<in>set a. x \<noteq> c" by auto
  then show ?thesis by (simp add: cut_at_def takeWhile_append2 dropWhile_append2)
qed

lemma parse_prefix:
  "CHR ''-'' \<notin> set a \<Longrightarrow>
   parseRange (''bytes='' @ a @ ''-'' @ b) len =
     (case range_bounds a b len of
        None \<Rightarrow> None
      | Some (start, e) \<Rightarrow>
          (if start < 0 \<or> start \<ge> len \<or> e < start then None
           else Some (start, if e \<ge> len then len - 1 else e)))"
  using cut_at_first[of "CHR ''-''" a b] by (simp add: parseRange_def bytes_prefix_def has_prefix_def)

text \<open>
  The three forms of a range header mean what they say, for all numbers below 2^63 and all
  lengths: from one position to another (cut at the end of the data), from a position to the
  end, and the last n bytes (all of them when there are fewer). The answer is None, which the
  handler turns into 416, exactly when the range is empty or begins behind the end; so for
  empty data every range is refused.
\<close>

theorem range_forms:
  fixes a b n len :: nat
  assumes "a < 2 ^ 63" and "b < 2 ^ 63" and "n < 2 ^ 63" and "len < 2 ^ 63"
  shows "parseRange (''bytes='' @ dec_text a @ ''-'' @ dec_text b) (int len) =
      (if a < len \<and> a \<le> b then Some (int a, int (min b (len - 1))) else None) \<and>
    parseRange (''bytes='' @ dec_text a @ ''-'') (int len) =
      (if a < len then Some (int a, int (len - 1)) else None) \<and>
    parseRange (''bytes=-'' @ dec_text n) (int len) =
      (if 0 < n \<and> 0 < len then Some (int (len - n), int (len - 1)) else None)"
proof -
  have wrap: "wrap64 (int len - int n) = int len - int n"
    unfolding wrap64_def using assms by (intro signed_take_bit_int_eq_self) auto
  have "parseRange (''bytes='' @ dec_text a @ ''-'' @ dec_text b) (int len) =
      (if a < len \<and> a \<le> b then Some (int a, int (min b (len - 1))) else None)"
    unfolding parse_prefix[OF dec_no_dash] using scan_int_dec[OF assms(1)] scan_int_dec[OF assms(2)]
    by (auto simp: range_bounds_def min_def)
  moreover have "parseRange (''bytes='' @ dec_text a @ ''-'' @ []) (int len) =
      (if a < len then Some (int a, int (len - 1)) else None)"
    unfolding parse_prefix[OF dec_no_dash] using scan_int_dec[OF assms(1)] by (auto simp: range_bounds_def)
  moreover have "parseRange (''bytes='' @ [] @ ''-'' @ dec_text n) (int len) =
      (if 0 < n \<and> 0 < len then Some (int (len - n), int (len - 1)) else None)"
    by (subst parse_prefix) (use scan_int_dec[OF assms(3)] wrap in \<open>auto simp: range_bounds_def Let_def\<close>)
  ultimately show ?thesis by simp
qed

lemma range_forms_witness:
  "parseRange (''bytes='' @ dec_text 2 @ ''-'' @ dec_text 9) (int 5) = Some (2, 4)"
  using range_forms[of 2 9 0 5] by simp

section \<open>GET\<close>

lemma parseRange_bounds: "parseRange rng len = Some (a, b) \<Longrightarrow> 0 \<le> a \<and> a \<le> b \<and> b < len"
  by (auto simp: parseRange_def split: if_splits option.splits prod.splits)

lemma stat_returns: "(\<exists>st. stat_body env p c fs = Ok st) \<or> (\<exists>e. stat_body env p c fs = Fail e)"
  by (auto simp: stat_body_def stat_router_def Let_def split: option.splits sum.splits)

lemma next_stat:
  "\<exists>st s'. next_do (dav_stat sv p c s) k = k s' st"
proof -
  have "snd (fs_Stat (sv_env sv) p c (snd s)) = stat_body (sv_env sv) p c (fst (snd s))"
    by (auto simp: fs_Stat_def finish_def Let_def split: res.splits prod.splits)
  with stat_returns[of "sv_env sv" p c "fst (snd s)"]
    next_call[of "fs_Stat (sv_env sv) p c" s _ k] show ?thesis by metis
qed

lemma header_set [simp]: "map_of (rs_Header (set_header k v rs)) j = (if j = k then Some v else map_of (rs_Header rs) j)"
  by (simp add: set_header_def alist_simps)

lemma set_header_rest [simp]:
  "rs_Status (set_header k v rs) = rs_Status rs" "rs_Body (set_header k v rs) = rs_Body rs"
  by (simp_all add: set_header_def)

lemma write_simps [simp]:
  "rs_Status (write_header c rs) = (case rs_Status rs of None \<Rightarrow> Some c | Some d \<Rightarrow> Some d)"
  "rs_Header (write_header c rs) = rs_Header rs" "rs_Body (write_header c rs) = rs_Body rs"
  "rs_Status (write_bytes b rs) = (case rs_Status rs of None \<Rightarrow> Some 200 | Some d \<Rightarrow> Some d)"
  "rs_Header (write_bytes b rs) = rs_Header rs" "rs_Body (write_bytes b rs) = rs_Body rs @ b"
  by (simp_all add: write_header_def write_bytes_def split: option.split)

lemma http_Error_status [simp]:
  "rs_Status (http_Error m c rs) = (case rs_Status rs of None \<Rightarrow> Some c | Some d \<Rightarrow> Some d)"
  by (simp add: http_Error_def split: option.split)

lemma http_Error_body [simp]: "rs_Body (http_Error m c rs) = rs_Body rs @ m @ [CHR 0x0A]"
  by (simp add: http_Error_def)

text \<open>What a GET of \<open>data\<close> answers, by its conditions in the order they are tested.\<close>

definition get_answer :: "'w server \<Rightarrow> http_request \<Rightarrow> bytes \<Rightarrow> http_response \<Rightarrow> bool" where
  "get_answer sv rq data rs \<longleftrightarrow>
     (let len = int (length data); tag = etag sv data; inm = get_header rq ''If-None-Match'';
          rng = get_header rq ''Range'' in
      if 0 < mo_MaxResponseSize (sv_opts sv) \<and> mo_MaxResponseSize (sv_opts sv) < len
        then rs_Status rs = Some 500 \<and> rs_Body rs = ''response too large'' @ [CHR 0x0A]
      else map_of (rs_Header rs) ''ETag'' = Some tag \<and>
        (if inm = tag \<or> inm = ''*'' then rs_Status rs = Some 304 \<and> rs_Body rs = []
         else if rng = [] then rs_Status rs = Some 200 \<and> rs_Body rs = data \<and>
           map_of (rs_Header rs) ''Content-Length'' = Some (dec_text (length (rs_Body rs)))
         else (case parseRange rng len of
             None \<Rightarrow> rs_Status rs = Some 416
           | Some (a, b) \<Rightarrow> 0 \<le> a \<and> a \<le> b \<and> b < len \<and> rs_Status rs = Some 206 \<and>
               length (rs_Body rs) = nat (b - a + 1) \<and>
               (\<forall>i < length (rs_Body rs). rs_Body rs ! i = data ! (nat a + i)) \<and>
               map_of (rs_Header rs) ''Content-Length'' = Some (dec_text (length (rs_Body rs))))))"

lemma send_range_answer:
  assumes "rs_Status rs = None" and "rs_Body rs = []" and "map_of (rs_Header rs) ''ETag'' = Some (etag sv data)"
  shows "\<exists>rs'. send_range rng data rs = Done rs' \<and> map_of (rs_Header rs') ''ETag'' = Some (etag sv data) \<and>
    (case parseRange rng (int (length data)) of
       None \<Rightarrow> rs_Status rs' = Some 416
     | Some (a, b) \<Rightarrow> 0 \<le> a \<and> a \<le> b \<and> b < int (length data) \<and> rs_Status rs' = Some 206 \<and>
         length (rs_Body rs') = nat (b - a + 1) \<and>
         (\<forall>i < length (rs_Body rs'). rs_Body rs' ! i = data ! (nat a + i)) \<and>
         map_of (rs_Header rs') ''Content-Length'' = Some (dec_text (length (rs_Body rs'))))"
proof (cases "parseRange rng (int (length data))")
  case None
  with assms show ?thesis
    by (auto simp: send_range_def http_Error_def alist_simps)
next
  case (Some ab)
  obtain a b where ab: "ab = (a, b)" by fastforce
  note bnd = parseRange_bounds[OF Some[unfolded ab]]
  have l: "length (take (nat (b + 1 - a)) (drop (nat a) data)) = nat (b - a + 1)"
    using bnd by (simp add: min_def) linarith
  moreover have "dec_int (b - a + 1) = dec_text (nat (b - a + 1))" using bnd by (simp add: dec_int_def)
  ultimately show ?thesis
    using Some ab bnd assms by (auto simp: send_range_def)
qed

lemma get_result:
  assumes "snd (fs_Read (sv_env sv) path caller (snd s)) = Ok data"
    and "rs_Status rs0 = None" and "rs_Body rs0 = []"
  shows "\<exists>s' rs. handleGet sv rq path caller rs0 s = (s', Done rs) \<and> get_answer sv rq data rs"
proof -
  have tag: "etag sv data \<noteq> []" by (simp add: etag_def)
  let ?s = "(fst s, fst (fs_Read (sv_env sv) path caller (snd s)))" and ?rs = "set_header ''ETag'' (etag sv data) rs0"
  let ?rng = "get_header rq ''Range''"
  define after :: "'a dav \<Rightarrow> go_error + stat \<Rightarrow> 'a dav \<times> http_response http_end" where
    "after = (\<lambda>s st. let rs1 = (case st of Inl e \<Rightarrow> ?rs
                               | Inr x \<Rightarrow> set_header ''Content-Type'' (contentTypeFromKind (st_Kind x)) ?rs)
    in if ?rng \<noteq> [] then (s, send_range ?rng data rs1)
       else (s, Done (write_bytes data (set_header ''Content-Length'' (dec_text (length data)) rs1))))"
  have g: "handleGet sv rq path caller rs0 s =
      (if 0 < mo_MaxResponseSize (sv_opts sv) \<and> mo_MaxResponseSize (sv_opts sv) < int (length data)
       then (?s, Done (http_Error ''response too large'' 500 rs0))
       else if get_header rq ''If-None-Match'' \<noteq> [] \<and> matchETag (get_header rq ''If-None-Match'') (etag sv data)
       then (?s, Done (write_header 304 ?rs))
       else next_do (dav_stat sv path caller ?s) after)"
    by (simp add: after_def handleGet_def next_call(1)[of "fs_Read (sv_env sv) path caller" s, OF assms(1)] Let_def)
  obtain st s1 where st: "next_do (dav_stat sv path caller ?s) after = after s1 st"
    using next_stat[of sv path caller ?s after] by blast
  define rs1 where "rs1 = (case st of Inl e \<Rightarrow> ?rs
      | Inr x \<Rightarrow> set_header ''Content-Type'' (contentTypeFromKind (st_Kind x)) ?rs)"
  have af: "after s1 st = (if ?rng \<noteq> [] then (s1, send_range ?rng data rs1)
      else (s1, Done (write_bytes data (set_header ''Content-Length'' (dec_text (length data)) rs1))))"
    by (simp add: after_def rs1_def Let_def)
  have rs1: "rs_Status rs1 = None" "rs_Body rs1 = []" "map_of (rs_Header rs1) ''ETag'' = Some (etag sv data)"
    using assms(2,3) by (simp_all add: rs1_def split: sum.split)
  show ?thesis
    using send_range_answer[OF rs1, of ?rng] rs1 tag assms(2,3)
    unfolding g st af get_answer_def Let_def
    by (cases s1) (auto simp: matchETag_def)
qed

text \<open>
  C16: a GET of data that the engine delivers is answered in the order of the conditions: 500
  when the data exceeds the configured size; else with its entity tag, 304 and no body when
  the request names the tag, 200 with all the data when it asks for no range, and for a range
  416 or 206 with exactly the bytes of the range, all of them inside the data. The slice that
  the handler takes is never out of bounds, so it does not panic. Content-Length is the length of
  the data or of the range. When the response is compressed, the body is compressed but
  Content-Length stays what it is without compression.
\<close>

theorem get_spec:
  assumes "rq_Method rq = ''GET''" and "sanitizePath (rq_Path rq) = path" and "path \<noteq> []"
    and "snd (fs_Read (sv_env sv) path (callerFromRequest sv rq) (snd s)) = Ok data"
  shows "\<exists>s' rs. get_answer sv rq data rs \<and>
    handleWebDAV n sv rq s =
      (s', Done (if wants_gzip sv rq
                 then rs\<lparr>rs_Body := if rs_Status rs = Some 304 then [] else sv_gzip sv (rs_Body rs)\<rparr> else rs))"
proof -
  let ?c = "callerFromRequest sv rq" and ?rs = "set_header ''Content-Encoding'' ''gzip'' new_response"
  have d: "dispatch n sv rq path ?c rs s = handleGet sv rq path ?c rs s" for rs
    using assms(1) by (simp add: dispatch_def)
  obtain s1 rs1 where p: "handleGet sv rq path ?c new_response s = (s1, Done rs1)" "get_answer sv rq data rs1"
    using get_result[OF assms(4), of new_response rq] by (auto simp: new_response_def)
  obtain s2 rs2 where z: "handleGet sv rq path ?c ?rs s = (s2, Done rs2)" "get_answer sv rq data rs2"
    using get_result[OF assms(4), of ?rs rq] by (auto simp: new_response_def)
  have "rs_Status rs2 \<noteq> Some 204"
    using z(2) by (auto simp: get_answer_def Let_def split: if_splits option.splits)
  moreover have "rs_Status rs2 = Some 304 \<Longrightarrow> rs_Body rs2 = []"
    using z(2) by (auto simp: get_answer_def Let_def split: if_splits option.splits)
  ultimately have "handleWebDAV n sv rq s = (if wants_gzip sv rq
      then (s2, Done (rs2\<lparr>rs_Body := if rs_Status rs2 = Some 304 then [] else sv_gzip sv (rs_Body rs2)\<rparr>))
      else (s1, Done rs1))"
    using assms(1-3) p(1) z(1) by (simp add: handleWebDAV_def guarded_methods_def d gzip_end_def Let_def)
  with p(2) z(2) show ?thesis
    by (intro exI[of _ "if wants_gzip sv rq then s2 else s1"] exI[of _ "if wants_gzip sv rq then rs2 else rs1"]) simp
qed

definition data_fs :: "bytes \<Rightarrow> fs_state" where
  "data_fs d = blob_fs (rw_blob\<lparr>me_BlobData := d\<rparr>)"

definition data_mount :: "bytes \<Rightarrow> mount_entry" where
  "data_mount d = rw_blob\<lparr>me_BlobData := d, me_ID := 1\<rparr>"

lemma data_fs_match:
  "router_match (fs_router (data_fs d)) ''/a'' = Inr \<lparr>rm_mount = Some (data_mount d), rm_params = empty_params\<rparr>"
  by (simp add: data_fs_def data_mount_def blob_fs_def rw_blob_def router_match_walk path_segs_def demo_eval)

lemma data_mount_sel [simp]:
  "me_Kind (data_mount d) = KindBlob" "me_BlobData (data_mount d) = d" "me_Mode (data_mount d) = 420"
  "me_UID (data_mount d) = 0" "me_GID (data_mount d) = 0" "me_ModTime (data_mount d) = 0"
  by (simp_all add: data_mount_def rw_blob_def demo_entry_def zero_entry_def)

lemma demo_read: "snd (fs_Read env ''/a'' anonymous (data_fs d, w)) = Ok d"
proof -
  have "access_check OpRead ''readable'' ''/a'' anonymous (fs_router (data_fs d)) = Inr (data_mount d, empty_params)"
    unfolding access_check_Inr data_fs_match using owner_rw by (simp add: canAccessNamespace_def anonymous_def)
  moreover have "skillFilePath ''/a'' = None" using ordinary_a by (simp add: ordinary_def)
  ultimately show ?thesis by (simp add: fs_Read_def read_body_def)
qed

lemma get_spec_witness:
  "\<exists>s' rs. handleWebDAV 0 (demo_server plain_opts) \<lparr>rq_Method = ''GET'', rq_Path = ''/a'',
       rq_Header = [(''Range'', ''bytes=1-'')], rq_Body = [], rq_Broken = False\<rparr> (None, data_fs ''xyz'', 7) = (s', Done rs) \<and>
     rs_Status rs = Some 206 \<and> length (rs_Body rs) = 2"
proof -
  let ?rq = "\<lparr>rq_Method = ''GET'', rq_Path = ''/a'', rq_Header = [(''Range'', ''bytes=1-'')], rq_Body = [],
    rq_Broken = False\<rparr>"
  have m: "rq_Method ?rq = ''GET''" "sanitizePath (rq_Path ?rq) = ''/a''" "''/a'' \<noteq> []"
    by (simp_all add: sanitizePath_def)
  have c: "callerFromRequest (demo_server plain_opts) ?rq = anonymous"
    by (simp add: callerFromRequest_def get_header_def basic_prefix_def has_prefix_def)
  have r: "snd (fs_Read (sv_env (demo_server plain_opts)) ''/a'' (callerFromRequest (demo_server plain_opts) ?rq)
      (snd (None, data_fs ''xyz'', 7))) = Ok ''xyz''"
    unfolding c by (simp add: demo_read)
  have p: "parseRange ''bytes=1-'' 3 = Some (1, 2)" by code_simp
  have g: "\<not> wants_gzip (demo_server plain_opts) ?rq" by (simp add: wants_gzip_def demo_server_def plain_opts_def)
  from get_spec[OF m r, of 0] g obtain s' rs where
    "handleWebDAV 0 (demo_server plain_opts) ?rq (None, data_fs ''xyz'', 7) = (s', Done rs)"
    "get_answer (demo_server plain_opts) ?rq ''xyz'' rs" by auto
  moreover from this(2) p have "rs_Status rs = Some 206" "length (rs_Body rs) = 2"
    by (auto simp: get_answer_def Let_def demo_server_def plain_opts_def get_header_def etag_def)
  ultimately show ?thesis by blast
qed

end
