(* ===== verification/Quiet.thy ===== *)
theory Quiet
  imports FsProps
begin

text \<open>
  The calls of the engine that only look: Stat, Readdir and Read leave the mounts, handles,
  locks, listeners and generated files as they are.
\<close>

text \<open>The part of the state that only a change of the namespace or a write touches.\<close>

definition mounts_of where
  "mounts_of s = (fs_router (fst s), fs_skills (fst s), fs_writeback (fst s), fs_locks (fst s),
     fs_handles (fst s), fs_events (fst s), fs_providers (fst s), fs_cfg (fst s))"

named_theorems mounts_keep "calls of the engine that leave the mounts as they are"

lemma mounts_finish [simp]: "mounts_of (fst (finish env o1 name path caller t0 out)) = mounts_of (fst out)"
  by (auto simp: mounts_of_def finish_def fs_audit_def Let_def split: prod.splits res.splits)

lemma mounts_invoke [mounts_keep]: "fs_invoke env cap o1 p ps d c s = (s', r) \<Longrightarrow> mounts_of s' = mounts_of s"
  by (auto simp: mounts_of_def fs_invoke_def split: prod.splits)

lemma mounts_providerFor [mounts_keep]: "fs_providerFor env m o1 p s = (s', r) \<Longrightarrow> mounts_of s' = mounts_of s"
  by (auto simp: mounts_of_def fs_providerFor_def split: prod.splits)

lemma mounts_record [simp]: "mounts_of (fs_record env i ok s) = mounts_of s"
  by (simp add: mounts_of_def fs_record_def)

lemma mounts_async [simp]: "mounts_of (fs\<lparr>fs_async := x\<rparr>, w) = mounts_of (fs, w)"
  by (simp add: mounts_of_def)

lemma mounts_stream [simp]:
  "mounts_of (put_stream p b s) = mounts_of s" "mounts_of (fs\<lparr>fs_streams := x\<rparr>, w) = mounts_of (fs, w)"
  by (simp_all add: mounts_of_def put_stream_def)

lemma mounts_api: "mounts_of (fst (read_api env p c m ps s)) = mounts_of s"
  by (auto simp: read_api_def Let_def split: option.splits sum.splits prod.splits dest!: mounts_keep)

lemma mounts_stream_read: "mounts_of (fst (stream_read p cfg n b s)) = mounts_of s"
  by (auto simp: stream_read_def Let_def split: prod.splits go.splits sum.splits)

lemma mounts_read: "mounts_of (fst (fs_Read env p c s)) = mounts_of s"
  by (auto simp: fs_Read_def read_body_def mounts_api mounts_stream_read
      split: option.splits sum.splits prod.splits node_kind.splits)

lemma mounts_stat: "mounts_of (fst (fs_Stat env p c s)) = mounts_of s"
  by (simp add: fs_Stat_def)

lemma mounts_dynamic [mounts_keep]: "listDynamicDir env m p ps c s = (s', r) \<Longrightarrow> mounts_of s' = mounts_of s"
  by (auto simp: listDynamicDir_def split: prod.splits sum.splits dest!: mounts_keep)

lemma mounts_readdir: "mounts_of (fst (fs_Readdir env p c s)) = mounts_of s"
  by (auto simp: fs_Readdir_def readdir_body_def readdir_router_def Let_def dest!: mounts_keep
      split: option.splits sum.splits prod.splits if_splits)

end
