(* ===== verification/DavProps.thy ===== *)
theory DavProps
  imports DavRange Quiet
begin

text \<open>
  What the WebDAV handlers guarantee: read-only servers, ranges, conditional requests, the
  bounds of PROPFIND, and where COPY and MOVE lose a resource.
\<close>

section \<open>Frames of handlers\<close>

text \<open>
  A relation between the state of the engine before and after, which is kept by a handler
  when all calls of the handler keep it.
\<close>

locale handler_frame =
  fixes R :: "'w fsw \<Rightarrow> 'w fsw \<Rightarrow> bool"
  assumes R_refl: "R s s" and R_trans: "R s t \<Longrightarrow> R t u \<Longrightarrow> R s u"
begin

definition keeps :: "'w dav \<Rightarrow> 'w dav \<times> 'r \<Rightarrow> bool" where
  "keeps s out \<longleftrightarrow> R (snd s) (snd (fst out))"

lemma keeps_here [simp]: "keeps (c, t) ((c', t), r)" "keeps s (s, r)" "keeps s ((c, snd s), r)"
  by (simp_all add: keeps_def R_refl)

lemma keeps_next:
  assumes "keeps s out" and "\<And>s' r. keeps s' (k s' r)"
  shows "keeps s (next_do out k)"
proof -
  obtain s1 r1 where out: "out = (s1, r1)" by fastforce
  have "R (snd s) (snd (fst (k s1 r)))" for r
    using assms(1) assms(2)[of s1 r] R_trans unfolding keeps_def out by auto
  with assms(1) out show ?thesis
    by (cases r1) (auto simp: next_do_def keeps_def)
qed

lemma keeps_lift: "(\<And>t. R t (fst (op t))) \<Longrightarrow> keeps s (lift_call op s)"
  by (simp add: keeps_def lift_call_def Let_def split_beta)

lemma keeps_each: "(\<And>c s. keeps s (f c s)) \<Longrightarrow> keeps s (each_child f cs s)"
  by (induction cs arbitrary: s) (auto intro!: keeps_next)

end

text \<open>When the three calls that read keep the relation, so do the handlers that only read.\<close>

locale quiet_calls = handler_frame R for R :: "'w fsw \<Rightarrow> 'w fsw \<Rightarrow> bool" +
  fixes sv :: "'w server"
  assumes R_read: "R t (fst (fs_Read (sv_env sv) p c t))"
    and R_stat: "R t (fst (fs_Stat (sv_env sv) p c t))"
    and R_readdir: "R t (fst (fs_Readdir (sv_env sv) p c t))"
begin

lemmas keeps_calls [simp] = keeps_lift[OF R_read] keeps_lift[OF R_stat] keeps_lift[OF R_readdir]

lemma keeps_get: "keeps s (handleGet sv rq p c rs s)"
  unfolding handleGet_def Let_def
  by (intro keeps_next) (auto intro!: keeps_next split: sum.splits)

lemma keeps_head: "keeps s (handleHead sv rq p c rs s)"
  unfolding handleHead_def Let_def
  by (intro keeps_next) (auto intro!: keeps_next split: sum.splits)

lemma keeps_props: "keeps s (cached_props sv p c s)"
  unfolding cached_props_def Let_def
  by (auto intro!: keeps_next split: sum.splits option.splits)

lemma keeps_propfind: "keeps s (propfindRecursive n sv d c p k s)"
proof (induction n arbitrary: p k s)
  case (Suc n)
  then show ?case
    by (auto simp: keeps_props Let_def intro!: keeps_next keeps_each split: sum.splits)
qed simp

lemma keeps_search: "keeps s (searchEntries sv pat c s)"
  unfolding searchEntries_def search_entry_def Let_def
  by (intro keeps_each keeps_next) auto

lemma keeps_multistatus:
  "keeps s (handlePropfind n sv rq p c rs s)"
  "keeps s (handleSearch sv rq c rs s)"
  unfolding handlePropfind_def handleSearch_def buildPropfindEntries_def Let_def
  by (auto intro!: keeps_next keeps_propfind keeps_search split: option.splits)

end

interpretation quiet: quiet_calls "\<lambda>s t. mounts_of t = mounts_of s" sv for sv :: "'w server"
  by unfold_locales (simp_all add: mounts_read mounts_stat mounts_readdir)

section \<open>Read-only servers\<close>

lemma read_only_result:
  assumes "mo_ReadOnly (sv_opts sv)" and "handleWebDAV n sv rq s = (s', r)"
  shows "mounts_of (snd s') = mounts_of (snd s) \<and>
    (rq_Method rq \<in> set guarded_methods \<longrightarrow>
       s' = s \<and> (\<exists>rs. r = Done rs \<and> rs_Status rs = Some 403))"
proof -
  have k: "quiet.keeps s (dispatch n sv rq p c rs s)" if "rq_Method rq \<notin> set guarded_methods" for p c rs
    using that
    by (auto simp: dispatch_def guarded_methods_def Let_def
        intro: quiet.keeps_get quiet.keeps_head quiet.keeps_multistatus)
  show ?thesis
  proof (cases "rq_Method rq \<in> set guarded_methods")
    case True
    with assms show ?thesis
      by (auto simp: handleWebDAV_def read_only_error_def http_Error_def write_bytes_def write_header_def
          set_header_def new_response_def)
  next
    case False
    with assms k show ?thesis
      by (auto simp: handleWebDAV_def quiet.keeps_def Let_def split: if_splits prod.splits)
         (metis fst_conv)+
  qed
qed

text \<open>
  A read-only server changes nothing that clients share: whatever the request, the mounts
  with their data, the generated skills, the written-back answers, locks, handles, listeners,
  providers and configuration are afterwards what they were. A request of one of the ten
  guarded methods is answered with 403 and does not touch the engine at all.
\<close>

theorem dav_read_only:
  assumes "mo_ReadOnly (sv_opts sv)" and "handleWebDAV n sv rq s = (s', r)"
  shows "mounts_of (snd s') = mounts_of (snd s) \<and>
    (rq_Method rq \<in> set guarded_methods \<longrightarrow>
       s' = s \<and> (\<exists>rs. r = Done rs \<and> rs_Status rs = Some 403))"
  by (rule read_only_result[OF assms])

lemma dav_read_only_witness:
  "mounts_of (snd (fst (handleWebDAV 3 (demo_server (plain_opts\<lparr>mo_ReadOnly := True\<rparr>))
       \<lparr>rq_Method = ''PUT'', rq_Path = ''/a'', rq_Header = [], rq_Body = ''new'', rq_Broken = False\<rparr>
       (None, data_fs ''old'', 7)))) = mounts_of (data_fs ''old'', 7 :: int)"
proof -
  let ?rq = "\<lparr>rq_Method = ''PUT'', rq_Path = ''/a'', rq_Header = [], rq_Body = ''new'', rq_Broken = False\<rparr>"
  let ?sv = "demo_server (plain_opts\<lparr>mo_ReadOnly := True\<rparr>)" and ?s = "(None, data_fs ''old'', 7)"
  have ro: "mo_ReadOnly (sv_opts ?sv)" by (simp add: demo_server_def)
  have "handleWebDAV 3 ?sv ?rq ?s = (fst (handleWebDAV 3 ?sv ?rq ?s), snd (handleWebDAV 3 ?sv ?rq ?s))" by simp
  from dav_read_only[OF ro this] show ?thesis by simp
qed

section \<open>Blobs and links over HTTP\<close>

definition content :: "mount_entry \<Rightarrow> bytes" where
  "content m = (if me_Kind m = KindLink then me_LinkPath m else me_BlobData m)"

text \<open>The path holds the blob or link \<open>m\<close>, and the caller may read it.\<close>

definition serves :: "string \<Rightarrow> caller_identity \<Rightarrow> mount_entry \<Rightarrow> fs_state \<Rightarrow> bool" where
  "serves path caller m fs \<longleftrightarrow> ordinary path \<and>
     (\<exists>ps. access_check OpRead ''readable'' path caller (fs_router fs) = Inr (m, ps)) \<and>
     (me_Kind m = KindBlob \<or> me_Kind m = KindLink)"

lemma serves_mounts: "mounts_of t = mounts_of s \<Longrightarrow> serves p c m (fst t) = serves p c m (fst s)"
  by (simp add: serves_def mounts_of_def)

lemma read_served: "serves p c m (fst s) \<Longrightarrow> snd (fs_Read env p c s) = Ok (content m)"
  by (auto simp: serves_def fs_Read_def read_body_def content_def ordinary_def)

definition served_stat :: "string \<Rightarrow> mount_entry \<Rightarrow> stat" where
  "served_stat p m = \<lparr>st_Path = p, st_Kind = me_Kind m, st_Mode = me_Mode m, st_UID = me_UID m,
     st_GID = me_GID m, st_Size = int (length (content m)), st_ModTime = me_ModTime m\<rparr>"

lemma stat_served: "serves p c m (fst s) \<Longrightarrow> snd (fs_Stat env p c s) = Ok (served_stat p m)"
  by (auto simp: serves_def access_check_Inr fs_Stat_def stat_body_def stat_router_def ordinary_def
      served_stat_def content_def mount_size_def split: node_kind.splits)

lemma next_read_served:
  "serves p c m (fst (snd s)) \<Longrightarrow>
   next_do (dav_read sv p c s) k = k (fst s, fst (fs_Read (sv_env sv) p c (snd s))) (Inr (content m))"
  by (rule next_call(1)) (rule read_served)

lemma next_stat_served:
  "serves p c m (fst (snd s)) \<Longrightarrow>
   next_do (dav_stat sv p c s) k = k (fst s, fst (fs_Stat (sv_env sv) p c (snd s))) (Inr (served_stat p m))"
  by (rule next_call(1)) (rule stat_served)

lemma served_after [simp]:
  "serves p c m (fst (fst (fs_Read env q d s))) = serves p c m (fst s)"
  "serves p c m (fst (fst (fs_Stat env q d s))) = serves p c m (fst s)"
  by (rule serves_mounts, rule mounts_read mounts_stat)+

text \<open>
  For a blob or link that the caller may read, HEAD answers what GET would have answered,
  without the body: the same status and the same headers (entity tag, type and length).
\<close>

theorem head_matches_get:
  assumes "serves path caller m (fst (snd s))"
    and "get_header rq ''If-None-Match'' = []" and "get_header rq ''Range'' = []"
    and "mo_MaxResponseSize (sv_opts sv) \<le> 0 \<or> int (length (content m)) \<le> mo_MaxResponseSize (sv_opts sv)"
  shows "\<exists>s1 s2 g h. handleGet sv rq path caller new_response s = (s1, Done g) \<and>
    handleHead sv rq path caller new_response s = (s2, Done h) \<and>
    rs_Status g = Some 200 \<and> rs_Status h = Some 200 \<and> rs_Body g = content m \<and> rs_Body h = [] \<and>
    (\<forall>k. map_of (rs_Header h) k = map_of (rs_Header g) k)"
proof -
  have k: "me_Kind m = KindBlob \<or> me_Kind m = KindLink" using assms(1) by (simp add: serves_def)
  have nr: "rs_Status new_response = None" "rs_Body new_response = []" by (simp_all add: new_response_def)
  have g: "handleGet sv rq path caller new_response s =
      ((fst s, fst (fs_Stat (sv_env sv) path caller (fst (fs_Read (sv_env sv) path caller (snd s))))),
       Done (write_bytes (content m) (set_header ''Content-Length'' (dec_text (length (content m)))
         (set_header ''Content-Type'' (contentTypeFromKind (me_Kind m))
           (set_header ''ETag'' (etag sv (content m)) new_response)))))"
    using assms by (auto simp: handleGet_def next_read_served next_stat_served Let_def served_stat_def)
  have h: "handleHead sv rq path caller new_response s =
      ((fst s, fst (fs_Read (sv_env sv) path caller (fst (fs_Stat (sv_env sv) path caller (snd s))))),
       Done (write_header 200 (set_header ''Content-Length'' (dec_int (int (length (content m))))
         (set_header ''Content-Type'' (contentTypeFromKind (me_Kind m))
           (set_header ''ETag'' (etag sv (content m)) new_response)))))"
    using assms(1) k by (auto simp: handleHead_def next_read_served next_stat_served Let_def served_stat_def)
  show ?thesis unfolding g h using nr by (auto simp: dec_int_def)
qed

lemma data_fs_serves: "serves ''/a'' anonymous (data_mount d) (data_fs d)"
  unfolding serves_def access_check_Inr data_fs_match using owner_rw ordinary_a
  by (simp add: canAccessNamespace_def anonymous_def)

lemma head_matches_get_witness:
  "\<exists>h s2. handleHead (demo_server plain_opts) \<lparr>rq_Method = ''HEAD'', rq_Path = ''/a'', rq_Header = [],
       rq_Body = [], rq_Broken = False\<rparr> ''/a'' anonymous new_response (None, data_fs ''xyz'', 7) = (s2, Done h) \<and>
     rs_Status h = Some 200"
proof -
  let ?rq = "\<lparr>rq_Method = ''HEAD'', rq_Path = ''/a'', rq_Header = [], rq_Body = [], rq_Broken = False\<rparr>"
  have s: "serves ''/a'' anonymous (data_mount ''xyz'') (fst (snd (None :: prop_cache option, data_fs ''xyz'', 7 :: int)))"
    by (simp add: data_fs_serves)
  have e: "get_header ?rq ''If-None-Match'' = []" "get_header ?rq ''Range'' = []" by (simp_all add: get_header_def)
  have m: "mo_MaxResponseSize (sv_opts (demo_server plain_opts)) \<le> 0 \<or>
      int (length (content (data_mount ''xyz''))) \<le> mo_MaxResponseSize (sv_opts (demo_server plain_opts))"
    by (simp add: demo_server_def plain_opts_def)
  from head_matches_get[OF s e m] show ?thesis by blast
qed

section \<open>Conditional PUT\<close>

lemma etag_not_Nil [simp]: "etag sv d \<noteq> []"
  by (simp add: etag_def)

lemmas put_defs = handlePut_def put_check_def Let_def

lemma put_stale:
  assumes "\<not> mo_ReadOnly (sv_opts sv)" and "serves path c m (fst (snd s))"
    and "get_header rq ''If-Match'' \<notin> {[], ''*'', etag sv (content m)}"
  shows "handlePut sv rq path c rs s =
    ((fst s, fst (fs_Read (sv_env sv) path c (snd s))), Done (precondition_failed rs))"
  using assms by (auto simp: put_defs next_read_served matchETag_def)

lemma put_check_passes:
  assumes "\<not> mo_ReadOnly (sv_opts sv)" and "serves path c m (fst (snd s))"
    and "get_header rq ''If-Match'' = etag sv (content m)"
  shows "put_check sv rq path c rs s = ((fst s, fst (fs_Read (sv_env sv) path c (snd s))), Done None)"
  using assms by (simp add: put_check_def next_read_served matchETag_def Let_def)

text \<open>The caller may write the blob at the path, and the body is within all limits.\<close>

definition can_put :: "'w server \<Rightarrow> http_request \<Rightarrow> string \<Rightarrow> caller_identity \<Rightarrow> mount_entry \<Rightarrow> fs_state \<Rightarrow> bool" where
  "can_put sv rq path c m fs \<longleftrightarrow> me_Kind m = KindBlob \<and> serves path c m fs \<and>
     (\<exists>ps. access_check OpWrite ''writable'' path c (fs_router fs) = Inr (m, ps)) \<and>
     \<not> rq_Broken rq \<and> int (length (rq_Body rq)) \<le> put_limit (sv_opts sv) \<and>
     int (length (rq_Body rq)) \<le> g_MaxBlobSize (fs_cfg fs)"

lemma can_put_same:
  "mounts_of t = mounts_of s \<Longrightarrow> can_put sv rq p c m (fst t) = can_put sv rq p c m (fst s)"
  by (simp add: can_put_def serves_def mounts_of_def)

lemma put_written:
  assumes "can_put sv rq path c m (fst (snd s))"
  shows "\<exists>s' now. put_write sv rq path c rs s = (s', Done (write_header 204 rs)) \<and>
    fs_router (fst (snd s')) = router_update path (with_data (rq_Body rq) now) (fs_router (fst (snd s))) \<and>
    fs_cfg (fst (snd s')) = fs_cfg (fst (snd s))"
proof -
  obtain ps where acc: "access_check OpWrite ''writable'' path c (fs_router (fst (snd s))) = Inr (m, ps)"
    and k: "me_Kind m = KindBlob" using assms unfolding can_put_def by blast
  obtain t' r where w: "fs_Write (sv_env sv) path (rq_Body rq) c (snd s) = (t', r)" by fastforce
  note blob_write_result[OF acc k w]
  with assms w show ?thesis
    by (auto simp: can_put_def put_write_def read_body_limited_def lift_call_def dav_invalidate_def)
qed

lemma after_put:
  assumes "can_put sv rq path c m fs"
    and "fs_router fs' = router_update path (with_data d now) (fs_router fs)" and "fs_cfg fs' = fs_cfg fs"
  shows "can_put sv rq path c (with_data d now m) fs'" and "content (with_data d now m) = d"
  using assms access_after_write unfolding can_put_def serves_def content_def by fastforce+

lemma put_matched:
  assumes "\<not> mo_ReadOnly (sv_opts sv)" and "can_put sv rq path c m (fst (snd s))"
    and "get_header rq ''If-Match'' = etag sv (content m)"
  shows "\<exists>s' now. handlePut sv rq path c rs s = (s', Done (write_header 204 rs)) \<and>
    fs_router (fst (snd s')) = router_update path (with_data (rq_Body rq) now) (fs_router (fst (snd s))) \<and>
    fs_cfg (fst (snd s')) = fs_cfg (fst (snd s))"
proof -
  let ?t = "fst (fs_Read (sv_env sv) path c (snd s))"
  have t: "mounts_of ?t = mounts_of (snd s)" by (rule mounts_read)
  with assms(2) have "can_put sv rq path c m (fst (snd (fst s, ?t)))" using can_put_same by fastforce
  from put_written[OF this] show ?thesis
    using put_check_passes[OF assms(1) _ assms(3)] assms(2) t
    by (simp add: handlePut_def can_put_def mounts_of_def)
qed

text \<open>
  C17: conditional PUT. Two clients have read the same version of a blob, may write it, and
  both PUT new contents, within the size limits, with its entity tag as If-Match. One after
  the other, the first succeeds with 204 and the second is refused with 412, changes no mount,
  and the blob has the contents of the first (when the tag of these differs from the old one).
  But the handler checks the tag and writes in two steps: when both checks come before the
  two writes, both are answered with 204 and the first write is lost.
\<close>

theorem dav_conditional_put:
  assumes "\<not> mo_ReadOnly (sv_opts sv)"
    and "can_put sv rqa path a m (fst (snd s))" and "can_put sv rqb path b m (fst (snd s))"
    and "get_header rqa ''If-Match'' = etag sv (content m)" and "get_header rqb ''If-Match'' = etag sv (content m)"
    and "etag sv (rq_Body rqa) \<noteq> etag sv (content m)"
  shows "(\<exists>s1 s2 ra rb. handlePut sv rqa path a new_response s = (s1, Done ra) \<and> rs_Status ra = Some 204 \<and>
    handlePut sv rqb path b new_response s1 = (s2, Done rb) \<and> rs_Status rb = Some 412 \<and>
    mounts_of (snd s2) = mounts_of (snd s1) \<and>
    snd (fs_Read (sv_env sv) path b (snd s2)) = Ok (rq_Body rqa)) \<and>
   (\<exists>s1 s2 s3 s4 ra rb. put_check sv rqa path a new_response s = (s1, Done None) \<and>
    put_check sv rqb path b new_response s1 = (s2, Done None) \<and>
    put_write sv rqa path a new_response s2 = (s3, Done ra) \<and> rs_Status ra = Some 204 \<and>
    put_write sv rqb path b new_response s3 = (s4, Done rb) \<and> rs_Status rb = Some 204 \<and>
    snd (fs_Read (sv_env sv) path b (snd s4)) = Ok (rq_Body rqb))" (is "?sequential \<and> ?overlapping")
proof -
  note read_a = assms(2)[unfolded can_put_def, THEN conjunct2, THEN conjunct1]
    and read_b = assms(3)[unfolded can_put_def, THEN conjunct2, THEN conjunct1]
  obtain s1 now where s1: "handlePut sv rqa path a new_response s = (s1, Done (write_header 204 new_response))"
    "fs_router (fst (snd s1)) = router_update path (with_data (rq_Body rqa) now) (fs_router (fst (snd s)))"
    "fs_cfg (fst (snd s1)) = fs_cfg (fst (snd s))"
    using put_matched[OF assms(1,2,4)] by blast
  let ?m = "with_data (rq_Body rqa) now m"
  note b1 = after_put[OF assms(3) s1(2,3)]
  then have sb: "serves path b ?m (fst (snd s1))" by (simp add: can_put_def)
  have "get_header rqb ''If-Match'' \<notin> {[], ''*'', etag sv (content ?m)}"
    using assms(5,6) b1(2) by (simp add: etag_def)
  from put_stale[OF assms(1) sb this, of new_response]
  have p: "handlePut sv rqb path b new_response s1 =
      ((fst s1, fst (fs_Read (sv_env sv) path b (snd s1))), Done (precondition_failed new_response))" .
  have d: "snd (fs_Read (sv_env sv) path b (fst (fs_Read (sv_env sv) path b (snd s1)))) = Ok (rq_Body rqa)"
    using read_served[of path b ?m "fst (fs_Read (sv_env sv) path b (snd s1))"] sb b1(2) by simp
  have ?sequential
    by (intro exI conjI, rule s1(1), simp add: new_response_def, rule p)
       (simp_all add: d mounts_read precondition_failed_def new_response_def)
  let ?t1 = "(fst s, fst (fs_Read (sv_env sv) path a (snd s)))"
  let ?t2 = "(fst s, fst (fs_Read (sv_env sv) path b (snd ?t1)))"
  have c1: "put_check sv rqa path a new_response s = (?t1, Done None)"
    using put_check_passes[OF assms(1) read_a assms(4)] by simp
  have c2: "put_check sv rqb path b new_response ?t1 = (?t2, Done None)"
    using put_check_passes[OF assms(1) _ assms(5), of path b ?t1] read_b by simp
  have "mounts_of (snd ?t2) = mounts_of (snd s)" by (simp add: mounts_read)
  note same = can_put_same[OF this]
  obtain t3 now3 where w3: "put_write sv rqa path a new_response ?t2 = (t3, Done (write_header 204 new_response))"
    "fs_router (fst (snd t3)) = router_update path (with_data (rq_Body rqa) now3) (fs_router (fst (snd ?t2)))"
    "fs_cfg (fst (snd t3)) = fs_cfg (fst (snd ?t2))"
    using put_written[of sv rqa path a m ?t2] assms(2) same by metis
  note b3 = after_put[OF assms(3)[folded same] w3(2,3)]
  obtain t4 now4 where w4: "put_write sv rqb path b new_response t3 = (t4, Done (write_header 204 new_response))"
    "fs_router (fst (snd t4)) = router_update path (with_data (rq_Body rqb) now4) (fs_router (fst (snd t3)))"
    "fs_cfg (fst (snd t4)) = fs_cfg (fst (snd t3))"
    using put_written[OF b3(1)] by metis
  note b4 = after_put[OF b3(1) w4(2,3)]
  then have "snd (fs_Read (sv_env sv) path b (snd t4)) = Ok (rq_Body rqb)"
    using read_served unfolding can_put_def by metis
  with c1 c2 w3(1) w4(1) have ?overlapping by (fastforce simp: new_response_def)
  with \<open>?sequential\<close> show ?thesis by blast
qed

lemma dav_conditional_put_witness:
  "(\<exists>s1 s2 ra rb. handlePut (demo_server plain_opts) \<lparr>rq_Method = ''PUT'', rq_Path = ''/a'',
       rq_Header = [(''If-Match'', etag (demo_server plain_opts) ''x'')], rq_Body = ''y'', rq_Broken = False\<rparr>
       ''/a'' anonymous new_response (None, data_fs ''x'', 7) = (s1, Done ra) \<and> rs_Status ra = Some 204 \<and>
     handlePut (demo_server plain_opts) \<lparr>rq_Method = ''PUT'', rq_Path = ''/a'',
       rq_Header = [(''If-Match'', etag (demo_server plain_opts) ''x'')], rq_Body = ''z'', rq_Broken = False\<rparr>
       ''/a'' anonymous new_response s1 = (s2, Done rb) \<and> rs_Status rb = Some 412) \<and>
   (\<exists>s1 s2. put_check (demo_server plain_opts) \<lparr>rq_Method = ''PUT'', rq_Path = ''/a'',
       rq_Header = [(''If-Match'', etag (demo_server plain_opts) ''x'')], rq_Body = ''y'', rq_Broken = False\<rparr>
       ''/a'' anonymous new_response (None, data_fs ''x'', 7) = (s1, Done None) \<and>
     put_check (demo_server plain_opts) \<lparr>rq_Method = ''PUT'', rq_Path = ''/a'',
       rq_Header = [(''If-Match'', etag (demo_server plain_opts) ''x'')], rq_Body = ''z'', rq_Broken = False\<rparr>
       ''/a'' anonymous new_response s1 = (s2, Done None))"
proof -
  let ?sv = "demo_server plain_opts" and ?s = "(None, data_fs ''x'', 7)"
  let ?rq = "\<lambda>d. \<lparr>rq_Method = ''PUT'', rq_Path = ''/a'', rq_Header = [(''If-Match'', etag ?sv ''x'')],
    rq_Body = d, rq_Broken = False\<rparr>"
  have rw: "\<not> mo_ReadOnly (sv_opts ?sv)" by (simp add: demo_server_def plain_opts_def)
  have a: "access_check OpWrite ''writable'' ''/a'' anonymous (fs_router (fst (snd ?s))) = Inr (data_mount ''x'', empty_params)"
    unfolding access_check_Inr fst_conv snd_conv data_fs_match using owner_rw
    by (simp add: canAccessNamespace_def anonymous_def)
  have h: "get_header (?rq d) ''If-Match'' = etag ?sv (content (data_mount ''x''))" for d
    by (simp add: get_header_def content_def)
  have l: "int (length (rq_Body (?rq [c]))) \<le> put_limit (sv_opts ?sv)"
    "int (length (rq_Body (?rq [c]))) \<le> g_MaxBlobSize (fs_cfg (fst (snd ?s)))" for c
    by (simp_all add: put_limit_def demo_server_def plain_opts_def data_fs_def blob_fs_def demo_fs_eval)
  have p: "can_put ?sv (?rq [c]) ''/a'' anonymous (data_mount ''x'') (fst (snd ?s))" for c
    unfolding can_put_def using a l data_fs_serves by auto
  have e: "etag ?sv (rq_Body (?rq ''y'')) \<noteq> etag ?sv (content (data_mount ''x''))"
    by (simp add: etag_def demo_server_def content_def)
  note t = dav_conditional_put[OF rw p p h h e, of "CHR ''z''"]
  show ?thesis by (rule conjI) (use t[THEN conjunct1] in blast, use t[THEN conjunct2] in blast)
qed

section \<open>Compressed responses\<close>

lemma dec_text_inject [simp]: "dec_text a = dec_text b \<longleftrightarrow> a = b"
  by (metis dec_val_dec of_nat_eq_iff)

text \<open>
  A compressed GET announces the length of the data before compression. The response
  carries the compressed bytes with the header Content-Length of the plain ones, which is
  right only when compression does not change the length.
\<close>

theorem gzip_length:
  assumes "wants_gzip sv rq" and "rq_Method rq = ''GET''" and "sanitizePath (rq_Path rq) = path" and "path \<noteq> []"
    and "serves path (callerFromRequest sv rq) m (fst (snd s))"
    and "get_header rq ''If-None-Match'' = []" and "get_header rq ''Range'' = []"
    and "mo_MaxResponseSize (sv_opts sv) \<le> 0 \<or> int (length (content m)) \<le> mo_MaxResponseSize (sv_opts sv)"
  shows "\<exists>s' rs. handleWebDAV n sv rq s = (s', Done rs) \<and> rs_Status rs = Some 200 \<and>
    map_of (rs_Header rs) ''Content-Encoding'' = Some ''gzip'' \<and> rs_Body rs = sv_gzip sv (content m) \<and>
    (map_of (rs_Header rs) ''Content-Length'' = Some (dec_text (length (rs_Body rs))) \<longleftrightarrow>
       length (sv_gzip sv (content m)) = length (content m))"
proof -
  let ?c = "callerFromRequest sv rq" and ?rs = "set_header ''Content-Encoding'' ''gzip'' new_response"
  have "handleGet sv rq path ?c ?rs s =
      ((fst s, fst (fs_Stat (sv_env sv) path ?c (fst (fs_Read (sv_env sv) path ?c (snd s))))),
       Done (write_bytes (content m) (set_header ''Content-Length'' (dec_text (length (content m)))
         (set_header ''Content-Type'' (contentTypeFromKind (me_Kind m))
           (set_header ''ETag'' (etag sv (content m)) ?rs)))))"
    using assms by (auto simp: handleGet_def next_read_served next_stat_served Let_def served_stat_def)
  then show ?thesis
    using assms(1-4) by (auto simp: handleWebDAV_def guarded_methods_def dispatch_def gzip_end_def new_response_def)
qed

lemma gzip_length_witness:
  "\<exists>s' rs. handleWebDAV 0 (demo_server (plain_opts\<lparr>mo_EnableGzip := True\<rparr>)) \<lparr>rq_Method = ''GET'', rq_Path = ''/a'',
       rq_Header = [(''Accept-Encoding'', ''gzip'')], rq_Body = [], rq_Broken = False\<rparr> (None, data_fs ''xyz'', 7) = (s', Done rs) \<and>
     rs_Body rs = ''gzxyz''"
proof -
  let ?sv = "demo_server (plain_opts\<lparr>mo_EnableGzip := True\<rparr>)"
  let ?rq = "\<lparr>rq_Method = ''GET'', rq_Path = ''/a'', rq_Header = [(''Accept-Encoding'', ''gzip'')], rq_Body = [],
    rq_Broken = False\<rparr>"
  have g: "wants_gzip ?sv ?rq" by (simp add: wants_gzip_def demo_server_def get_header_def has_prefix_def)
  have p: "sanitizePath (rq_Path ?rq) = ''/a''" by (simp add: sanitizePath_def)
  have c: "callerFromRequest ?sv ?rq = anonymous"
    by (simp add: callerFromRequest_def get_header_def basic_prefix_def has_prefix_def)
  have sv: "serves ''/a'' (callerFromRequest ?sv ?rq) (data_mount ''xyz'') (fst (snd (None :: prop_cache option, data_fs ''xyz'', 7 :: int)))"
    by (simp add: c data_fs_serves)
  have h: "get_header ?rq ''If-None-Match'' = []" "get_header ?rq ''Range'' = []" by (simp_all add: get_header_def)
  have m: "mo_MaxResponseSize (sv_opts ?sv) \<le> 0 \<or> int (length (content (data_mount ''xyz''))) \<le> mo_MaxResponseSize (sv_opts ?sv)"
    by (simp add: demo_server_def plain_opts_def)
  have "sv_gzip ?sv (content (data_mount ''xyz'')) = ''gzxyz''" by (simp add: demo_server_def content_def)
  with gzip_length[OF g _ p _ sv h m, of 0] show ?thesis by auto
qed

section \<open>Paths\<close>

lemma split_on_sep: "split_on c (s @ c # t) = split_on c s @ split_on c t"
  by (induction s) (auto split: list.splits)

text \<open>The test on the segments that sanitizePath and normalizePath share.\<close>

definition bad_path :: "string \<Rightarrow> bool" where
  "bad_path r \<longleftrightarrow> list_ex (\<lambda>seg. seg = [] \<or> seg = ''.'' \<or> seg = ''..'') (split_on (CHR ''/'') (tl r))"

lemma bad_path_slash:
  assumes "r \<noteq> ''/''" and "hd r = CHR ''/''" and "r \<noteq> []" and "last r = CHR ''/''"
  shows "bad_path r"
proof -
  from assms(3) obtain a t where r: "r = a # t" by (cases r) auto
  with assms have "t \<noteq> []" "last t = CHR ''/''" by auto
  then have "tl r = butlast (tl r) @ ''/''" using r append_butlast_last_id[of t] by simp
  then have "split_on (CHR ''/'') (tl r) = split_on (CHR ''/'') (butlast (tl r)) @ [[]]"
    using split_on_sep[of "CHR ''/''" "butlast (tl r)" "[]"] by simp
  then show ?thesis by (simp add: bad_path_def)
qed

lemma slash_end: "has_suffix r ''/'' \<longleftrightarrow> r \<noteq> [] \<and> last r = CHR ''/''"
  by (cases r rule: rev_cases) (auto simp: has_suffix_def)

lemma normalize_iff:
  "normalizePath q = Inr q \<longleftrightarrow> q = ''/'' \<or> q \<noteq> [] \<and> hd q = CHR ''/'' \<and> last q \<noteq> CHR ''/'' \<and> \<not> bad_path q"
  by (auto simp: normalizePath_def bad_path_def slash_end)

lemma sanitize_eq:
  "sanitizePath p = (if p = [] \<or> p = ''/'' then ''/'' else if hd p \<noteq> CHR ''/'' then []
     else let q = (if last p = CHR ''/'' then butlast p else p) in if bad_path q then [] else q)"
  by (simp add: sanitizePath_def bad_path_def)

text \<open>
  The paths that requests reach the engine with are exactly the canonical ones. A path is
  let through when it is canonical, or canonical with one more slash at its end, which is
  stripped; the empty path is the root.
\<close>

theorem sanitize_canonical:
  "sanitizePath p = q \<and> q \<noteq> [] \<longleftrightarrow>
   normalizePath q = Inr q \<and> (p = q \<or> q \<noteq> ''/'' \<and> p = q @ ''/'' \<or> q = ''/'' \<and> p = [])"
proof
  assume q: "sanitizePath p = q \<and> q \<noteq> []"
  show "normalizePath q = Inr q \<and> (p = q \<or> q \<noteq> ''/'' \<and> p = q @ ''/'' \<or> q = ''/'' \<and> p = [])"
  proof (cases "p = [] \<or> p = ''/''")
    case True
    with q show ?thesis by (auto simp: sanitize_eq normalize_iff)
  next
    case False
    let ?r = "if last p = CHR ''/'' then butlast p else p"
    have r: "hd p = CHR ''/''" "q = ?r" "\<not> bad_path ?r" using q False by (auto simp: sanitize_eq Let_def split: if_splits)
    have "?r \<noteq> ''/''" using r(3) by (auto simp: bad_path_def)
    moreover have "?r \<noteq> []" "hd ?r = CHR ''/''" using False r(1) by (cases p rule: rev_cases; auto simp: hd_append)+
    ultimately have "last ?r \<noteq> CHR ''/''" using bad_path_slash r(3) by blast
    moreover have "p = ?r \<or> p = ?r @ ''/''" using False by (cases p rule: rev_cases) auto
    ultimately show ?thesis
      unfolding r(2) normalize_iff using \<open>?r \<noteq> []\<close> \<open>hd ?r = CHR ''/''\<close> \<open>?r \<noteq> ''/''\<close> r(3) by blast
  qed
next
  assume "normalizePath q = Inr q \<and> (p = q \<or> q \<noteq> ''/'' \<and> p = q @ ''/'' \<or> q = ''/'' \<and> p = [])"
  then show "sanitizePath p = q \<and> q \<noteq> []" by (auto simp: normalize_iff sanitize_eq Let_def hd_append)
qed

end
