(* ===== verification/DavMove.thy ===== *)
theory DavMove
  imports DavProps
begin

text \<open>
  COPY and MOVE of the WebDAV server: what they do to the mount table, and the cases in which
  they lose a resource.
\<close>

section \<open>The steps\<close>

text \<open>A request without the headers that make COPY and MOVE conditional.\<close>

definition unconditional :: "http_request \<Rightarrow> bool" where
  "unconditional rq \<longleftrightarrow> get_header rq ''If-Match'' = [] \<and> get_header rq ''If-None-Match'' = [] \<and>
     get_header rq ''Overwrite'' \<noteq> ''F''"

lemma unconditional_checks:
  assumes "unconditional rq"
  shows "checkCopyMovePreconditions sv rq src dst c rs s = (s, Done None)"
    and "allowOverwrite sv rq dst c s = (s, Done True)"
  using assms by (simp_all add: unconditional_def checkCopyMovePreconditions_def allowOverwrite_def Let_def)

text \<open>The entry that a copy of \<open>m\<close> is mounted with.\<close>

definition copy_of :: "mount_entry \<Rightarrow> mount_entry" where
  "copy_of m = (let e = zero_entry\<lparr>me_Mode := me_Mode m, me_UID := me_UID m, me_GID := me_GID m\<rparr>
     in if me_Kind m = KindLink then e\<lparr>me_Kind := KindLink, me_LinkPath := content m\<rparr>
        else e\<lparr>me_Kind := KindBlob, me_BlobData := content m\<rparr>)"

lemma copy_of_plain: "plain_entry (copy_of m)"
  by (simp add: copy_of_def plain_entry_def zero_entry_def Let_def)

lemma copy_served:
  assumes "serves src c m (fst (snd s))"
  shows "\<exists>t. mounts_of t = mounts_of (snd s) \<and> copyResource sv src dst c s = dav_mount sv dst (copy_of m) (fst s, t)"
proof -
  let ?t = "fst (fs_Read (sv_env sv) src c (fst (fs_Stat (sv_env sv) src c (snd s))))"
  have "serves src c m (fst (snd (fst s, fst (fs_Stat (sv_env sv) src c (snd s)))))" using assms by simp
  note rd = next_read_served[OF this, of sv] and st = next_stat_served[OF assms, of sv]
  have "me_Kind m = KindBlob \<or> me_Kind m = KindLink" using assms by (simp add: serves_def)
  then have "copyResource sv src dst c s = dav_mount sv dst (copy_of m) (fst s, ?t)"
    by (auto simp: copyResource_def st rd served_stat_def copy_of_def Let_def)
  moreover have "mounts_of ?t = mounts_of (snd s)" by (simp add: mounts_read mounts_stat)
  ultimately show ?thesis by blast
qed

text \<open>When the destination does not exist, COPY and MOVE come down to the copy.\<close>

lemma copy_or_move_fresh:
  assumes "\<not> mo_ReadOnly (sv_opts sv)" and "destinationPath sv rq = Some dst" and "unconditional rq"
    and "serves src c m (fst (snd s))" and "snd (fs_Stat (sv_env sv) dst c (snd s)) = Fail e"
  shows "\<exists>t. mounts_of t = mounts_of (snd s) \<and> copy_or_move after sv rq src c rs s =
    next_do (dav_mount sv dst (copy_of m) (fst s, t)) (\<lambda>s r.
      case r of
        Inl e \<Rightarrow> (s, Done (writeError e rs))
      | Inr u \<Rightarrow> next_do (after s) (\<lambda>s r.
          case r of
            Inl e \<Rightarrow> (s, Done (writeError e rs))
          | Inr u \<Rightarrow> (dav_invalidate dst (dav_invalidate src s), Done (write_header 204 rs))))"
proof -
  let ?s = "(fst s, fst (fs_Stat (sv_env sv) dst c (snd s)))"
  have "serves src c m (fst (snd ?s))" using assms(4) by simp
  from copy_served[OF this, of sv dst] obtain t where t: "mounts_of t = mounts_of (snd ?s)"
    "copyResource sv src dst c ?s = dav_mount sv dst (copy_of m) (fst ?s, t)" by blast
  show ?thesis
    using t(1) assms(1,2)
    by (intro exI[of _ t])
       (simp add: copy_or_move_def unconditional_checks[OF assms(3)] mounts_stat next_call(2)[of "fs_Stat (sv_env sv) dst c" s, OF assms(5)] t(2)[simplified] Let_def)
qed

section \<open>MOVE\<close>

lemma http_status_no_success: "HTTPStatusFromError e \<noteq> 204"
  by (cases "ExtractErrno e" rule: http_of_errno.cases) (simp_all add: HTTPStatusFromError_def)

lemma writeError_status: "rs_Status (writeError e new_response) = Some (HTTPStatusFromError (Some e))"
  by (simp add: writeError_def Let_def new_response_def)

lemma served_mode: "serves p c m fs \<Longrightarrow> me_Mode m \<noteq> 0"
  using canAccess_bit[of OpRead c "me_UID m" "me_GID m" "me_Mode m"]
  by (auto simp: serves_def access_check_Inr)

text \<open>What the copy is mounted as.\<close>

lemma copy_entry:
  assumes "serves src c m fs"
  shows "content (entry_defaults cfg now p (copy_of m)\<lparr>me_ID := i\<rparr>) = content m \<and>
    me_Kind (entry_defaults cfg now p (copy_of m)\<lparr>me_ID := i\<rparr>) = me_Kind m \<and>
    me_Mode (entry_defaults cfg now p (copy_of m)\<lparr>me_ID := i\<rparr>) = me_Mode m \<and>
    me_Namespace (entry_defaults cfg now p (copy_of m)\<lparr>me_ID := i\<rparr>) = []"
  using assms served_mode[OF assms]
  by (auto simp: serves_def entry_defaults_def copy_of_def content_def zero_entry_def Let_def)

text \<open>Adding one mount and then removing another one.\<close>

lemma add_then_remove:
  assumes "router_ok r" and "router_add r e = (r1, Inr m')" and "mount_at r src = Some m"
  obtains r2 where "router_remove r1 src = (r2, Inr m)"
    "mset (router_snapshot r2) = add_mset m' (mset (router_snapshot r) - {#m#})"
    "mount_at r2 (me_Path e) = Some m'" "mount_at r2 src = None"
proof -
  obtain old where old: "cleanParts src = Inr old" "look old (r_root r) = Some m"
    using assms(3) by (auto simp: mount_at_def split: sum.splits)
  obtain new where new: "cleanParts (me_Path e) = Inr new" "look new (r_root r) = None"
    "\<And>qs. look qs (r_root r1) = (if same_pat new qs then Some m' else look qs (r_root r))"
    by (rule router_add_look[OF assms(2)]) (rule that)
  have ne: "\<not> same_pat new old" using old(2) new(2) look_same[of new old "r_root r"] by auto
  have ok1: "router_ok r1" using router_add_new_mount[OF assms(1,2)] by blast
  have l: "look old (r_root r1) = Some m" using ne old(2) new(3) by simp
  obtain r2 where r2: "router_remove r1 src = (r2, Inr m)" "router_ok r2"
    "\<And>qs. look qs (r_root r2) = (if same_pat old qs then None else look qs (r_root r1))"
    by (rule router_remove_there[OF ok1 old(1) l]) (rule that)
  have "mset (router_snapshot r2) = add_mset m' (mset (router_snapshot r) - {#m#})"
  proof -
    have "m \<in># mset (router_snapshot r)" using snapshot_covers[OF assms(1) old(2)] by simp
    moreover have "mset (router_snapshot r2) = add_mset m' (mset (router_snapshot r)) - {#m#}"
      using router_remove_snapshot[OF ok1 r2(1)] router_add_new_mount[OF assms(1,2)] by simp
    ultimately show ?thesis by (simp add: diff_union_swap2)
  qed
  moreover have "mount_at r2 (me_Path e) = Some m'" "mount_at r2 src = None"
    using r2(3)[of new] r2(3)[of old] new(1,3) old(1) ne same_pat_sym[of old new]
    by (auto simp: mount_at_def)
  ultimately show ?thesis by (rule that[OF r2(1)])
qed

text \<open>A path that names no parameter names at most the mount that it is answered from.\<close>

definition literal_path :: "string \<Rightarrow> bool" where
  "literal_path p \<longleftrightarrow> list_all (\<lambda>s. \<not> is_param s) (path_segs p)"

lemma literal_same: "list_all (\<lambda>s. \<not> is_param s) ss \<Longrightarrow> same_pat ps ss \<Longrightarrow> ps = ss"
  by (induction ps ss rule: same_pat.induct) (auto simp: same_seg_def split: if_splits)

lemma literal_mount:
  assumes "normalizePath p = Inr p" and "literal_path p" and "mount_at r p = Some m0"
    and "router_match r p = Inr \<lparr>rm_mount = Some m, rm_params = ps\<rparr>"
  shows "m0 = m"
proof -
  note n = normalize_parts[OF assms(1)]
  with assms(3) have "look (path_segs p) (r_root r) = Some m0" by (simp add: mount_at_def)
  then obtain n' where "walk (path_segs p) (r_root r) empty_params = Inr (n', empty_params)" "rn_mount n' = Some m0"
    using walk_static[of "path_segs p" "r_root r" m0 empty_params] assms(2) n
    by (auto simp: literal_path_def good_parts_def list_all_iff)
  with assms(4) show ?thesis by (auto simp: router_match_walk split: if_splits)
qed

text \<open>A free destination is another place than the source.\<close>

lemma other_place:
  assumes "normalizePath src = Inr src" and "literal_path src" and "normalizePath dst = Inr dst" and "dst \<noteq> src"
  shows "\<not> same_pat (path_segs dst) (path_segs src)"
  using literal_same[of "path_segs src" "path_segs dst"] assms normalize_parts[OF assms(1)] normalize_parts[OF assms(3)]
  by (metis literal_path_def)

lemma unmount_absent:
  assumes "normalizePath p = Inr p" and "mount_at (fs_router fs) p = None"
  shows "\<exists>fs' e. fs_Unmount env w p fs = (fs', Some e) \<and> fs_router fs' = fs_router fs"
proof -
  note n = normalize_parts[OF assms(1)]
  with assms(2) have "look (path_segs p) (r_root (fs_router fs)) = None" by (simp add: mount_at_def)
  then have "router_remove (fs_router fs) p = (fs_router fs, Inl (posix ENOENT OpStat p None))"
    using n look_remove[of "path_segs p" "r_root (fs_router fs)"]
    by (cases "node_remove (path_segs p) (r_root (fs_router fs))") (auto simp: router_remove_def)
  with assms(1) show ?thesis
    by (auto simp: fs_Unmount_def unmount_body_def unmountLocked_def Let_def)
qed


definition move_request :: "string \<Rightarrow> http_request" where
  "move_request dst = \<lparr>rq_Method = ''MOVE'', rq_Path = ''/a'', rq_Header = [(''Destination'', dst)],
     rq_Body = [], rq_Broken = False\<rparr>"

lemma move_request_simps:
  "unconditional (move_request dst)" "dst \<noteq> [] \<Longrightarrow> destinationPath (demo_server plain_opts) (move_request dst) = Some dst"
  "\<not> mo_ReadOnly (sv_opts (demo_server plain_opts))"
  by (simp_all add: move_request_def unconditional_def get_header_def destinationPath_def demo_server_def
      plain_opts_def Let_def)

lemma data_fs_router: "router_ok (fs_router (data_fs d))" "mount_at (fs_router (data_fs d)) ''/a'' = Some (data_mount d)"
  "plain_entry (data_mount d)" "normalizePath ''/a'' = Inr ''/a''"
proof -
  show "router_ok (fs_router (data_fs d))" by (simp add: data_fs_def blob_fs_def router_add_ok router_ok_new)
  show "mount_at (fs_router (data_fs d)) ''/a'' = Some (data_mount d)"
    by (simp add: data_fs_def blob_fs_def data_mount_def rw_blob_def mount_at_def demo_eval)
  show "plain_entry (data_mount d)"
    by (simp add: data_mount_def rw_blob_def demo_entry_def zero_entry_def plain_entry_def)
  show "normalizePath ''/a'' = Inr ''/a''" by (simp add: normalizePath_def has_suffix_def)
qed


section \<open>Lost destinations\<close>

lemma stat_fails_or_uncopyable:
  assumes "ordinary src" and "\<And>rm. router_match (fs_router fs) src = Inr rm \<Longrightarrow>
      \<exists>k. rm_mount rm = Some k \<and> me_Kind k \<in> {KindAPI, KindStream}"
  shows "(\<exists>e. stat_body env src c fs = Fail e) \<or>
    (\<exists>st. stat_body env src c fs = Ok st \<and> st_Kind st \<in> {KindAPI, KindStream})"
  using assms
  by (auto simp: stat_body_def ordinary_def stat_router_def mount_size_def split: sum.splits option.splits)

lemma copy_fails:
  assumes "ordinary src" and "\<And>rm. router_match (fs_router (fst (snd s))) src = Inr rm \<Longrightarrow>
      \<exists>k. rm_mount rm = Some k \<and> me_Kind k \<in> {KindAPI, KindStream}"
  shows "\<exists>s' e. copyResource sv src dst c s = (s', Failed e) \<and> mounts_of (snd s') = mounts_of (snd s)"
proof -
  let ?t = "(fst s, fst (fs_Stat (sv_env sv) src c (snd s)))"
  have m: "mounts_of (snd ?t) = mounts_of (snd s)" by (simp add: mounts_stat)
  have sn: "snd (fs_Stat (sv_env sv) src c (snd s)) = stat_body (sv_env sv) src c (fst (snd s))"
    by (simp add: fs_Stat_def)
  from stat_fails_or_uncopyable[OF assms(1), of "fst (snd s)" "sv_env sv" c] assms(2)
  consider e where "snd (fs_Stat (sv_env sv) src c (snd s)) = Fail e"
    | st where "snd (fs_Stat (sv_env sv) src c (snd s)) = Ok st" "st_Kind st \<in> {KindAPI, KindStream}"
    unfolding sn by blast
  then show ?thesis
  proof cases
    case 1
    with m show ?thesis
      by (intro exI[of _ ?t]) (simp add: copyResource_def next_call(2)[of "fs_Stat (sv_env sv) src c" s, OF 1])
  next
    case 2
    with m show ?thesis
      by (intro exI[of _ ?t]) (auto simp: copyResource_def next_call(1)[of "fs_Stat (sv_env sv) src c" s, OF 2(1)] Let_def)
  qed
qed

text \<open>
  COPY and MOVE unmount an existing destination before they know that the source can be
  copied. When it cannot, because it is an API or a stream, or because source and destination
  are the same path, the request is answered with an error and the destination is gone: a
  file that is moved onto itself is deleted.
\<close>

theorem dav_copy_destroys:
  assumes "router_ok (fs_router (fst (snd s)))" and "\<not> mo_ReadOnly (sv_opts sv)"
    and "destinationPath sv rq = Some dst" and "unconditional rq" and "ordinary src"
    and "snd (fs_Stat (sv_env sv) dst c (snd s)) = Ok st" and "normalizePath dst = Inr dst"
    and "router_remove (fs_router (fst (snd s))) dst = (r', Inr d)" and "plain_entry d"
    and "\<And>rm. router_match r' src = Inr rm \<Longrightarrow> \<exists>k. rm_mount rm = Some k \<and> me_Kind k \<in> {KindAPI, KindStream}"
    and "handle = handleCopy \<or> handle = handleMove"
  shows "\<exists>s' rs e. handle sv rq src c new_response s = (s', Done rs) \<and>
    rs_Status rs = Some (HTTPStatusFromError (Some e)) \<and>
    mset (fs_Snapshot (fst (snd s))) = add_mset d (mset (fs_Snapshot (fst (snd s'))))"
proof -
  let ?s = "(fst s, fst (fs_Stat (sv_env sv) dst c (snd s)))"
  have r: "fs_router (fst (snd ?s)) = fs_router (fst (snd s))"
    using mounts_stat[of "sv_env sv" dst c "snd s"] by (simp add: mounts_of_def)
  have rr: "router_remove (fs_router (fst (snd ?s))) dst = (r', Inr d)" unfolding r by (rule assms(8))
  from unmount_outcome[OF assms(7) rr assms(9), of "sv_env sv" "snd (snd ?s)"]
  obtain fs1 where um: "fs_Unmount (sv_env sv) (snd (snd ?s)) dst (fst (snd ?s)) = (fs1, None)" "fs_router fs1 = r'"
    by blast
  let ?s1 = "(fst s, fs1, snd (snd ?s))"
  have hyp: "\<exists>k. rm_mount rm = Some k \<and> me_Kind k \<in> {KindAPI, KindStream}"
    if "router_match (fs_router (fst (snd ?s1))) src = Inr rm" for rm
    by (rule assms(10)) (use that um(2) in simp)
  obtain s2 e where cp: "copyResource sv src dst c ?s1 = (s2, Failed e)" "mounts_of (snd s2) = mounts_of (snd ?s1)"
    using copy_fails[OF assms(5) hyp] by blast
  have "copy_or_move after sv rq src c new_response s = (s2, Done (writeError e new_response))" for after
    using assms(2,3) um(1) cp(1)
    by (simp add: copy_or_move_def unconditional_checks[OF assms(4)] lift_err_def split_beta
        next_call(1)[of "fs_Stat (sv_env sv) dst c" s, OF assms(6)])
  then have "handle sv rq src c new_response s = (s2, Done (writeError e new_response))"
    using assms(11) by (auto simp: handleCopy_def handleMove_def)
  moreover have "mset (router_snapshot (fs_router (fst (snd s)))) = add_mset d (mset (router_snapshot (fs_router (fst (snd s2)))))"
    using router_remove_snapshot[OF assms(1,8)] cp(2) um(2) by (simp add: mounts_of_def)
  ultimately show ?thesis by (auto simp: writeError_status fs_Snapshot_def)
qed

lemma dav_copy_destroys_witness:
  "\<exists>s' rs e. handleMove (demo_server plain_opts) (move_request ''/a'') ''/a'' anonymous new_response
       (None, data_fs ''xy'', 7) = (s', Done rs) \<and> rs_Status rs = Some (HTTPStatusFromError (Some e)) \<and>
     mset (fs_Snapshot (data_fs ''xy'')) = add_mset (data_mount ''xy'') (mset (fs_Snapshot (fst (snd s'))))"
proof -
  let ?s = "(None :: prop_cache option, data_fs ''xy'', 7 :: int)" and ?sv = "demo_server plain_opts"
  let ?r = "fst (router_remove (fs_router (data_fs ''xy'')) ''/a'')"
  have rr: "router_remove (fs_router (fst (snd ?s))) ''/a'' = (?r, Inr (data_mount ''xy''))"
    by (simp add: data_fs_def blob_fs_def rw_blob_def data_mount_def router_remove_def demo_eval)
  have m: "router_match ?r ''/a'' = Inl (posix ENOENT OpStat ''/a'' None)"
    by (simp add: data_fs_def blob_fs_def rw_blob_def router_remove_def router_match_walk path_segs_def demo_eval)
  have ok: "router_ok (fs_router (fst (snd ?s)))" by (simp add: data_fs_router)
  have "serves ''/a'' anonymous (data_mount ''xy'') (fst (snd ?s))" by (simp add: data_fs_serves)
  then have st: "snd (fs_Stat (sv_env ?sv) ''/a'' anonymous (snd ?s)) = Ok (served_stat ''/a'' (data_mount ''xy''))"
    by (rule stat_served)
  have mv: "(handleMove :: int server \<Rightarrow> _) = handleCopy \<or> (handleMove :: int server \<Rightarrow> _) = handleMove" by simp
  from dav_copy_destroys[OF ok move_request_simps(3) move_request_simps(2) move_request_simps(1) ordinary_a
      st data_fs_router(4) rr data_fs_router(3) _ mv] m
  show ?thesis by simp
qed

end
