(* ===== verification/DavFind.thy ===== *)
theory DavFind
  imports DavMove
begin

text \<open>
  PROPFIND of the WebDAV server: it ends when its depth is bounded, it need not end when it is
  not, and what it does to streams.
\<close>

section \<open>Bounded depth\<close>

lemma next_do_cong:
  "out = out' \<Longrightarrow> (\<And>s r. k s r = k' s r) \<Longrightarrow> next_do out k = next_do out' k'"
  by (simp add: next_do_def split: http_end.splits prod.splits)

definition enough :: "'s \<times> 'a http_end \<Rightarrow> bool" where
  "enough out \<longleftrightarrow> snd out \<noteq> OutOfFuel"

lemma enough_end [simp]: "enough (s, r) \<longleftrightarrow> r \<noteq> OutOfFuel"
  by (simp add: enough_def)

lemma next_do_fuel: "enough out \<Longrightarrow> (\<And>s r. enough (k s r)) \<Longrightarrow> enough (next_do out k)"
  by (cases out; cases "snd out") (auto simp: next_do_def)

lemma lift_fuel [simp]: "enough (lift_call op s)"
  by (auto simp: lift_call_def Let_def split_beta split: res.splits)

lemma cached_props_fuel [simp]: "enough (cached_props sv p c s)"
  by (auto simp: cached_props_def Let_def intro!: next_do_fuel split: option.splits sum.splits)

lemma each_child_cong: "(\<And>x s. x \<in> set xs \<Longrightarrow> f x s = g x s) \<Longrightarrow> each_child f xs s = each_child g xs s"
  by (induction xs arbitrary: s) (auto intro!: next_do_cong)

lemma each_child_fuel: "(\<And>x s. enough (f x s)) \<Longrightarrow> enough (each_child f xs s)"
  by (induction xs arbitrary: s) (auto intro!: next_do_fuel split: sum.splits)

lemma propfind_fuel: "0 \<le> d \<Longrightarrow> nat (d - k) < n \<Longrightarrow> enough (propfindRecursive n sv d c p k s)"
proof (induction n arbitrary: p k s)
  case (Suc n)
  then have IH: "enough (propfindRecursive n sv d c q (k + 1) t)" if "\<not> d \<le> k" for q t
    using that by (intro Suc.IH) auto
  show ?case
    using \<open>0 \<le> d\<close> by (auto simp: Let_def IH intro!: next_do_fuel each_child_fuel split: sum.splits)
qed simp

text \<open>More fuel than needed changes nothing.\<close>

lemma propfind_fuel_any:
  "0 \<le> d \<Longrightarrow> nat (d - k) < n \<Longrightarrow> nat (d - k) < m \<Longrightarrow>
   propfindRecursive n sv d c p k s = propfindRecursive m sv d c p k s"
proof (induction n arbitrary: m p k s)
  case (Suc n)
  then obtain m' where m: "m = Suc m'" by (cases m) auto
  have "propfindRecursive n sv d c q (k + 1) t = propfindRecursive m' sv d c q (k + 1) t" if "\<not> d \<le> k" for q t
    using that Suc.prems m by (intro Suc.IH) auto
  then show ?case
    unfolding m using \<open>0 \<le> d\<close> by (auto simp: Let_def intro!: next_do_cong each_child_cong split: sum.splits)
qed simp

text \<open>
  C19: a PROPFIND ends. Unless the server is configured without a limit on the depth and the
  client asks for infinite depth, the recursion is no deeper than the limit (three levels by
  default): with fuel for one level more it does not run out, and its outcome is the same for
  every such fuel.
\<close>

theorem propfind_terminates:
  assumes "0 \<le> mo_MaxPropfindDepth (sv_opts sv) \<or> get_header rq ''Depth'' \<notin> {[], ''infinity''}"
    and "nat (propfind_depth (sv_opts sv) (if get_header rq ''Depth'' = [] then ''infinity'' else get_header rq ''Depth'')) < n"
    and "n \<le> m"
  shows "snd (handlePropfind n sv rq p c rs s) \<noteq> OutOfFuel \<and>
    handlePropfind m sv rq p c rs s = handlePropfind n sv rq p c rs s"
proof -
  let ?dh = "if get_header rq ''Depth'' = [] then ''infinity'' else get_header rq ''Depth''"
  let ?d = "propfind_depth (sv_opts sv) ?dh"
  have d: "0 \<le> ?d" using assms(1) by (auto simp: propfind_depth_def Let_def)
  then have e: "enough (propfindRecursive n sv ?d c p 0 s)"
    and eq: "propfindRecursive m sv ?d c p 0 s = propfindRecursive n sv ?d c p 0 s"
    using assms(2,3) by (auto intro: propfind_fuel propfind_fuel_any)
  have "enough (handlePropfind n sv rq p c rs s)"
    using e by (auto simp: handlePropfind_def buildPropfindEntries_def Let_def intro!: next_do_fuel)
  then show ?thesis using eq by (simp add: enough_def handlePropfind_def buildPropfindEntries_def Let_def)
qed

lemma propfind_terminates_witness:
  "snd (handlePropfind 4 (demo_server plain_opts) (move_request ''/b'') ''/a'' anonymous new_response (None, data_fs ''x'', 0)) \<noteq> OutOfFuel"
  using propfind_terminates[of "demo_server plain_opts" "move_request ''/b''" 4 4 "''/a''" anonymous new_response "(None, data_fs ''x'', 0)"]
  by (simp add: demo_server_def plain_opts_def move_request_def get_header_def propfind_depth_def)

section \<open>Unbounded depth\<close>

lemma clean_segs_run: "\<forall>x\<in>set parts. \<not> bad_seg x \<Longrightarrow> clean_segs st (parts @ ss) = clean_segs (rev parts @ st) ss"
  by (induction parts arbitrary: st) (auto simp: bad_seg_def)

lemma path_Join_dot:
  assumes "normalizePath p = Inr p"
  shows "path_Join p ''.'' = p"
proof -
  obtain parts where g: "good_parts parts" and p: "p = path_of parts" using assms normalize_good by blast
  show ?thesis
  proof (cases "parts = []")
    case True
    then show ?thesis unfolding p by (simp add: path_Join_def path_of_def)
  next
    case False
    have "split_on (CHR ''/'') (p @ ''/.'') = [] # parts @ [''.'']"
      using g False split_on_sep[of "CHR ''/''" p "''.''"] split_join[of parts "CHR ''/''"]
      by (simp add: p path_of_def good_parts_def)
    then show ?thesis
      using g clean_segs_run[of parts "[]" "[''.'']"] unfolding p by (simp add: path_Join_def good_parts_def)
  qed
qed

lemma each_child_out: "snd (f x s) = OutOfFuel \<Longrightarrow> each_child f [x] s = (fst (f x s), OutOfFuel)"
  by (cases "f x s") auto

text \<open>
  Without a limit on the depth a PROPFIND need not end. When a directory lists the single
  entry \<open>.\<close>, as a dynamic directory does whose provider answers so, the child is the directory
  itself, and a request for infinite depth recurses however much fuel it is given.
\<close>

theorem propfind_never_ends:
  assumes "mo_MaxPropfindDepth (sv_opts sv) < 0" and "get_header rq ''Depth'' \<in> {[], ''infinity''}"
    and "fst s = None" and "normalizePath p = Inr p"
    and "\<And>t. mounts_of t = mounts_of (snd s) \<Longrightarrow> \<exists>st. snd (fs_Stat (sv_env sv) p c t) = Ok st \<and> is_dir (st_Kind st)"
    and "\<And>t. mounts_of t = mounts_of (snd s) \<Longrightarrow> \<exists>r. snd (fs_Read (sv_env sv) p c t) = Fail r"
    and "\<And>t. mounts_of t = mounts_of (snd s) \<Longrightarrow>
      \<exists>es. snd (fs_Readdir (sv_env sv) p c t) = Ok es \<and> map de_Name es = [''.'']"
  shows "snd (handlePropfind n sv rq p c rs s) = OutOfFuel"
proof -
  have d: "propfind_depth (sv_opts sv) (if get_header rq ''Depth'' = [] then ''infinity'' else get_header rq ''Depth'') = - 1"
    using assms(1,2) by (auto simp: propfind_depth_def)
  have "snd (propfindRecursive n sv (- 1) c p k t) = OutOfFuel"
    if "mounts_of (snd t) = mounts_of (snd s)" "fst t = None" for k t
    using that
  proof (induction n arbitrary: k t)
    case (Suc n)
    obtain st where st: "snd (fs_Stat (sv_env sv) p c (snd t)) = Ok st" "is_dir (st_Kind st)"
      using assms(5)[OF Suc.prems(1)] by blast
    let ?t1 = "(None :: prop_cache option, fst (fs_Stat (sv_env sv) p c (snd t)))"
    have m1: "mounts_of (snd ?t1) = mounts_of (snd s)" using Suc.prems(1) by (simp add: mounts_stat)
    obtain r where rd: "snd (fs_Read (sv_env sv) p c (snd ?t1)) = Fail r" using assms(6)[OF m1] by blast
    let ?t2 = "(None :: prop_cache option, fst (fs_Read (sv_env sv) p c (snd ?t1)))"
    have m2: "mounts_of (snd ?t2) = mounts_of (snd s)" using m1 by (simp add: mounts_read)
    from assms(7)[OF m2] obtain es where es:
      "snd (fs_Readdir (sv_env sv) p c (snd ?t2)) = Ok es \<and> map de_Name es = [''.'']" ..
    let ?t3 = "(None :: prop_cache option, fst (fs_Readdir (sv_env sv) p c (snd ?t2)))"
    have m3: "mounts_of (snd ?t3) = mounts_of (snd s)" using m2 by (simp add: mounts_readdir)
    have cp: "cached_props sv p c t = (?t2, Done (st, []))"
      using Suc.prems(2) rd
      by (simp add: cached_props_def pc_get_def pc_set_def data_etag_def next_call(1)[of "fs_Stat (sv_env sv) p c" t, OF st(1)]
          next_call(2)[of "fs_Read (sv_env sv) p c" ?t1, OF rd])
    have "snd (propfindRecursive n sv (- 1) c (path_Join p ''.'') (k + 1) ?t3) = OutOfFuel"
      using Suc.IH[OF m3, of "k + 1"] Suc.prems(2) path_Join_dot[OF assms(4)] by simp
    note ec = each_child_out[of "\<lambda>name. propfindRecursive n sv (- 1) c (path_Join p name) (k + 1)", OF this]
    show ?case
      using st(2) es ec[simplified snd_conv]
      by (simp add: cp Let_def next_call(1)[of "fs_Readdir (sv_env sv) p c" ?t2, OF es[THEN conjunct1], simplified] del: each_child.simps)
  qed simp
  then show ?thesis
    using assms(3) d by (simp add: handlePropfind_def buildPropfindEntries_def Let_def next_do_def split_beta)
qed

definition dot_env :: "int env" where
  "dot_env = clock_env\<lparr>env_names := (\<lambda>d. Some [''.''])\<rparr>"

definition dot_mount :: mount_entry where
  "dot_mount = demo_entry ''/d'' KindDynamicDir\<lparr>me_Ops := [(OpRead, Some (clock_cap\<lparr>cc_CacheTTL := 0\<rparr>))]\<rparr>"

definition dot_fs :: fs_state where
  "dot_fs = (blob_fs dot_mount)\<lparr>fs_providers := [''clock'']\<rparr>"

lemma dot_match: "router_match (fs_router dot_fs) ''/d'' = Inr \<lparr>rm_mount = Some (dot_mount\<lparr>me_ID := 1\<rparr>), rm_params = empty_params\<rparr>"
  "router_list (fs_router dot_fs) ''/d'' = Inr []"
  by (simp_all add: dot_fs_def dot_mount_def blob_fs_def router_match_walk router_list_def router_node_walk path_segs_def demo_eval)

lemma dot_plain: "skillDirPath ''/d'' = None" "skillFilePath ''/d'' = None"
  by (simp_all add: skillDirPath_def skillFilePath_def skills_prefix_def has_prefix_def)

lemma dot_access: "canAccessNamespace anonymous m" "canAccess anonymous u g md OpReaddir"
  by (simp_all add: canAccessNamespace_def canAccess_def anonymous_def)

lemma infer_name: "de_Name (infer_kind r p e) = de_Name e"
  by (simp add: infer_kind_def split: sum.splits option.splits)

lemma dot_breaker: "bc_Enabled (g_Breaker (fs_cfg dot_fs)) = False"
  by (simp add: dot_fs_def blob_fs_def demo_fs_eval)

lemma dot_calls:
  assumes "mounts_of t = mounts_of (dot_fs, w)"
  shows "\<exists>st. snd (fs_Stat dot_env ''/d'' anonymous t) = Ok st \<and> is_dir (st_Kind st)"
    and "\<exists>r. snd (fs_Read dot_env ''/d'' anonymous t) = Fail r"
    and "\<exists>es. snd (fs_Readdir dot_env ''/d'' anonymous t) = Ok es \<and> map de_Name es = [''.'']"
proof -
  have r: "fs_router (fst t) = fs_router dot_fs" "fs_providers (fst t) = [''clock'']"
    "g_Breaker (fs_cfg (fst t)) = g_Breaker (fs_cfg dot_fs)"
    using assms by (simp_all add: mounts_of_def) (simp add: dot_fs_def)
  show "\<exists>st. snd (fs_Stat dot_env ''/d'' anonymous t) = Ok st \<and> is_dir (st_Kind st)"
    by (simp add: fs_Stat_def stat_body_def stat_router_def r dot_match dot_plain dot_access mount_size_def is_dir_def)
       (simp add: dot_mount_def demo_entry_def)
  show "\<exists>r. snd (fs_Read dot_env ''/d'' anonymous t) = Fail r"
    by (auto simp: fs_Read_def read_body_def access_check_def r dot_match dot_plain dot_access)
       (simp add: dot_mount_def demo_entry_def)
  let ?e = "infer_kind (fs_router dot_fs) ''/d'' \<lparr>de_Name = ''.'', de_Kind = KindOther [], de_Mode = 0\<rparr>"
  have "snd (listDynamicDir dot_env (dot_mount\<lparr>me_ID := 1\<rparr>) ''/d'' empty_params anonymous t) = Inr [?e]"
    by (simp add: listDynamicDir_def fs_providerFor_def providerFor_def breakerOpen_def r dot_mount_def clock_cap_def
        fs_invoke_def invokeProvider_def dot_env_def clock_env_def parseDynamicEntries_def Let_def dot_breaker)
  moreover have "de_Name ?e = ''.''" by (simp add: infer_name)
  moreover have "filterDirEntriesByNamespace (fs_router dot_fs) [] ''/d'' anonymous = []"
    by (simp add: filterDirEntriesByNamespace_def)
  moreover have "me_Kind dot_mount = KindDynamicDir" by (simp add: dot_mount_def demo_entry_def)
  ultimately show "\<exists>es. snd (fs_Readdir dot_env ''/d'' anonymous t) = Ok es \<and> map de_Name es = [''.'']"
    by (auto simp: fs_Readdir_def readdir_body_def readdir_router_def readdir_match_def r dot_match dot_plain dot_access
        Let_def mergeDirEntries_def split: prod.splits)
qed

lemma propfind_never_ends_witness:
  "snd (handlePropfind n ((demo_server (plain_opts\<lparr>mo_MaxPropfindDepth := - 1\<rparr>))\<lparr>sv_env := dot_env\<rparr>)
     (move_request ''/b'') ''/d'' anonymous new_response (None, dot_fs, 0)) = OutOfFuel"
proof -
  let ?sv = "(demo_server (plain_opts\<lparr>mo_MaxPropfindDepth := - 1\<rparr>))\<lparr>sv_env := dot_env\<rparr>"
  have "mo_MaxPropfindDepth (sv_opts ?sv) < 0" "get_header (move_request ''/b'') ''Depth'' \<in> {[], ''infinity''}"
    by (simp_all add: demo_server_def move_request_def get_header_def)
  moreover have "normalizePath ''/d'' = Inr ''/d''" by (simp add: normalizePath_def has_suffix_def)
  moreover have "fst (None :: prop_cache option, dot_fs, 0 :: int) = None" by simp
  moreover note dot_calls[of _ 0]
  ultimately show ?thesis
    by (intro propfind_never_ends) simp_all
qed

section \<open>Streams\<close>

lemma read_stream:
  assumes "access_check OpRead ''readable'' p c (fs_router (fst s)) = Inr (m, ps)" and "me_Kind m = KindStream"
    and "ordinary p" and "map_of (fs_streams (fst s)) p = Some b" and "sb_ok b" and "\<not> sb_closed b"
    and "fs_Read env p c s = (s', r)"
  shows "if contents b = [] then \<exists>x. r = Wait x
    else \<exists>b'. r = Ok (take (read_size (me_Stream m)) (contents b)) \<and> map_of (fs_streams (fst s')) p = Some b' \<and>
      contents b' = drop (read_size (me_Stream m)) (contents b)"
proof -
  let ?n = "read_size (me_Stream m)"
  have rb: "read_body env p c s = stream_read p (me_Stream m) (Some ?n) False s"
    using assms(1-3) by (simp add: read_body_def ordinary_def)
  have sr: "stream_read p (me_Stream m) (Some ?n) False s =
      (case sb_read b ?n False of
         Return (b', Inr data) \<Rightarrow> (put_stream p b' s, Ok data)
       | Return (b', Inl e) \<Rightarrow> (put_stream p b' s, Fail e)
       | Panic \<Rightarrow> (s, Crash)
       | Block \<Rightarrow> (s, Wait []))"
    using assms(4) by (simp add: stream_read_def sm_getOrCreate_def)
  have e: "s' = fst (finish env OpRead ''read'' p c (env_now env (snd s)) (read_body env p c s))"
    "r = snd (read_body env p c s)"
    using assms(7) unfolding fs_Read_def by (metis fst_conv, metis finish_result snd_conv)
  show ?thesis
  proof (cases "contents b = []")
    case True
    then have "sb_count b = 0" using contents_Nil[OF assms(5)] by simp
    with True assms(6) e rb sr show ?thesis by (simp add: sb_read_def)
  next
    case False
    then have n: "sb_count b \<noteq> 0" using contents_Nil[OF assms(5)] by simp
    obtain b' cs where rl: "read_loop ?n b = (b', cs)" by fastforce
    with read_loop_ok[OF assms(5), of ?n] have cs: "cs = take ?n (contents b)" "contents b' = drop ?n (contents b)"
      by auto
    have "read_body env p c s = (put_stream p b' s, Ok cs)" using rb sr n rl by (simp add: sb_read_def)
    with False e cs show ?thesis by (auto simp: put_stream_def)
  qed
qed

text \<open>
  PROPFIND reads what it lists. On a stream that holds nothing it waits for a writer and
  gives no answer; on one that holds data it answers, and the bytes it has read to compute an
  entity tag are gone for the readers of the stream.
\<close>

theorem propfind_reads_streams:
  assumes "access_check OpRead ''readable'' p c (fs_router (fst (snd s))) = Inr (m, ps)" and "me_Kind m = KindStream"
    and "ordinary p" and "map_of (fs_streams (fst (snd s))) p = Some b" and "sb_ok b" and "\<not> sb_closed b"
    and "fst s = None" and "handlePropfind (Suc n) sv rq p c new_response s = (s', r)"
  shows "if contents b = [] then r = Hangs
    else (\<exists>rs. r = Done rs \<and> rs_Status rs = Some 207) \<and>
      (\<exists>b'. map_of (fs_streams (fst (snd s'))) p = Some b' \<and>
         contents b' = drop (read_size (me_Stream m)) (contents b))"
proof -
  let ?t = "fst (fs_Stat (sv_env sv) p c (snd s))"
  obtain x where st: "snd (fs_Stat (sv_env sv) p c (snd s)) = Ok x" "st_Kind x = KindStream"
    using assms(1-3) by (auto simp: access_check_Inr fs_Stat_def stat_body_def stat_router_def ordinary_def mount_size_def)
  have t: "fs_router (fst ?t) = fs_router (fst (snd s))" "fs_streams (fst ?t) = fs_streams (fst (snd s))"
    by (simp_all add: fs_Stat_def)
  obtain u q where rd: "fs_Read (sv_env sv) p c ?t = (u, q)" by fastforce
  note str = read_stream[of p c ?t m ps b "sv_env sv" u q, unfolded t, OF assms(1-6) rd]
  have cp: "cached_props sv p c s =
      next_do (lift_call (fs_Read (sv_env sv) p c) (None, ?t)) (\<lambda>s d.
        let tag = data_etag sv (case d of Inl e \<Rightarrow> [] | Inr data \<Rightarrow> data)
        in ((pc_set p x tag (dav_now sv s) (fst s), snd s), Done (x, tag)))"
    using assms(7) by (simp add: cached_props_def pc_get_def next_call(1)[of "fs_Stat (sv_env sv) p c" s, OF st(1)])
  show ?thesis
  proof (cases "contents b = []")
    case True
    then obtain z where "q = Wait z" using str by auto
    with rd have "cached_props sv p c s = ((None, u), Hangs)" by (simp add: cp lift_call_def)
    then show ?thesis
      using True assms(8) by (simp add: handlePropfind_def buildPropfindEntries_def Let_def)
  next
    case False
    then obtain b' where q: "q = Ok (take (read_size (me_Stream m)) (contents b))"
      "map_of (fs_streams (fst u)) p = Some b'" "contents b' = drop (read_size (me_Stream m)) (contents b)"
      using str by auto
    with rd have "cached_props sv p c s =
        ((None, u), Done (x, data_etag sv (take (read_size (me_Stream m)) (contents b))))"
      by (simp add: cp lift_call_def pc_set_def Let_def)
    then have "snd s' = u" "\<exists>rs. r = Done rs \<and> rs_Status rs = Some 207"
      using assms(8) st(2)
      by (auto simp: handlePropfind_def buildPropfindEntries_def Let_def is_dir_def send_multistatus_def new_response_def)
    with False q(2,3) show ?thesis by auto
  qed
qed

definition ring :: stream_buffer where
  "ring = newStreamBuffer None"

definition pipe_fs :: fs_state where
  "pipe_fs = (blob_fs (demo_entry ''/a'' KindStream\<lparr>me_Mode := mode_0644\<rparr>))\<lparr>fs_streams := [(''/a'', ring)]\<rparr>"

abbreviation pipe_mount :: mount_entry where
  "pipe_mount \<equiv> demo_entry ''/a'' KindStream\<lparr>me_Mode := 420, me_ID := 1\<rparr>"

lemma pipe_access:
  "access_check OpRead ''readable'' ''/a'' anonymous (fs_router pipe_fs) = Inr (pipe_mount, empty_params)"
proof -
  have "router_match (fs_router pipe_fs) ''/a'' = Inr \<lparr>rm_mount = Some pipe_mount, rm_params = empty_params\<rparr>"
    by (simp add: pipe_fs_def blob_fs_def router_match_walk path_segs_def demo_eval)
  then show ?thesis
    unfolding access_check_Inr using owner_rw
    by (simp add: canAccessNamespace_def anonymous_def demo_entry_def zero_entry_def)
qed

lemma pipe_kind: "me_Kind pipe_mount = KindStream"
  by (simp add: demo_entry_def)

lemma ring_empty: "sb_ok ring" "\<not> sb_closed ring" "contents ring = []"
  by (simp_all add: ring_def sb_ok_new) (simp_all add: newStreamBuffer_def contents_def)

lemma pipe_read: "\<exists>x. snd (fs_Read env ''/a'' anonymous (pipe_fs, w)) = Wait x"
proof -
  obtain s' r where R: "fs_Read env ''/a'' anonymous (pipe_fs, w) = (s', r)" by fastforce
  have "map_of (fs_streams (fst (pipe_fs, w))) ''/a'' = Some ring" by (simp add: pipe_fs_def)
  from read_stream[OF _ pipe_kind ordinary_a this ring_empty(1,2) R] pipe_access R ring_empty(3) show ?thesis by simp
qed

lemma propfind_reads_streams_witness:
  "snd (handlePropfind 1 (demo_server plain_opts) (move_request ''/b'') ''/a'' anonymous new_response
     (None, pipe_fs, 0)) = Hangs"
proof -
  let ?s = "(None :: prop_cache option, pipe_fs, 0 :: int)"
  have b: "map_of (fs_streams (fst (snd ?s))) ''/a'' = Some ring" by (simp add: pipe_fs_def)
  obtain s' r where "handlePropfind (Suc 0) (demo_server plain_opts) (move_request ''/b'') ''/a'' anonymous new_response ?s = (s', r)"
    by fastforce
  with propfind_reads_streams[OF _ pipe_kind ordinary_a b ring_empty(1,2) _ this] ring_empty(3) pipe_access show ?thesis
    by simp
qed

end
