(* ===== verification/WebSocket.thy ===== *)
theory WebSocket
  imports WebDav
begin

text \<open>
  The WebSocket adapter, adapter/websocket/websocket.go: origins, the operations of one
  connection, its subscriptions with their channels, and what ends it.

  A connection is a state machine. Its steps are a frame from the client, the goroutine of a
  subscription that passes one event on, a change made elsewhere in the file system, and the
  end of the connection. encoding/json is the parameter \<open>json\<close>; what is written to the client is recorded
  as values. Deadlines, pings and compression are not modelled.
\<close>

section \<open>Origins\<close>

text \<open>strings.EqualFold on ASCII.\<close>

definition lower_char :: "char \<Rightarrow> char" where
  "lower_char c = (if 65 \<le> (of_char c :: nat) \<and> (of_char c :: nat) \<le> 90 then char_of ((of_char c :: nat) + 32) else c)"

definition EqualFold :: "string \<Rightarrow> string \<Rightarrow> bool" where
  "EqualFold a b \<longleftrightarrow> map lower_char a = map lower_char b"

definition checkOrigin :: "mount_options \<Rightarrow> http_request \<Rightarrow> bool" where
  "checkOrigin o1 rq =
     (if length (mo_AllowedOrigins o1) = 0 then True
      else
        (let origin0 = get_header rq ''Origin'';
             origin = (if origin0 = [] then get_header rq ''Sec-WebSocket-Origin'' else origin0)
         in list_ex (\<lambda>allowed. EqualFold origin allowed) (mo_AllowedOrigins o1)))"

section \<open>Callers\<close>

text \<open>A failed scan leaves the zero. \<open>base64\<close> decodes the standard encoding.\<close>

definition scan_or_zero :: "string \<Rightarrow> u32" where
  "scan_or_zero v = (case scan_uint32 v of None \<Rightarrow> 0 | Some u \<Rightarrow> u)"

definition header_caller :: "http_request \<Rightarrow> caller_identity" where
  "header_caller rq =
     (let u = get_header rq ''X-Caller-UID'';
          g = get_header rq ''X-Caller-GID''
      in anonymous\<lparr>ca_UID := (if u \<noteq> [] then scan_or_zero u else 0),
                   ca_GID := (if g \<noteq> [] then scan_or_zero g else 0)\<rparr>)"

definition ws_caller :: "(string \<Rightarrow> string option) \<Rightarrow> http_request \<Rightarrow> caller_identity" where
  "ws_caller base64 rq =
     (let auth = get_header rq ''Authorization''
      in if has_prefix auth basic_prefix then
           (case base64 (drop (length basic_prefix) auth) of
              None \<Rightarrow> header_caller rq
            | Some decoded \<Rightarrow>
                (case cut_at (CHR '':'') decoded of
                   None \<Rightarrow> header_caller rq
                 | Some (user, pass) \<Rightarrow>
                     anonymous\<lparr>ca_UID := scan_or_zero user, ca_GID := scan_or_zero user\<rparr>))
         else header_caller rq)"

section \<open>Messages\<close>

datatype ws_msg = WsMsg
  (wm_Op: string) (wm_Path: string) (wm_Data: string) (wm_Prefix: string) (wm_SubID: string) (wm_Ops: "ws_msg list")

datatype ws_reply = WsReply
  (wr_Op: string) (wr_Path: string) (wr_Data: string) (wr_Error: string) (wr_Code: nat)
  (wr_Event: "(string \<times> string) option") (wr_SubID: string) (wr_Results: "ws_reply list")

definition reply_error :: "string \<Rightarrow> nat \<Rightarrow> ws_reply \<Rightarrow> ws_reply" where
  "reply_error msg code r =
     WsReply (wr_Op r) (wr_Path r) (wr_Data r) msg code (wr_Event r) (wr_SubID r) (wr_Results r)"

definition reply_data :: "string \<Rightarrow> ws_reply \<Rightarrow> ws_reply" where
  "reply_data d r =
     WsReply (wr_Op r) (wr_Path r) d (wr_Error r) (wr_Code r) (wr_Event r) (wr_SubID r) (wr_Results r)"

definition reply_err :: "go_error \<Rightarrow> ws_reply \<Rightarrow> ws_reply" where
  "reply_err e r = reply_error (error_text e) (HTTPStatusFromError (Some e)) r"

text \<open>fmt.Sprint of an EventKind, which has no String method.\<close>

fun kind_number :: "event_kind \<Rightarrow> string" where
  "kind_number EventCreate = ''0''"
| "kind_number EventWrite = ''1''"
| "kind_number EventRemove = ''2''"

definition event_reply :: "string \<Rightarrow> event \<Rightarrow> ws_reply" where
  "event_reply subID e = WsReply ''event'' [] [] [] 0 (Some (ev_Path e, kind_number (ev_Kind e))) subID []"

text \<open>A frame of the client, and what is sent to it; \<open>EventFrame\<close> also names the channel.\<close>

record ws_in =
  in_Binary :: bool
  in_Data :: bytes

datatype ws_frame = JsonFrame ws_reply | BinaryFrame bytes | EventFrame nat ws_reply

section \<open>The state of a connection\<close>

text \<open>
  Channels are numbered in the order they are made. \<open>wc_listen\<close> maps the identifier of a
  listener in the bus to the channel that its function sends to. A channel keeps a record of what
  has been offered to it, how much of that was dropped, and how many calls of listeners the
  file system had made before.
\<close>

record ws_sub =
  su_unsub :: u64
  su_ch :: nat

record ws_chan =
  ch_sub :: string
  ch_queue :: "event list"
  ch_closed :: bool
  ch_offered :: "event list"
  ch_dropped :: nat
  ch_from :: nat

datatype ws_state = Reading | AwaitingBinary ws_msg | Hanging | Gone

record ws_conn =
  wc_subs :: "(string \<times> ws_sub) list"
  wc_listen :: "(u64 \<times> nat) list"
  wc_chans :: "ws_chan list"
  wc_out :: "ws_frame list"
  wc_state :: ws_state
  wc_panicked :: bool

type_synonym 'w ws = "ws_conn \<times> 'w fsw"

definition new_conn :: ws_conn where
  "new_conn = \<lparr>wc_subs = [], wc_listen = [], wc_chans = [], wc_out = [], wc_state = Reading, wc_panicked = False\<rparr>"

definition ws_capacity :: nat where
  "ws_capacity = 16"

definition ws_read_limit :: nat where
  "ws_read_limit = 64 * 1024"

definition ws_send :: "ws_frame \<Rightarrow> ws_conn \<Rightarrow> ws_conn" where
  "ws_send f c = c\<lparr>wc_out := wc_out c @ [f]\<rparr>"

text \<open>
  The listener: a send that does not wait. A send on a closed channel panics, also in a
  select with a default.
\<close>

definition ch_offer :: "event \<Rightarrow> ws_chan \<Rightarrow> ws_chan" where
  "ch_offer e ch =
     (let ch1 = ch\<lparr>ch_offered := ch_offered ch @ [e]\<rparr>
      in if length (ch_queue ch) < ws_capacity then ch1\<lparr>ch_queue := ch_queue ch @ [e]\<rparr>
         else ch1\<lparr>ch_dropped := ch_dropped ch + 1\<rparr>)"

definition listener_call :: "nat \<Rightarrow> event \<Rightarrow> ws_conn \<Rightarrow> ws_conn" where
  "listener_call j e c =
     (if ch_closed (wc_chans c ! j) then c\<lparr>wc_panicked := True\<rparr>
      else c\<lparr>wc_chans := (wc_chans c)[j := ch_offer e (wc_chans c ! j)]\<rparr>)"

text \<open>A call of a listener by the bus; other connections have listeners of their own.\<close>

definition ws_notify :: "u64 \<times> event \<Rightarrow> ws_conn \<Rightarrow> ws_conn" where
  "ws_notify x c =
     (case map_of (wc_listen c) (fst x) of None \<Rightarrow> c | Some j \<Rightarrow> listener_call j (snd x) c)"

fun notify_all :: "(u64 \<times> event) list \<Rightarrow> ws_conn \<Rightarrow> ws_conn" where
  "notify_all [] c = c"
| "notify_all (x # xs) c = (let c' = ws_notify x c in if wc_panicked c' then c' else notify_all xs c')"

text \<open>A call of the engine, with the events it has passed to the listeners of the connection.\<close>

definition ws_call :: "('w fsw \<Rightarrow> 'w fsw \<times> 'a res) \<Rightarrow> 'w ws \<Rightarrow> 'w ws \<times> 'a res" where
  "ws_call op s =
     (let (fsw, r) = op (snd s);
          c = notify_all (drop (length (fs_calls (fst (snd s)))) (fs_calls (fst fsw))) (fst s)
      in ((c, fsw), if wc_panicked c then Crash else r))"

text \<open>\<open>unsub(); close(ch)\<close>. Closing a closed channel panics too.\<close>

definition close_sub :: "ws_sub \<Rightarrow> 'w ws \<Rightarrow> 'w ws" where
  "close_sub sb s =
     (let (c, fs, w) = s;
          ch = wc_chans c ! su_ch sb
      in (c\<lparr>wc_listen := mdel (su_unsub sb) (wc_listen c),
            wc_chans := (wc_chans c)[su_ch sb := ch\<lparr>ch_closed := True\<rparr>],
            wc_panicked := (wc_panicked c \<or> ch_closed ch)\<rparr>,
          fs\<lparr>fs_events := unregister (su_unsub sb) (fs_events fs)\<rparr>, w))"

definition open_sub :: "string \<Rightarrow> string \<Rightarrow> 'w ws \<Rightarrow> 'w ws" where
  "open_sub subID pre s =
     (let (c, fs, w) = s;
          j = length (wc_chans c);
          (fs', i) = RegisterNotifier pre fs
      in (c\<lparr>wc_chans := wc_chans c @ [\<lparr>ch_sub = subID, ch_queue = [], ch_closed = False, ch_offered = [],
              ch_dropped = 0, ch_from = length (fs_calls fs)\<rparr>],
            wc_listen := mput i j (wc_listen c),
            wc_subs := mput subID \<lparr>su_unsub = i, su_ch = j\<rparr> (wc_subs c)\<rparr>, fs', w))"

section \<open>One operation\<close>

text \<open>
  processOp ends with a reply to send, with nothing more to send, waiting for the binary
  message that follows, or not at all.
\<close>

datatype ws_result = Answer ws_reply | Sent | AwaitBinary | Blocks | Panics

definition ws_on :: "'w ws \<times> 'a res \<Rightarrow> ('w ws \<Rightarrow> go_error + 'a \<Rightarrow> 'w ws \<times> ws_result) \<Rightarrow> 'w ws \<times> ws_result" where
  "ws_on out k =
     (case out of
        (s, Ok x) \<Rightarrow> k s (Inr x)
      | (s, Fail e) \<Rightarrow> k s (Inl e)
      | (s, Wait rest) \<Rightarrow> (s, Blocks)
      | (s, Crash) \<Rightarrow> (s, Panics))"

definition read_only_reply :: "ws_reply \<Rightarrow> ws_reply" where
  "read_only_reply r = reply_error ''read-only filesystem'' 403 r"

definition missing_sub_id :: "ws_reply \<Rightarrow> ws_reply" where
  "missing_sub_id r = reply_error ''missing sub_id'' 400 r"

definition ws_write :: "'w env \<Rightarrow> caller_identity \<Rightarrow> ws_reply \<Rightarrow> string \<Rightarrow> bytes \<Rightarrow> 'w ws \<Rightarrow> 'w ws \<times> ws_result" where
  "ws_write env caller reply path data s0 =
     ws_on (ws_call (fs_Write env path data caller) s0) (\<lambda>s r.
       (s, Answer (case r of Inl e \<Rightarrow> reply_err e reply | Inr u \<Rightarrow> reply)))"

definition processOp ::
  "'w env \<Rightarrow> mount_options \<Rightarrow> caller_identity \<Rightarrow> bool \<Rightarrow> ws_msg \<Rightarrow> 'w ws \<Rightarrow> 'w ws \<times> ws_result" where
  "processOp env o1 caller batch msg s0 =
     (let reply = WsReply (wm_Op msg) (wm_Path msg) [] [] 0 None (wm_SubID msg) [];
          op = wm_Op msg
      in if op = ''read'' then
           ws_on (ws_call (fs_Read env (wm_Path msg) caller) s0) (\<lambda>s r.
             (s, Answer (case r of Inl e \<Rightarrow> reply_err e reply | Inr data \<Rightarrow> reply_data data reply)))
         else if op = ''write'' then
           (if mo_ReadOnly o1 then (s0, Answer (read_only_reply reply))
            else ws_write env caller reply (wm_Path msg) (wm_Data msg) s0)
         else if op = ''read-binary'' then
           ws_on (ws_call (fs_Read env (wm_Path msg) caller) s0) (\<lambda>s r.
             case r of
               Inl e \<Rightarrow> (s, Answer (reply_err e reply))
             | Inr data \<Rightarrow>
                 (if batch then (s, Answer (reply_data data reply))
                  else ((ws_send (BinaryFrame data) (ws_send (JsonFrame reply) (fst s)), snd s), Sent)))
         else if op = ''write-binary'' then
           (if mo_ReadOnly o1 then (s0, Answer (read_only_reply reply))
            else if batch then ws_write env caller reply (wm_Path msg) (wm_Data msg) s0
            else (s0, AwaitBinary))
         else if op = ''subscribe'' then
           (if wm_SubID msg = [] then (s0, Answer (missing_sub_id reply))
            else
              (let s1 = (case map_of (wc_subs (fst s0)) (wm_SubID msg) of
                           None \<Rightarrow> s0
                         | Some old \<Rightarrow> close_sub old s0)
               in if wc_panicked (fst s1) then (s1, Panics)
                  else (open_sub (wm_SubID msg) (wm_Prefix msg) s1, Answer reply)))
         else if op = ''unsubscribe'' then
           (if wm_SubID msg = [] then (s0, Answer (missing_sub_id reply))
            else
              (case map_of (wc_subs (fst s0)) (wm_SubID msg) of
                 None \<Rightarrow> (s0, Answer reply)
               | Some sb \<Rightarrow>
                   (let (c, t) = close_sub sb s0
                    in if wc_panicked c then ((c, t), Panics)
                       else ((c\<lparr>wc_subs := mdel (wm_SubID msg) (wc_subs c)\<rparr>, t), Answer reply))))
         else if op = ''ping'' then
           (s0, Answer (WsReply ''pong'' (wm_Path msg) [] [] 0 None (wm_SubID msg) []))
         else if op = ''pong'' then (s0, Answer reply)
         else (s0, Answer (reply_error ''unknown op'' 400 reply)))"

text \<open>The rest of a write-binary, with the message that has come.\<close>

definition binary_payload ::
  "'w env \<Rightarrow> caller_identity \<Rightarrow> ws_msg \<Rightarrow> ws_in \<Rightarrow> 'w ws \<Rightarrow> 'w ws \<times> ws_result" where
  "binary_payload env caller msg frame s =
     (let reply = WsReply (wm_Op msg) (wm_Path msg) [] [] 0 None (wm_SubID msg) []
      in if \<not> in_Binary frame then (s, Answer (reply_error ''expected binary message'' 400 reply))
         else ws_write env caller reply (wm_Path msg) (in_Data frame) s)"

section \<open>The loop of a connection\<close>

text \<open>The deferred end: every subscription is taken out of the bus and its channel closed.\<close>

definition ws_close :: "'w ws \<Rightarrow> 'w ws" where
  "ws_close s =
     (let (c, t) = fold (\<lambda>x s. close_sub (snd x) s) (wc_subs (fst s)) s
      in (c\<lparr>wc_subs := [], wc_state := Gone\<rparr>, t))"

text \<open>What the loop does with the result of an operation.\<close>

definition ws_finish :: "ws_msg \<Rightarrow> 'w ws \<times> ws_result \<Rightarrow> 'w ws" where
  "ws_finish msg out =
     (let (s, r) = out
      in case r of
           Answer reply \<Rightarrow>
             ((if wm_Op msg = ''pong'' then (fst s)\<lparr>wc_state := Reading\<rparr>
               else ws_send (JsonFrame reply) ((fst s)\<lparr>wc_state := Reading\<rparr>)), snd s)
         | Sent \<Rightarrow> ((fst s)\<lparr>wc_state := Reading\<rparr>, snd s)
         | AwaitBinary \<Rightarrow> ((fst s)\<lparr>wc_state := AwaitingBinary msg\<rparr>, snd s)
         | Blocks \<Rightarrow> ((fst s)\<lparr>wc_state := Hanging\<rparr>, snd s)
         | Panics \<Rightarrow> ws_close s)"

text \<open>The operations of a batch in their order; one that does not return ends it.\<close>

fun run_batch ::
  "'w env \<Rightarrow> mount_options \<Rightarrow> caller_identity \<Rightarrow> ws_msg list \<Rightarrow> 'w ws \<Rightarrow> 'w ws \<times> (ws_result + ws_reply list)" where
  "run_batch env o1 caller [] s = (s, Inr [])"
| "run_batch env o1 caller (m # ms) s =
     (case processOp env o1 caller True m s of
        (s1, Answer r) \<Rightarrow>
          (case run_batch env o1 caller ms s1 of
             (s2, Inr rs) \<Rightarrow> (s2, Inr (r # rs))
           | (s2, Inl x) \<Rightarrow> (s2, Inl x))
      | (s1, x) \<Rightarrow> (s1, Inl x))"

definition batch_limit :: "mount_options \<Rightarrow> int" where
  "batch_limit o1 = (if mo_MaxBatchSize o1 = 0 then 32 else mo_MaxBatchSize o1)"

definition ws_batch :: "'w env \<Rightarrow> mount_options \<Rightarrow> caller_identity \<Rightarrow> ws_msg \<Rightarrow> 'w ws \<Rightarrow> 'w ws" where
  "ws_batch env o1 caller msg s =
     (if batch_limit o1 < int (length (wm_Ops msg))
      then (ws_send (JsonFrame (WsReply ''batch'' [] []
               (''batch size exceeds '' @ dec_int (batch_limit o1)) 400 None [] [])) (fst s), snd s)
      else
        (case run_batch env o1 caller (wm_Ops msg) s of
           (s1, Inr results) \<Rightarrow>
             (ws_send (JsonFrame (WsReply ''batch'' [] [] [] 0 None (wm_SubID msg) results)) (fst s1), snd s1)
         | (s1, Inl r) \<Rightarrow> ws_finish msg (s1, r)))"

text \<open>
  One frame. A frame that is over the limit, or no message in JSON, ends the connection; where a
  binary message is awaited the loop notices that the connection is broken at its next turn.
\<close>

definition ws_receive ::
  "'w env \<Rightarrow> mount_options \<Rightarrow> (bytes \<Rightarrow> ws_msg option) \<Rightarrow> caller_identity \<Rightarrow> ws_in \<Rightarrow> 'w ws \<Rightarrow> 'w ws" where
  "ws_receive env o1 json caller frame s =
     (case wc_state (fst s) of
        Gone \<Rightarrow> s
      | Hanging \<Rightarrow> s
      | AwaitingBinary msg \<Rightarrow>
          (if ws_read_limit < length (in_Data frame) then ws_close s
           else ws_finish msg (binary_payload env caller msg frame s))
      | Reading \<Rightarrow>
          (case (if ws_read_limit < length (in_Data frame) then None else json (in_Data frame)) of
             None \<Rightarrow> ws_close s
           | Some msg \<Rightarrow>
               (if wm_Op msg = ''batch'' then ws_batch env o1 caller msg s
                else ws_finish msg (processOp env o1 caller False msg s))))"

text \<open>
  The goroutine of a channel: the oldest event goes to the client, while there is one. When the
  connection has ended the write fails, which the goroutine ignores.
\<close>

definition ws_forward :: "nat \<Rightarrow> ws_conn \<Rightarrow> ws_conn" where
  "ws_forward j c =
     (if length (wc_chans c) \<le> j then c
      else
        (case ch_queue (wc_chans c ! j) of
           [] \<Rightarrow> c
         | e # q \<Rightarrow>
             (let c1 = c\<lparr>wc_chans := (wc_chans c)[j := (wc_chans c ! j)\<lparr>ch_queue := q\<rparr>]\<rparr>
              in if wc_state c = Gone then c1
                 else ws_send (EventFrame j (event_reply (ch_sub (wc_chans c ! j)) e)) c1)))"

text \<open>Elsewhere in the file system somebody makes a change.\<close>

definition ws_change :: "event \<Rightarrow> 'w ws \<Rightarrow> 'w ws" where
  "ws_change e s =
     (let n = length (fs_calls (fst (snd s)));
          fs = fs_emit (ev_Path e) (ev_Kind e) (fst (snd s))
      in (notify_all (drop n (fs_calls fs)) (fst s), fs, snd (snd s)))"

datatype ws_action = Receive ws_in | Forward nat | Change event | Disconnect

fun ws_step ::
  "'w env \<Rightarrow> mount_options \<Rightarrow> (bytes \<Rightarrow> ws_msg option) \<Rightarrow> caller_identity \<Rightarrow> ws_action \<Rightarrow> 'w ws \<Rightarrow> 'w ws" where
  "ws_step env o1 json caller (Receive frame) s = ws_receive env o1 json caller frame s"
| "ws_step env o1 json caller (Forward j) s = (ws_forward j (fst s), snd s)"
| "ws_step env o1 json caller (Change e) s = ws_change e s"
| "ws_step env o1 json caller Disconnect s =
     (case wc_state (fst s) of Gone \<Rightarrow> s | Hanging \<Rightarrow> s | _ \<Rightarrow> ws_close s)"

end
