(* ===== verification/Middleware.thy ===== *)
theory Middleware
  imports Prelude Complex_Main
begin

text \<open>
  adapter/middleware/rate_limit.go and conn_limit.go: the token buckets per client address and
  the counting limiter of open connections.

  The float64 tokens and rate are rationals here: the arithmetic is exact and rounding is left
  out, so the bounds hold for the code up to the rounding of its additions. Times are in
  nanoseconds. Allow reads the clock twice, for the elapsed time and for the new
  \<open>lastCheck\<close>, and gets both readings as arguments.
\<close>

section \<open>The rate limiter\<close>

definition second_ns :: rat where
  "second_ns = 1000000000"

definition bucketTTL :: time where
  "bucketTTL = 10 * 60 * 1000000000"

record bucket =
  bk_tokens :: rat
  bk_lastCheck :: time

record rate_limiter =
  rl_buckets :: "(string \<times> bucket) list"
  rl_rate :: rat
  rl_capacity :: int

definition NewRateLimiter :: "rat \<Rightarrow> int \<Rightarrow> rate_limiter" where
  "NewRateLimiter rate capacity = \<lparr>rl_buckets = [], rl_rate = rate, rl_capacity = capacity\<rparr>"

definition refill :: "rate_limiter \<Rightarrow> time \<Rightarrow> bucket \<Rightarrow> rat" where
  "refill rl now b =
     (let elapsed = of_int (now - bk_lastCheck b) / second_ns;
          tokens = bk_tokens b + elapsed * rl_rate rl
      in if tokens > of_int (rl_capacity rl) then of_int (rl_capacity rl) else tokens)"

definition Allow :: "string \<Rightarrow> time \<Rightarrow> time \<Rightarrow> rate_limiter \<Rightarrow> rate_limiter \<times> bool" where
  "Allow ip now1 now2 rl =
     (case map_of (rl_buckets rl) ip of
        None \<Rightarrow>
          (rl\<lparr>rl_buckets := mput ip \<lparr>bk_tokens = of_int (rl_capacity rl) - 1, bk_lastCheck = now2\<rparr>
                 (rl_buckets rl)\<rparr>, True)
      | Some b \<Rightarrow>
          (let tokens = refill rl now1 b in
           if tokens < 1
           then (rl\<lparr>rl_buckets := mput ip \<lparr>bk_tokens = tokens, bk_lastCheck = now2\<rparr> (rl_buckets rl)\<rparr>, False)
           else (rl\<lparr>rl_buckets := mput ip \<lparr>bk_tokens = tokens - 1, bk_lastCheck = now2\<rparr> (rl_buckets rl)\<rparr>,
                 True)))"

definition cleanup :: "time \<Rightarrow> rate_limiter \<Rightarrow> rate_limiter" where
  "cleanup now rl =
     rl\<lparr>rl_buckets := filter (\<lambda>(ip, b). \<not> now - bk_lastCheck b > bucketTTL) (rl_buckets rl)\<rparr>"

section \<open>Budgets that grow with time\<close>

text \<open>
  A system whose events cost something, are paid from a budget and can only be paid as far as
  it lasts, while the budget grows by at most \<open>rate\<close> per unit of time. What a run costs is
  bounded by the budget at its start and its duration.
\<close>

fun timed :: "('e \<Rightarrow> int) \<Rightarrow> ('e \<Rightarrow> int) \<Rightarrow> int \<Rightarrow> 'e list \<Rightarrow> int \<Rightarrow> bool" where
  "timed begins ends t [] u = (t \<le> u)"
| "timed begins ends t (e # es) u =
     (t \<le> begins e \<and> begins e \<le> ends e \<and> timed begins ends (ends e) es u)"

fun total :: "('e \<Rightarrow> 's \<Rightarrow> 's) \<Rightarrow> ('e \<Rightarrow> 's \<Rightarrow> rat) \<Rightarrow> 'e list \<Rightarrow> 's \<Rightarrow> rat" where
  "total step cost [] s = 0"
| "total step cost (e # es) s = cost e s + total step cost es (step e s)"

locale metered =
  fixes step :: "'e \<Rightarrow> 's \<Rightarrow> 's"
    and cost :: "'e \<Rightarrow> 's \<Rightarrow> rat"
    and begins :: "'e \<Rightarrow> int"
    and ends :: "'e \<Rightarrow> int"
    and budget :: "'s \<Rightarrow> int \<Rightarrow> rat"
    and ok :: "'s \<Rightarrow> int \<Rightarrow> bool"
    and rate :: rat
  assumes ok_later: "ok s t \<Longrightarrow> t \<le> t' \<Longrightarrow> ok s t'"
    and ok_step: "ok s (begins e) \<Longrightarrow> begins e \<le> ends e \<Longrightarrow> ok (step e s) (ends e)"
    and budget_nonneg: "ok s t \<Longrightarrow> 0 \<le> budget s t"
    and budget_grows: "ok s t \<Longrightarrow> t \<le> t' \<Longrightarrow> budget s t' \<le> budget s t + rate * of_int (t' - t)"
    and pays: "ok s (begins e) \<Longrightarrow> begins e \<le> ends e \<Longrightarrow>
      cost e s + budget (step e s) (ends e) \<le> budget s (begins e) + rate * of_int (ends e - begins e)"
begin

lemma total_bound:
  "ok s t \<Longrightarrow> timed begins ends t es u \<Longrightarrow> total step cost es s \<le> budget s t + rate * of_int (u - t)"
proof (induction es arbitrary: s t)
  case Nil
  then have "0 \<le> budget s u" by (auto intro: budget_nonneg ok_later)
  with budget_grows[of s t u] Nil show ?case by simp
next
  case (Cons e es)
  have t: "t \<le> begins e" "begins e \<le> ends e" "timed begins ends (ends e) es u" using Cons.prems by auto
  have ok: "ok s (begins e)" using ok_later[OF Cons.prems(1) t(1)] .
  have 1: "budget s (begins e) \<le> budget s t + rate * of_int (begins e - t)"
    using budget_grows[OF Cons.prems(1) t(1)] .
  have 2: "total step cost es (step e s) \<le> budget (step e s) (ends e) + rate * of_int (u - ends e)"
    using Cons.IH[OF ok_step[OF ok t(2)] t(3)] .
  have "rate * of_int (begins e - t) + rate * of_int (ends e - begins e) + rate * of_int (u - ends e) =
      rate * of_int (u - t)" by (simp add: algebra_simps)
  with 1 2 pays[OF ok t(2)] show ?case by simp
qed

end

section \<open>The bucket of one client as a budget\<close>

text \<open>What can happen to the limiter: a request with its two clock readings, a clean-up.\<close>

datatype rl_event = Request string time time | Sweep time

fun rl_step :: "rl_event \<Rightarrow> rate_limiter \<Rightarrow> rate_limiter" where
  "rl_step (Request ip t1 t2) rl = fst (Allow ip t1 t2 rl)"
| "rl_step (Sweep t) rl = cleanup t rl"

fun rl_begins :: "rl_event \<Rightarrow> time" where
  "rl_begins (Request ip t1 t2) = t1"
| "rl_begins (Sweep t) = t"

fun rl_ends :: "rl_event \<Rightarrow> time" where
  "rl_ends (Request ip t1 t2) = t2"
| "rl_ends (Sweep t) = t"

text \<open>One for a request of the client \<open>who\<close> that is let through.\<close>

fun let_through :: "string \<Rightarrow> rl_event \<Rightarrow> rate_limiter \<Rightarrow> rat" where
  "let_through who (Request ip t1 t2) rl = (if ip = who \<and> snd (Allow ip t1 t2 rl) then 1 else 0)"
| "let_through who (Sweep t) rl = 0"

definition rl_budget :: "string \<Rightarrow> rate_limiter \<Rightarrow> time \<Rightarrow> rat" where
  "rl_budget who rl t =
     (case map_of (rl_buckets rl) who of None \<Rightarrow> of_int (rl_capacity rl) | Some b \<Rightarrow> refill rl t b)"

text \<open>A client that has been idle for the lifetime of a bucket has its capacity back.\<close>

definition rl_ok :: "rat \<Rightarrow> rate_limiter \<Rightarrow> time \<Rightarrow> bool" where
  "rl_ok rate rl t \<longleftrightarrow>
     rl_rate rl = rate \<and> 0 \<le> rate \<and> 1 \<le> rl_capacity rl \<and>
     of_int (rl_capacity rl) \<le> rate * 600 \<and> distinct (map fst (rl_buckets rl)) \<and>
     (\<forall>b\<in>set (map snd (rl_buckets rl)). 0 \<le> bk_tokens b \<and> bk_lastCheck b \<le> t)"

lemma refill_alt:
  "refill rl now b = min (of_int (rl_capacity rl))
     (bk_tokens b + of_int (now - bk_lastCheck b) * (rl_rate rl / second_ns))"
  by (simp add: refill_def Let_def min_def)

lemma refill_nonneg:
  assumes "rl_ok rate rl t" and "b \<in> set (map snd (rl_buckets rl))"
  shows "0 \<le> refill rl t b"
proof -
  from assms have "0 \<le> bk_tokens b" "bk_lastCheck b \<le> t" "0 \<le> rate" "rl_rate rl = rate" "1 \<le> rl_capacity rl"
    by (auto simp: rl_ok_def)
  then show ?thesis by (simp add: refill_alt second_ns_def)
qed

lemma bucket_in: "map_of bs ip = Some b \<Longrightarrow> b \<in> set (map snd bs)"
  by (force dest: map_of_SomeD)

lemma rl_ok_mput:
  assumes "rl_ok rate rl t" and "0 \<le> x" and "t \<le> t2"
  shows "rl_ok rate (rl\<lparr>rl_buckets := mput ip \<lparr>bk_tokens = x, bk_lastCheck = t2\<rparr> (rl_buckets rl)\<rparr>) t2"
  using assms by (fastforce simp: rl_ok_def dest: set_mputD)

lemma allow_ok:
  assumes ok: "rl_ok rate rl t1" and "t1 \<le> t2"
  shows "rl_ok rate (fst (Allow ip t1 t2 rl)) t2"
proof (cases "map_of (rl_buckets rl) ip")
  case None
  have "0 \<le> (of_int (rl_capacity rl) :: rat) - 1" using ok by (simp add: rl_ok_def)
  with rl_ok_mput[OF ok _ assms(2)] None show ?thesis by (simp add: Allow_def)
next
  case (Some b)
  from refill_nonneg[OF ok bucket_in[OF Some]] rl_ok_mput[OF ok _ assms(2)] Some show ?thesis
    by (simp add: Allow_def Let_def)
qed

lemma cleanup_ok: "rl_ok rate rl t \<Longrightarrow> rl_ok rate (cleanup t rl) t"
  by (auto simp: rl_ok_def cleanup_def distinct_map_filter)

lemma map_of_filter_values:
  "distinct (map fst m) \<Longrightarrow>
   map_of (filter (\<lambda>(k, v). P v) m) k = (case map_of m k of None \<Rightarrow> None | Some v \<Rightarrow> if P v then Some v else None)"
proof (induction m)
  case (Cons a m)
  obtain k' v' where a: "a = (k', v')" by (cases a)
  have "k = k' \<Longrightarrow> map_of m k = None" using Cons.prems a by (simp add: map_of_eq_None_iff)
  with Cons a show ?case by auto
qed simp

lemma map_of_cleanup:
  "distinct (map fst (rl_buckets rl)) \<Longrightarrow>
   map_of (rl_buckets (cleanup t rl)) ip =
     (case map_of (rl_buckets rl) ip of
        None \<Rightarrow> None
      | Some b \<Rightarrow> if \<not> t - bk_lastCheck b > bucketTTL then Some b else None)"
  unfolding cleanup_def by (simp add: map_of_filter_values)

text \<open>Deleting an idle bucket changes no budget: it had filled up.\<close>

lemma cleanup_budget:
  assumes ok: "rl_ok rate rl t"
  shows "rl_budget who (cleanup t rl) t = rl_budget who rl t"
proof (cases "map_of (rl_buckets rl) who")
  case None
  with ok show ?thesis by (simp add: rl_budget_def map_of_cleanup rl_ok_def) (simp add: cleanup_def)
next
  case (Some b)
  have d: "distinct (map fst (rl_buckets rl))" and r: "rl_rate rl = rate" "0 \<le> rate"
    "of_int (rl_capacity rl) \<le> rate * 600" and b: "0 \<le> bk_tokens b"
    using ok bucket_in[OF Some] by (auto simp: rl_ok_def)
  have same: "refill (cleanup t rl) t c = refill rl t c" for c unfolding refill_alt by (simp add: cleanup_def)
  show ?thesis
  proof (cases "t - bk_lastCheck b > bucketTTL")
    case True
    then have "600000000000 \<le> t - bk_lastCheck b" by (simp add: bucketTTL_def)
    then have "(600000000000 :: rat) \<le> of_int (t - bk_lastCheck b)"
      using of_int_le_iff[of 600000000000 "t - bk_lastCheck b", where 'a = rat] by simp
    then have "600000000000 * (rate / second_ns) \<le> of_int (t - bk_lastCheck b) * (rate / second_ns)"
      using r(2) by (intro mult_right_mono) (simp_all add: second_ns_def)
    moreover have "600000000000 * (rate / second_ns) = rate * 600" by (simp add: second_ns_def)
    ultimately have "refill rl t b = of_int (rl_capacity rl)"
      using r b unfolding refill_alt by (simp add: min_def)
    with True Some d show ?thesis by (simp add: rl_budget_def map_of_cleanup) (simp add: cleanup_def)
  next
    case False
    with Some d show ?thesis by (simp add: rl_budget_def map_of_cleanup same)
  qed
qed

lemma refill_grows:
  assumes "0 \<le> rl_rate rl" and "t \<le> t'"
  shows "refill rl t' b \<le> refill rl t b + rl_rate rl / second_ns * of_int (t' - t)"
proof -
  have "0 \<le> rl_rate rl / second_ns * of_int (t' - t)" using assms by (simp add: second_ns_def)
  moreover have "of_int (t' - bk_lastCheck b) * (rl_rate rl / second_ns) =
      of_int (t - bk_lastCheck b) * (rl_rate rl / second_ns) + rl_rate rl / second_ns * of_int (t' - t)"
    by (simp add: algebra_simps)
  ultimately show ?thesis unfolding refill_alt by linarith
qed

lemma budget_grows:
  assumes "rl_ok rate rl t" and "t \<le> t'"
  shows "rl_budget who rl t' \<le> rl_budget who rl t + rate / second_ns * of_int (t' - t)"
proof -
  have "rl_rate rl = rate" "0 \<le> rate" using assms by (simp_all add: rl_ok_def)
  moreover from this have "0 \<le> rate / second_ns * of_int (t' - t)" using assms(2) by (simp add: second_ns_def)
  ultimately show ?thesis
    using refill_grows[of rl t t'] assms(2) by (auto simp: rl_budget_def split: option.splits)
qed

lemma allow_pays:
  assumes ok: "rl_ok rate rl t1" and t: "t1 \<le> t2"
  shows "(if ip = who \<and> snd (Allow ip t1 t2 rl) then 1 else 0) + rl_budget who (fst (Allow ip t1 t2 rl)) t2
    \<le> rl_budget who rl t1 + rate / second_ns * of_int (t2 - t1)"
proof (cases "ip = who")
  case False
  then have "rl_budget who (fst (Allow ip t1 t2 rl)) t2 = rl_budget who rl t2"
    by (auto simp: rl_budget_def Allow_def Let_def refill_def split: option.splits)
  with budget_grows[OF ok t, of who] False show ?thesis by simp
next
  case True
  have gap: "0 \<le> rate / second_ns * of_int (t2 - t1)" using ok t by (simp add: rl_ok_def second_ns_def)
  have now: "refill rl' t2 \<lparr>bk_tokens = x, bk_lastCheck = t2\<rparr> = x"
    if "x \<le> of_int (rl_capacity rl')" for rl' x
    using that by (simp add: refill_alt)
  show ?thesis
  proof (cases "map_of (rl_buckets rl) ip")
    case None
    with True gap show ?thesis by (simp add: Allow_def rl_budget_def now)
  next
    case (Some b)
    have le: "refill rl t1 b \<le> of_int (rl_capacity rl)" by (simp add: refill_alt)
    then have "refill rl t1 b - 1 \<le> of_int (rl_capacity rl)" by simp
    with le Some True gap show ?thesis by (simp add: Allow_def rl_budget_def Let_def now)
  qed
qed

interpretation client: metered rl_step "let_through who" rl_begins rl_ends "rl_budget who" "rl_ok rate"
  "rate / second_ns" for who rate
proof
  fix s t t' and e :: rl_event
  show "rl_ok rate s t \<Longrightarrow> t \<le> t' \<Longrightarrow> rl_ok rate s t'" by (auto simp: rl_ok_def)
  show "rl_ok rate s (rl_begins e) \<Longrightarrow> rl_begins e \<le> rl_ends e \<Longrightarrow> rl_ok rate (rl_step e s) (rl_ends e)"
    by (cases e) (simp_all add: allow_ok cleanup_ok)
  show "rl_ok rate s t \<Longrightarrow> 0 \<le> rl_budget who s t"
    using refill_nonneg[of rate s t] bucket_in[of "rl_buckets s" who]
    by (cases "map_of (rl_buckets s) who") (auto simp: rl_budget_def rl_ok_def)
  show "rl_ok rate s t \<Longrightarrow> t \<le> t' \<Longrightarrow> rl_budget who s t' \<le> rl_budget who s t + rate / second_ns * of_int (t' - t)"
    by (rule budget_grows)
  show "rl_ok rate s (rl_begins e) \<Longrightarrow> rl_begins e \<le> rl_ends e \<Longrightarrow>
      let_through who e s + rl_budget who (rl_step e s) (rl_ends e)
      \<le> rl_budget who s (rl_begins e) + rate / second_ns * of_int (rl_ends e - rl_begins e)"
    using allow_pays cleanup_budget by (cases e) auto
qed

section \<open>The bucket of one client when sweeps can drop it early\<close>

text \<open>
  Without a condition on capacity and rate, a bucket can be dropped before it has filled up.
  The next request of the client then starts with a new one, and is let through even
  when the capacity is below one. \<open>forgotten\<close> is one for a sweep that drops the
  bucket of \<open>who\<close>, and \<open>fresh_budget\<close> is what a new bucket lets through.
\<close>

fun forgotten :: "string \<Rightarrow> rl_event \<Rightarrow> rate_limiter \<Rightarrow> rat" where
  "forgotten who (Request ip t1 t2) rl = 0"
| "forgotten who (Sweep t) rl =
     (if map_of (rl_buckets rl) who \<noteq> None \<and> map_of (rl_buckets (cleanup t rl)) who = None then 1 else 0)"

definition fresh_budget :: "int \<Rightarrow> rat" where
  "fresh_budget capacity = max 1 (of_int capacity)"

definition rl_held :: "string \<Rightarrow> rate_limiter \<Rightarrow> time \<Rightarrow> rat" where
  "rl_held who rl t =
     (case map_of (rl_buckets rl) who of
        None \<Rightarrow> fresh_budget (rl_capacity rl)
      | Some b \<Rightarrow> max 0 (refill rl t b))"

definition rl_any :: "rat \<Rightarrow> int \<Rightarrow> rate_limiter \<Rightarrow> time \<Rightarrow> bool" where
  "rl_any rate capacity rl t \<longleftrightarrow> rl_rate rl = rate \<and> 0 \<le> rate \<and> rl_capacity rl = capacity \<and> distinct (map fst (rl_buckets rl))"

lemma rl_any_step: "rl_any rate capacity rl t \<Longrightarrow> rl_any rate capacity (rl_step e rl) t'"
  by (cases e) (auto simp: rl_any_def cleanup_def Allow_def Let_def distinct_map_filter split: option.splits)

lemma held_grows:
  assumes "rl_any rate capacity rl t" and "t \<le> t'"
  shows "rl_held who rl t' \<le> rl_held who rl t + rate / second_ns * of_int (t' - t)"
proof -
  have "rl_rate rl = rate" "0 \<le> rate" using assms by (simp_all add: rl_any_def)
  moreover from this have "0 \<le> rate / second_ns * of_int (t' - t)" using assms(2) by (simp add: second_ns_def)
  moreover from calculation have "max 0 (refill rl t' b) \<le> max 0 (refill rl t b) + rate / second_ns * of_int (t' - t)" for b
    using refill_grows[of rl t t' b] assms(2) by (simp add: max_def)
  ultimately show ?thesis unfolding rl_held_def by (cases "map_of (rl_buckets rl) who") (simp, simp)
qed

lemma allow_pays_held:
  assumes ok: "rl_any rate capacity rl t1" and t: "t1 \<le> t2"
  shows "(if ip = who \<and> snd (Allow ip t1 t2 rl) then 1 else 0) + rl_held who (fst (Allow ip t1 t2 rl)) t2
    \<le> rl_held who rl t1 + rate / second_ns * of_int (t2 - t1)"
proof (cases "ip = who")
  case False
  then have "rl_held who (fst (Allow ip t1 t2 rl)) t2 = rl_held who rl t2"
    by (auto simp: rl_held_def Allow_def Let_def refill_def split: option.splits)
  with held_grows[OF ok t, of who] False show ?thesis by simp
next
  case True
  have gap: "0 \<le> rate / second_ns * of_int (t2 - t1)" using ok t by (simp add: rl_any_def second_ns_def)
  have now: "refill rl' t2 \<lparr>bk_tokens = x, bk_lastCheck = t2\<rparr> = x"
    if "x \<le> of_int (rl_capacity rl')" for rl' x
    using that by (simp add: refill_alt)
  show ?thesis
  proof (cases "map_of (rl_buckets rl) ip")
    case None
    with True gap show ?thesis by (auto simp: Allow_def rl_held_def now fresh_budget_def)
  next
    case (Some b)
    have le: "refill rl t1 b \<le> of_int (rl_capacity rl)" by (simp add: refill_alt)
    then have "refill rl t1 b - 1 \<le> of_int (rl_capacity rl)" by simp
    with le Some True gap show ?thesis by (auto simp: Allow_def rl_held_def Let_def now)
  qed
qed

lemma cleanup_pays_held:
  assumes "rl_any rate capacity rl t"
  shows "rl_held who (cleanup t rl) t \<le> rl_held who rl t + forgotten who (Sweep t) rl * fresh_budget capacity"
proof -
  have d: "distinct (map fst (rl_buckets rl))" "rl_capacity rl = capacity" using assms by (simp_all add: rl_any_def)
  moreover have "refill (cleanup t rl) t c = refill rl t c" for c unfolding refill_alt by (simp add: cleanup_def)
  moreover have "rl_capacity (cleanup t rl) = rl_capacity rl" by (simp add: cleanup_def)
  ultimately show ?thesis by (auto simp: rl_held_def map_of_cleanup split: option.splits)
qed

interpretation any_client: metered rl_step
  "\<lambda>e rl. let_through who e rl - forgotten who e rl * fresh_budget capacity" rl_begins rl_ends "rl_held who"
  "rl_any rate capacity" "rate / second_ns" for who rate capacity
proof
  fix s t t' and e :: rl_event
  show "rl_any rate capacity s t \<Longrightarrow> t \<le> t' \<Longrightarrow> rl_any rate capacity s t'" by (simp add: rl_any_def)
  show "rl_any rate capacity s (rl_begins e) \<Longrightarrow> rl_begins e \<le> rl_ends e \<Longrightarrow> rl_any rate capacity (rl_step e s) (rl_ends e)"
    by (rule rl_any_step)
  show "rl_any rate capacity s t \<Longrightarrow> 0 \<le> rl_held who s t"
    by (auto simp: rl_held_def fresh_budget_def split: option.split)
  show "rl_any rate capacity s t \<Longrightarrow> t \<le> t' \<Longrightarrow> rl_held who s t' \<le> rl_held who s t + rate / second_ns * of_int (t' - t)"
    by (rule held_grows)
  show "rl_any rate capacity s (rl_begins e) \<Longrightarrow> rl_begins e \<le> rl_ends e \<Longrightarrow>
      let_through who e s - forgotten who e s * fresh_budget capacity + rl_held who (rl_step e s) (rl_ends e)
      \<le> rl_held who s (rl_begins e) + rate / second_ns * of_int (rl_ends e - rl_begins e)"
  proof (cases e)
    case (Sweep v)
    assume "rl_any rate capacity s (rl_begins e)"
    from cleanup_pays_held[OF this, of who] Sweep show ?thesis by (simp del: forgotten.simps(2))
  next
    case (Request ip v w)
    assume "rl_any rate capacity s (rl_begins e)" "rl_begins e \<le> rl_ends e"
    from allow_pays_held[OF this, of ip who] Request show ?thesis by simp
  qed
qed

lemma total_diff:
  "total step (\<lambda>e s. f e s - g e s * k) es s = total step f es s - total step g es s * k"
  by (induction es arbitrary: s) (simp_all add: algebra_simps)

section \<open>Properties of the rate limiter\<close>

text \<open>
  C20: what a client gets through, whatever the other clients do, for every capacity and every
  rate, in exact arithmetic: what a new bucket allows (the capacity, and at least one request),
  once for the first bucket and once more for every sweep that drops the bucket of the client,
  plus the rate times the time passed. Only when the capacity is at least one and the
  rate refills a whole bucket within the ten minutes after which an idle bucket is dropped,
  sweeps make no difference: then it is at most the capacity plus the rate times the time passed.
\<close>

theorem rate_limit_bound:
  assumes "0 \<le> rate" and "timed rl_begins rl_ends t es u"
  shows "total rl_step (let_through who) es (NewRateLimiter rate capacity)
      \<le> fresh_budget capacity * (1 + total rl_step (forgotten who) es (NewRateLimiter rate capacity)) +
         rate / second_ns * of_int (u - t) \<and>
    (1 \<le> capacity \<and> of_int capacity \<le> rate * 600 \<longrightarrow>
       total rl_step (let_through who) es (NewRateLimiter rate capacity)
         \<le> of_int capacity + rate / second_ns * of_int (u - t))"
proof -
  let ?rl = "NewRateLimiter rate capacity"
  have "rl_any rate capacity ?rl t" using assms(1) by (simp add: rl_any_def NewRateLimiter_def)
  from any_client.total_bound[OF this assms(2), of who]
  have "total rl_step (let_through who) es ?rl \<le> fresh_budget capacity * (1 + total rl_step (forgotten who) es ?rl) +
      rate / second_ns * of_int (u - t)"
    unfolding total_diff by (simp add: rl_held_def NewRateLimiter_def distrib_left mult.commute)
  moreover have "total rl_step (let_through who) es ?rl \<le> of_int capacity + rate / second_ns * of_int (u - t)"
    if "1 \<le> capacity" "of_int capacity \<le> rate * 600"
  proof -
    have "rl_ok rate ?rl t" using assms that by (simp add: rl_ok_def NewRateLimiter_def)
    from client.total_bound[OF this assms(2), of who] show ?thesis
      by (simp add: rl_budget_def NewRateLimiter_def)
  qed
  ultimately show ?thesis by blast
qed

lemma rate_limit_bound_witness:
  "total rl_step (let_through ''a'') [Request ''a'' 0 0, Request ''a'' 0 0, Sweep 5, Request ''b'' 5 6]
     (NewRateLimiter 1 1) \<le> 1 + 1 / second_ns * 6"
  using rate_limit_bound[of 1 0 "[Request ''a'' 0 0, Request ''a'' 0 0, Sweep 5, Request ''b'' 5 6]" 6 "''a''" 1]
  by simp

text \<open>
  The first bound is reached: with a capacity of ten and a tenth of a token in ten minutes,
  a client that pauses for a little longer than that gets its ten requests again.
\<close>

lemma sweep_gives_back:
  "let es = replicate 10 (Request ''a'' 0 0) @ [Sweep (bucketTTL + 1)] @
       replicate 10 (Request ''a'' (bucketTTL + 1) (bucketTTL + 1)) in
   total rl_step (let_through ''a'') es (NewRateLimiter (1 / 6000) 10) = 20 \<and>
   total rl_step (forgotten ''a'') es (NewRateLimiter (1 / 6000) 10) = 1"
  by code_simp

text \<open>
  A limiter without capacity, which is what a rate below one request per second gets when
  no burst is configured, lets the first request of a client through and refuses every later
  one for as long as the bucket is not swept, however much time passes.
\<close>

theorem rate_limit_starves:
  assumes "map_of (rl_buckets rl) ip = None" and "rl_capacity rl = 0"
  shows "snd (Allow ip t1 t2 rl) \<and>
    \<not> snd (Allow ip u1 u2 (fold (\<lambda>(v1, v2) rl. fst (Allow ip v1 v2 rl)) vs (fst (Allow ip t1 t2 rl))))"
proof -
  define bad :: "rate_limiter \<Rightarrow> bool" where "bad rl \<longleftrightarrow> rl_capacity rl = 0 \<and> map_of (rl_buckets rl) ip \<noteq> None" for rl
  have refused: "\<not> snd (Allow ip u1 u2 rl) \<and> bad (fst (Allow ip u1 u2 rl))" if "bad rl" for rl u1 u2
  proof -
    from that obtain b where b: "map_of (rl_buckets rl) ip = Some b" "rl_capacity rl = 0"
      by (auto simp: bad_def)
    then have "refill rl u1 b < 1" by (simp add: refill_alt min_def)
    with b show ?thesis by (simp add: Allow_def Let_def bad_def)
  qed
  have "bad (fst (Allow ip t1 t2 rl))" "snd (Allow ip t1 t2 rl)"
    using assms by (simp_all add: bad_def Allow_def)
  moreover have "bad (fold (\<lambda>(v1, v2) rl. fst (Allow ip v1 v2 rl)) vs rl')" if "bad rl'" for rl'
    using that by (induction vs arbitrary: rl') (auto simp: refused)
  ultimately show ?thesis using refused by blast
qed

lemma rate_limit_starves_witness:
  "snd (Allow ''a'' 0 0 (NewRateLimiter 1 0)) \<and>
   \<not> snd (Allow ''a'' 99000000000 99000000000 (fst (Allow ''a'' 0 0 (NewRateLimiter 1 0))))"
  using rate_limit_starves[of "NewRateLimiter 1 0" "''a''" 0 0 99000000000 99000000000 "[]"]
  by (simp add: NewRateLimiter_def)

section \<open>The connection limiter\<close>

text \<open>
  The semaphore channel of the limiter is the number of its elements. A connection goes
  through the two steps of Acquire, is served, and goes through the two steps of Release;
  \<open>Acquire\<close> waits for a place in the channel. A limiter for no limit is nil and has no state.
\<close>

datatype conn_phase = Outside | HasSlot | Counted | Leaving

record conn_limiter =
  cl_max :: nat
  cl_sem :: nat
  cl_count :: int

definition NewConnLimiter :: "int \<Rightarrow> conn_limiter option" where
  "NewConnLimiter limit =
     (if limit \<le> 0 then None else Some \<lparr>cl_max = nat limit, cl_sem = 0, cl_count = 0\<rparr>)"

text \<open>The next step of a connection in a phase; None is a wait.\<close>

definition conn_next :: "conn_limiter \<Rightarrow> conn_phase \<Rightarrow> (conn_limiter \<times> conn_phase) option" where
  "conn_next cl ph =
     (case ph of
        Outside \<Rightarrow> (if cl_sem cl < cl_max cl then Some (cl\<lparr>cl_sem := cl_sem cl + 1\<rparr>, HasSlot) else None)
      | HasSlot \<Rightarrow> Some (cl\<lparr>cl_count := cl_count cl + 1\<rparr>, Counted)
      | Counted \<Rightarrow> Some (cl\<lparr>cl_count := cl_count cl - 1\<rparr>, Leaving)
      | Leaving \<Rightarrow> (if 0 < cl_sem cl then Some (cl\<lparr>cl_sem := cl_sem cl - 1\<rparr>, Outside) else None))"

definition conn_Active :: "conn_limiter option \<Rightarrow> int" where
  "conn_Active cl = (case cl of None \<Rightarrow> 0 | Some c \<Rightarrow> cl_count c)"

inductive conn_step :: "conn_limiter \<times> conn_phase list \<Rightarrow> conn_limiter \<times> conn_phase list \<Rightarrow> bool" where
  "i < length phs \<Longrightarrow> conn_next cl (phs ! i) = Some (cl', ph) \<Longrightarrow> conn_step (cl, phs) (cl', phs[i := ph])"

inductive conn_reachable :: "int \<Rightarrow> nat \<Rightarrow> conn_limiter \<times> conn_phase list \<Rightarrow> bool" for limit :: int and n :: nat where
  init: "NewConnLimiter limit = Some cl \<Longrightarrow> conn_reachable limit n (cl, replicate n Outside)"
| step: "conn_reachable limit n s \<Longrightarrow> conn_step s s' \<Longrightarrow> conn_reachable limit n s'"

inductive_cases conn_stepE: "conn_step (cl, phs) s'"

text \<open>The slots that are taken and the connections that are counted.\<close>

definition taken :: "conn_phase list \<Rightarrow> nat" where
  "taken phs = length (filter (\<lambda>ph. ph \<noteq> Outside) phs)"

definition counted :: "conn_phase list \<Rightarrow> nat" where
  "counted phs = length (filter (\<lambda>ph. ph = Counted) phs)"

lemma filter_update:
  "i < length xs \<Longrightarrow>
   length (filter P (xs[i := x])) + (if P (xs ! i) then 1 else 0) =
   length (filter P xs) + (if P x then 1 else 0)"
proof (induction xs arbitrary: i)
  case (Cons a xs)
  then show ?case by (cases i) auto
qed simp

definition conn_ok :: "int \<Rightarrow> conn_limiter \<times> conn_phase list \<Rightarrow> bool" where
  "conn_ok limit s \<longleftrightarrow>
     cl_max (fst s) = nat limit \<and> cl_sem (fst s) = taken (snd s) \<and> taken (snd s) \<le> nat limit \<and>
     cl_count (fst s) = int (counted (snd s))"

lemma conn_ok_step:
  assumes ok: "conn_ok limit s" and "conn_step s s'"
  shows "conn_ok limit s'"
  using assms(2)
proof (cases rule: conn_step.cases)
  case (1 i phs cl cl' ph)
  note t = filter_update[OF 1(3), of "\<lambda>ph. ph \<noteq> Outside" ph] and c = filter_update[OF 1(3), of "\<lambda>ph. ph = Counted" ph]
  have "phs ! i \<in> set phs" using 1(3) by simp
  then have "phs ! i \<noteq> Outside \<Longrightarrow> 0 < length (filter (\<lambda>ph. ph \<noteq> Outside) phs)"
    by (simp add: filter_empty_conv) blast
  with ok 1 t c show ?thesis
    by (cases "phs ! i") (auto simp: conn_ok_def conn_next_def taken_def counted_def split: if_splits)
qed

lemma conn_reachable_ok: "conn_reachable limit n s \<Longrightarrow> conn_ok limit s"
proof (induction rule: conn_reachable.induct)
  case (init cl)
  then show ?case
    by (auto simp: NewConnLimiter_def conn_ok_def taken_def counted_def split: if_splits)
qed (rule conn_ok_step)

text \<open>
  However the steps of the connections interleave, at most the configured number are
  served at a time, the reported count is that number exactly, and a connection that is
  inside never waits: only entering does, and only while every place is taken.
\<close>

theorem conn_limit_safe:
  assumes "conn_reachable limit n (cl, phs)"
  shows "conn_Active (Some cl) = int (length (filter (\<lambda>ph. ph = Counted) phs)) \<and>
    conn_Active (Some cl) \<le> limit \<and>
    (\<forall>ph\<in>set phs. conn_next cl ph = None \<longrightarrow>
       ph = Outside \<and> int (length (filter (\<lambda>ph. ph \<noteq> Outside) phs)) = limit)"
proof -
  have ok: "conn_ok limit (cl, phs)" using conn_reachable_ok[OF assms] .
  have "counted phs \<le> taken phs" unfolding counted_def taken_def by (induction phs) auto
  moreover have "ph \<in> set phs \<Longrightarrow> ph \<noteq> Outside \<Longrightarrow> 0 < taken phs" for ph
    unfolding taken_def by (auto simp: filter_empty_conv)
  moreover have "0 \<le> limit" using assms
  proof (induction "(cl, phs)" arbitrary: cl phs rule: conn_reachable.induct)
    case (init cl)
    then show ?case by (simp add: NewConnLimiter_def split: if_splits)
  next
    case (step s s')
    then show ?case by (cases s) auto
  qed
  ultimately show ?thesis
    using ok by (auto simp: conn_ok_def conn_Active_def conn_next_def taken_def counted_def
      split: conn_phase.splits if_splits)
qed

lemma conn_limit_safe_witness:
  "\<exists>cl. conn_reachable 1 2 (cl, [HasSlot, Outside]) \<and> conn_next cl Outside = None \<and> conn_Active (Some cl) \<le> 1"
proof -
  let ?c0 = "\<lparr>cl_max = 1, cl_sem = 0, cl_count = 0\<rparr>" and ?c1 = "\<lparr>cl_max = 1, cl_sem = 1, cl_count = 0\<rparr>"
  have "conn_reachable 1 2 (?c0, [Outside, Outside])"
    using conn_reachable.init[of 1 ?c0 2] by (simp add: NewConnLimiter_def numeral_2_eq_2)
  moreover have "conn_step (?c0, [Outside, Outside]) (?c1, [HasSlot, Outside])"
    using conn_step.intros[of 0 "[Outside, Outside]" ?c0 ?c1 HasSlot] by (simp add: conn_next_def)
  ultimately have r: "conn_reachable 1 2 (?c1, [HasSlot, Outside])" by (rule conn_reachable.step)
  from conn_limit_safe[OF r] r show ?thesis
    by (intro exI[of _ ?c1]) (simp add: conn_next_def)
qed

end
