(* ===== verification/Config.thy ===== *)
theory Config
  imports FsOps Adapter
begin

text \<open>
  The command's configuration, cmd/skills-fs/config.go, with what main.go does with it: loading a
  file with the files it includes, the file system that is built from it, the reload on a
  signal, validation, and the options of the servers.

  What the operating system and the libraries answer is the record \<open>tools\<close>: os.ReadFile,
  json.Unmarshal into a configuration and into an object, os.ExpandEnv, and the verb %q.
  The file system that is built is the state of FsState.
\<close>

section \<open>The data model\<close>

record mount_config =
  mc_Path :: string
  mc_Kind :: string
  mc_Mode :: string
  mc_Data :: string
  mc_DataFile :: string
  mc_Link :: string
  mc_Provider :: string
  mc_Read :: string
  mc_Write :: string
  mc_WriteParams :: string
  mc_Serial :: bool
  mc_Writeback :: bool
  mc_Schema :: string
  mc_SchemaFile :: string
  mc_Agents :: "bool option"

record provider_config =
  pv_ID :: string
  pv_URL :: string

record config =
  cf_Mounts :: "mount_config list"
  cf_Providers :: "provider_config list"
  cf_SkillsRoot :: string
  cf_Skills :: "skill_config list"
  cf_Includes :: "string list"

record tools =
  to_read :: "string \<Rightarrow> go_error + bytes"
  to_config :: "bytes \<Rightarrow> go_error + config"
  to_object :: "bytes \<Rightarrow> go_error + params"
  to_expand :: "string \<Rightarrow> string"
  to_quote :: "string \<Rightarrow> string"

text \<open>fmt.Errorf with a text, a colon and the wrapped error.\<close>

definition errorf :: "string \<Rightarrow> go_error \<Rightarrow> go_error" where
  "errorf msg e = WrapError (msg @ '': '' @ error_text e) e"

section \<open>The package filepath on Unix\<close>

definition IsAbs :: "string \<Rightarrow> bool" where
  "IsAbs p = has_prefix p ''/''"

text \<open>Clean of a relative path; the segments that lead out of the directory stay in front.\<close>

fun clean_rel :: "string list \<Rightarrow> string list \<Rightarrow> string list" where
  "clean_rel st [] = rev st"
| "clean_rel st (s # ss) =
     (if s = [] \<or> s = ''.'' then clean_rel st ss
      else if s = ''..'' then
        (case st of
           [] \<Rightarrow> clean_rel [''..''] ss
         | t # ts \<Rightarrow> (if t = ''..'' then clean_rel (''..'' # st) ss else clean_rel ts ss))
      else clean_rel (s # st) ss)"

definition file_Clean :: "string \<Rightarrow> string" where
  "file_Clean p =
     (if IsAbs p then path_of (clean_segs [] (split_on (CHR ''/'') p))
      else (let segs = clean_rel [] (split_on (CHR ''/'') p)
            in if segs = [] then ''.'' else join_with (CHR ''/'') segs))"

definition file_Join :: "string \<Rightarrow> string \<Rightarrow> string" where
  "file_Join a b =
     (if a = [] \<and> b = [] then []
      else if a = [] then file_Clean b
      else file_Clean (a @ ''/'' @ b))"

text \<open>What stands before the last separator, cleaned.\<close>

definition file_Dir :: "string \<Rightarrow> string" where
  "file_Dir p = file_Clean (rev (dropWhile (\<lambda>c. c \<noteq> CHR ''/'') (rev p)))"

section \<open>Loading\<close>

definition readFileRef :: "tools \<Rightarrow> string \<Rightarrow> string \<Rightarrow> go_error + string" where
  "readFileRef t baseDir ref =
     (let ref1 = to_expand t ref
      in to_read t (if IsAbs ref1 then ref1 else file_Join baseDir ref1))"

definition resolve_mount :: "tools \<Rightarrow> string \<Rightarrow> mount_config \<Rightarrow> go_error + mount_config" where
  "resolve_mount t baseDir m =
     (case (if mc_DataFile m \<noteq> [] then readFileRef t baseDir (mc_DataFile m) else Inr (mc_Data m)) of
        Inl e \<Rightarrow> Inl (errorf (''mount '' @ mc_Path m @ '' dataFile'') e)
      | Inr data \<Rightarrow>
          (case (if mc_SchemaFile m \<noteq> [] then readFileRef t baseDir (mc_SchemaFile m) else Inr (mc_Schema m)) of
             Inl e \<Rightarrow> Inl (errorf (''mount '' @ mc_Path m @ '' schemaFile'') e)
           | Inr schema \<Rightarrow> Inr (m\<lparr>mc_Data := data, mc_Schema := schema\<rparr>)))"

definition resolve_skill :: "tools \<Rightarrow> string \<Rightarrow> skill_config \<Rightarrow> go_error + skill_config" where
  "resolve_skill t baseDir s =
     (case (if sk_BodyTemplateFile s \<noteq> [] then readFileRef t baseDir (sk_BodyTemplateFile s)
            else Inr (sk_BodyTemplate s)) of
        Inl e \<Rightarrow> Inl (errorf (''skill '' @ sk_Name s @ '' bodyTemplateFile'') e)
      | Inr body \<Rightarrow>
          (case (if sk_AgentsTemplateFile s \<noteq> [] then readFileRef t baseDir (sk_AgentsTemplateFile s)
                 else Inr (sk_AgentsTemplate s)) of
             Inl e \<Rightarrow> Inl (errorf (''skill '' @ sk_Name s @ '' agentsTemplateFile'') e)
           | Inr agents \<Rightarrow> Inr (s\<lparr>sk_BodyTemplate := body, sk_AgentsTemplate := agents\<rparr>)))"

text \<open>A loop that stops at the first error.\<close>

fun each_ok :: "('a \<Rightarrow> go_error + 'b) \<Rightarrow> 'a list \<Rightarrow> go_error + 'b list" where
  "each_ok f [] = Inr []"
| "each_ok f (x # xs) =
     (case f x of
        Inl e \<Rightarrow> Inl e
      | Inr y \<Rightarrow> (case each_ok f xs of Inl e \<Rightarrow> Inl e | Inr ys \<Rightarrow> Inr (y # ys)))"

definition resolveFileRefs :: "tools \<Rightarrow> string \<Rightarrow> config \<Rightarrow> go_error + config" where
  "resolveFileRefs t baseDir c =
     (case each_ok (resolve_mount t baseDir) (cf_Mounts c) of
        Inl e \<Rightarrow> Inl e
      | Inr ms \<Rightarrow>
          (case each_ok (resolve_skill t baseDir) (cf_Skills c) of
             Inl e \<Rightarrow> Inl e
           | Inr ss \<Rightarrow> Inr (c\<lparr>cf_Mounts := ms, cf_Skills := ss\<rparr>)))"

text \<open>
  Not every string is expanded: of a mount not the kind and the schema, of a provider not the id.
\<close>

definition expand_mount :: "(string \<Rightarrow> string) \<Rightarrow> mount_config \<Rightarrow> mount_config" where
  "expand_mount x m =
     m\<lparr>mc_Path := x (mc_Path m), mc_Mode := x (mc_Mode m), mc_Data := x (mc_Data m), mc_Link := x (mc_Link m),
       mc_Provider := x (mc_Provider m), mc_Read := x (mc_Read m), mc_Write := x (mc_Write m),
       mc_WriteParams := x (mc_WriteParams m)\<rparr>"

definition expand_skill :: "(string \<Rightarrow> string) \<Rightarrow> skill_config \<Rightarrow> skill_config" where
  "expand_skill x s =
     s\<lparr>sk_Name := x (sk_Name s), sk_Description := x (sk_Description s), sk_Version := x (sk_Version s),
       sk_Author := x (sk_Author s), sk_License := x (sk_License s), sk_Compatibility := x (sk_Compatibility s),
       sk_Platforms := map x (sk_Platforms s), sk_Metadata := map (\<lambda>(k, v). (k, x v)) (sk_Metadata s),
       sk_AllowedTools := map x (sk_AllowedTools s), sk_BodyTemplate := x (sk_BodyTemplate s),
       sk_AgentsTemplate := x (sk_AgentsTemplate s), sk_Scripts := map x (sk_Scripts s),
       sk_References := map x (sk_References s)\<rparr>"

definition expandEnv :: "(string \<Rightarrow> string) \<Rightarrow> config \<Rightarrow> config" where
  "expandEnv x c =
     c\<lparr>cf_SkillsRoot := x (cf_SkillsRoot c), cf_Includes := map x (cf_Includes c),
       cf_Providers := map (\<lambda>p. p\<lparr>pv_URL := x (pv_URL p)\<rparr>) (cf_Providers c),
       cf_Mounts := map (expand_mount x) (cf_Mounts c), cf_Skills := map (expand_skill x) (cf_Skills c)\<rparr>"

text \<open>One file, before its includes are looked at.\<close>

definition own_config :: "tools \<Rightarrow> string \<Rightarrow> go_error + config" where
  "own_config t path =
     (case to_read t path of
        Inl e \<Rightarrow> Inl e
      | Inr b \<Rightarrow>
          (case to_config t b of
             Inl e \<Rightarrow> Inl e
           | Inr c \<Rightarrow>
               (case resolveFileRefs t (file_Dir path) c of
                  Inl e \<Rightarrow> Inl e
                | Inr c1 \<Rightarrow> Inr (expandEnv (to_expand t) c1))))"

definition include_path :: "string \<Rightarrow> string \<Rightarrow> string" where
  "include_path baseDir inc = (if IsAbs inc then inc else file_Join baseDir inc)"

definition merge_config :: "config \<Rightarrow> config \<Rightarrow> config" where
  "merge_config c d =
     c\<lparr>cf_Providers := cf_Providers c @ cf_Providers d, cf_Skills := cf_Skills c @ cf_Skills d,
       cf_Mounts := cf_Mounts c @ cf_Mounts d\<rparr>"

text \<open>The loop over the includes; \<open>load\<close> is the recursive call, which may not return.\<close>

fun include_all ::
  "(string \<Rightarrow> (go_error + config) option) \<Rightarrow> string \<Rightarrow> string list \<Rightarrow> string list \<Rightarrow> config \<Rightarrow> (go_error + config) option" where
  "include_all load baseDir seen [] c = Some (Inr c)"
| "include_all load baseDir seen (inc # incs) c =
     (let incPath = include_path baseDir inc
      in if incPath \<in> set seen then include_all load baseDir seen incs c
         else (case load incPath of
                 None \<Rightarrow> None
               | Some (Inl e) \<Rightarrow> Some (Inl (errorf (''include '' @ incPath) e))
               | Some (Inr d) \<Rightarrow> include_all load baseDir (incPath # seen) incs (merge_config c d)))"

text \<open>\<open>LoadConfig n\<close> is given up after n nested calls; None says that it was.\<close>

fun LoadConfig :: "nat \<Rightarrow> tools \<Rightarrow> string \<Rightarrow> (go_error + config) option" where
  "LoadConfig 0 t path = None"
| "LoadConfig (Suc n) t path =
     (case own_config t path of
        Inl e \<Rightarrow> Some (Inl e)
      | Inr c \<Rightarrow>
          (case include_all (LoadConfig n t) (file_Dir path) [path] (cf_Includes c) c of
             None \<Rightarrow> None
           | Some (Inl e) \<Rightarrow> Some (Inl e)
           | Some (Inr d) \<Rightarrow> Some (Inr (d\<lparr>cf_Includes := []\<rparr>))))"

section \<open>Mount entries\<close>

text \<open>strconv.ParseUint in base 8 with 32 bits; the error is a *NumError.\<close>

definition ParseUint8 :: "(string \<Rightarrow> string) \<Rightarrow> string \<Rightarrow> go_error + u32" where
  "ParseUint8 qt s =
     (let bad = (\<lambda>why. Inl (PlainError (''strconv.ParseUint: parsing '' @ qt s @ '': '' @ why)))
      in if s = [] then bad ''invalid syntax''
         else (case octal 0 s of
                 None \<Rightarrow> bad ''invalid syntax''
               | Some n \<Rightarrow> (if n < 2 ^ 32 then Inr (of_nat n) else bad ''value out of range'')))"

text \<open>strings.TrimSpace on ASCII.\<close>

definition space_char :: "char \<Rightarrow> bool" where
  "space_char c \<longleftrightarrow> of_char c \<in> {9, 10, 11, 12, 13, 32 :: nat}"

definition TrimSpace :: "string \<Rightarrow> string" where
  "TrimSpace s = rev (dropWhile space_char (rev (dropWhile space_char s)))"

text \<open>The two functions that make parameters of a payload.\<close>

definition str_params :: "(string \<times> string) list \<Rightarrow> params" where
  "str_params pathParams = map (\<lambda>(k, v). (k, PStr v)) pathParams"

definition json_params :: "tools \<Rightarrow> mount_config \<Rightarrow> (string \<times> string) list \<Rightarrow> bytes \<Rightarrow> op_context \<Rightarrow> go_error + params" where
  "json_params t mc pathParams payload ctx =
     (if 0 < length payload then
        (case to_object t payload of
           Inl e \<Rightarrow>
             Inl (PlainError (''write to '' @ mc_Path mc @ '' expects a valid JSON object; got '' @ to_quote t payload @
               '': '' @ error_text e @ (if mc_Schema mc \<noteq> [] then ''. Expected schema: '' @ mc_Schema mc else [])))
         | Inr body \<Rightarrow> Inr (fold (\<lambda>(k, v) m. mput k v m) body (str_params pathParams)))
      else Inr (str_params pathParams))"

definition raw_params :: "(string \<times> string) list \<Rightarrow> bytes \<Rightarrow> op_context \<Rightarrow> go_error + params" where
  "raw_params pathParams payload ctx = Inr (mput ''_payload'' (PStr (TrimSpace payload)) (str_params pathParams))"

definition plain_cap :: "string \<Rightarrow> string \<Rightarrow> cap_config" where
  "plain_cap pid action =
     \<lparr>cc_ProviderID = pid, cc_Action = action, cc_ParamsFn = None, cc_Async = False, cc_Timeout = 0, cc_CacheTTL = 0\<rparr>"

definition provider_or_remote :: "mount_config \<Rightarrow> string" where
  "provider_or_remote mc = (if mc_Provider mc = [] then ''remote'' else mc_Provider mc)"

definition write_cap :: "tools \<Rightarrow> mount_config \<Rightarrow> cap_config" where
  "write_cap t mc =
     (plain_cap (provider_or_remote mc) (mc_Write mc))
       \<lparr>cc_ParamsFn :=
          (if mc_WriteParams mc = ''json'' then Some (json_params t mc)
           else if mc_WriteParams mc = ''raw'' then Some raw_params
           else None)\<rparr>"

text \<open>The mode: the given one, or what the code takes for the kind.\<close>

definition config_mode :: "tools \<Rightarrow> mount_config \<Rightarrow> go_error + u32" where
  "config_mode t mc =
     (if mc_Mode mc \<noteq> [] then
        (case ParseUint8 (to_quote t) (mc_Mode mc) of
           Inl e \<Rightarrow> Inl (errorf (''invalid mode '' @ to_quote t (mc_Mode mc)) e)
         | Inr m \<Rightarrow> Inr m)
      else Inr (if mc_Kind mc = ''dir'' \<or> mc_Kind mc = ''dynamic_dir'' then mode_0755 else mode_0644))"

definition toMountEntry :: "tools \<Rightarrow> mount_config \<Rightarrow> go_error + mount_entry" where
  "toMountEntry t mc =
     (case config_mode t mc of
        Inl e \<Rightarrow> Inl e
      | Inr mode \<Rightarrow>
          (let entry = zero_entry\<lparr>me_Kind := kind_of (mc_Kind mc), me_Mode := mode\<rparr>;
               pid = provider_or_remote mc
           in case kind_of (mc_Kind mc) of
                KindOther _ \<Rightarrow> Inl (PlainError (''unknown kind '' @ to_quote t (mc_Kind mc)))
              | KindBlob \<Rightarrow> Inr (entry\<lparr>me_BlobData := mc_Data mc\<rparr>)
              | KindLink \<Rightarrow> Inr (entry\<lparr>me_LinkPath := mc_Link mc\<rparr>)
              | KindAPI \<Rightarrow>
                  Inr (entry\<lparr>me_Ops := (if mc_Read mc \<noteq> [] then [(OpRead, Some (plain_cap pid (mc_Read mc)))] else []) @
                                       (if mc_Write mc \<noteq> [] then [(OpWrite, Some (write_cap t mc))] else []),
                             me_Serial := mc_Serial mc, me_Writeback := mc_Writeback mc, me_Schema := mc_Schema mc\<rparr>)
              | KindDynamicDir \<Rightarrow>
                  (if mc_Read mc = []
                   then Inl (PlainError (''dynamic_dir mount '' @ to_quote t (mc_Path mc) @ '' requires a read action''))
                   else Inr (entry\<lparr>me_Ops := [(OpRead, Some (plain_cap pid (mc_Read mc)))], me_Serial := mc_Serial mc\<rparr>))
              | _ \<Rightarrow> Inr entry))"

section \<open>Building and reloading\<close>

definition bare_config :: "string \<Rightarrow> global_config" where
  "bare_config skillsRoot =
     \<lparr>g_Label = [], g_MaxOpenHandles = 0, g_MaxMounts = 0, g_MaxBlobSize = 0, g_ZeroCopyThreshold = 0,
      g_StatCacheTTL = 0, g_DefaultUID = 0, g_DefaultGID = 0, g_SkillsRoot = skillsRoot, g_LockTimeout = 0,
      g_Breaker = \<lparr>bc_Enabled = False, bc_FailureThreshold = 0, bc_ResetTimeout = 0, bc_HalfOpenMaxCalls = 0\<rparr>,
      g_Audit = False\<rparr>"

text \<open>The three loops of BuildFS; each stops at the first error.\<close>

fun build_skills :: "'w env \<Rightarrow> skill_config list \<Rightarrow> fs_state \<Rightarrow> fs_state \<times> go_error option" where
  "build_skills env [] fs = (fs, None)"
| "build_skills env (sc # scs) fs =
     (case Generate (env_render env) sc (fs_skills fs) of
        (g, Some e) \<Rightarrow> (fs\<lparr>fs_skills := g\<rparr>, Some (errorf (''generate skill '' @ sk_Name sc) e))
      | (g, None) \<Rightarrow>
          (case MountSkillAtRoot sc (fs\<lparr>fs_skills := g\<rparr>) of
             (fs1, Some e) \<Rightarrow> (fs1, Some (errorf (''mount skill '' @ sk_Name sc @ '' at root'') e))
           | (fs1, None) \<Rightarrow> build_skills env scs fs1))"

fun build_providers :: "provider_config list \<Rightarrow> fs_state \<Rightarrow> fs_state \<times> go_error option" where
  "build_providers [] fs = (fs, None)"
| "build_providers (pc # pcs) fs =
     (case RegisterProvider (Some (pv_ID pc)) fs of
        (fs1, Some e) \<Rightarrow> (fs1, Some (errorf (''register provider '' @ pv_ID pc) e))
      | (fs1, None) \<Rightarrow> build_providers pcs fs1)"

fun build_mounts :: "tools \<Rightarrow> 'w env \<Rightarrow> 'w \<Rightarrow> mount_config list \<Rightarrow> fs_state \<Rightarrow> fs_state \<times> go_error option" where
  "build_mounts t env w [] fs = (fs, None)"
| "build_mounts t env w (mc # mcs) fs =
     (case toMountEntry t mc of
        Inl e \<Rightarrow> (fs, Some (errorf (''mount '' @ mc_Path mc) e))
      | Inr entry \<Rightarrow>
          (case fs_Mount env w (mc_Path mc) entry fs of
             (fs1, Some e) \<Rightarrow> (fs1, Some (errorf (''mount '' @ mc_Path mc) e))
           | (fs1, None) \<Rightarrow> build_mounts t env w mcs fs1))"

definition BuildFS :: "tools \<Rightarrow> 'w env \<Rightarrow> 'w \<Rightarrow> config \<Rightarrow> (go_error + fs_state) go" where
  "BuildFS t env w c =
     (case NewFS (bare_config (cf_SkillsRoot c)) of
        Return fs0 \<Rightarrow>
          Return
            (case build_skills env (cf_Skills c) fs0 of
               (fs1, Some e) \<Rightarrow> Inl e
             | (fs1, None) \<Rightarrow>
                 (case build_providers (cf_Providers c) fs1 of
                    (fs2, Some e) \<Rightarrow> Inl e
                  | (fs2, None) \<Rightarrow>
                      (case build_mounts t env w (cf_Mounts c) fs2 of
                         (fs3, Some e) \<Rightarrow> Inl e
                       | (fs3, None) \<Rightarrow> Inr fs3)))
      | Panic \<Rightarrow> Panic
      | Block \<Rightarrow> Block)"

definition desired_entry :: "tools \<Rightarrow> mount_config \<Rightarrow> go_error + mount_entry" where
  "desired_entry t mc =
     (case toMountEntry t mc of
        Inl e \<Rightarrow> Inl (errorf (''mount '' @ mc_Path mc) e)
      | Inr entry \<Rightarrow> Inr (entry\<lparr>me_Path := mc_Path mc\<rparr>))"

text \<open>The three loops of Reload, over what has been removed, changed and added.\<close>

fun unmount_list :: "'w env \<Rightarrow> 'w \<Rightarrow> mount_entry list \<Rightarrow> fs_state \<Rightarrow> fs_state \<times> go_error option" where
  "unmount_list env w [] fs = (fs, None)"
| "unmount_list env w (e # es) fs =
     (case fs_Unmount env w (me_Path e) fs of
        (fs1, Some err) \<Rightarrow> (fs1, Some (errorf (''unmount '' @ me_Path e) err))
      | (fs1, None) \<Rightarrow> unmount_list env w es fs1)"

fun remount_list ::
  "'w env \<Rightarrow> 'w \<Rightarrow> (string \<times> mount_entry \<times> mount_entry) list \<Rightarrow> fs_state \<Rightarrow> fs_state \<times> go_error option" where
  "remount_list env w [] fs = (fs, None)"
| "remount_list env w ((p, old, new) # chs) fs =
     (case fs_Unmount env w p fs of
        (fs1, Some err) \<Rightarrow> (fs1, Some (errorf (''unmount '' @ p) err))
      | (fs1, None) \<Rightarrow>
          (case fs_Mount env w (me_Path new) new fs1 of
             (fs2, Some err) \<Rightarrow> (fs2, Some (errorf (''mount '' @ me_Path new) err))
           | (fs2, None) \<Rightarrow> remount_list env w chs fs2))"

fun mount_list :: "'w env \<Rightarrow> 'w \<Rightarrow> mount_entry list \<Rightarrow> fs_state \<Rightarrow> fs_state \<times> go_error option" where
  "mount_list env w [] fs = (fs, None)"
| "mount_list env w (e # es) fs =
     (case fs_Mount env w (me_Path e) e fs of
        (fs1, Some err) \<Rightarrow> (fs1, Some (errorf (''mount '' @ me_Path e) err))
      | (fs1, None) \<Rightarrow> mount_list env w es fs1)"

definition Reload :: "tools \<Rightarrow> 'w env \<Rightarrow> 'w \<Rightarrow> config \<Rightarrow> fs_state \<Rightarrow> fs_state \<times> go_error option" where
  "Reload t env w c fs =
     (case each_ok (desired_entry t) (cf_Mounts c) of
        Inl e \<Rightarrow> (fs, Some e)
      | Inr desired \<Rightarrow>
          (let diff = DiffSnapshots (fs_Snapshot fs) desired
           in case unmount_list env w (sd_Removed diff) fs of
                (fs1, Some e) \<Rightarrow> (fs1, Some e)
              | (fs1, None) \<Rightarrow>
                  (case remount_list env w (sd_Modified diff) fs1 of
                     (fs2, Some e) \<Rightarrow> (fs2, Some e)
                   | (fs2, None) \<Rightarrow> mount_list env w (sd_Added diff) fs2)))"

section \<open>The command\<close>

definition agents_suffix :: string where
  "agents_suffix = ''/AGENTS.md''"

definition agentPaths :: "mount_config list \<Rightarrow> string list" where
  "agentPaths ms = map mc_Path (filter (\<lambda>mc. mc_Kind mc = ''blob'' \<and> has_suffix (mc_Path mc) agents_suffix) ms)"

fun validate_dirs :: "(string \<Rightarrow> string) \<Rightarrow> string list \<Rightarrow> mount_config list \<Rightarrow> string option" where
  "validate_dirs qt agents [] = None"
| "validate_dirs qt agents (mc # mcs) =
     (if mc_Kind mc \<noteq> ''dir'' \<and> mc_Kind mc \<noteq> ''dynamic_dir'' then validate_dirs qt agents mcs
      else if mc_Agents mc = Some False then validate_dirs qt agents mcs
      else (let agentPath = trim_suffix (mc_Path mc) ''/'' @ agents_suffix
            in if agentPath \<notin> set agents
               then Some (''dir mount '' @ qt (mc_Path mc) @ '' requires an '' @ qt agentPath @
                      '' child or `agents: false`'')
               else validate_dirs qt agents mcs))"

definition validateAgents :: "tools \<Rightarrow> config \<Rightarrow> string option" where
  "validateAgents t c = validate_dirs (to_quote t) (agentPaths (cf_Mounts c)) (cf_Mounts c)"

text \<open>The exit code and what is printed; None when loading does not come to an end.\<close>

definition cmdValidate :: "nat \<Rightarrow> tools \<Rightarrow> 'w env \<Rightarrow> 'w \<Rightarrow> string \<Rightarrow> (nat \<times> string) option" where
  "cmdValidate n t env w configPath =
     (if configPath = [] then Some (1, ''Usage: skills-fs validate -config <path>'')
      else (case LoadConfig n t configPath of
              None \<Rightarrow> None
            | Some (Inl e) \<Rightarrow> Some (1, ''config load error: '' @ error_text e)
            | Some (Inr c) \<Rightarrow>
                (case BuildFS t env w c of
                   Return (Inl e) \<Rightarrow> Some (1, ''fs build error: '' @ error_text e)
                 | Return (Inr fs) \<Rightarrow>
                     (case validateAgents t c of
                        Some msg \<Rightarrow> Some (1, ''config validation error: '' @ msg)
                      | None \<Rightarrow> Some (0, ''configuration valid''))
                 | _ \<Rightarrow> Some (2, []))))"

definition buildFS :: "nat \<Rightarrow> tools \<Rightarrow> 'w env \<Rightarrow> 'w \<Rightarrow> string \<Rightarrow> (go_error + fs_state) go option" where
  "buildFS n t env w configPath =
     (if configPath = [] then
        Some (case NewFS (bare_config []) of Return fs \<Rightarrow> Return (Inr fs) | Panic \<Rightarrow> Panic | Block \<Rightarrow> Block)
      else (case LoadConfig n t configPath of
              None \<Rightarrow> None
            | Some (Inl e) \<Rightarrow> Some (Return (Inl (errorf ''load config'' e)))
            | Some (Inr c) \<Rightarrow> Some (BuildFS t env w c)))"

text \<open>What the signal for a reload does.\<close>

definition reload_signal ::
  "nat \<Rightarrow> tools \<Rightarrow> 'w env \<Rightarrow> 'w \<Rightarrow> string \<Rightarrow> fs_state \<Rightarrow> (fs_state \<times> go_error option) option" where
  "reload_signal n t env w configPath fs =
     (case LoadConfig n t configPath of
        None \<Rightarrow> None
      | Some (Inl e) \<Rightarrow> Some (fs, Some e)
      | Some (Inr c) \<Rightarrow> Some (Reload t env w c fs))"

definition split_origins :: "string \<Rightarrow> string list" where
  "split_origins s = (if s \<noteq> [] then map TrimSpace (split_on (CHR '','') s) else [])"

text \<open>The flags of the subcommands that become options of a server.\<close>

record flags =
  fl_readonly :: bool
  fl_allowOther :: bool
  fl_tlsCert :: string
  fl_tlsKey :: string
  fl_allowedOrigins :: string
  fl_corsOrigins :: string
  fl_rateLimitRPS :: rat
  fl_rateLimitBurst :: int
  fl_gzip :: bool
  fl_maxConnections :: int
  fl_debug :: bool
  fl_shutdownTimeout :: duration
  fl_maxRequestSize :: int
  fl_maxResponseSize :: int

definition webdav_options :: "flags \<Rightarrow> mount_options" where
  "webdav_options f =
     (let origins = split_origins (fl_corsOrigins f)
      in plain_opts
           \<lparr>mo_ReadOnly := fl_readonly f, mo_TLSCertFile := fl_tlsCert f, mo_TLSKeyFile := fl_tlsKey f,
            mo_AllowedOrigins := origins, mo_RateLimitRPS := fl_rateLimitRPS f,
            mo_RateLimitBurst := fl_rateLimitBurst f, mo_EnableGzip := fl_gzip f, mo_CORSOrigins := origins,
            mo_MaxConnections := fl_maxConnections f, mo_Debug := fl_debug f,
            mo_ShutdownTimeout := fl_shutdownTimeout f, mo_MaxRequestSize := fl_maxRequestSize f,
            mo_MaxResponseSize := fl_maxResponseSize f\<rparr>)"

definition websocket_options :: "flags \<Rightarrow> mount_options" where
  "websocket_options f =
     plain_opts
       \<lparr>mo_ReadOnly := fl_readonly f, mo_AllowedOrigins := split_origins (fl_allowedOrigins f),
        mo_CORSOrigins := split_origins (fl_corsOrigins f), mo_MaxConnections := fl_maxConnections f,
        mo_Debug := fl_debug f, mo_ShutdownTimeout := fl_shutdownTimeout f\<rparr>"

definition fuse_options :: "flags \<Rightarrow> mount_options" where
  "fuse_options f = plain_opts\<lparr>mo_AllowOther := fl_allowOther f\<rparr>"

text \<open>The arguments the daemon is started with.\<close>

definition daemon_args :: "string list \<Rightarrow> string list" where
  "daemon_args args = filter (\<lambda>a. \<not> (a = ''-daemon'' \<or> a = ''--daemon'')) args"

definition health_url :: "string \<Rightarrow> string \<Rightarrow> string" where
  "health_url addr path = trim_suffix addr ''/'' @ path"

text \<open>
  The wait of stop: whether the k-th of fifty probes finds the process is \<open>alive k\<close>.
\<close>

fun stop_wait :: "(nat \<Rightarrow> bool) \<Rightarrow> nat \<Rightarrow> nat" where
  "stop_wait alive 0 = 1"
| "stop_wait alive (Suc n) = (if \<not> alive (50 - Suc n) then 0 else stop_wait alive n)"

end
