(* ===== verification/Serve.thy ===== *)
theory Serve
  imports DavFind WebSocket Middleware Config
begin

text \<open>
  The WebDAV server as a client meets it: what Mount of adapter/webdav/webdav.go puts around the
  handlers, in its order. Outermost is the rate limit, then the limit on connections, CORS, the access
  log, the request id, and the multiplexer with the health and metrics pages
  (adapter/middleware/*.go). In \<open>serve_all\<close> requests come one after the other, and one that hangs keeps its
  slot of the connection limit for the rest of the run; in \<open>serve_step\<close> it can end too, and returns its slot.

  The multiplexer is the one of net/http: it redirects a path that is not clean. A request
  has a path that starts with a slash and has no escapes. What a redirect and the profiler
  answer are parameters.
\<close>

section \<open>Middleware\<close>

type_synonym ('s, 'r) handler = "http_request \<Rightarrow> http_response \<Rightarrow> 's \<Rightarrow> 's \<times> 'r http_end"

definition matchOrigin :: "string \<Rightarrow> string list \<Rightarrow> string" where
  "matchOrigin origin allowed =
     (if origin = [] then []
      else if length allowed = 0 then ''*''
      else if list_ex (\<lambda>a. EqualFold a origin) allowed then origin
      else [])"

definition CORS :: "string list \<Rightarrow> ('s, http_response) handler \<Rightarrow> ('s, http_response) handler" where
  "CORS origins next_handler rq rs s =
     (let allowed = matchOrigin (get_header rq ''Origin'') origins;
          rs1 = (if allowed \<noteq> [] then
                   set_header ''Access-Control-Expose-Headers'' ''Content-Length, Content-Type, Lock-Token''
                    (set_header ''Access-Control-Allow-Headers'' ''Content-Type, Authorization, Destination, Depth, Lock-Token''
                      (set_header ''Access-Control-Allow-Methods''
                         ''GET, HEAD, PUT, DELETE, MKCOL, COPY, MOVE, PROPFIND, OPTIONS, LOCK, UNLOCK''
                        (set_header ''Access-Control-Allow-Origin'' allowed rs)))
                 else rs)
      in if rq_Method rq = ''OPTIONS'' \<and> get_header rq ''Access-Control-Request-Method'' \<noteq> []
         then (s, Done (write_header 204 rs1))
         else next_handler rq rs1 s)"

text \<open>The handler gets the request id from the context; \<open>fresh\<close> is generateID.\<close>

definition RequestID :: "string \<Rightarrow> (string \<Rightarrow> ('s, 'r) handler) \<Rightarrow> ('s, 'r) handler" where
  "RequestID fresh next_handler rq rs s =
     (let i0 = get_header rq ''X-Request-ID'';
          i = (if i0 = [] then fresh else i0)
      in next_handler i rq (set_header ''X-Request-ID'' i rs) s)"

text \<open>A line of the log; a handler that hangs or panics gets none.\<close>

record log_line =
  ll_method :: string
  ll_path :: string
  ll_status :: nat
  ll_duration :: duration
  ll_request_id :: string

definition AccessLog ::
  "time \<Rightarrow> time \<Rightarrow> ('s, http_response) handler \<Rightarrow> ('s \<times> log_line list, http_response) handler" where
  "AccessLog start now next_handler rq rs s =
     (let (s1, r) = next_handler rq rs (fst s)
      in case r of
           Done rs1 \<Rightarrow>
             ((s1, snd s @ [\<lparr>ll_method = rq_Method rq, ll_path = rq_Path rq,
                ll_status = (case rs_Status rs1 of None \<Rightarrow> 200 | Some c \<Rightarrow> c),
                ll_duration = now - start, ll_request_id = get_header rq ''X-Request-ID''\<rparr>]), r)
         | _ \<Rightarrow> ((s1, snd s), r))"

text \<open>
  The slots that are taken by requests that hang, under a limit that is none when it is not
  positive. A request that finds no slot waits for one.
\<close>

definition ConnLimit :: "int \<Rightarrow> ('s, 'r) handler \<Rightarrow> ('s \<times> nat, 'r) handler" where
  "ConnLimit limit next_handler rq rs s =
     (if limit \<le> 0 then (let (s1, r) = next_handler rq rs (fst s) in ((s1, snd s), r))
      else if limit \<le> int (snd s) then (s, Hangs)
      else (let (s1, r) = next_handler rq rs (fst s)
            in ((s1, case r of Hangs \<Rightarrow> snd s + 1 | _ \<Rightarrow> snd s), r)))"

text \<open>net.SplitHostPort, of which the port is not used.\<close>

definition split_host :: "string \<Rightarrow> string option" where
  "split_host a =
     (let i = length a - 1 - length (takeWhile (\<lambda>c. c \<noteq> CHR '':'') (rev a));
          e = length (takeWhile (\<lambda>c. c \<noteq> CHR '']'') a)
      in if CHR '':'' \<notin> set a then None
         else if hd a = CHR ''['' then
           (if e + 1 = i \<and> CHR ''['' \<notin> set (drop 1 a) \<and> CHR '']'' \<notin> set (drop (e + 1) a)
            then Some (drop 1 (take e a)) else None)
         else if CHR '':'' \<in> set (take i a) \<or> CHR ''['' \<in> set a \<or> CHR '']'' \<in> set a then None
         else Some (take i a))"

definition clientIP :: "http_request \<Rightarrow> string \<Rightarrow> string" where
  "clientIP rq remoteAddr =
     (let xff = get_header rq ''X-Forwarded-For''; xri = get_header rq ''X-Real-Ip''
      in if xff \<noteq> [] then TrimSpace (takeWhile (\<lambda>c. c \<noteq> CHR '','') xff)
         else if xri \<noteq> [] then xri
         else (case split_host remoteAddr of None \<Rightarrow> remoteAddr | Some host \<Rightarrow> host))"

definition RateLimit ::
  "string \<Rightarrow> time \<Rightarrow> time \<Rightarrow> ('s, http_response) handler \<Rightarrow> ('s \<times> rate_limiter, http_response) handler" where
  "RateLimit remoteAddr now1 now2 next_handler rq rs s =
     (let (rl, allowed) = Allow (clientIP rq remoteAddr) now1 now2 (snd s)
      in if \<not> allowed then ((fst s, rl), Done (http_Error ''rate limit exceeded'' 429 rs))
         else (let (s1, r) = next_handler rq rs (fst s) in ((s1, rl), r)))"

section \<open>The multiplexer\<close>

record 'w web =
  wb_server :: "'w server"
  wb_redirect :: "string \<Rightarrow> http_request \<Rightarrow> http_response \<Rightarrow> http_response"
  wb_pprof :: "http_request \<Rightarrow> http_response \<Rightarrow> http_response"

text \<open>cleanPath of net/http: a slash at the end stays.\<close>

definition clean_url :: "string \<Rightarrow> string" where
  "clean_url p =
     (if p = [] then ''/''
      else (let p1 = (if hd p \<noteq> CHR ''/'' then CHR ''/'' # p else p);
                np = path_of (clean_segs [] (split_on (CHR ''/'') p1))
            in if last p1 = CHR ''/'' \<and> np \<noteq> ''/'' then np @ ''/'' else np))"

text \<open>
  The headers that are set before the handler runs are the ones of the answer too, unless the
  handler sets them to something else.
\<close>

definition over :: "http_response \<Rightarrow> http_response \<Rightarrow> http_response" where
  "over rs0 rs = rs\<lparr>rs_Header := fold (\<lambda>(k, v). mput k v) (rs_Header rs) (rs_Header rs0)\<rparr>"

definition serve_mux :: "nat \<Rightarrow> 'w web \<Rightarrow> string \<Rightarrow> ('w dav, http_response) handler" where
  "serve_mux n web i rq rs s =
     (let sv = wb_server web; debug = mo_Debug (sv_opts sv); pprof = ''/debug/pprof'';
          p = (if rq_Method rq = ''CONNECT'' then rq_Path rq else clean_url (rq_Path rq))
      in if debug \<and> p = pprof then (s, Done (wb_redirect web (pprof @ ''/'') rq rs))
         else if p \<noteq> rq_Path rq then (s, Done (wb_redirect web p rq rs))
         else if p = ''/healthz'' then (s, Done (handleHealthz sv s rs))
         else if p = ''/metrics'' then (s, Done (handleMetrics sv s rs))
         else if debug \<and> has_prefix p (pprof @ ''/'') then (s, Done (wb_pprof web rq rs))
         else (let (s1, r) = handleWebDAV n sv rq s in (s1, map_http_end (over rs) r)))"

section \<open>The server\<close>

text \<open>A request with what the server learns or draws when it comes: the address, the readings of the clock, a fresh id.\<close>

record arrival =
  ar_request :: http_request
  ar_remote :: string
  ar_now1 :: time
  ar_now2 :: time
  ar_start :: time
  ar_end :: time
  ar_fresh :: string

type_synonym 'w site = "((('w dav \<times> log_line list) \<times> nat) \<times> rate_limiter)"

definition burst_of :: "mount_options \<Rightarrow> int" where
  "burst_of o1 = (if mo_RateLimitBurst o1 \<le> 0 then \<lfloor>mo_RateLimitRPS o1\<rfloor> else mo_RateLimitBurst o1)"

definition new_site :: "mount_options \<Rightarrow> 'w fsw \<Rightarrow> 'w site" where
  "new_site o1 fsw =
     ((((newPropCache (mo_PropfindCacheTTL o1), fsw), []), 0), NewRateLimiter (mo_RateLimitRPS o1) (burst_of o1))"

definition serve_inner :: "nat \<Rightarrow> 'w web \<Rightarrow> arrival \<Rightarrow> (('w dav \<times> log_line list) \<times> nat, http_response) handler" where
  "serve_inner n web a =
     (let o1 = sv_opts (wb_server web)
      in ConnLimit (mo_MaxConnections o1)
           (CORS (mo_CORSOrigins o1) (AccessLog (ar_start a) (ar_end a) (RequestID (ar_fresh a) (serve_mux n web)))))"

definition serve :: "nat \<Rightarrow> 'w web \<Rightarrow> arrival \<Rightarrow> 'w site \<Rightarrow> 'w site \<times> http_response http_end" where
  "serve n web a s =
     (if 0 < mo_RateLimitRPS (sv_opts (wb_server web))
      then RateLimit (ar_remote a) (ar_now1 a) (ar_now2 a) (serve_inner n web a) (ar_request a) new_response s
      else (let (s1, r) = serve_inner n web a (ar_request a) new_response (fst s) in ((s1, snd s), r)))"

fun serve_all :: "nat \<Rightarrow> 'w web \<Rightarrow> arrival list \<Rightarrow> 'w site \<Rightarrow> 'w site \<times> http_response http_end list" where
  "serve_all n web [] s = (s, [])"
| "serve_all n web (a # as) s =
     (let (s1, r) = serve n web a s; (s2, rs) = serve_all n web as s1 in (s2, r # rs))"

section \<open>Read-only servers\<close>

lemma serve_mux_mounts:
  assumes "mo_ReadOnly (sv_opts (wb_server web))"
  shows "mounts_of (snd (fst (serve_mux n web i rq rs s))) = mounts_of (snd s)"
proof -
  obtain s1 r where H: "handleWebDAV n (wb_server web) rq s = (s1, r)" by fastforce
  have "mounts_of (snd s1) = mounts_of (snd s)" using read_only_result[OF assms H] by blast
  then show ?thesis by (simp add: serve_mux_def H Let_def)
qed

text \<open>What the middleware keeps when the handler it wraps keeps it.\<close>

lemma CORS_keeps: "(\<And>rs. P (fst (h rq rs s))) \<Longrightarrow> P s \<Longrightarrow> P (fst (CORS os h rq rs s))"
  by (simp add: CORS_def Let_def)

lemma AccessLog_keeps: "P (fst (h rq rs (fst s))) \<Longrightarrow> P (fst (fst (AccessLog t0 t1 h rq rs s)))"
  by (auto simp: AccessLog_def Let_def split_beta split: http_end.split)

lemma ConnLimit_keeps: "P (fst (h rq rs (fst s))) \<Longrightarrow> P (fst s) \<Longrightarrow> P (fst (fst (ConnLimit l h rq rs s)))"
  by (auto simp: ConnLimit_def Let_def split_beta)

lemma RateLimit_keeps: "P (fst (h rq rs (fst s))) \<Longrightarrow> P (fst s) \<Longrightarrow> P (fst (fst (RateLimit x t1 t2 h rq rs s)))"
  by (auto simp: RateLimit_def Let_def split_beta)

abbreviation site_dav :: "'w site \<Rightarrow> 'w dav" where
  "site_dav s \<equiv> fst (fst (fst s))"

lemma serve_mounts:
  assumes "mo_ReadOnly (sv_opts (wb_server web))"
  shows "mounts_of (snd (site_dav (fst (serve n web a s)))) = mounts_of (snd (site_dav s))"
proof -
  let ?P = "\<lambda>d :: 'a dav. mounts_of (snd d) = mounts_of (snd (site_dav s))"
  have "?P (fst (fst (fst (serve_inner n web a (ar_request a) new_response (fst s)))))"
    unfolding serve_inner_def Let_def
    by (rule ConnLimit_keeps[where P = "\<lambda>x. ?P (fst x)"], rule CORS_keeps[where P = "\<lambda>x. ?P (fst x)"],
        rule AccessLog_keeps[where P = ?P]) (simp_all add: RequestID_def Let_def serve_mux_mounts[OF assms])
  note inner = this
  show ?thesis
  proof (cases "0 < mo_RateLimitRPS (sv_opts (wb_server web))")
    case True
    have "?P (fst (fst (fst (fst (RateLimit (ar_remote a) (ar_now1 a) (ar_now2 a) (serve_inner n web a)
        (ar_request a) new_response s)))))"
      by (rule RateLimit_keeps[where P = "\<lambda>x. ?P (fst (fst x))"]) (simp_all add: inner)
    with True show ?thesis by (simp add: serve_def)
  next
    case False
    with inner show ?thesis by (simp add: serve_def Let_def split_beta)
  qed
qed

text \<open>
  C33: a read-only server, with everything around its handlers, keeps the mounts through any
  sequence of requests, whoever sends them and whatever they ask for.
\<close>

theorem serve_read_only:
  assumes "mo_ReadOnly (sv_opts (wb_server web))"
  shows "mounts_of (snd (site_dav (fst (serve_all n web reqs (new_site (sv_opts (wb_server web)) fsw))))) = mounts_of fsw"
proof -
  have "mounts_of (snd (site_dav (fst (serve_all n web reqs s)))) = mounts_of (snd (site_dav s))" for s
    by (induction reqs arbitrary: s) (simp_all add: Let_def split_beta serve_mounts[OF assms])
  then show ?thesis by (simp add: new_site_def)
qed

definition demo_web :: "mount_options \<Rightarrow> int web" where
  "demo_web o1 = \<lparr>wb_server = demo_server o1, wb_redirect = (\<lambda>p rq rs. write_header 301 (set_header ''Location'' p rs)),
     wb_pprof = (\<lambda>rq rs. rs)\<rparr>"

definition demo_arrival :: "string \<Rightarrow> string \<Rightarrow> arrival" where
  "demo_arrival m p = \<lparr>ar_request = \<lparr>rq_Method = m, rq_Path = p, rq_Header = [], rq_Body = ''new'', rq_Broken = False\<rparr>,
     ar_remote = ''10.0.0.1:80'', ar_now1 = 0, ar_now2 = 0, ar_start = 0, ar_end = 1, ar_fresh = ''id''\<rparr>"

lemma serve_read_only_witness:
  "mounts_of (snd (site_dav (fst (serve_all 3 (demo_web (plain_opts\<lparr>mo_ReadOnly := True\<rparr>))
      [demo_arrival ''PUT'' ''/a'', demo_arrival ''DELETE'' ''/a'', demo_arrival ''GET'' ''/a'']
      (new_site (plain_opts\<lparr>mo_ReadOnly := True\<rparr>) (data_fs ''old'', 7)))))) = mounts_of (data_fs ''old'', 7 :: int)"
  using serve_read_only[of "demo_web (plain_opts\<lparr>mo_ReadOnly := True\<rparr>)" 3 _ "(data_fs ''old'', 7)"]
  by (simp add: demo_web_def demo_server_def del: serve_all.simps)

section \<open>Evading the rate limit\<close>

definition refused :: "http_response http_end \<Rightarrow> bool" where
  "refused r \<longleftrightarrow> (\<exists>rs. r = Done rs \<and> rs_Status rs = Some 429 \<and> rs_Body rs = ''rate limit exceeded'' @ [CHR 0x0A])"

text \<open>The answer of a request that the limiter lets through is the one of the server without a limiter.\<close>

lemma serve_outcome:
  "serve n web a s =
     (if 0 < mo_RateLimitRPS (sv_opts (wb_server web)) \<and>
         \<not> snd (Allow (clientIP (ar_request a) (ar_remote a)) (ar_now1 a) (ar_now2 a) (snd s))
      then ((fst s, fst (Allow (clientIP (ar_request a) (ar_remote a)) (ar_now1 a) (ar_now2 a) (snd s))),
            Done (http_Error ''rate limit exceeded'' 429 new_response))
      else ((fst (serve_inner n web a (ar_request a) new_response (fst s)),
             if 0 < mo_RateLimitRPS (sv_opts (wb_server web))
             then fst (Allow (clientIP (ar_request a) (ar_remote a)) (ar_now1 a) (ar_now2 a) (snd s)) else snd s),
            snd (serve_inner n web a (ar_request a) new_response (fst s))))"
  by (simp add: serve_def RateLimit_def Let_def split_beta)

text \<open>The server without its rate limit.\<close>

fun serve_unlimited ::
  "nat \<Rightarrow> 'w web \<Rightarrow> arrival list \<Rightarrow> ('w dav \<times> log_line list) \<times> nat \<Rightarrow>
   (('w dav \<times> log_line list) \<times> nat) \<times> http_response http_end list" where
  "serve_unlimited n web [] s = (s, [])"
| "serve_unlimited n web (a # as) s =
     (let (s1, r) = serve_inner n web a (ar_request a) new_response s;
          (s2, rs) = serve_unlimited n web as s1
      in (s2, r # rs))"

abbreviation client_of :: "arrival \<Rightarrow> string" where
  "client_of a \<equiv> clientIP (ar_request a) (ar_remote a)"

lemma new_names_unlimited:
  assumes "distinct (map client_of reqs)"
    and "\<forall>a\<in>set reqs. map_of (rl_buckets (snd s)) (client_of a) = None"
  shows "fst (fst (serve_all n web reqs s)) = fst (serve_unlimited n web reqs (fst s)) \<and>
    snd (serve_all n web reqs s) = snd (serve_unlimited n web reqs (fst s))"
  using assms
proof (induction reqs arbitrary: s)
  case (Cons a reqs)
  let ?s1 = "fst (serve n web a s)"
  have new: "map_of (rl_buckets (snd s)) (client_of a) = None" using Cons.prems(2) by simp
  then have ok: "snd (Allow (client_of a) (ar_now1 a) (ar_now2 a) (snd s))" by (simp add: Allow_def)
  have 1: "fst ?s1 = fst (serve_inner n web a (ar_request a) new_response (fst s))"
    "snd (serve n web a s) = snd (serve_inner n web a (ar_request a) new_response (fst s))"
    using ok by (simp_all add: serve_outcome)
  have "\<exists>b. rl_buckets (snd ?s1) = mput (client_of a) b (rl_buckets (snd s)) \<or> rl_buckets (snd ?s1) = rl_buckets (snd s)"
    using ok new by (auto simp: serve_outcome Allow_def)
  moreover have "client_of x \<noteq> client_of a" if "x \<in> set reqs" for x
    using Cons.prems(1) that by (metis (mono_tags) distinct.simps(2) image_eqI list.set_map list.simps(9))
  ultimately have "\<forall>x\<in>set reqs. map_of (rl_buckets (snd ?s1)) (client_of x) = None"
    using Cons.prems(2) by (auto simp: map_of_mput)
  from Cons.IH[OF _ this] Cons.prems(1) 1 show ?case by (simp add: Let_def split_beta)
qed simp

text \<open>The i-th request of a client that writes a name of its own into X-Forwarded-For.\<close>

definition forged :: "nat \<Rightarrow> arrival \<Rightarrow> arrival" where
  "forged i a = a\<lparr>ar_request := (ar_request a)\<lparr>rq_Header :=
     mput ''X-Forwarded-For'' (replicate (i + 1) (CHR ''x'')) (rq_Header (ar_request a))\<rparr>\<rparr>"

lemma client_of_forged: "client_of (forged i a) = replicate (i + 1) (CHR ''x'')"
proof -
  have 1: "takeWhile (\<lambda>c. c \<noteq> CHR '','') (replicate k (CHR ''x'')) = replicate k (CHR ''x'')" for k
    by (simp add: takeWhile_eq_all_conv)
  have "TrimSpace (replicate k (CHR ''x'')) = replicate k (CHR ''x'')" for k
    by (cases k) (simp_all add: TrimSpace_def space_char_def dropWhile_eq_self_iff rev_replicate del: replicate_Suc)
  then show ?thesis by (simp add: clientIP_def forged_def get_header_def map_of_mput 1 del: replicate_Suc)
qed

lemma forged_lengths:
  "map (length \<circ> client_of) (map (\<lambda>(i, a). forged i a) (enumerate k reqs)) = map Suc [k..<k + length reqs]"
proof (induction reqs arbitrary: k)
  case (Cons a reqs)
  have "[k..<k + length (a # reqs)] = k # [Suc k..<Suc k + length reqs]" by (simp add: upt_rec)
  with Cons[of "Suc k"] show ?case by (simp only: enumerate_simps) (simp add: client_of_forged del: upt_Suc)
qed simp

lemma forged_distinct: "distinct (map client_of (map (\<lambda>(i, a). forged i a) (enumerate 0 reqs)))"
proof -
  let ?names = "map client_of (map (\<lambda>(i, a). forged i a) (enumerate 0 reqs))"
  have "map length ?names = map Suc [0..<length reqs]" using forged_lengths[of 0 reqs] by (simp only: map_map o_assoc) simp
  moreover have "distinct (map Suc [0..<length reqs])" by (simp add: distinct_map)
  ultimately have "distinct (map length ?names)" by (simp only:)
  then show ?thesis by (simp only: distinct_map)
qed

text \<open>
  C34: the rate limit is by client, and X-Forwarded-For, which any client can set, says which
  client a request is from. A sender who puts a new name into each request is not limited at all,
  whatever the rate and the burst: the requests, all from one address if need be, are answered
  and change the engine as if there were no limiter.
\<close>

theorem forwarded_for_evades:
  "let o1 = sv_opts (wb_server web); reqs' = map (\<lambda>(i, a). forged i a) (enumerate 0 reqs);
       (s, rs) = serve_all n web reqs' (new_site o1 fsw)
   in (fst s, rs) = serve_unlimited n web reqs' (fst (new_site o1 fsw))"
proof -
  let ?reqs = "map (\<lambda>(i, a). forged i a) (enumerate 0 reqs)"
  have "distinct (map client_of ?reqs)" by (rule forged_distinct)
  from new_names_unlimited[OF this, of "new_site (sv_opts (wb_server web)) fsw" n web] show ?thesis
    by (auto simp: new_site_def NewRateLimiter_def Let_def split_beta prod_eq_iff)
qed

section \<open>Requests that hang\<close>

lemma serve_busy:
  assumes "0 < mo_MaxConnections (sv_opts (wb_server web))" and "int (snd (fst s)) \<le> mo_MaxConnections (sv_opts (wb_server web))"
    and "serve n web a s = (s', r)"
  shows "int (snd (fst s')) = min (mo_MaxConnections (sv_opts (wb_server web))) (int (snd (fst s)) + (if r = Hangs then 1 else 0)) \<and>
    (int (snd (fst s)) = mo_MaxConnections (sv_opts (wb_server web)) \<longrightarrow> r = Hangs \<or> refused r)"
proof -
  have s': "s' = fst (serve n web a s)" "r = snd (serve n web a s)" using assms(3) by simp_all
  show ?thesis using assms(1,2) unfolding s'
    by (auto simp: serve_outcome serve_inner_def ConnLimit_def Let_def split_beta refused_def http_Error_def
        write_bytes_def write_header_def set_header_def new_response_def split: http_end.splits)
qed

lemma serve_all_full:
  assumes "0 < mo_MaxConnections (sv_opts (wb_server web))" and "int (snd (fst s)) = mo_MaxConnections (sv_opts (wb_server web))"
  shows "\<forall>r\<in>set (snd (serve_all n web as s)). r = Hangs \<or> refused r"
  using assms(2)
proof (induction as arbitrary: s)
  case (Cons a as)
  let ?x = "serve n web a s"
  have "int (snd (fst (fst ?x))) = mo_MaxConnections (sv_opts (wb_server web)) \<and> (snd ?x = Hangs \<or> refused (snd ?x))"
    using serve_busy[OF assms(1), of s n a "fst ?x" "snd ?x"] Cons.prems by auto
  with Cons.IH[of "fst ?x"] show ?case by (simp add: Let_def split_beta)
qed simp

text \<open>
  The server with requests that come to an end later. A request that finds no slot waits in
  front of the connection limit, and is admitted when there is one. A request that hangs in its
  handler, on a stream say, can be woken: then the rest of its handler runs, which
  leaves an engine and a log that are arbitrary here, and the deferred Release of
  adapter/middleware/conn_limit.go returns the slot.
\<close>

datatype 'w serve_event = Arrives arrival | Ends "'w dav \<times> log_line list" | Admits nat

definition no_slot :: "'w web \<Rightarrow> 'w site \<Rightarrow> bool" where
  "no_slot web s \<longleftrightarrow> 0 < mo_MaxConnections (sv_opts (wb_server web)) \<and>
     mo_MaxConnections (sv_opts (wb_server web)) \<le> int (snd (fst s))"

definition admit :: "nat \<Rightarrow> 'w web \<Rightarrow> arrival \<Rightarrow> 'w site \<Rightarrow> 'w site \<times> http_response http_end" where
  "admit n web a s =
     (let (s1, r) = serve_inner n web a (ar_request a) new_response (fst s) in ((s1, snd s), r))"

fun serve_step :: "nat \<Rightarrow> 'w web \<Rightarrow> 'w serve_event \<Rightarrow> 'w site \<times> arrival list \<Rightarrow> 'w site \<times> arrival list" where
  "serve_step n web (Arrives a) (s, ws) =
     (let (s1, r) = serve n web a s in (s1, if no_slot web s \<and> r = Hangs then ws @ [a] else ws))"
| "serve_step n web (Ends d) (s, ws) =
     ((if snd (fst s) = 0 then s else ((d, snd (fst s) - 1), snd s)), ws)"
| "serve_step n web (Admits i) (s, ws) =
     (if i < length ws \<and> \<not> no_slot web s
      then (fst (admit n web (ws ! i) s), take i ws @ drop (Suc i) ws)
      else (s, ws))"

text \<open>Whether a step is one in which a request hangs in its handler, and one in which such a request ends.\<close>

fun hung_now :: "nat \<Rightarrow> 'w web \<Rightarrow> 'w serve_event \<Rightarrow> 'w site \<times> arrival list \<Rightarrow> bool" where
  "hung_now n web (Arrives a) (s, ws) \<longleftrightarrow> \<not> no_slot web s \<and> snd (serve n web a s) = Hangs"
| "hung_now n web (Ends d) (s, ws) \<longleftrightarrow> False"
| "hung_now n web (Admits i) (s, ws) \<longleftrightarrow> i < length ws \<and> \<not> no_slot web s \<and> snd (admit n web (ws ! i) s) = Hangs"

fun ended_now :: "'w serve_event \<Rightarrow> 'w site \<times> arrival list \<Rightarrow> bool" where
  "ended_now (Ends d) (s, ws) \<longleftrightarrow> 0 < snd (fst s)"
| "ended_now e (s, ws) \<longleftrightarrow> False"

fun tally :: "('e \<Rightarrow> 's \<Rightarrow> 's) \<Rightarrow> ('e \<Rightarrow> 's \<Rightarrow> bool) \<Rightarrow> 'e list \<Rightarrow> 's \<Rightarrow> nat" where
  "tally step P [] s = 0"
| "tally step P (e # es) s = (if P e s then 1 else 0) + tally step P es (step e s)"

lemma admit_busy:
  assumes "0 < mo_MaxConnections (sv_opts (wb_server web))" and "\<not> no_slot web s"
  shows "snd (fst (fst (admit n web a s))) = snd (fst s) + (if snd (admit n web a s) = Hangs then 1 else 0)"
  using assms by (auto simp: admit_def no_slot_def serve_inner_def ConnLimit_def Let_def split_beta split: http_end.splits)

lemma step_busy:
  assumes "0 < mo_MaxConnections (sv_opts (wb_server web))" and "int (snd (fst (fst t))) \<le> mo_MaxConnections (sv_opts (wb_server web))"
  shows "int (snd (fst (fst (serve_step n web e t)))) \<le> mo_MaxConnections (sv_opts (wb_server web)) \<and>
    snd (fst (fst (serve_step n web e t))) + (if ended_now e t then 1 else 0) =
      snd (fst (fst t)) + (if hung_now n web e t then 1 else 0)"
proof -
  obtain s ws where t: "t = (s, ws)" by fastforce
  show ?thesis
  proof (cases e)
    case (Arrives a)
    obtain s1 r where S: "serve n web a s = (s1, r)" by fastforce
    from serve_busy[OF assms(1) assms(2)[unfolded t fst_conv] S] assms t S show ?thesis
      by (cases "r = Hangs") (auto simp: Arrives no_slot_def)
  next
    case (Admits i)
    show ?thesis
    proof (cases "i < length ws \<and> \<not> no_slot web s")
      case True
      with admit_busy[OF assms(1), of s n "ws ! i"] show ?thesis
        using assms t by (auto simp: Admits no_slot_def split: if_splits)
    qed (use assms t Admits in auto)
  qed (use assms t in auto)
qed

lemma run_busy:
  assumes "0 < mo_MaxConnections (sv_opts (wb_server web))" and "int (snd (fst (fst t))) \<le> mo_MaxConnections (sv_opts (wb_server web))"
  shows "int (snd (fst (fst (fold (serve_step n web) es t)))) \<le> mo_MaxConnections (sv_opts (wb_server web)) \<and>
    snd (fst (fst (fold (serve_step n web) es t))) + tally (serve_step n web) ended_now es t =
      snd (fst (fst t)) + tally (serve_step n web) (hung_now n web) es t"
  using assms(2)
proof (induction es arbitrary: t)
  case (Cons e es)
  note st = step_busy[OF assms(1) Cons.prems, of n e]
  from Cons.IH[OF conjunct1[OF st]] st show ?case by auto
qed simp

text \<open>
  C35: a request that hangs, as a read of an empty stream does, keeps its slot until it ends. The
  slots that are taken are, over every run, the requests that have hung less those that
  have ended since, never more than there are slots. While all are taken, every request that
  comes waits or is refused by the rate limit, the health page included, however many
  come; otherwise a request that the rate limit does not refuse is answered as without the limit on
  connections.
\<close>

theorem hung_requests_starve:
  assumes "0 < mo_MaxConnections (sv_opts (wb_server web))"
    and "fold (serve_step n web) es (new_site (sv_opts (wb_server web)) fsw, []) = (s, ws)"
  shows "snd (fst s) + tally (serve_step n web) ended_now es (new_site (sv_opts (wb_server web)) fsw, []) =
      tally (serve_step n web) (hung_now n web) es (new_site (sv_opts (wb_server web)) fsw, []) \<and>
    int (snd (fst s)) \<le> mo_MaxConnections (sv_opts (wb_server web)) \<and>
    (int (snd (fst s)) = mo_MaxConnections (sv_opts (wb_server web)) \<longrightarrow>
       (\<forall>as. \<forall>r\<in>set (snd (serve_all n web as s)). r = Hangs \<or> refused r)) \<and>
    (int (snd (fst s)) < mo_MaxConnections (sv_opts (wb_server web)) \<longrightarrow>
       (\<forall>a. refused (snd (serve n web a s)) \<or>
         snd (serve n web a s) =
           snd (CORS (mo_CORSOrigins (sv_opts (wb_server web)))
             (AccessLog (ar_start a) (ar_end a) (RequestID (ar_fresh a) (serve_mux n web)))
             (ar_request a) new_response (fst (fst s)))))"
proof -
  let ?s0 = "(new_site (sv_opts (wb_server web)) fsw, [])"
  have "snd (fst (fst ?s0)) = 0" by (simp add: new_site_def)
  with run_busy[OF assms(1), of ?s0 n es] assms have
    1: "int (snd (fst s)) \<le> mo_MaxConnections (sv_opts (wb_server web))"
    "snd (fst s) + tally (serve_step n web) ended_now es ?s0 = tally (serve_step n web) (hung_now n web) es ?s0" by simp_all
  moreover have "refused (snd (serve n web a s)) \<or>
         snd (serve n web a s) =
           snd (CORS (mo_CORSOrigins (sv_opts (wb_server web)))
             (AccessLog (ar_start a) (ar_end a) (RequestID (ar_fresh a) (serve_mux n web)))
             (ar_request a) new_response (fst (fst s)))"
    if "int (snd (fst s)) < mo_MaxConnections (sv_opts (wb_server web))" for a
    using that assms(1)
    by (auto simp: serve_outcome serve_inner_def ConnLimit_def Let_def split_beta refused_def http_Error_def
        write_bytes_def write_header_def set_header_def new_response_def)
  ultimately show ?thesis using serve_all_full[OF assms(1), of s n] by blast
qed

text \<open>A server with one slot and an empty stream: one GET of the stream is enough.\<close>

lemma pipe_get_hangs:
  "snd (serve n (demo_web (plain_opts\<lparr>mo_MaxConnections := 1\<rparr>)) (demo_arrival ''GET'' ''/a'')
     (new_site (plain_opts\<lparr>mo_MaxConnections := 1\<rparr>) (pipe_fs, 0))) = Hangs"
proof -
  let ?o = "plain_opts\<lparr>mo_MaxConnections := 1\<rparr>" and ?rq = "ar_request (demo_arrival ''GET'' ''/a'')"
  obtain x where x: "snd (fs_Read clock_env ''/a'' anonymous (pipe_fs, 0)) = Wait x" using pipe_read[of clock_env 0] by auto
  have s: "sanitizePath ''/a'' = ''/a''" by (simp add: sanitizePath_def)
  have c: "clean_url ''/a'' = ''/a''" by (simp add: clean_url_def path_of_def)
  have "snd (handleWebDAV n (demo_server ?o) ?rq (None, pipe_fs, 0)) = Hangs"
    using x by (simp add: handleWebDAV_def demo_server_def demo_arrival_def plain_opts_def s wants_gzip_def
        dispatch_def handleGet_def lift_call_def callerFromRequest_def get_header_def has_prefix_def
        basic_prefix_def next_do_def Let_def split_beta)
  then show ?thesis
    by (simp add: serve_def serve_inner_def ConnLimit_def CORS_def AccessLog_def RequestID_def serve_mux_def Let_def
        split_beta new_site_def newPropCache_def demo_web_def demo_server_def plain_opts_def demo_arrival_def c)
qed

lemma hung_requests_starve_witness:
  "let o1 = plain_opts\<lparr>mo_MaxConnections := 1\<rparr>;
       s = fst (serve_step 3 (demo_web o1) (Arrives (demo_arrival ''GET'' ''/a'')) (new_site o1 (pipe_fs, 0), []))
   in snd (serve 3 (demo_web o1) (demo_arrival ''GET'' ''/healthz'') s) \<in> {r. r = Hangs \<or> refused r}"
proof -
  let ?o = "plain_opts\<lparr>mo_MaxConnections := 1\<rparr>" and ?e = "Arrives (demo_arrival ''GET'' ''/a'')"
  have o1: "sv_opts (wb_server (demo_web ?o)) = ?o" by (simp add: demo_web_def demo_server_def)
  obtain s ws where R: "fold (serve_step 3 (demo_web ?o)) [?e] (new_site ?o (pipe_fs, 0), []) = (s, ws)"
    by fastforce
  have "hung_now 3 (demo_web ?o) ?e (new_site ?o (pipe_fs, 0), [])"
    using pipe_get_hangs[of 3] by (simp add: no_slot_def o1 new_site_def)
  note h = hung_requests_starve[of "demo_web ?o" 3 "[?e]" "(pipe_fs, 0)" s ws, unfolded o1, OF _ R]
  with \<open>hung_now _ _ _ _\<close> have "int (snd (fst s)) = mo_MaxConnections ?o" by simp
  with h have all: "\<forall>as. \<forall>r\<in>set (snd (serve_all 3 (demo_web ?o) as s)). r = Hangs \<or> refused r"
    by simp
  have "snd (serve_all 3 (demo_web ?o) [a] s) = [snd (serve 3 (demo_web ?o) a s)]" for a
    by (simp add: Let_def split_beta)
  with all have "snd (serve 3 (demo_web ?o) a s) = Hangs \<or> refused (snd (serve 3 (demo_web ?o) a s))" for a
    by (metis list.set_intros(1))
  moreover have "s = fst (serve_step 3 (demo_web ?o) ?e (new_site ?o (pipe_fs, 0), []))" using R by (simp del: serve_step.simps)
  ultimately show ?thesis unfolding Let_def mem_Collect_eq by (simp only:)
qed

end
