(* ===== verification/Fuse.thy ===== *)
theory Fuse
  imports Handles Adapter
begin

text \<open>
  The FUSE adapter for Linux, adapter/fuse/fuse.go and mount_linux.go: the requests of the
  kernel as operations on the engine, and the table of inodes with its list of recently used
  ones, which the events of the engine keep up to date.

  A file name of the kernel is joined to the path of its parent. The library go-fuse numbers
  the inodes; \<open>num n\<close> is the number of the n-th one. What the code asks the kernel to forget is
  recorded. Every request runs with the identity of the user 0 in no namespace.
\<close>

section \<open>Numbers of the kernel interface\<close>

definition S_IFDIR :: u32 where "S_IFDIR = 0x4000"
definition S_IFREG :: u32 where "S_IFREG = 0x8000"
definition S_IFLNK :: u32 where "S_IFLNK = 0xA000"

definition O_RDONLY :: u32 where "O_RDONLY = 0"
definition O_WRONLY :: u32 where "O_WRONLY = 1"
definition O_RDWR :: u32 where "O_RDWR = 2"
definition O_ACCMODE :: u32 where "O_ACCMODE = 3"
definition O_APPEND :: u32 where "O_APPEND = 0x400"
definition O_NONBLOCK :: u32 where "O_NONBLOCK = 0x800"

text \<open>A syscall.Errno: one with a name of the engine's, or one that only adapters use.\<close>

datatype sys_errno = Sys errno | EROFS | ENOTSUP

fun sys_of :: "errno option \<Rightarrow> sys_errno" where
  "sys_of (Some ENOENT) = Sys ENOENT"
| "sys_of (Some EACCES) = Sys EACCES"
| "sys_of (Some EEXIST) = Sys EEXIST"
| "sys_of (Some EINVAL) = Sys EINVAL"
| "sys_of (Some ETIMEDOUT) = Sys ETIMEDOUT"
| "sys_of (Some EBUSY) = Sys EBUSY"
| "sys_of (Some EAGAIN) = Sys EAGAIN"
| "sys_of (Some ENOSPC) = Sys ENOSPC"
| "sys_of (Some EPIPE) = Sys EPIPE"
| "sys_of (Some ENOTDIR) = Sys ENOTDIR"
| "sys_of (Some EISDIR) = Sys EISDIR"
| "sys_of (Some ENOSYS) = Sys ENOSYS"
| "sys_of (Some ELOOP) = Sys ELOOP"
| "sys_of _ = Sys EIO"

text \<open>None is fs.OK.\<close>

definition toErrno :: "go_error option \<Rightarrow> sys_errno option" where
  "toErrno err = (if err = None then None else Some (sys_of (ExtractErrno err)))"

record attr_out =
  ao_Mode :: u32
  ao_Uid :: u32
  ao_Gid :: u32
  ao_Size :: u64
  ao_Ino :: u64

definition fileMode :: "node_kind \<Rightarrow> u32 \<Rightarrow> u32" where
  "fileMode kind mode =
     (case kind of
        KindDir \<Rightarrow> S_IFDIR OR mode
      | KindDynamicDir \<Rightarrow> S_IFDIR OR mode
      | KindLink \<Rightarrow> S_IFLNK OR mode
      | _ \<Rightarrow> S_IFREG OR mode)"

text \<open>An api file has no size of its own; the kernel reads only up to the size it is told.\<close>

definition fillAttrOut :: "stat \<Rightarrow> u64 \<Rightarrow> attr_out" where
  "fillAttrOut st ino =
     \<lparr>ao_Mode = fileMode (st_Kind st) (st_Mode st), ao_Uid = st_UID st, ao_Gid = st_GID st,
      ao_Size = (if st_Kind st = KindAPI then 1024 * 1024 else of_int (st_Size st)), ao_Ino = ino\<rparr>"

definition fillEntryOut :: "stat \<Rightarrow> u64 \<Rightarrow> attr_out" where
  "fillEntryOut st ino =
     \<lparr>ao_Mode = fileMode (st_Kind st) (st_Mode st), ao_Uid = st_UID st, ao_Gid = st_GID st,
      ao_Size = (if st_Kind st = KindAPI then 1024 * 1024 else of_int (st_Size st)), ao_Ino = ino\<rparr>"

definition dirEntries :: "dir_entry list \<Rightarrow> (string \<times> u32) list" where
  "dirEntries entries = map (\<lambda>e. (de_Name e, fileMode (de_Kind e) (de_Mode e))) entries"

definition openFlagsFromFUSE :: "u32 \<Rightarrow> u32" where
  "openFlagsFromFUSE flags =
     (let acc = flags AND O_ACCMODE;
          of0 = (if acc = O_WRONLY then OpenWrite else if acc = O_RDWR then OpenRead OR OpenWrite else OpenRead);
          of1 = (if flags AND O_APPEND \<noteq> 0 then of0 OR OpenAppend else of0)
      in if flags AND O_NONBLOCK \<noteq> 0 then of1 OR OpenNonBlock else of1)"

text \<open>\<open>data[off:end]\<close> after the checks of Read; a negative offset panics.\<close>

definition read_at :: "bytes \<Rightarrow> nat \<Rightarrow> int \<Rightarrow> bytes option" where
  "read_at data n off =
     (if int (length data) \<le> off then Some []
      else if off < 0 then None
      else (let end1 = off + int n;
                end2 = (if int (length data) < end1 then int (length data) else end1)
            in Some (take (nat (end2 - off)) (drop (nat off) data))))"

section \<open>Inodes and the recency list\<close>

text \<open>
  The list of container/list is its elements from the front to the back. An element is a
  pointer, here a number, with its key; \<open>rn_lruPos\<close> maps a key to its element.
\<close>

record inode =
  in_ino :: u64
  in_path :: string
  in_mode :: u32

datatype kernel_note = NotifyContent inode | NotifyEntry inode string

record root_node =
  rn_readOnly :: bool
  rn_inodes :: "(string \<times> inode) list"
  rn_lru :: "(nat \<times> string) list"
  rn_lruPos :: "(string \<times> nat) list"
  rn_elems :: nat
  rn_made :: nat
  rn_notes :: "kernel_note list"
  rn_listener :: u64

definition inodeCap :: nat where
  "inodeCap = 10000"

definition NewInode :: "(nat \<Rightarrow> u64) \<Rightarrow> string \<Rightarrow> u32 \<Rightarrow> root_node \<Rightarrow> inode \<times> root_node" where
  "NewInode num p mode r =
     (\<lparr>in_ino = num (rn_made r), in_path = p, in_mode = mode\<rparr>, r\<lparr>rn_made := rn_made r + 1\<rparr>)"

definition lruAdd :: "string \<Rightarrow> root_node \<Rightarrow> root_node" where
  "lruAdd key r =
     r\<lparr>rn_lru := (rn_elems r, key) # rn_lru r, rn_lruPos := mput key (rn_elems r) (rn_lruPos r),
       rn_elems := rn_elems r + 1\<rparr>"

text \<open>MoveToFront and Remove of an element; one that is not in the list is left alone.\<close>

definition move_front :: "nat \<Rightarrow> (nat \<times> string) list \<Rightarrow> (nat \<times> string) list" where
  "move_front i xs = filter (\<lambda>x. fst x = i) xs @ filter (\<lambda>x. fst x \<noteq> i) xs"

definition remove_elem :: "nat \<Rightarrow> (nat \<times> string) list \<Rightarrow> (nat \<times> string) list" where
  "remove_elem i xs = filter (\<lambda>x. fst x \<noteq> i) xs"

definition lruMoveToFront :: "string \<Rightarrow> root_node \<Rightarrow> root_node" where
  "lruMoveToFront key r =
     (case map_of (rn_lruPos r) key of
        None \<Rightarrow> r
      | Some i \<Rightarrow> r\<lparr>rn_lru := move_front i (rn_lru r)\<rparr>)"

definition inodeRemove :: "string \<Rightarrow> root_node \<Rightarrow> root_node" where
  "inodeRemove key r =
     (let r1 = r\<lparr>rn_inodes := mdel key (rn_inodes r)\<rparr>
      in case map_of (rn_lruPos r1) key of
           None \<Rightarrow> r1
         | Some i \<Rightarrow> r1\<lparr>rn_lru := remove_elem i (rn_lru r1), rn_lruPos := mdel key (rn_lruPos r1)\<rparr>)"

function evictOldest :: "root_node \<Rightarrow> root_node" where
  "evictOldest r =
     (if inodeCap < length (rn_inodes r) \<and> rn_lru r \<noteq> [] then
        (let key = snd (last (rn_lru r))
         in evictOldest (r\<lparr>rn_lru := butlast (rn_lru r), rn_lruPos := mdel key (rn_lruPos r),
                           rn_inodes := mdel key (rn_inodes r)\<rparr>))
      else r)"
  by pat_completeness auto
termination
  by (relation "measure (\<lambda>r. length (rn_lru r))") auto

declare evictOldest.simps [simp del]

definition keep_inode :: "string \<Rightarrow> inode \<Rightarrow> root_node \<Rightarrow> root_node" where
  "keep_inode p i r = r\<lparr>rn_inodes := mput p i (rn_inodes r)\<rparr>"

text \<open>path.Split and path.Clean of the path of an event, which is rooted.\<close>

definition split_parent :: "string \<Rightarrow> string \<times> string" where
  "split_parent p =
     (let name = rev (takeWhile (\<lambda>c. c \<noteq> CHR ''/'') (rev p));
          dir = take (length p - length name) p
      in (path_of (clean_segs [] (split_on (CHR ''/'') dir)), name))"

definition notifyParentEntry :: "string \<Rightarrow> root_node \<Rightarrow> root_node" where
  "notifyParentEntry p r =
     (let (dir, name) = split_parent p
      in if name = [] then r
         else (case map_of (rn_inodes r) dir of
                 None \<Rightarrow> r
               | Some parent \<Rightarrow> r\<lparr>rn_notes := rn_notes r @ [NotifyEntry parent name]\<rparr>))"

definition handleEvent :: "event \<Rightarrow> root_node \<Rightarrow> root_node" where
  "handleEvent e r =
     (case ev_Kind e of
        EventWrite \<Rightarrow>
          notifyParentEntry (ev_Path e)
            (case map_of (rn_inodes r) (ev_Path e) of
               None \<Rightarrow> r
             | Some i \<Rightarrow> r\<lparr>rn_notes := rn_notes r @ [NotifyContent i]\<rparr>)
      | EventCreate \<Rightarrow> notifyParentEntry (ev_Path e) r
      | EventRemove \<Rightarrow> notifyParentEntry (ev_Path e) (inodeRemove (ev_Path e) r))"

section \<open>Calling the engine\<close>

type_synonym 'w fuse = "root_node \<times> 'w fsw"

datatype 'a reply = Reply 'a | Errno sys_errno | Stuck | Died

text \<open>
  A handle points to its entry and reads it there. The model keeps copies, and \<open>sync_handles\<close>
  brings them up to date with the mount table; an entry that has left the table keeps its last
  contents.
\<close>

definition entry_of :: "u64 \<Rightarrow> fs_state \<Rightarrow> mount_entry option" where
  "entry_of i fs = find (\<lambda>m. me_ID m = i) (fs_Snapshot fs)"

definition sync_handle :: "fs_state \<Rightarrow> handle \<Rightarrow> handle" where
  "sync_handle fs h =
     (case entry_of (me_ID (hd_mount h)) fs of None \<Rightarrow> h | Some m \<Rightarrow> h\<lparr>hd_mount := m\<rparr>)"

definition sync_handles :: "fs_state \<Rightarrow> fs_state" where
  "sync_handles fs =
     fs\<lparr>fs_handles := (fs_handles fs)\<lparr>hm_objects :=
          map (\<lambda>(i, h). (i, sync_handle fs h)) (hm_objects (fs_handles fs))\<rparr>\<rparr>"

text \<open>The events that the engine has passed to the listener of the adapter since the call.\<close>

definition after_call :: "nat \<Rightarrow> 'w fuse \<Rightarrow> 'w fuse" where
  "after_call n s =
     (let (r, fs, w) = s
      in (fold handleEvent (map snd (filter (\<lambda>(i, e). i = rn_listener r) (drop n (fs_calls fs)))) r,
          sync_handles fs, w))"

definition call_res :: "('w fsw \<Rightarrow> 'w fsw \<times> 'a res) \<Rightarrow> 'w fuse \<Rightarrow> 'w fuse \<times> 'a res" where
  "call_res op s =
     (let (fsw, x) = op (snd s) in (after_call (length (fs_calls (fst (snd s)))) (fst s, fsw), x))"

definition call_err ::
  "('w \<Rightarrow> fs_state \<Rightarrow> fs_state \<times> go_error option) \<Rightarrow> 'w fuse \<Rightarrow> 'w fuse \<times> go_error option" where
  "call_err op s =
     (let (r, fs, w) = s; (fs', e) = op w fs in (after_call (length (fs_calls fs)) (r, fs', w), e))"

definition on_res ::
  "'w fuse \<times> 'a res \<Rightarrow> ('w fuse \<Rightarrow> go_error + 'a \<Rightarrow> 'w fuse \<times> 'b reply) \<Rightarrow> 'w fuse \<times> 'b reply" where
  "on_res out k =
     (case out of
        (s, Ok x) \<Rightarrow> k s (Inr x)
      | (s, Fail e) \<Rightarrow> k s (Inl e)
      | (s, Wait rest) \<Rightarrow> (s, Stuck)
      | (s, Crash) \<Rightarrow> (s, Died))"

definition fail_with :: "go_error \<Rightarrow> 'a reply" where
  "fail_with e = Errno (sys_of (ExtractErrno (Some e)))"

definition errno_reply :: "sys_errno option \<Rightarrow> unit reply" where
  "errno_reply x = (case x of None \<Rightarrow> Reply () | Some e \<Rightarrow> Errno e)"

abbreviation (input) fuse_stat where
  "fuse_stat env p s \<equiv> call_res (fs_Stat env p anonymous) s"

definition with_root :: "(root_node \<Rightarrow> root_node) \<Rightarrow> 'w fuse \<Rightarrow> 'w fuse" where
  "with_root f s = (f (fst s), snd s)"

section \<open>Lookup and attributes\<close>

text \<open>An InodeEmbedder: the root, the node of a path, or something foreign.\<close>

datatype embedder = RootNode | PathNode string | OtherNode

fun node_path :: "embedder \<Rightarrow> string" where
  "node_path (PathNode p) = p"
| "node_path _ = ''/''"

text \<open>The second critical section of the root's Lookup.\<close>

definition lookup_add ::
  "(nat \<Rightarrow> u64) \<Rightarrow> string \<Rightarrow> u32 \<Rightarrow> root_node \<Rightarrow> root_node \<times> inode" where
  "lookup_add num p mode r =
     (case map_of (rn_inodes r) p of
        Some existing \<Rightarrow> (lruMoveToFront p r, existing)
      | None \<Rightarrow>
          (let (i, r1) = NewInode num p mode r
           in (evictOldest (lruAdd p (keep_inode p i r1)), i)))"

definition root_Lookup ::
  "(nat \<Rightarrow> u64) \<Rightarrow> 'w env \<Rightarrow> string \<Rightarrow> 'w fuse \<Rightarrow> 'w fuse \<times> (inode \<times> attr_out) reply" where
  "root_Lookup num env name s0 =
     (let p = path_Join ''/'' name in
      case map_of (rn_inodes (fst s0)) p of
        Some cached \<Rightarrow>
          on_res (fuse_stat env p (with_root (lruMoveToFront p) s0)) (\<lambda>s r.
            case r of
              Inl e \<Rightarrow> (s, fail_with e)
            | Inr st \<Rightarrow> (s, Reply (cached, fillEntryOut st (in_ino cached))))
      | None \<Rightarrow>
          on_res (fuse_stat env p s0) (\<lambda>s r.
            case r of
              Inl e \<Rightarrow> (s, fail_with e)
            | Inr st \<Rightarrow>
                (let (root, i) = lookup_add num p (fileMode (st_Kind st) (st_Mode st)) (fst s)
                 in ((root, snd s), Reply (i, fillEntryOut st (in_ino i))))))"

definition path_Lookup ::
  "(nat \<Rightarrow> u64) \<Rightarrow> 'w env \<Rightarrow> string \<Rightarrow> string \<Rightarrow> 'w fuse \<Rightarrow> 'w fuse \<times> (inode \<times> attr_out) reply" where
  "path_Lookup num env dir name s0 =
     (let p = path_Join dir name in
      case map_of (rn_inodes (fst s0)) p of
        Some cached \<Rightarrow>
          on_res (fuse_stat env p s0) (\<lambda>s r.
            case r of
              Inl e \<Rightarrow> (s, fail_with e)
            | Inr st \<Rightarrow> (s, Reply (cached, fillEntryOut st (in_ino cached))))
      | None \<Rightarrow>
          on_res (fuse_stat env p s0) (\<lambda>s r.
            case r of
              Inl e \<Rightarrow> (s, fail_with e)
            | Inr st \<Rightarrow>
                (let (i, root) = NewInode num p (fileMode (st_Kind st) (st_Mode st)) (fst s)
                 in ((keep_inode p i root, snd s), Reply (i, fillEntryOut st (in_ino i))))))"

text \<open>The root has the inode number 1 and no stat.\<close>

definition root_attr :: attr_out where
  "root_attr = \<lparr>ao_Mode = S_IFDIR OR mode_0555, ao_Uid = 0, ao_Gid = 0, ao_Size = 0, ao_Ino = 1\<rparr>"

definition path_Getattr :: "'w env \<Rightarrow> string \<Rightarrow> u64 \<Rightarrow> 'w fuse \<Rightarrow> 'w fuse \<times> attr_out reply" where
  "path_Getattr env p ino s0 =
     on_res (fuse_stat env p s0) (\<lambda>s r.
       (s, case r of Inl e \<Rightarrow> fail_with e | Inr st \<Rightarrow> Reply (fillAttrOut st ino)))"

definition path_Setattr :: "'w env \<Rightarrow> string \<Rightarrow> u64 \<Rightarrow> 'w fuse \<Rightarrow> 'w fuse \<times> attr_out reply" where
  "path_Setattr env p ino s0 =
     on_res (fuse_stat env p s0) (\<lambda>s r.
       (s, case r of
             Inl e \<Rightarrow> fail_with e
           | Inr st \<Rightarrow> (if st_Kind st = KindAPI then Reply (fillAttrOut st ino) else Errno ENOTSUP)))"

definition node_Readdir :: "'w env \<Rightarrow> embedder \<Rightarrow> 'w fuse \<Rightarrow> 'w fuse \<times> (string \<times> u32) list reply" where
  "node_Readdir env node s0 =
     on_res (call_res (fs_Readdir env (node_path node) anonymous) s0) (\<lambda>s r.
       (s, case r of Inl e \<Rightarrow> fail_with e | Inr es \<Rightarrow> Reply (dirEntries es)))"

definition node_Readlink :: "embedder \<Rightarrow> 'w fuse \<Rightarrow> 'w fuse \<times> string reply" where
  "node_Readlink node s0 =
     on_res (call_res (\<lambda>(fs, w). ((fs, w), ReadLink fs (node_path node))) s0) (\<lambda>s r.
       (s, case r of Inl e \<Rightarrow> fail_with e | Inr target \<Rightarrow> Reply target))"

section \<open>Creating and removing\<close>

record file_handle =
  fh_h :: u64
  fh_readOnly :: bool
  fh_ino :: u64

abbreviation (input) fuse_mount where
  "fuse_mount env p m s \<equiv> call_err (\<lambda>w. fs_Mount env w p m) s"

abbreviation (input) fuse_unmount where
  "fuse_unmount env p s \<equiv> call_err (\<lambda>w. fs_Unmount env w p) s"

abbreviation (input) fuse_open where
  "fuse_open p flags s \<equiv> call_res (\<lambda>(fs, w). let (fs', r) = fs_Open p flags anonymous fs in ((fs', w), r)) s"

definition create_flags :: "u32 \<Rightarrow> u32" where
  "create_flags flags =
     (let of0 = (if flags AND (O_RDONLY OR O_RDWR) \<noteq> 0 then OpenRead else 0)
      in if flags AND (O_WRONLY OR O_RDWR) \<noteq> 0 then of0 OR OpenWrite else of0)"

text \<open>The node of a new file in the table.\<close>

definition add_node ::
  "(nat \<Rightarrow> u64) \<Rightarrow> string \<Rightarrow> u32 \<Rightarrow> stat \<Rightarrow> 'w fuse \<Rightarrow> 'w fuse \<times> (inode \<times> attr_out)" where
  "add_node num p mode st s =
     (let (i, root) = NewInode num p mode (fst s)
      in ((keep_inode p i root, snd s), i, fillEntryOut st (in_ino i)))"

text \<open>What createFile does once the new file is open, with the handle \<open>h\<close>.\<close>

definition create_rest ::
  "(nat \<Rightarrow> u64) \<Rightarrow> 'w env \<Rightarrow> string \<Rightarrow> u64 \<Rightarrow> u32 \<Rightarrow> 'w fuse \<Rightarrow>
   'w fuse \<times> (inode \<times> attr_out \<times> file_handle) reply" where
  "create_rest num env p h mode s2 =
     on_res (fuse_stat env p s2) (\<lambda>s3 r.
       case r of
         Inl e \<Rightarrow> on_res (call_res (h_Close env h) s3) (\<lambda>s4 r. (fst (fuse_unmount env p s4), fail_with e))
       | Inr st \<Rightarrow>
           (let (s4, i, out) = add_node num p (S_IFREG OR (mode AND mode_0777)) st s3
            in (s4, Reply (i, out, \<lparr>fh_h = h, fh_readOnly = rn_readOnly (fst s3), fh_ino = in_ino i\<rparr>))))"

definition createFile ::
  "(nat \<Rightarrow> u64) \<Rightarrow> 'w env \<Rightarrow> embedder \<Rightarrow> string \<Rightarrow> u32 \<Rightarrow> u32 \<Rightarrow> 'w fuse \<Rightarrow>
   'w fuse \<times> (inode \<times> attr_out \<times> file_handle) reply" where
  "createFile num env parent name flags mode s0 =
     (if rn_readOnly (fst s0) then (s0, Errno EROFS)
      else
        (let p = path_Join (node_path parent) name
         in case fuse_mount env p (zero_entry\<lparr>me_Kind := KindBlob, me_Mode := mode AND mode_0777\<rparr>) s0 of
              (s1, Some e) \<Rightarrow> (s1, fail_with e)
            | (s1, None) \<Rightarrow>
                on_res (fuse_open p (create_flags flags) s1) (\<lambda>s2 r.
                  case r of
                    Inl e \<Rightarrow> (fst (fuse_unmount env p s2), fail_with e)
                  | Inr h \<Rightarrow> create_rest num env p h mode s2)))"

text \<open>mkdir and symlink: mount, stat, and take the mount back when the stat fails.\<close>

definition make_node ::
  "(nat \<Rightarrow> u64) \<Rightarrow> 'w env \<Rightarrow> embedder \<Rightarrow> string \<Rightarrow> mount_entry \<Rightarrow> u32 \<Rightarrow> 'w fuse \<Rightarrow>
   'w fuse \<times> (inode \<times> attr_out) reply" where
  "make_node num env parent name entry mode s0 =
     (if rn_readOnly (fst s0) then (s0, Errno EROFS)
      else
        (let p = path_Join (node_path parent) name
         in case fuse_mount env p entry s0 of
              (s1, Some e) \<Rightarrow> (s1, fail_with e)
            | (s1, None) \<Rightarrow>
                on_res (fuse_stat env p s1) (\<lambda>s2 r.
                  case r of
                    Inl e \<Rightarrow> (fst (fuse_unmount env p s2), fail_with e)
                  | Inr st \<Rightarrow> (let (s3, x) = add_node num p mode st s2 in (s3, Reply x)))))"

definition mkdir where
  "mkdir num env parent name mode s =
     make_node num env parent name (zero_entry\<lparr>me_Kind := KindDir, me_Mode := mode AND mode_0777\<rparr>)
       (S_IFDIR OR (mode AND mode_0777)) s"

definition symlink where
  "symlink num env parent target name s =
     make_node num env parent name
       (zero_entry\<lparr>me_Kind := KindLink, me_Mode := mode_0777, me_LinkPath := target\<rparr>)
       (S_IFLNK OR mode_0777) s"

definition unlink :: "'w env \<Rightarrow> embedder \<Rightarrow> string \<Rightarrow> 'w fuse \<Rightarrow> 'w fuse \<times> unit reply" where
  "unlink env parent name s =
     (if rn_readOnly (fst s) then (s, Errno EROFS)
      else (let (s1, e) = fuse_unmount env (path_Join (node_path parent) name) s
            in (s1, errno_reply (toErrno e))))"

definition rmdir :: "'w env \<Rightarrow> embedder \<Rightarrow> string \<Rightarrow> 'w fuse \<Rightarrow> 'w fuse \<times> unit reply" where
  "rmdir env parent name s =
     (if rn_readOnly (fst s) then (s, Errno EROFS)
      else (let (s1, e) = fuse_unmount env (path_Join (node_path parent) name) s
            in (s1, errno_reply (toErrno e))))"

definition fuse_rename ::
  "'w env \<Rightarrow> embedder \<Rightarrow> string \<Rightarrow> embedder \<Rightarrow> string \<Rightarrow> 'w fuse \<Rightarrow> 'w fuse \<times> unit reply" where
  "fuse_rename env parent name newParent newName s =
     (if rn_readOnly (fst s) then (s, Errno EROFS)
      else if newParent = OtherNode then (s, Errno (Sys EINVAL))
      else (let (s1, e) = call_err (\<lambda>w. fs_Rename env w (path_Join (node_path parent) name)
                                            (path_Join (node_path newParent) newName)) s
            in (s1, errno_reply (toErrno e))))"

section \<open>Open files\<close>

definition node_Open :: "embedder \<Rightarrow> u64 \<Rightarrow> u32 \<Rightarrow> 'w fuse \<Rightarrow> 'w fuse \<times> file_handle reply" where
  "node_Open node ino flags s0 =
     (case node of
        PathNode p \<Rightarrow>
          on_res (fuse_open p (openFlagsFromFUSE flags) s0) (\<lambda>s r.
            (s, case r of
                  Inl e \<Rightarrow> fail_with e
                | Inr h \<Rightarrow> Reply \<lparr>fh_h = h, fh_readOnly = rn_readOnly (fst s), fh_ino = ino\<rparr>))
      | _ \<Rightarrow> (s0, Errno (Sys EISDIR)))"

definition slice_reply :: "bytes option \<Rightarrow> bytes reply" where
  "slice_reply x = (case x of None \<Rightarrow> Died | Some d \<Rightarrow> Reply d)"

definition fh_Read :: "'w env \<Rightarrow> file_handle \<Rightarrow> nat \<Rightarrow> int \<Rightarrow> 'w fuse \<Rightarrow> 'w fuse \<times> bytes reply" where
  "fh_Read env fh n off s0 =
     (case handle_of (fh_h fh) (fst (snd s0)) of
        None \<Rightarrow> (s0, Died)
      | Some h \<Rightarrow>
          (if me_Kind (hd_mount h) = KindBlob
           then (s0, slice_reply (read_at (me_BlobData (hd_mount h)) n off))
           else on_res (call_res (h_ReadAll env (fh_h fh)) s0) (\<lambda>s r.
                  (s, case r of Inl e \<Rightarrow> fail_with e | Inr data \<Rightarrow> slice_reply (read_at data n off)))))"

definition fh_Write :: "'w env \<Rightarrow> file_handle \<Rightarrow> bytes \<Rightarrow> int \<Rightarrow> 'w fuse \<Rightarrow> 'w fuse \<times> u32 reply" where
  "fh_Write env fh data off s0 =
     (if fh_readOnly fh then (s0, Errno EROFS)
      else on_res (call_res (h_Write env (fh_h fh) data) s0) (\<lambda>s r.
             (s, case r of Inl e \<Rightarrow> fail_with e | Inr u \<Rightarrow> Reply (of_nat (length data)))))"

definition fh_Flush :: "'w env \<Rightarrow> file_handle \<Rightarrow> 'w fuse \<Rightarrow> 'w fuse \<times> unit reply" where
  "fh_Flush env fh s0 =
     on_res (call_res (h_Flush env (fh_h fh)) s0) (\<lambda>s r.
       (s, case r of Inl e \<Rightarrow> fail_with e | Inr u \<Rightarrow> Reply ()))"

definition fh_Release :: "'w env \<Rightarrow> file_handle \<Rightarrow> 'w fuse \<Rightarrow> 'w fuse \<times> unit reply" where
  "fh_Release env fh s0 =
     on_res (call_res (h_Close env (fh_h fh)) s0) (\<lambda>s r.
       (s, case r of Inl e \<Rightarrow> fail_with e | Inr u \<Rightarrow> Reply ()))"

text \<open>The attributes of an open file are those of the path it was opened by.\<close>

definition fh_path :: "file_handle \<Rightarrow> 'w fuse \<Rightarrow> string" where
  "fh_path fh s = (case handle_of (fh_h fh) (fst (snd s)) of None \<Rightarrow> [] | Some h \<Rightarrow> hd_path h)"

definition fh_Getattr :: "'w env \<Rightarrow> file_handle \<Rightarrow> 'w fuse \<Rightarrow> 'w fuse \<times> attr_out reply" where
  "fh_Getattr env fh s = path_Getattr env (fh_path fh s) (fh_ino fh) s"

definition fh_Setattr :: "'w env \<Rightarrow> file_handle \<Rightarrow> 'w fuse \<Rightarrow> 'w fuse \<times> attr_out reply" where
  "fh_Setattr env fh s = path_Setattr env (fh_path fh s) (fh_ino fh) s"

section \<open>Mounting the file system\<close>

definition fuse_Mount :: "mount_options \<Rightarrow> 'w fsw \<Rightarrow> 'w fuse" where
  "fuse_Mount o1 s =
     (let (fs, i) = RegisterNotifier [] (fst s)
      in (\<lparr>rn_readOnly = mo_ReadOnly o1, rn_inodes = [], rn_lru = [], rn_lruPos = [], rn_elems = 0,
           rn_made = 0, rn_notes = [], rn_listener = i\<rparr>, fs, snd s))"

section \<open>Requests\<close>

datatype fuse_request =
    LookupReq embedder string
  | GetattrReq string u64
  | SetattrReq string u64
  | ReaddirReq embedder
  | ReadlinkReq embedder
  | CreateReq embedder string u32 u32
  | MkdirReq embedder string u32
  | SymlinkReq embedder string string
  | UnlinkReq embedder string
  | RmdirReq embedder string
  | RenameReq embedder string embedder string
  | OpenReq embedder u64 u32
  | ReadReq file_handle nat int
  | WriteReq file_handle bytes int
  | FlushReq file_handle
  | ReleaseReq file_handle
  | FhGetattrReq file_handle
  | FhSetattrReq file_handle

fun fuse_step :: "(nat \<Rightarrow> u64) \<Rightarrow> 'w env \<Rightarrow> fuse_request \<Rightarrow> 'w fuse \<Rightarrow> 'w fuse" where
  "fuse_step num env (LookupReq node name) s =
     (case node of PathNode p \<Rightarrow> fst (path_Lookup num env p name s) | _ \<Rightarrow> fst (root_Lookup num env name s))"
| "fuse_step num env (GetattrReq p ino) s = fst (path_Getattr env p ino s)"
| "fuse_step num env (SetattrReq p ino) s = fst (path_Setattr env p ino s)"
| "fuse_step num env (ReaddirReq node) s = fst (node_Readdir env node s)"
| "fuse_step num env (ReadlinkReq node) s = fst (node_Readlink node s)"
| "fuse_step num env (CreateReq node name flags mode) s = fst (createFile num env node name flags mode s)"
| "fuse_step num env (MkdirReq node name mode) s = fst (mkdir num env node name mode s)"
| "fuse_step num env (SymlinkReq node target name) s = fst (symlink num env node target name s)"
| "fuse_step num env (UnlinkReq node name) s = fst (unlink env node name s)"
| "fuse_step num env (RmdirReq node name) s = fst (rmdir env node name s)"
| "fuse_step num env (RenameReq node name np nn) s = fst (fuse_rename env node name np nn s)"
| "fuse_step num env (OpenReq node ino flags) s = fst (node_Open node ino flags s)"
| "fuse_step num env (ReadReq fh n off) s = fst (fh_Read env fh n off s)"
| "fuse_step num env (WriteReq fh d off) s = fst (fh_Write env fh d off s)"
| "fuse_step num env (FlushReq fh) s = fst (fh_Flush env fh s)"
| "fuse_step num env (ReleaseReq fh) s = fst (fh_Release env fh s)"
| "fuse_step num env (FhGetattrReq fh) s = fst (fh_Getattr env fh s)"
| "fuse_step num env (FhSetattrReq fh) s = fst (fh_Setattr env fh s)"

end
