(* ===== verification/FuseInodes.thy ===== *)
theory FuseInodes
  imports Fuse
begin

text \<open>
  The table of inodes of the FUSE adapter: its recency list with the map of positions is a
  list of keys, the two stay consistent over every run of requests, and what the bound on
  the table is worth.
\<close>

section \<open>The recency list\<close>

definition lru_keys :: "root_node \<Rightarrow> string list" where
  "lru_keys r = map snd (rn_lru r)"

definition lru_ok :: "root_node \<Rightarrow> bool" where
  "lru_ok r \<longleftrightarrow>
     distinct (map fst (rn_lru r)) \<and> distinct (map snd (rn_lru r)) \<and>
     (\<forall>k i. map_of (rn_lruPos r) k = Some i \<longleftrightarrow> (i, k) \<in> set (rn_lru r)) \<and>
     (\<forall>x\<in>set (rn_lru r). fst x < rn_elems r) \<and>
     distinct (map fst (rn_inodes r)) \<and> set (map snd (rn_lru r)) \<subseteq> dom (map_of (rn_inodes r))"

lemma elem_by_key:
  assumes "distinct (map fst xs)" and "distinct (map snd xs)" and "(i, k) \<in> set xs" and "x \<in> set xs"
  shows "fst x = i \<longleftrightarrow> snd x = k"
proof
  have inj: "inj_on fst (set xs)" "inj_on snd (set xs)" using assms(1,2) by (simp_all add: distinct_map)
  show "snd x = k" if "fst x = i" using inj_onD[OF inj(1), of x "(i, k)"] that assms(3,4) by simp
  show "fst x = i" if "snd x = k" using inj_onD[OF inj(2), of x "(i, k)"] that assms(3,4) by simp
qed

lemma by_key:
  assumes "distinct (map fst xs)" and "distinct (map snd xs)" and "(i, k) \<in> set xs"
  shows "filter (\<lambda>x. fst x = i) xs = filter (\<lambda>x. snd x = k) xs"
    and "filter (\<lambda>x. fst x \<noteq> i) xs = filter (\<lambda>x. snd x \<noteq> k) xs"
  by (rule filter_cong; use elem_by_key[OF assms] in blast)+

lemma keys_filter:
  "map snd (filter (\<lambda>x. snd x = k) xs) = filter (\<lambda>x. x = k) (map snd xs)"
  "map snd (filter (\<lambda>x. snd x \<noteq> k) xs) = filter (\<lambda>x. x \<noteq> k) (map snd xs)"
  by (simp_all add: filter_map o_def)

lemma filter_key: "distinct ks \<Longrightarrow> filter (\<lambda>x. x = k) ks = (if k \<in> set ks then [k] else [])"
  by (induction ks) auto

text \<open>\<open>k\<close> to the front.\<close>

definition to_front :: "string \<Rightarrow> string list \<Rightarrow> string list" where
  "to_front k ks = (if k \<in> set ks then k # filter (\<lambda>x. x \<noteq> k) ks else ks)"

text \<open>What the invariant says, in pieces that the simplifier can use one at a time.\<close>

lemma lru_okD:
  assumes "lru_ok r"
  shows "distinct (map fst (rn_lru r))" "distinct (map snd (rn_lru r))"
    "map_of (rn_lruPos r) k = Some i \<longleftrightarrow> (i, k) \<in> set (rn_lru r)"
    "\<forall>i k. (i, k) \<in> set (rn_lru r) \<longrightarrow> i < rn_elems r" "distinct (map fst (rn_inodes r))"
    "\<forall>i k. (i, k) \<in> set (rn_lru r) \<longrightarrow> map_of (rn_inodes r) k \<noteq> None"
  using assms unfolding lru_ok_def by force+

lemma lru_okI:
  assumes "distinct (map fst (rn_lru r))" "distinct (map snd (rn_lru r))"
    "\<And>k i. map_of (rn_lruPos r) k = Some i \<longleftrightarrow> (i, k) \<in> set (rn_lru r)"
    "\<And>i k. (i, k) \<in> set (rn_lru r) \<Longrightarrow> i < rn_elems r" "distinct (map fst (rn_inodes r))"
    "\<And>i k. (i, k) \<in> set (rn_lru r) \<Longrightarrow> map_of (rn_inodes r) k \<noteq> None"
  shows "lru_ok r"
  unfolding lru_ok_def using assms by fastforce

lemma lru_pos_None: "lru_ok r \<Longrightarrow> map_of (rn_lruPos r) k = None \<longleftrightarrow> k \<notin> set (lru_keys r)"
proof -
  assume ok: "lru_ok r"
  have "map_of (rn_lruPos r) k = None \<longleftrightarrow> (\<forall>i. (i, k) \<notin> set (rn_lru r))"
    using lru_okD(3)[OF ok, of k] by (metis not_None_eq option.distinct(1))
  then show ?thesis by (force simp: lru_keys_def)
qed

lemma lru_pos_cases:
  assumes "lru_ok r"
  obtains "map_of (rn_lruPos r) k = None" "k \<notin> set (lru_keys r)"
  | i where "map_of (rn_lruPos r) k = Some i" "(i, k) \<in> set (rn_lru r)" "k \<in> set (lru_keys r)"
      "filter (\<lambda>x. fst x = i) (rn_lru r) = filter (\<lambda>x. snd x = k) (rn_lru r)"
      "filter (\<lambda>x. fst x \<noteq> i) (rn_lru r) = filter (\<lambda>x. snd x \<noteq> k) (rn_lru r)"
proof (cases "map_of (rn_lruPos r) k")
  case None
  with that(1) lru_pos_None[OF assms] show ?thesis by blast
next
  case (Some i)
  then have i: "(i, k) \<in> set (rn_lru r)" using lru_okD(3)[OF assms] by blast
  then have "k \<in> set (lru_keys r)" by (force simp: lru_keys_def)
  from that(2)[OF Some i this] by_key[OF lru_okD(1,2)[OF assms] i] show ?thesis by blast
qed

lemma keys_move:
  assumes "lru_ok r"
  shows "lru_keys (lruMoveToFront k r) = to_front k (lru_keys r)"
proof (cases rule: lru_pos_cases[OF assms, of k])
  case (2 i)
  then show ?thesis
    using lru_okD(2)[OF assms]
    by (simp add: lruMoveToFront_def move_front_def keys_filter filter_key to_front_def lru_keys_def)
qed (simp add: lruMoveToFront_def to_front_def)

lemma lru_ok_move:
  assumes "lru_ok r"
  shows "lru_ok (lruMoveToFront k r)"
proof (cases rule: lru_pos_cases[OF assms, of k])
  case (2 i)
  have e: "lruMoveToFront k r = r\<lparr>rn_lru := move_front i (rn_lru r)\<rparr>" using 2(1) by (simp add: lruMoveToFront_def)
  have s: "set (move_front i (rn_lru r)) = set (rn_lru r)" by (auto simp: move_front_def)
  have m: "mset (move_front i (rn_lru r)) = mset (rn_lru r)" by (simp add: move_front_def)
  have d: "distinct (map fst (move_front i (rn_lru r)))" "distinct (map snd (move_front i (rn_lru r)))"
    using lru_okD(1,2)[OF assms] m by (metis mset_map mset_eq_imp_distinct_iff)+
  show ?thesis
    unfolding e by (intro lru_okI) (use d s lru_okD[OF assms] in auto)
qed (simp add: lruMoveToFront_def assms)

lemma keys_remove:
  assumes "lru_ok r"
  shows "lru_keys (inodeRemove k r) = filter (\<lambda>x. x \<noteq> k) (lru_keys r)"
proof (cases rule: lru_pos_cases[OF assms, of k])
  case 1
  then show ?thesis
    by (auto simp: inodeRemove_def Let_def lru_keys_def intro!: filter_True[symmetric])
next
  case (2 i)
  then show ?thesis
    by (simp add: inodeRemove_def Let_def remove_elem_def keys_filter lru_keys_def)
qed

lemma lru_ok_remove:
  assumes "lru_ok r"
  shows "lru_ok (inodeRemove k r)"
proof (cases rule: lru_pos_cases[OF assms, of k])
  case 1
  have e: "inodeRemove k r = r\<lparr>rn_inodes := mdel k (rn_inodes r)\<rparr>" using 1(1) by (simp add: inodeRemove_def Let_def)
  have "\<And>i x. (i, x) \<in> set (rn_lru r) \<Longrightarrow> x \<noteq> k" using 1(2) by (force simp: lru_keys_def)
  then show ?thesis unfolding e by (intro lru_okI) (use lru_okD[OF assms] in auto)
next
  case (2 i)
  have e: "inodeRemove k r = r\<lparr>rn_inodes := mdel k (rn_inodes r),
      rn_lru := filter (\<lambda>x. snd x \<noteq> k) (rn_lru r), rn_lruPos := mdel k (rn_lruPos r)\<rparr>"
    using 2(1,5) by (simp add: inodeRemove_def Let_def remove_elem_def)
  have "distinct (map fst (filter P (rn_lru r)))" "distinct (map snd (filter P (rn_lru r)))" for P
    using lru_okD(1,2)[OF assms] by (simp_all add: distinct_map_filter)
  then show ?thesis unfolding e by (intro lru_okI) (use lru_okD[OF assms] in auto)
qed

lemma lru_ok_keep: "lru_ok r \<Longrightarrow> lru_ok (keep_inode p i r)"
  by (auto simp: lru_ok_def keep_inode_def)

lemma lru_ok_new: "lru_ok r \<Longrightarrow> lru_ok (snd (NewInode num p m r))"
  by (simp add: lru_ok_def NewInode_def)

lemma lru_ok_add:
  assumes "lru_ok r" and "k \<notin> set (lru_keys r)" and "map_of (rn_inodes r) k \<noteq> None"
  shows "lru_ok (lruAdd k r)"
proof (rule lru_okI)
  have f: "(i, k) \<notin> set (rn_lru r)" "(rn_elems r, x) \<notin> set (rn_lru r)" for i x
    using assms(2) lru_okD(4)[OF assms(1)] by (force simp: lru_keys_def)+
  then show "map_of (rn_lruPos (lruAdd k r)) x = Some i \<longleftrightarrow> (i, x) \<in> set (rn_lru (lruAdd k r))" for x i
    using lru_okD(3)[OF assms(1), of x i] by (auto simp: lruAdd_def)
  show "i < rn_elems (lruAdd k r)" if "(i, x) \<in> set (rn_lru (lruAdd k r))" for i x
    using that lru_okD(4)[OF assms(1)] by (force simp: lruAdd_def)
  show "distinct (map fst (rn_lru (lruAdd k r)))" "distinct (map snd (rn_lru (lruAdd k r)))"
    using f assms(2) lru_okD(1,2)[OF assms(1)] by (auto simp: lruAdd_def lru_keys_def)
  show "distinct (map fst (rn_inodes (lruAdd k r)))" using lru_okD(5)[OF assms(1)] by (simp add: lruAdd_def)
  show "map_of (rn_inodes (lruAdd k r)) x \<noteq> None" if "(i, x) \<in> set (rn_lru (lruAdd k r))" for i x
    using that assms(3) lru_okD(6)[OF assms(1)] by (auto simp: lruAdd_def)
qed

lemma evict_step:
  assumes "lru_ok r" and "rn_lru r \<noteq> []"
  defines "r' \<equiv> r\<lparr>rn_lru := butlast (rn_lru r), rn_lruPos := mdel (snd (last (rn_lru r))) (rn_lruPos r),
      rn_inodes := mdel (snd (last (rn_lru r))) (rn_inodes r)\<rparr>"
  shows "lru_ok r'" and "length (rn_inodes r') + 1 = length (rn_inodes r)"
proof -
  obtain ys i k where l: "rn_lru r = ys @ [(i, k)]" using assms(2) by (cases "rn_lru r" rule: rev_cases) auto
  have k: "map_of (rn_inodes r) k \<noteq> None" using l lru_okD(6)[OF assms(1)] by simp
  then show "length (rn_inodes r') + 1 = length (rn_inodes r)"
    using mdel_length[of "rn_inodes r" k] lru_okD(5)[OF assms(1)] l by (auto simp: r'_def)
  have r': "r' = r\<lparr>rn_lru := ys, rn_lruPos := mdel k (rn_lruPos r), rn_inodes := mdel k (rn_inodes r)\<rparr>"
    using l by (simp add: r'_def)
  have fresh: "(j, k) \<notin> set ys" for j using lru_okD(2)[OF assms(1)] l by force
  have pos: "map_of (rn_lruPos r) x = Some j \<longleftrightarrow> (j, x) \<in> set ys \<or> j = i \<and> x = k" for x j
    using lru_okD(3)[OF assms(1), of x j] l by auto
  show "lru_ok r'"
    unfolding r' by (intro lru_okI) (use lru_okD(1,2,4,5,6)[OF assms(1)] l fresh pos in auto)
qed

text \<open>Eviction takes from the back of the list, and no more than it has to.\<close>

lemma evict_result:
  assumes "lru_ok r"
  shows "lru_ok (evictOldest r) \<and>
    (\<exists>n. lru_keys (evictOldest r) = take n (lru_keys r) \<and>
       (\<forall>k. map_of (rn_inodes (evictOldest r)) k =
          (if k \<in> set (drop n (lru_keys r)) then None else map_of (rn_inodes r) k))) \<and>
    (length (rn_inodes (evictOldest r)) \<le> inodeCap \<or> lru_keys (evictOldest r) = []) \<and>
    (length (rn_inodes r) \<le> inodeCap \<longrightarrow> evictOldest r = r)"
  using assms
proof (induction r rule: evictOldest.induct)
  case (1 r)
  show ?case
  proof (cases "inodeCap < length (rn_inodes r) \<and> rn_lru r \<noteq> []")
    case False
    then have "evictOldest r = r" using evictOldest.simps[of r] by (simp only: if_False)
    with False 1(2) show ?thesis by (auto simp: lru_keys_def intro!: exI[of _ "length (rn_lru r)"])
  next
    case True
    obtain ys i k where l: "rn_lru r = ys @ [(i, k)]" using True by (cases "rn_lru r" rule: rev_cases) auto
    define r' where "r' = r\<lparr>rn_lru := ys, rn_lruPos := mdel k (rn_lruPos r), rn_inodes := mdel k (rn_inodes r)\<rparr>"
    have ev: "evictOldest r = evictOldest r'" using True l by (subst evictOldest.simps) (simp add: r'_def Let_def)
    have ok: "lru_ok r'" using evict_step(1)[OF 1(2)] True l by (simp add: r'_def)
    have e: "r\<lparr>rn_lru := butlast (rn_lru r), rn_lruPos := mdel (snd (last (rn_lru r))) (rn_lruPos r),
        rn_inodes := mdel (snd (last (rn_lru r))) (rn_inodes r)\<rparr> = r'" by (simp add: l r'_def)
    have IH: "lru_ok (evictOldest r')" "length (rn_inodes (evictOldest r')) \<le> inodeCap \<or> lru_keys (evictOldest r') = []"
      "\<exists>n. lru_keys (evictOldest r') = take n (lru_keys r') \<and>
        (\<forall>x. map_of (rn_inodes (evictOldest r')) x =
           (if x \<in> set (drop n (lru_keys r')) then None else map_of (rn_inodes r') x))"
      using "1.IH"[OF True refl, unfolded e, OF ok] by blast+
    then obtain n where n: "lru_keys (evictOldest r') = take n (map snd ys)"
      "\<forall>x. map_of (rn_inodes (evictOldest r')) x =
         (if x \<in> set (drop n (map snd ys)) then None else ((map_of (rn_inodes r))(k := None)) x)"
      by (auto simp: r'_def lru_keys_def)
    have "\<exists>n. lru_keys (evictOldest r') = take n (lru_keys r) \<and>
       (\<forall>x. map_of (rn_inodes (evictOldest r')) x =
          (if x \<in> set (drop n (lru_keys r)) then None else map_of (rn_inodes r) x))"
      using n l by (intro exI[of _ "min n (length ys)"]) (auto simp: lru_keys_def min_def)
    then show ?thesis using ev True IH(1,2) by simp
  qed
qed

section \<open>Invariants of the table\<close>

text \<open>
  A property of the root node that the five ways of changing it keep; every request then keeps
  it, with the events that the engine sends on the way.
\<close>

locale root_invariant =
  fixes P :: "root_node \<Rightarrow> bool"
  assumes note_kept: "P r \<Longrightarrow> P (r\<lparr>rn_notes := x\<rparr>)"
    and forget_kept: "P r \<Longrightarrow> P (inodeRemove k r)"
    and touch_kept: "P r \<Longrightarrow> P (lruMoveToFront k r)"
    and keep_kept: "P r \<Longrightarrow> P (keep_inode p i (r\<lparr>rn_made := n\<rparr>))"
    and track_kept: "P r \<Longrightarrow> map_of (rn_inodes r) p = None \<Longrightarrow>
      P (evictOldest (lruAdd p (keep_inode p i (r\<lparr>rn_made := n\<rparr>))))"
begin

definition holds :: "'w fuse \<times> 'r \<Rightarrow> bool" where
  "holds out \<longleftrightarrow> P (fst (fst out))"

lemma holds_here [simp]: "holds ((r, t), x) \<longleftrightarrow> P r" "holds (s, x) \<longleftrightarrow> P (fst s)"
  by (simp_all add: holds_def)

lemma parent_kept: "P r \<Longrightarrow> P (notifyParentEntry p r)"
  by (auto simp: notifyParentEntry_def note_kept split: prod.splits option.splits)

lemma event_kept: "P r \<Longrightarrow> P (handleEvent e r)"
  by (auto simp: handleEvent_def parent_kept note_kept forget_kept split: event_kind.splits option.splits)

lemma events_kept: "P r \<Longrightarrow> P (fold handleEvent es r)"
  by (induction es arbitrary: r) (simp_all add: event_kept)

lemma after_kept: "P (fst s) \<Longrightarrow> P (fst (after_call n s))"
  by (auto simp: after_call_def events_kept split: prod.splits)

lemma call_kept: "P (fst s) \<Longrightarrow> holds (call_res op s)" "P (fst s) \<Longrightarrow> holds (call_err op' s)"
  by (auto simp: call_res_def call_err_def holds_def intro!: after_kept split: prod.splits)

lemma on_res_kept: "holds out \<Longrightarrow> (\<And>t r. P (fst t) \<Longrightarrow> holds (k t r)) \<Longrightarrow> holds (on_res out k)"
  by (cases out; cases "snd out") (auto simp: on_res_def holds_def)

lemmas kept_rules = on_res_kept call_kept

lemma lookup_add_kept: "P r \<Longrightarrow> P (fst (lookup_add num p mode r))"
  by (auto simp: lookup_add_def NewInode_def touch_kept track_kept split: option.splits)

lemma add_node_kept: "add_node num p mode st (r0, t0) = ((r, t), x) \<Longrightarrow> P r0 \<Longrightarrow> P r"
  by (auto simp: add_node_def NewInode_def keep_kept)

lemma root_Lookup_kept: "P (fst s) \<Longrightarrow> holds (root_Lookup num env name s)"
  unfolding root_Lookup_def Let_def
  by (auto intro!: kept_rules simp: with_root_def touch_kept split: option.splits sum.splits prod.splits)
    (metis lookup_add_kept fst_conv)

lemma path_Lookup_kept: "P (fst s) \<Longrightarrow> holds (path_Lookup num env dir name s)"
  unfolding path_Lookup_def Let_def NewInode_def
  by (auto intro!: kept_rules simp: keep_kept split: option.splits sum.splits)

lemma attr_kept: "P (fst s) \<Longrightarrow> holds (path_Getattr env p ino s)" "P (fst s) \<Longrightarrow> holds (path_Setattr env p ino s)"
  unfolding path_Getattr_def path_Setattr_def by (auto intro!: kept_rules)

lemma dir_kept: "P (fst s) \<Longrightarrow> holds (node_Readdir env node s)" "P (fst s) \<Longrightarrow> holds (node_Readlink node s)"
  unfolding node_Readdir_def node_Readlink_def by (auto intro!: kept_rules)

lemma call_err_kept: "P (fst s) \<Longrightarrow> P (fst (fst (call_err op s)))"
  using call_kept(2)[of s op] by (simp only: holds_def)

lemmas unmount_kept = call_err_kept

lemma mount_kept: "P (fst s) \<Longrightarrow> fuse_mount env p m s = (s', e) \<Longrightarrow> P (fst s')"
  using call_kept(2) by (metis holds_def fst_conv)

lemma create_kept:
  assumes "P (fst s)"
  shows "holds (createFile num env parent name flags mode s)"
proof -
  let ?q = "path_Join (node_path parent) name"
  obtain s1 e where m: "fuse_mount env ?q (zero_entry\<lparr>me_Kind := KindBlob, me_Mode := mode AND mode_0777\<rparr>) s = (s1, e)"
    by fastforce
  then show ?thesis
    using mount_kept[OF assms m] assms unfolding createFile_def create_rest_def Let_def
    by (cases e) (auto intro!: kept_rules unmount_kept split: sum.splits prod.splits elim!: add_node_kept)
qed

lemma make_node_kept:
  assumes "P (fst s)"
  shows "holds (make_node num env parent name entry mode s)"
proof -
  obtain s1 e where m: "fuse_mount env (path_Join (node_path parent) name) entry s = (s1, e)" by fastforce
  then show ?thesis
    using mount_kept[OF assms m] assms unfolding make_node_def Let_def
    by (cases e) (auto intro!: kept_rules unmount_kept split: sum.splits prod.splits dest: add_node_kept)
qed

lemma remove_kept:
  "P (fst s) \<Longrightarrow> holds (unlink env node name s)" "P (fst s) \<Longrightarrow> holds (rmdir env node name s)"
  "P (fst s) \<Longrightarrow> holds (fuse_rename env node name node' name' s)"
  unfolding unlink_def rmdir_def fuse_rename_def Let_def holds_def split_beta
  by (simp_all only: fst_conv split: if_split) (blast intro: call_err_kept)+

lemma file_kept:
  "P (fst s) \<Longrightarrow> holds (node_Open node ino flags s)" "P (fst s) \<Longrightarrow> holds (fh_Read env fh n off s)"
  "P (fst s) \<Longrightarrow> holds (fh_Write env fh d off s)" "P (fst s) \<Longrightarrow> holds (fh_Flush env fh s)"
  "P (fst s) \<Longrightarrow> holds (fh_Release env fh s)"
  unfolding node_Open_def fh_Read_def fh_Write_def fh_Flush_def fh_Release_def
  by (auto intro!: kept_rules split: embedder.splits option.splits)

lemmas request_kept = root_Lookup_kept path_Lookup_kept attr_kept dir_kept create_kept make_node_kept remove_kept file_kept

lemma step_kept: "P (fst s) \<Longrightarrow> P (fst (fuse_step num env req s))"
  using request_kept[of s]
  by (cases req) (auto simp: holds_def mkdir_def symlink_def fh_Getattr_def fh_Setattr_def split: embedder.split)

lemma run_kept: "P (fst s) \<Longrightarrow> P (fst (fold (fuse_step num env) reqs s))"
  by (induction reqs arbitrary: s) (simp_all add: step_kept)

end

text \<open>The consistency of the list, with the bound on what it tracks.\<close>

definition table_ok :: "root_node \<Rightarrow> bool" where
  "table_ok r \<longleftrightarrow> lru_ok r \<and> length (lru_keys r) \<le> inodeCap"

lemma tracked_le: "lru_ok r \<Longrightarrow> length (lru_keys r) \<le> length (rn_inodes r)"
proof -
  assume ok: "lru_ok r"
  have "set (lru_keys r) \<subseteq> fst ` set (rn_inodes r)"
    using lru_okD(6)[OF ok] by (force simp: lru_keys_def map_of_eq_None_iff)
  then have "card (set (lru_keys r)) \<le> card (fst ` set (rn_inodes r))" by (simp add: card_mono)
  also have "\<dots> \<le> length (rn_inodes r)" using card_image_le[of "set (rn_inodes r)" fst] card_length[of "rn_inodes r"] by simp
  finally show ?thesis using distinct_card[OF lru_okD(2)[OF ok]] by (simp add: lru_keys_def)
qed

lemma length_to_front: "length (to_front k ks) \<le> length ks"
  using length_filter_less[of k ks "\<lambda>x. x \<noteq> k"] by (auto simp: to_front_def)

lemma lru_ok_irrelevant [simp]: "lru_ok (r\<lparr>rn_made := n\<rparr>) = lru_ok r" "lru_ok (r\<lparr>rn_notes := x\<rparr>) = lru_ok r"
  by (simp_all add: lru_ok_def)

lemma lru_keys_simps [simp]:
  "lru_keys (r\<lparr>rn_made := n\<rparr>) = lru_keys r" "lru_keys (r\<lparr>rn_notes := x\<rparr>) = lru_keys r"
  "lru_keys (keep_inode p i r) = lru_keys r" "lru_keys (lruAdd p r) = p # lru_keys r"
  by (simp_all add: lru_keys_def keep_inode_def lruAdd_def)

lemma untracked: "lru_ok r \<Longrightarrow> map_of (rn_inodes r) p = None \<Longrightarrow> p \<notin> set (lru_keys r)"
  using lru_okD(6) by (force simp: lru_keys_def)

lemma lru_ok_track:
  assumes "lru_ok r" and "map_of (rn_inodes r) p = None"
  shows "lru_ok (lruAdd p (keep_inode p i (r\<lparr>rn_made := n\<rparr>)))"
  by (rule lru_ok_add) (use untracked[OF assms] assms(1) in \<open>simp_all add: lru_ok_keep, simp add: keep_inode_def\<close>)

interpretation table: root_invariant table_ok
proof
  fix r :: root_node and p i n
  assume ok: "table_ok r" and new: "map_of (rn_inodes r) p = None"
  let ?r = "lruAdd p (keep_inode p i (r\<lparr>rn_made := n\<rparr>))"
  have "lru_ok ?r" using ok new by (simp add: table_ok_def lru_ok_track)
  from evict_result[OF this] show "table_ok (evictOldest ?r)"
    using tracked_le[of "evictOldest ?r"] by (auto simp: table_ok_def)
qed (auto simp: table_ok_def lru_ok_remove lru_ok_move lru_ok_keep keys_remove keys_move
    intro: le_trans[OF length_filter_le] le_trans[OF length_to_front])

interpretation fixed: root_invariant "\<lambda>r. rn_readOnly r = ro \<and> rn_listener r = i" for ro i
proof
  have ev: "rn_readOnly (evictOldest r) = rn_readOnly r \<and> rn_listener (evictOldest r) = rn_listener r" for r
  proof (induction r rule: evictOldest.induct)
    case (1 r)
    then show ?case by (subst (1 2) evictOldest.simps) (simp add: Let_def)
  qed
  fix r :: root_node and p j n
  assume "rn_readOnly r = ro \<and> rn_listener r = i"
  then show "rn_readOnly (evictOldest (lruAdd p (keep_inode p j (r\<lparr>rn_made := n\<rparr>)))) = ro \<and>
      rn_listener (evictOldest (lruAdd p (keep_inode p j (r\<lparr>rn_made := n\<rparr>)))) = i"
    by (simp add: ev lruAdd_def keep_inode_def)
qed (auto simp: inodeRemove_def lruMoveToFront_def keep_inode_def Let_def split: option.splits)

lemma evict_balance:
  assumes "lru_ok r"
  shows "length (rn_inodes (evictOldest r)) + length (rn_lru r) = length (rn_inodes r) + length (rn_lru (evictOldest r))"
  using assms
proof (induction r rule: evictOldest.induct)
  case (1 r)
  show ?case
  proof (cases "inodeCap < length (rn_inodes r) \<and> rn_lru r \<noteq> []")
    case False
    then have "evictOldest r = r" using evictOldest.simps[of r] by (simp only: if_False)
    then show ?thesis by simp
  next
    case True
    let ?r = "r\<lparr>rn_lru := butlast (rn_lru r), rn_lruPos := mdel (snd (last (rn_lru r))) (rn_lruPos r),
        rn_inodes := mdel (snd (last (rn_lru r))) (rn_inodes r)\<rparr>"
    have ev: "evictOldest r = evictOldest ?r" using True evictOldest.simps[of r] by (simp add: Let_def)
    have st: "lru_ok ?r" "length (rn_inodes ?r) + 1 = length (rn_inodes r)"
      using evict_step[OF 1(2)] True by blast+
    have "length (rn_lru ?r) + 1 = length (rn_lru r)" using True by simp
    with 1(1)[OF True refl st(1)] st(2) show ?thesis unfolding ev by linarith
  qed
qed

section \<open>What the table guarantees\<close>

text \<open>
  C21: over every run of requests after the mount, the recency list and the map of its positions
  describe the same duplicate-free list of keys, every key of it has an inode, at most
  \<open>inodeCap\<close> inodes are tracked, and the mode and the listener of the server stay as they were.
\<close>

theorem fuse_inode_table:
  "table_ok (fst (fold (fuse_step num env) reqs (fuse_Mount o1 s))) \<and>
   rn_readOnly (fst (fold (fuse_step num env) reqs (fuse_Mount o1 s))) = mo_ReadOnly o1 \<and>
   rn_listener (fst (fold (fuse_step num env) reqs (fuse_Mount o1 s))) = snd (RegisterNotifier [] (fst s))"
proof -
  have "table_ok (fst (fuse_Mount o1 s))"
    "rn_readOnly (fst (fuse_Mount o1 s)) = mo_ReadOnly o1 \<and>
     rn_listener (fst (fuse_Mount o1 s)) = snd (RegisterNotifier [] (fst s))"
    by (simp_all add: fuse_Mount_def table_ok_def lru_ok_def lru_keys_def split_beta)
  from table.run_kept[OF this(1)] fixed.run_kept[OF this(2)] show ?thesis by blast
qed

lemma lookup_add_cases:
  "lookup_add num p mode r =
    (case map_of (rn_inodes r) p of
       Some i \<Rightarrow> (lruMoveToFront p r, i)
     | None \<Rightarrow>
         (evictOldest (lruAdd p (keep_inode p \<lparr>in_ino = num (rn_made r), in_path = p, in_mode = mode\<rparr>
            (r\<lparr>rn_made := rn_made r + 1\<rparr>))), \<lparr>in_ino = num (rn_made r), in_path = p, in_mode = mode\<rparr>))"
  by (auto simp: lookup_add_def NewInode_def split: option.splits)

lemma inodes_removed: "map_of (rn_inodes (inodeRemove k r)) = (map_of (rn_inodes r))(k := None)"
  by (simp add: inodeRemove_def Let_def alist_simps split: option.split)

text \<open>
  C22: the list with its element pointers implements a list of keys. Removing an inode takes its
  key out of the list and its inode out of the table, and nothing else. A lookup of a path with an
  inode moves its key to the front and keeps the table; a lookup of a new path puts its key in
  front and drops keys from the back, with their inodes, until the table is within the bound or
  no key is left. When inodes that are not tracked already fill the table, the new inode itself
  is dropped before the lookup has answered.
\<close>

theorem fuse_lru_refines:
  assumes "lru_ok r"
  shows "lru_keys (inodeRemove k r) = filter (\<lambda>x. x \<noteq> k) (lru_keys r) \<and>
    (\<forall>x. map_of (rn_inodes (inodeRemove k r)) x = (if x = k then None else map_of (rn_inodes r) x)) \<and>
    (\<forall>i. map_of (rn_inodes r) p = Some i \<longrightarrow>
      lru_keys (fst (lookup_add num p mode r)) = to_front p (lru_keys r) \<and>
      rn_inodes (fst (lookup_add num p mode r)) = rn_inodes r \<and> snd (lookup_add num p mode r) = i) \<and>
    (map_of (rn_inodes r) p = None \<longrightarrow>
      (\<exists>n. lru_keys (fst (lookup_add num p mode r)) = take n (p # lru_keys r) \<and>
        (\<forall>x. map_of (rn_inodes (fst (lookup_add num p mode r))) x =
          (if x \<in> set (drop n (p # lru_keys r)) then None
           else if x = p then Some (snd (lookup_add num p mode r)) else map_of (rn_inodes r) x)))) \<and>
    (map_of (rn_inodes r) p = None \<longrightarrow>
      length (rn_inodes (fst (lookup_add num p mode r))) \<le> inodeCap \<or>
      lru_keys (fst (lookup_add num p mode r)) = []) \<and>
    (map_of (rn_inodes r) p = None \<and> length (rn_inodes r) < inodeCap \<longrightarrow>
      lru_keys (fst (lookup_add num p mode r)) = p # lru_keys r) \<and>
    (map_of (rn_inodes r) p = None \<and> inodeCap + length (lru_keys r) \<le> length (rn_inodes r) \<longrightarrow>
      map_of (rn_inodes (fst (lookup_add num p mode r))) p = None)"
proof (cases "map_of (rn_inodes r) p")
  case (Some i)
  with keys_remove[OF assms] keys_move[OF assms] show ?thesis
    by (auto simp: inodes_removed lookup_add_cases lruMoveToFront_def split: option.split)
next
  case None
  define a where "a = snd (lookup_add num p mode r)"
  define q where "q = lruAdd p (keep_inode p a (r\<lparr>rn_made := rn_made r + 1\<rparr>))"
  have e: "fst (lookup_add num p mode r) = evictOldest q" by (simp add: q_def a_def lookup_add_cases None)
  have q: "lru_ok q" "lru_keys q = p # lru_keys r" "length (rn_inodes q) = length (rn_inodes r) + 1"
    "map_of (rn_inodes q) = (map_of (rn_inodes r))(p \<mapsto> a)"
  proof -
    show "lru_ok q" unfolding q_def by (rule lru_ok_track[OF assms None])
    show "length (rn_inodes q) = length (rn_inodes r) + 1"
      using None by (simp add: q_def lruAdd_def keep_inode_def mput_fresh map_of_eq_None_iff)
  qed (simp_all add: q_def lruAdd_def keep_inode_def lru_keys_def)
  note ev = evict_result[OF q(1)]
  then obtain n where n: "lru_keys (evictOldest q) = take n (lru_keys q)"
    "\<And>k. map_of (rn_inodes (evictOldest q)) k =
       (if k \<in> set (drop n (lru_keys q)) then None else map_of (rn_inodes q) k)"
    by blast
  have "map_of (rn_inodes (evictOldest q)) p = None" if "inodeCap + length (lru_keys r) \<le> length (rn_inodes r)"
  proof -
    have "length (rn_inodes (evictOldest q)) + length (lru_keys q) = length (rn_inodes q) + length (lru_keys (evictOldest q))"
      using evict_balance[OF q(1)] by (simp add: lru_keys_def)
    then have "lru_keys (evictOldest q) = []" using ev that q(2,3) by auto
    with n(1) q(2) have "n = 0" by simp
    with n(2)[of p] q(2) show ?thesis by simp
  qed
  moreover have "\<exists>n. lru_keys (evictOldest q) = take n (p # lru_keys r) \<and>
      (\<forall>x. map_of (rn_inodes (evictOldest q)) x =
        (if x \<in> set (drop n (p # lru_keys r)) then None else if x = p then Some a else map_of (rn_inodes r) x))"
    using n by (intro exI[of _ n]) (simp add: q(2,4))
  ultimately show ?thesis
    using ev keys_remove[OF assms] None q(2,3) unfolding e a_def[symmetric] by (simp add: inodes_removed)
qed

text \<open>Ten thousand inodes that no lookup of the root has made: the next lookup there keeps nothing.\<close>

definition full_root :: root_node where
  "full_root =
     \<lparr>rn_readOnly = False,
      rn_inodes = map (\<lambda>n. (replicate (n + 2) CHR ''a'', \<lparr>in_ino = of_nat n, in_path = [], in_mode = 0\<rparr>)) [0..<10000],
      rn_lru = [], rn_lruPos = [], rn_elems = 0, rn_made = 10000, rn_notes = [], rn_listener = 1\<rparr>"

lemma full_root_new: "lru_ok full_root" "map_of (rn_inodes full_root) ''/b'' = None" "length (rn_inodes full_root) = 10000"
proof -
  have "inj (\<lambda>n. replicate (n + 2) CHR ''a'')" by (rule injI) (metis add_right_cancel length_replicate)
  then show "lru_ok full_root" by (simp add: lru_ok_def full_root_def o_def distinct_map inj_on_def)
  show "map_of (rn_inodes full_root) ''/b'' = None" by (auto simp: full_root_def map_of_eq_None_iff)
  show "length (rn_inodes full_root) = 10000" by (simp add: full_root_def)
qed

lemma fuse_lru_refines_witness:
  "lru_ok full_root \<and> map_of (rn_inodes full_root) ''/b'' = None \<and>
   map_of (rn_inodes (fst (lookup_add of_nat ''/b'' 0 full_root))) ''/b'' = None"
  using fuse_lru_refines[OF full_root_new(1), of "[]" "''/b''" of_nat 0] full_root_new
  by (simp add: inodeCap_def lru_keys_def full_root_def)

end
