(* ===== verification/FuseProps.thy ===== *)
theory FuseProps
  imports FuseInodes HandleProps Quiet
begin

text \<open>
  What the requests of the FUSE adapter guarantee: a read is a slice of the contents, a write
  replaces them whatever its offset, a create is taken back when it fails, and a read-only
  server changes no mount.
\<close>

section \<open>Reading\<close>

lemma read_at_slice:
  "read_at d n off =
     (if int (length d) \<le> off then Some [] else if off < 0 then None else Some (take n (drop (nat off) d)))"
proof (cases "int (length d) \<le> off \<or> off < 0")
  case False
  have "take (length d - nat off) (drop (nat off) d) = take n (drop (nat off) d)" if "int (length d) < off + int n"
    using that False by simp
  moreover from False obtain k where "off = int k" by (metis nonneg_int_cases not_less)
  ultimately show ?thesis using False by (auto simp: read_at_def Let_def)
qed (auto simp: read_at_def)

lemma chunks_concat: "concat (map (\<lambda>k. take n (drop (k * n) d)) [0..<m]) = take (m * n) d"
proof (induction m)
  case (Suc m)
  then show ?case by (simp add: take_add[symmetric] add.commute)
qed simp

text \<open>
  A read of a file with these contents returns the slice of the contents at the offset,
  nothing at or behind the end and never more than asked for; only a negative offset makes it
  panic. Reading at consecutive offsets gives the contents back in order.
\<close>

theorem fuse_read_slices:
  "read_at d n off =
     (if int (length d) \<le> off then Some [] else if off < 0 then None else Some (take n (drop (nat off) d))) \<and>
   concat (map (\<lambda>k. the (read_at d n (int (k * n)))) [0..<m]) = take (m * n) d"
proof -
  have "the (read_at d n (int (k * n))) = take n (drop (k * n) d)" for k
    by (simp only: read_at_slice) (simp flip: of_nat_mult)
  then show ?thesis using chunks_concat[of n d m] by (simp only: read_at_slice)
qed

section \<open>Writing\<close>

text \<open>What pwrite(2) makes of the contents of a file.\<close>

definition pwrite :: "bytes \<Rightarrow> nat \<Rightarrow> bytes \<Rightarrow> bytes" where
  "pwrite old off d = take off old @ replicate (off - length old) (CHR 0x00) @ d @ drop (off + length d) old"

lemma pwrite_same: "pwrite old off d = d \<longleftrightarrow> off = 0 \<and> length old \<le> length d"
proof
  have l: "length (pwrite old off d) = max (length old) (off + length d)" by (simp add: pwrite_def)
  assume "pwrite old off d = d"
  with l have "max (length old) (off + length d) = length d" by simp
  then show "off = 0 \<and> length old \<le> length d" by (simp add: max_def split: if_splits)
qed (simp add: pwrite_def)

text \<open>No two mounts of the table have the same identifier.\<close>

definition ids_unique :: "router \<Rightarrow> bool" where
  "ids_unique r \<longleftrightarrow> (\<forall>a\<in>set (router_snapshot r). \<forall>b\<in>set (router_snapshot r). me_ID a = me_ID b \<longrightarrow> a = b)"

lemma entry_after_update:
  assumes ok: "router_ok r" and ids: "ids_unique r"
    and m: "router_match r path = Inr \<lparr>rm_mount = Some m, rm_params = ps\<rparr>"
    and f: "\<And>m. me_Path (f m) = me_Path m" "\<And>m. me_ID (f m) = me_ID m"
  shows "find (\<lambda>x. me_ID x = me_ID m) (router_snapshot (router_update path f r)) = Some (f m)"
proof -
  let ?r = "router_update path f r"
  obtain pat where pat: "look pat (r_root r) = Some m" and ok': "router_ok ?r"
    and l: "\<forall>qs. look qs (r_root ?r) = (if same_pat pat qs then Some (f m) else look qs (r_root r))"
    using router_ok_update[OF ok m f(1)] by (auto simp del: option.map)
  note pm = snapshot_covers[OF ok pat]
  have only: "x = f m" if x: "x \<in> set (router_snapshot ?r)" and i: "me_ID x = me_ID m" for x
  proof (cases "same_pat pat (pat_of x)")
    case True
    with l x show ?thesis unfolding snapshot_placed[OF ok'] by simp
  next
    case False
    with l x have "look (pat_of x) (r_root r) = Some x" unfolding snapshot_placed[OF ok'] by simp
    from snapshot_covers[OF ok this] ids pm i have "x = m" unfolding ids_unique_def by blast
    with pm False show ?thesis using same_pat_sym by blast
  qed
  have "look pat (r_root ?r) = Some (f m)" using l by simp
  from snapshot_covers[OF ok' this] have "f m \<in> set (router_snapshot ?r)" by blast
  then have "find (\<lambda>x. me_ID x = me_ID m) (router_snapshot ?r) \<noteq> None"
    using f(2) unfolding find_None_iff by blast
  then obtain x where x: "find (\<lambda>x. me_ID x = me_ID m) (router_snapshot ?r) = Some x" by blast
  from find_SomeD[OF this] only have "x = f m" by blast
  with x show ?thesis by simp
qed

lemma handle_of_sync [simp]:
  "handle_of i (sync_handles fs) = map_option (sync_handle fs) (handle_of i fs)"
proof -
  have "map_of (map (\<lambda>(i, h). (i, sync_handle fs h)) xs) i = map_option (sync_handle fs) (map_of xs i)" for xs
    by (induction xs) auto
  then show ?thesis by (simp add: sync_handles_def handle_of_def)
qed

lemma sync_frame [simp]:
  "fs_router (sync_handles fs) = fs_router fs" "fs_skills (sync_handles fs) = fs_skills fs"
  "fs_writeback (sync_handles fs) = fs_writeback fs" "fs_cfg (sync_handles fs) = fs_cfg fs"
  by (simp_all add: sync_handles_def)

lemma after_call_eq: "snd (after_call n s) = (sync_handles (fst (snd s)), snd (snd s))"
  by (simp add: after_call_def split: prod.split)


definition open_fs :: fs_state where
  "open_fs = (blob_fs rw_blob)\<lparr>fs_handles := (fs_handles demo_fs)\<lparr>hm_objects :=
     [(1, \<lparr>hd_id = 1, hd_path = ''/a'', hd_mount = rw_blob\<lparr>me_ID := 1\<rparr>, hd_caller = anonymous,
           hd_flags = OpenWrite, hd_closed = False, hd_buf = [], hd_policy = zero_policy,
           hd_timer = TimerNil\<rparr>)]\<rparr>\<rparr>"

definition demo_root :: root_node where
  "demo_root = fst (fuse_Mount plain_opts (demo_fs, 7 :: int))"

lemma open_fs_router: "fs_router open_fs = fs_router (blob_fs rw_blob)" "fs_cfg open_fs = fs_cfg demo_fs"
  by (simp_all add: open_fs_def blob_fs_def)

lemma open_fs_ids: "ids_unique (fs_router open_fs)"
proof -
  obtain r m where ra: "router_add newRouter rw_blob = (r, Inr m)"
    by (simp add: rw_blob_def router_add_def newRouter_def demo_eval)
  have "mset (router_snapshot r) = {#m#}"
    using router_add_new_mount[OF router_ok_new ra] by (simp add: router_snapshot_def newRouter_def empty_node_def)
  then have "set (router_snapshot r) = {m}" by (metis set_mset_mset set_mset_add_mset_insert set_mset_empty)
  then show ?thesis by (simp add: ids_unique_def open_fs_router blob_fs_def ra)
qed


section \<open>Creating\<close>

lemma call_res_result [simp]:
  "snd (call_res op s) = snd (op (snd s))"
  "snd (fst (call_res op s)) = (sync_handles (fst (fst (op (snd s)))), snd (fst (op (snd s))))"
  by (simp_all add: call_res_def after_call_eq split: prod.split)

lemma call_err_result [simp]:
  "snd (call_err op s) = snd (op (snd (snd s)) (fst (snd s)))"
  "snd (fst (call_err op s)) = (sync_handles (fst (op (snd (snd s)) (fst (snd s)))), snd (snd s))"
  by (simp_all add: call_err_def after_call_eq split: prod.split)

lemma open_frame [simp]:
  "fs_router (fst (fs_Open p flags c fs)) = fs_router fs" "fs_skills (fst (fs_Open p flags c fs)) = fs_skills fs"
  "fs_writeback (fst (fs_Open p flags c fs)) = fs_writeback fs"
  by (auto simp: fs_Open_def Let_def split: sum.splits option.splits prod.splits)

text \<open>A mount is found at its own path also where the path names parameters.\<close>

lemma walk_own:
  "look segs n = Some m \<Longrightarrow> node_ok b n \<Longrightarrow> \<forall>s\<in>set segs. \<not> bad_seg s \<Longrightarrow>
   \<exists>n' ps'. walk segs n ps = Inr (n', ps') \<and> rn_mount n' = Some m"
proof (induction segs arbitrary: n b ps)
  case Nil
  then show ?case by (cases n) simp
next
  case (Cons s segs)
  obtain st pr mt where n: "n = RouteNode st pr mt" by (cases n)
  show ?case
  proof (cases "is_param s")
    case True
    with Cons.prems n obtain key c where pr: "pr = Some (key, c)" "look segs c = Some m" "node_ok (b - 1) c"
      by (auto split: option.splits)
    have "map_of st s = None"
      using True Cons.prems(2) n by (auto simp: map_of_eq_None_iff)
    moreover from Cons.IH[OF pr(2,3)] Cons.prems(3)
    have "\<exists>n' ps'. walk segs c q = Inr (n', ps') \<and> rn_mount n' = Some m" for q by simp
    ultimately show ?thesis using Cons.prems(3) n pr(1) by simp
  next
    case False
    with Cons.prems n obtain c where c: "map_of st s = Some c" "look segs c = Some m" by (auto split: option.splits)
    with Cons.prems(2) n node_ok_child have "node_ok b c" by blast
    from Cons.IH[OF c(2) this] Cons.prems(3) c(1) n show ?thesis by simp
  qed
qed

lemma match_own:
  assumes "router_ok r" and "mount_at r p = Some m" and "normalizePath p = Inr p"
  shows "\<exists>ps. router_match r p = Inr \<lparr>rm_mount = Some m, rm_params = ps\<rparr>"
proof -
  obtain parts where g: "good_parts parts" "p = path_of parts" using assms(3) normalize_good by blast
  have "look parts (r_root r) = Some m" using assms(2) g by (simp add: mount_at_def)
  from walk_own[OF this, of inlineParams empty_params] assms(1) g(1)
  obtain n ps where "walk parts (r_root r) empty_params = Inr (n, ps)" "rn_mount n = Some m"
    by (auto simp: router_ok_def good_parts_def)
  with g show ?thesis by (simp add: router_match_walk)
qed

text \<open>The tail of a create: the mount that was made is taken away again.\<close>

lemma unmount_undoes:
  assumes "router_ok r0" and "router_add r0 e = (r1, Inr m)" and "me_Path e = p" and "normalizePath p = Inr p"
    and "plain_entry e" and "fs_router fs = r1"
  shows "router_ok (fs_router (fst (fs_Unmount env w p fs))) \<and>
    mset (router_snapshot (fs_router (fst (fs_Unmount env w p fs)))) = mset (router_snapshot r0)"
proof -
  note new = router_add_new_mount[OF assms(1,2), unfolded assms(3)]
  obtain pat where pat: "cleanParts p = Inr pat" "look pat (r_root r1) = Some m"
    using new by (auto simp: mount_at_def split: sum.splits)
  obtain r2 where r2: "router_remove r1 p = (r2, Inr m)" "router_ok r2"
    by (rule router_remove_there[OF _ pat]) (use new in blast)+
  have "plain_entry m" using new assms(5) by (simp add: plain_entry_def)
  from unmount_outcome[OF assms(4) _ this, of fs r2 env w] r2 assms(6)
  have "fs_router (fst (fs_Unmount env w p fs)) = r2" by auto
  with r2 router_remove_snapshot[OF _ r2(1)] new show ?thesis by simp
qed

lemma fresh_close:
  assumes "handle_of i (fst s) = Some h" and "hd_buf h = []" and "\<not> hd_closed h"
  shows "snd (h_Close env i s) = Ok ()" and "fs_router (fst (fst (h_Close env i s))) = fs_router (fst s)"
proof -
  have "flushAllLocked env i (set_handle i (h\<lparr>hd_closed := True\<rparr>) s) =
      (set_handle i (stop_timer (h\<lparr>hd_closed := True\<rparr>)) (set_handle i (h\<lparr>hd_closed := True\<rparr>) s), Ok ())"
    using assms(2) by (simp add: flushAllLocked_def on_handle_def stop_timer_def)
  then show "snd (h_Close env i s) = Ok ()" "fs_router (fst (fst (h_Close env i s))) = fs_router (fst s)"
    using assms(1,3)
    by (auto simp: h_Close_def on_handle_def close_rest_def drop_handle_def with_locks_def set_handle_def Let_def
        split: option.split)
qed

lemma open_created:
  assumes "router_match (fs_router fs) p = Inr \<lparr>rm_mount = Some m, rm_params = ps\<rparr>"
  shows "(\<exists>e. snd (fs_Open p flags c fs) = Fail e) \<or>
    (\<exists>i h. snd (fs_Open p flags c fs) = Ok i \<and> handle_of i (fst (fs_Open p flags c fs)) = Some h \<and>
       hd_path h = p \<and> hd_buf h = [] \<and> \<not> hd_closed h \<and> flags \<noteq> 0)"
proof -
  let ?mk = "\<lambda>i. \<lparr>hd_id = i, hd_path = p, hd_mount = m, hd_caller = c, hd_flags = flags,
    hd_closed = False, hd_buf = [],
    hd_policy = (case me_BufferPolicy m of None \<Rightarrow> zero_policy | Some p \<Rightarrow> p), hd_timer = TimerNil\<rparr>"
  obtain m1 r where o: "hm_open ?mk (fs_handles fs) = (m1, r)" by fastforce
  have got: "r = Inr j \<Longrightarrow> map_of (hm_objects m1) j = Some (?mk j)" for j
    using o by (auto simp: hm_open_def hm_put_def split: prod.splits sum.splits)
  show ?thesis
    using assms got by (cases r) (auto simp: fs_Open_def flag_Has_def Let_def handle_of_def o)
qed

lemma stat_of_open [simp]: "snd (fs_Stat env p c s) = stat_body env p c (fst s)"
  by (simp add: fs_Stat_def)

lemma stat_router_frame [simp]: "fs_router (fst (fst (fs_Stat env p c s))) = fs_router (fst s)"
  by (simp add: fs_Stat_def)

lemma stat_handles [simp]: "handle_of i (fst (fst (fs_Stat env p c s))) = handle_of i (fst s)"
  using mounts_stat[of env p c s] by (simp add: handle_of_def mounts_of_def)

lemma stat_no_wait: "stat_body env p c fs \<noteq> Crash" "stat_body env p c fs \<noteq> Wait x"
  by (auto simp: stat_body_def stat_router_def Let_def split: if_splits option.splits sum.splits)

lemma sync_handle_sel [simp]:
  "hd_path (sync_handle fs h) = hd_path h" "hd_buf (sync_handle fs h) = hd_buf h"
  "hd_closed (sync_handle fs h) = hd_closed h" "hd_flags (sync_handle fs h) = hd_flags h"
  by (simp_all add: sync_handle_def split: option.split)

lemma create_flags_access: "create_flags flags \<noteq> 0 \<Longrightarrow> flags AND O_ACCMODE \<noteq> 0"
proof
  assume c: "create_flags flags \<noteq> 0" and z: "flags AND O_ACCMODE = 0"
  have "flags AND 2 = (flags AND O_ACCMODE) AND 2" by (simp add: O_ACCMODE_def and.assoc)
  with z have "flags AND 2 = 0" by simp
  with z c show False by (simp add: create_flags_def O_RDONLY_def O_RDWR_def O_WRONLY_def O_ACCMODE_def)
qed

lemma create_rest_result:
  assumes "create_rest num env p i mode s2 = (s', r)"
    and "handle_of i (fst (snd s2)) = Some h" and "hd_buf h = []" and "\<not> hd_closed h"
  obtains (failed) e t where "s' = fst (fuse_unmount env p t)" "r = fail_with e"
      "fs_router (fst (snd t)) = fs_router (fst (snd s2))"
  | (made) j out fh h' where "r = Reply (j, out, fh)" "fh_h fh = i" "fh_ino fh = in_ino j"
      "fs_router (fst (snd s')) = fs_router (fst (snd s2))" "map_of (rn_inodes (fst s')) p = Some j"
      "handle_of i (fst (snd s')) = Some h'" "hd_path h' = hd_path h" "\<not> hd_closed h'"
proof -
  obtain s3 rs where s3: "fuse_stat env p s2 = (s3, rs)" by fastforce
  have rs: "rs = stat_body env p anonymous (fst (snd s2))"
    and s3': "fst (snd s3) = sync_handles (fst (fst (fs_Stat env p anonymous (snd s2))))"
    using call_res_result[of "fs_Stat env p anonymous" s2] s3 by simp_all
  obtain h3 where h3: "handle_of i (fst (snd s3)) = Some h3" "hd_path h3 = hd_path h" "hd_buf h3 = []" "\<not> hd_closed h3"
    using assms(2-4) by (simp add: s3')
  have r3: "fs_router (fst (snd s3)) = fs_router (fst (snd s2))" by (simp add: s3')
  show thesis
  proof (cases rs)
    case (Ok st)
    obtain s4 j out where a: "add_node num p (S_IFREG OR (mode AND mode_0777)) st s3 = (s4, j, out)"
      by (metis prod_cases3)
    then have s4: "snd s4 = snd s3" "map_of (rn_inodes (fst s4)) p = Some j"
      by (auto simp: add_node_def NewInode_def keep_inode_def)
    have "(s', r) = (s4, Reply (j, out, \<lparr>fh_h = i, fh_readOnly = rn_readOnly (fst s3), fh_ino = in_ino j\<rparr>))"
      using assms(1) by (simp add: create_rest_def s3 Ok on_res_def a)
    with s4 h3 r3 show thesis by (intro made[of j out _ h3]) auto
  next
    case (Fail e)
    let ?c = "call_res (h_Close env i) s3"
    note close = fresh_close[OF h3(1,3,4), of env]
    have "fs_router (fst (snd (fst ?c))) = fs_router (fst (snd s2))" using close(2) r3 by simp
    moreover have "(s', r) = (fst (fuse_unmount env p (fst ?c)), fail_with e)"
      using assms(1) close(1) by (simp add: create_rest_def s3 Fail on_res_def split_beta)
    ultimately show thesis by (intro failed[of "fst ?c" e]) auto
  qed (metis rs stat_no_wait)+
qed

text \<open>What a mount of a plain entry leaves: refused, nothing; done, one mount that an unmount undoes.\<close>

lemma mount_refused_keeps:
  assumes "router_ok (fs_router fs)" and "plain_entry e" and "fs_Mount env w p e fs = (fs1, Some er)"
  shows "router_ok (fs_router fs1) \<and> mset (fs_Snapshot fs1) = mset (fs_Snapshot fs)"
proof -
  let ?e = "entry_defaults (fs_cfg fs) (env_now env w) p e"
  have "router_ok r' \<and> mset (router_snapshot r') = mset (router_snapshot (fs_router fs))"
    if "router_add (fs_router fs) ?e = (r', Inl x)" for r' x
    using router_add_snapshot[OF assms(1) that] router_add_ok[OF assms(1), of ?e] that by simp
  with mount_outcome[OF assms(2,3)] assms(1) show ?thesis by (auto simp: fs_Snapshot_def)
qed

lemma mounted_plain:
  assumes "router_ok (fs_router fs)" and "plain_entry e" and "fs_Mount env w p e fs = (fs1, None)"
    and "me_Kind e = KindBlob"
  obtains m ps where
    "mset (fs_Snapshot fs1) = add_mset m (mset (fs_Snapshot fs))" "mount_at (fs_router fs1) p = Some m"
    "me_Kind m = KindBlob" "me_BlobData m = me_BlobData e"
    "router_match (fs_router fs1) p = Inr \<lparr>rm_mount = Some m, rm_params = ps\<rparr>"
    "\<And>t v. fs_router t = fs_router fs1 \<Longrightarrow> router_ok (fs_router (fst (fs_Unmount env v p t))) \<and>
       mset (fs_Snapshot (fst (fs_Unmount env v p t))) = mset (fs_Snapshot fs)"
proof -
  let ?e = "entry_defaults (fs_cfg fs) (env_now env w) p e"
  from mount_outcome[OF assms(2,3)] obtain m where adm: "normalizePath p = Inr p"
    and ra: "router_add (fs_router fs) ?e = (fs_router fs1, Inr m)" by (auto simp: mount_admitted_def)
  have pe: "me_Path ?e = p" "plain_entry ?e" using assms(2) by (simp_all add: entry_defaults_def plain_entry_def)
  note new = router_add_new_mount[OF assms(1) ra, unfolded pe]
  from match_own[of "fs_router fs1" p m] new adm obtain ps where
    "router_match (fs_router fs1) p = Inr \<lparr>rm_mount = Some m, rm_params = ps\<rparr>" by blast
  moreover have "me_Kind m = KindBlob" "me_BlobData m = me_BlobData e"
    using new assms(4) by (simp_all add: entry_defaults_def)
  ultimately show thesis using new unmount_undoes[OF assms(1) ra pe(1) adm pe(2)]
    by (intro that[of m ps]) (simp_all add: fs_Snapshot_def)
qed

text \<open>The file is mounted; it is opened, and what is left is \<open>create_rest\<close>.\<close>

lemma create_open_result:
  assumes "createFile num env parent name flags mode (rn, fs, w) = (s', r)" and "\<not> rn_readOnly rn"
    and p: "p = path_Join (node_path parent) name"
    and "fs_Mount env w p (zero_entry\<lparr>me_Kind := KindBlob, me_Mode := mode AND mode_0777\<rparr>) fs = (fs1, None)"
    and "router_match (fs_router fs1) p = Inr \<lparr>rm_mount = Some m, rm_params = ps\<rparr>"
  obtains (failed) e t where "s' = fst (fuse_unmount env p t)" "r = fail_with e" "fs_router (fst (snd t)) = fs_router fs1"
  | (made) j out fh h where "r = Reply (j, out, fh)" "fh_ino fh = in_ino j"
      "fs_router (fst (snd s')) = fs_router fs1" "map_of (rn_inodes (fst s')) p = Some j"
      "handle_of (fh_h fh) (fst (snd s')) = Some h" "hd_path h = p" "\<not> hd_closed h" "flags AND O_ACCMODE \<noteq> 0"
proof -
  let ?e = "zero_entry\<lparr>me_Kind := KindBlob, me_Mode := mode AND mode_0777\<rparr>"
  define fl where "fl = create_flags flags"
  obtain s1 where s1: "fuse_mount env p ?e (rn, fs, w) = (s1, None)" "fst (snd s1) = sync_handles fs1"
    using call_err_result[of "\<lambda>w. fs_Mount env w p ?e" "(rn, fs, w)"] assms(4) by (metis fst_conv prod.collapse snd_conv)
  obtain s2 ro where s2: "fuse_open p fl s1 = (s2, ro)" by fastforce
  have "ro = snd (fuse_open p fl s1)" "s2 = fst (fuse_open p fl s1)" using s2 by simp_all
  then have ro: "ro = snd (fs_Open p fl anonymous (sync_handles fs1))"
    and s2': "fst (snd s2) = sync_handles (fst (fs_Open p fl anonymous (sync_handles fs1)))"
    by (simp_all only: call_res_result) (simp_all add: split_beta s1(2))
  have t: "fs_router (fst (snd s2)) = fs_router fs1" by (simp add: s2')
  have "createFile num env parent name flags mode (rn, fs, w) = on_res (s2, ro) (\<lambda>s2 r.
      case r of Inl e \<Rightarrow> (fst (fuse_unmount env p s2), fail_with e) | Inr h \<Rightarrow> create_rest num env p h mode s2)"
    using assms(2) s1 s2 unfolding p by (simp add: createFile_def fl_def Let_def)
  note start = this[unfolded assms(1)]
  from open_created[of "sync_handles fs1" p m ps fl anonymous] assms(5)
  consider (refused) e where "ro = Fail e"
    | (opened) i h where "ro = Ok i" "handle_of i (fst (snd s2)) = Some h" "hd_path h = p" "hd_buf h = []"
        "\<not> hd_closed h" "fl \<noteq> 0"
    unfolding ro s2' by fastforce
  then show thesis
  proof cases
    case refused
    with start t show thesis by (intro failed[of s2 e]) (auto simp: on_res_def)
  next
    case opened
    then have "create_rest num env p i mode s2 = (s', r)" using start by (simp add: on_res_def)
    from this opened(2,4,5) show thesis
      by (cases rule: create_rest_result)
        (use opened t create_flags_access[of flags] failed made in \<open>auto simp: fl_def\<close>)
  qed
qed

text \<open>
  A create either fails with an error number and leaves the mounts of the file system as
  they were, or answers with an inode of the new path, a handle and exactly one mount more: an
  empty blob at the path, opened by the handle. It never hangs and never panics. A create
  with the access mode O_RDONLY always fails: its flags name no access, so that the open
  is refused and the new mount is taken back.
\<close>

theorem fuse_create_all_or_nothing:
  assumes "router_ok (fs_router fs)"
    and "createFile num env parent name flags mode (rn, fs, w) = (s', r)"
  shows "case r of
      Errno e \<Rightarrow> router_ok (fs_router (fst (snd s'))) \<and> mset (fs_Snapshot (fst (snd s'))) = mset (fs_Snapshot fs)
    | Reply (i, out, fh) \<Rightarrow>
        (\<exists>m h. mset (fs_Snapshot (fst (snd s'))) = add_mset m (mset (fs_Snapshot fs)) \<and>
           mount_at (fs_router (fst (snd s'))) (path_Join (node_path parent) name) = Some m \<and>
           me_Kind m = KindBlob \<and> me_BlobData m = [] \<and>
           handle_of (fh_h fh) (fst (snd s')) = Some h \<and> hd_path h = path_Join (node_path parent) name \<and>
           \<not> hd_closed h \<and> map_of (rn_inodes (fst s')) (path_Join (node_path parent) name) = Some i \<and>
           fh_ino fh = in_ino i \<and> flags AND O_ACCMODE \<noteq> 0)
    | _ \<Rightarrow> False"
proof -
  let ?p = "path_Join (node_path parent) name"
  let ?e = "zero_entry\<lparr>me_Kind := KindBlob, me_Mode := mode AND mode_0777\<rparr>"
  have plain: "plain_entry ?e" by (simp add: plain_entry_def zero_entry_def)
  obtain fs1 err where mt: "fs_Mount env w ?p ?e fs = (fs1, err)" by fastforce
  consider "rn_readOnly rn" | er where "\<not> rn_readOnly rn" "err = Some er" | "\<not> rn_readOnly rn" "err = None" by blast
  then show ?thesis
  proof cases
    case 1
    with assms show ?thesis by (auto simp: createFile_def)
  next
    case 2
    obtain s1 where "fuse_mount env ?p ?e (rn, fs, w) = (s1, err)" "fst (snd s1) = sync_handles fs1"
      using call_err_result[of "\<lambda>w. fs_Mount env w ?p ?e" "(rn, fs, w)"] mt by (metis fst_conv prod.collapse snd_conv)
    with assms(2) 2 mount_refused_keeps[OF assms(1) plain mt[unfolded 2]] show ?thesis
      by (auto simp: createFile_def fail_with_def fs_Snapshot_def)
  next
    case 3
    with mt have mounted: "fs_Mount env w ?p ?e fs = (fs1, None)" by simp
    show ?thesis
    proof (rule mounted_plain[OF assms(1) plain mounted])
      show "me_Kind ?e = KindBlob" by simp
    next
      fix m ps
      assume new: "mset (fs_Snapshot fs1) = add_mset m (mset (fs_Snapshot fs))" "mount_at (fs_router fs1) ?p = Some m"
        "me_Kind m = KindBlob" "me_BlobData m = me_BlobData ?e"
        and mo: "router_match (fs_router fs1) ?p = Inr \<lparr>rm_mount = Some m, rm_params = ps\<rparr>"
        and undo: "\<And>t v. fs_router t = fs_router fs1 \<Longrightarrow> router_ok (fs_router (fst (fs_Unmount env v ?p t))) \<and>
          mset (fs_Snapshot (fst (fs_Unmount env v ?p t))) = mset (fs_Snapshot fs)"
      from assms(2) 3(1) refl mounted mo show ?thesis
      proof (cases rule: create_open_result)
        case (failed e t)
        with undo[of "fst (snd t)" "snd (snd t)"] show ?thesis by (simp add: fs_Snapshot_def fail_with_def)
      next
        case (made j out fh h)
        with new show ?thesis by (auto simp: fs_Snapshot_def zero_entry_def)
      qed
    qed
  qed
qed

lemma fuse_create_all_or_nothing_witness:
  "\<exists>s' e. createFile of_nat clock_env RootNode ''x'' O_RDONLY mode_0644 (demo_root, demo_fs, 7) = (s', Errno e) \<and>
     fs_Snapshot (fst (snd s')) = []"
proof -
  have r: "fs_router demo_fs = newRouter" by (simp add: demo_fs_eval)
  obtain s' x where c: "createFile of_nat clock_env RootNode ''x'' O_RDONLY mode_0644 (demo_root, demo_fs, 7) = (s', x)"
    by fastforce
  have "router_ok (fs_router demo_fs)" by (simp add: r router_ok_new)
  from fuse_create_all_or_nothing[OF this c] c show ?thesis
    by (cases x) (auto simp: O_RDONLY_def fs_Snapshot_def r router_snapshot_def newRouter_def empty_node_def)
qed

section \<open>Read-only servers\<close>

text \<open>The mounts are those of \<open>fs0\<close>, and no handle has anything buffered.\<close>

definition calm :: "fs_state \<Rightarrow> fs_state \<Rightarrow> bool" where
  "calm fs0 fs \<longleftrightarrow> fs_router fs = fs_router fs0 \<and> fs_writeback fs = fs_writeback fs0 \<and>
     fs_skills fs = fs_skills fs0 \<and> (\<forall>i h. handle_of i fs = Some h \<longrightarrow> hd_buf h = [])"

named_theorems stays_calm "operations that a calm file system stays calm under"

lemma calm_sync [simp]: "calm fs0 (sync_handles fs) = calm fs0 fs"
  by (fastforce simp: calm_def)

lemma calm_quiet: "mounts_of s' = mounts_of s \<Longrightarrow> calm fs0 (fst s) \<Longrightarrow> calm fs0 (fst s')"
  by (simp add: calm_def mounts_of_def handle_of_def)

lemmas calm_looks [stays_calm] = mounts_stat[THEN calm_quiet] mounts_readdir[THEN calm_quiet] mounts_read[THEN calm_quiet]

lemma open_cases:
  obtains "fst (fs_Open p flags c fs) = fs"
  | mk where "\<And>i. hd_buf (mk i) = []" "fst (fs_Open p flags c fs) = fs\<lparr>fs_handles := fst (hm_open mk (fs_handles fs))\<rparr>"
proof -
  define mk where "mk m = (\<lambda>i. \<lparr>hd_id = i, hd_path = p, hd_mount = m, hd_caller = c, hd_flags = flags,
    hd_closed = False, hd_buf = [],
    hd_policy = (case me_BufferPolicy m of None \<Rightarrow> zero_policy | Some p \<Rightarrow> p), hd_timer = TimerNil\<rparr>)" for m
  have "fst (fs_Open p flags c fs) = fs \<or>
      (\<exists>m. fst (fs_Open p flags c fs) = fs\<lparr>fs_handles := fst (hm_open (mk m) (fs_handles fs))\<rparr>)"
  proof (cases "router_match (fs_router fs) p")
    case (Inr rm)
    show ?thesis
    proof (cases "rm_mount rm")
      case (Some m)
      have "fst (fs_Open p flags c fs) = fs \<or>
          fst (fs_Open p flags c fs) = fs\<lparr>fs_handles := fst (hm_open (mk m) (fs_handles fs))\<rparr>"
        using Inr Some by (simp add: fs_Open_def Let_def split_beta mk_def)
      then show ?thesis by blast
    qed (use Inr in \<open>simp add: fs_Open_def\<close>)
  qed (simp add: fs_Open_def)
  moreover have "hd_buf (mk m i) = []" for m i by (simp add: mk_def)
  ultimately show thesis using that by metis
qed

lemma calm_open [stays_calm]:
  assumes "calm fs0 fs"
  shows "calm fs0 (fst (fs_Open p flags c fs))"
proof (cases rule: open_cases[of p flags c fs])
  case (2 mk)
  have "map_of (hm_objects (fst (hm_open mk (fs_handles fs)))) i = Some h \<Longrightarrow> hd_buf h = []" for i h
    using 2(1) assms
    by (auto simp: calm_def handle_of_def hm_open_def hm_acquire_def hm_put_def split: prod.splits sum.splits if_splits)
  with assms 2(2) show ?thesis by (simp add: calm_def handle_of_def)
qed (simp add: assms)

lemma calm_set: "calm fs0 (fst s) \<Longrightarrow> hd_buf h = [] \<Longrightarrow> calm fs0 (fst (set_handle i h s))"
  by (simp add: calm_def) (simp add: set_handle_def)

lemma calm_flushAll: "calm fs0 (fst s) \<Longrightarrow> calm fs0 (fst (fst (flushAllLocked env i s)))"
  by (auto simp: flushAllLocked_def on_handle_def stop_timer_def calm_def[of fs0 "fst s"]
      intro!: calm_set split: option.split)

lemma calm_flush [stays_calm]: "calm fs0 (fst s) \<Longrightarrow> calm fs0 (fst (fst (h_Flush env i s)))"
  by (auto simp: h_Flush_def on_handle_def calm_flushAll split: option.split)

lemma calm_locks: "calm fs0 (fst (with_locks m s)) = calm fs0 (fst s)" "calm fs0 (fst (drop_handle i s)) = calm fs0 (fst s)"
  by (simp_all add: calm_def handle_of_def with_locks_def drop_handle_def hm_drop_def)

lemma calm_rest: "calm fs0 (fst s) \<Longrightarrow> calm fs0 (fst (close_rest i p s))"
  by (auto simp: close_rest_def Let_def calm_locks stop_timer_def calm_def[of fs0 "fst s"] intro!: calm_set split: option.split)

lemma calm_close [stays_calm]:
  assumes "calm fs0 (fst s)"
  shows "calm fs0 (fst (fst (h_Close env i s)))"
proof (cases "handle_of i (fst s)")
  case (Some h)
  have "calm fs0 (fst (set_handle i (h\<lparr>hd_closed := True\<rparr>) s))"
    using assms Some by (intro calm_set) (simp_all add: calm_def)
  from calm_flushAll[OF this, of env i] show ?thesis
    using assms Some calm_rest by (auto simp: h_Close_def on_handle_def split: prod.split res.split)
qed (simp add: h_Close_def on_handle_def assms)

lemma calm_readAll [stays_calm]: "calm fs0 (fst s) \<Longrightarrow> calm fs0 (fst (fst (h_ReadAll env i s)))"
  by (auto simp: h_ReadAll_def on_handle_def split: option.split
      intro!: calm_quiet[OF mounts_stream_read] calm_quiet[OF mounts_read])

lemma calm_call: "calm fs0 (fst (fst (op (snd s)))) \<Longrightarrow> calm fs0 (fst (snd (fst (call_res op s))))"
  by simp

lemma calm_on_res:
  "calm fs0 (fst (snd (fst out))) \<Longrightarrow>
   (\<And>t r. calm fs0 (fst (snd t)) \<Longrightarrow> calm fs0 (fst (snd (fst (k t r))))) \<Longrightarrow>
   calm fs0 (fst (snd (fst (on_res out k))))"
  by (cases out; cases "snd out") (auto simp: on_res_def)

text \<open>
  The file handle that the answer to a request gives out, the file handle that a request uses,
  and the runs of a client that has only the handles it was given, as the kernel has.
\<close>

definition reply_handle :: "('a \<Rightarrow> file_handle) \<Rightarrow> 'a reply \<Rightarrow> file_handle list" where
  "reply_handle f r = (case r of Reply x \<Rightarrow> [f x] | _ \<Rightarrow> [])"

fun issued :: "(nat \<Rightarrow> u64) \<Rightarrow> 'w env \<Rightarrow> fuse_request \<Rightarrow> 'w fuse \<Rightarrow> file_handle list" where
  "issued num env (OpenReq node ino flags) s = reply_handle (\<lambda>fh. fh) (snd (node_Open node ino flags s))"
| "issued num env (CreateReq node name flags mode) s =
     reply_handle (\<lambda>(i, out, fh). fh) (snd (createFile num env node name flags mode s))"
| "issued num env req s = []"

fun used_handle :: "fuse_request \<Rightarrow> file_handle list" where
  "used_handle (ReadReq fh n off) = [fh]"
| "used_handle (WriteReq fh d off) = [fh]"
| "used_handle (FlushReq fh) = [fh]"
| "used_handle (ReleaseReq fh) = [fh]"
| "used_handle (FhGetattrReq fh) = [fh]"
| "used_handle (FhSetattrReq fh) = [fh]"
| "used_handle req = []"

fun kernel_run ::
  "(nat \<Rightarrow> u64) \<Rightarrow> 'w env \<Rightarrow> file_handle list \<Rightarrow> fuse_request list \<Rightarrow> 'w fuse \<Rightarrow> bool" where
  "kernel_run num env fhs [] s \<longleftrightarrow> True"
| "kernel_run num env fhs (req # reqs) s \<longleftrightarrow>
     set (used_handle req) \<subseteq> set fhs \<and>
     kernel_run num env (issued num env req s @ fhs) reqs (fuse_step num env req s)"

text \<open>On a read-only server every handle that is given out has the mark.\<close>

lemma call_res_read_only: "rn_readOnly (fst (fst (call_res op s))) = rn_readOnly (fst s)"
  using fixed.call_kept(1)[of s "rn_readOnly (fst s)" "rn_listener (fst s)" op] by (simp add: fixed.holds_def)

lemma after_read_only [simp]: "rn_readOnly (fst (after_call n s)) = rn_readOnly (fst s)"
  using fixed.after_kept[of s "rn_readOnly (fst s)" "rn_listener (fst s)" n] by simp

lemma issued_marked:
  assumes "rn_readOnly (fst s)" and "fh \<in> set (issued num env req s)"
  shows "fh_readOnly fh"
proof (cases req)
  case (OpenReq node ino flags)
  show ?thesis
  proof (cases node)
    case (PathNode p)
    let ?c = "fuse_open p (openFlagsFromFUSE flags) s"
    have "rn_readOnly (fst (fst ?c))" using assms(1) call_res_read_only by metis
    with assms(2) OpenReq PathNode show ?thesis
      by (cases ?c; cases "snd ?c")
        (auto simp: node_Open_def reply_handle_def on_res_def fail_with_def split: reply.splits sys_errno.splits)
  qed (use assms(2) OpenReq in \<open>simp_all add: node_Open_def reply_handle_def\<close>)
qed (use assms in \<open>simp_all add: createFile_def reply_handle_def\<close>)

lemma calm_step:
  assumes "rn_readOnly (fst s)" and "\<forall>fh\<in>set (used_handle req). fh_readOnly fh" and "calm fs0 (fst (snd s))"
  shows "calm fs0 (fst (snd (fuse_step num env req s)))"
  using assms
  by (cases req)
    (auto simp: root_Lookup_def path_Lookup_def path_Getattr_def path_Setattr_def node_Readdir_def node_Readlink_def
      createFile_def mkdir_def symlink_def make_node_def unlink_def rmdir_def fuse_rename_def node_Open_def fh_Read_def
      fh_Write_def fh_Flush_def fh_Release_def fh_Getattr_def fh_Setattr_def with_root_def Let_def split_beta
      intro!: calm_on_res calm_call stays_calm split: embedder.split option.split sum.split)

text \<open>
  C24: a server that was mounted read-only changes no mount, no written answer and no
  generated file, over every run of requests that use the file handles which the server
  itself has given out in the run, when
  no handle of the file system had anything buffered at the start. Reading may still take
  bytes out of streams and call providers.
\<close>

theorem fuse_read_only:
  assumes "mo_ReadOnly o1" and "\<forall>i h. handle_of i (fst s) = Some h \<longrightarrow> hd_buf h = []"
    and "kernel_run num env [] reqs (fuse_Mount o1 s)"
  shows "calm (fst s) (fst (snd (fold (fuse_step num env) reqs (fuse_Mount o1 s))))"
proof -
  have "rn_readOnly (fst t) \<Longrightarrow> calm (fst s) (fst (snd t)) \<Longrightarrow> kernel_run num env fhs reqs t \<Longrightarrow>
      \<forall>fh\<in>set fhs. fh_readOnly fh \<Longrightarrow> calm (fst s) (fst (snd (fold (fuse_step num env) reqs t)))"
    for t fhs
  proof (induction reqs arbitrary: t fhs)
    case (Cons req reqs)
    have "rn_readOnly (fst (fuse_step num env req t))"
      using fixed.step_kept[of t True "rn_listener (fst t)" num env req] Cons.prems(1) by simp
    moreover have "calm (fst s) (fst (snd (fuse_step num env req t)))"
      using Cons.prems by (intro calm_step) auto
    moreover have "\<forall>fh\<in>set (issued num env req t @ fhs). fh_readOnly fh"
      using issued_marked[OF Cons.prems(1)] Cons.prems(4) by auto
    moreover have "kernel_run num env (issued num env req t @ fhs) reqs (fuse_step num env req t)"
      using Cons.prems(3) by simp
    ultimately show ?case using Cons.IH by simp
  qed simp
  moreover have "rn_readOnly (fst (fuse_Mount o1 s))" using assms(1) by (simp add: fuse_Mount_def split_beta)
  moreover have "calm (fst s) (fst (snd (fuse_Mount o1 s)))"
    using assms(2) by (simp add: fuse_Mount_def RegisterNotifier_def calm_def handle_of_def split_beta)
  ultimately show ?thesis using assms(3) by fastforce
qed

lemma read_only_open:
  "issued of_nat clock_env (OpenReq (PathNode ''/a'') 2 0) (fuse_Mount (plain_opts\<lparr>mo_ReadOnly := True\<rparr>) (blob_fs rw_blob, 7)) =
     [\<lparr>fh_h = 1, fh_readOnly = True, fh_ino = 2\<rparr>]"
proof -
  let ?fs = "fst (RegisterNotifier [] (blob_fs rw_blob))"
  have f: "openFlagsFromFUSE 0 = OpenRead" by code_simp
  have "fs_router ?fs = fs_router (blob_fs rw_blob)" by (simp add: RegisterNotifier_def split_beta)
  then have "router_match (fs_router ?fs) ''/a'' = Inr \<lparr>rm_mount = Some (rw_blob\<lparr>me_ID := 1\<rparr>), rm_params = empty_params\<rparr>"
    "canAccessNamespace anonymous (Some (rw_blob\<lparr>me_ID := 1\<rparr>))"
    "canAccess anonymous (me_UID rw_blob) (me_GID rw_blob) (me_Mode rw_blob) OpRead"
    using blob_fs_access[of OpRead "''readable''"] by (simp_all add: access_check_Inr)
  then have "snd (fs_Open ''/a'' OpenRead anonymous ?fs) = Ok 1"
    by (simp add: fs_Open_def flag_Has_def hm_open_def hm_acquire_def blob_fs_def demo_fs_eval newHandleManager_def RegisterNotifier_def split_beta)
  then show ?thesis
    by (simp add: node_Open_def f call_res_def fuse_Mount_def split_beta on_res_def reply_handle_def)
qed

lemma fuse_read_only_witness:
  "calm (blob_fs rw_blob) (fst (snd (fold (fuse_step of_nat clock_env)
     [OpenReq (PathNode ''/a'') 2 0, UnlinkReq RootNode ''a'',
      WriteReq \<lparr>fh_h = 1, fh_readOnly = True, fh_ino = 2\<rparr> ''xy'' 0, MkdirReq RootNode ''d'' 0]
     (fuse_Mount (plain_opts\<lparr>mo_ReadOnly := True\<rparr>) (blob_fs rw_blob, 7)))))"
proof -
  have e: "\<forall>i h. handle_of i (fst (blob_fs rw_blob, 7 :: int)) = Some h \<longrightarrow> hd_buf h = []"
    by (simp add: blob_fs_def demo_fs_eval handle_of_def newHandleManager_def)
  note run = fuse_read_only[OF _ e, unfolded fst_conv]
  show ?thesis by (rule run) (simp_all add: read_only_open del: issued.simps(1))
qed

end
