(* ===== verification/WinFuse.thy ===== *)
theory WinFuse
  imports FuseProps
begin

text \<open>
  The FUSE adapter for Windows, adapter/fuse/mount_windows.go: the requests of WinFsp on the
  engine, with a table of handles that the adapter numbers itself.

  The adapter passes a nil context to the methods of handles. The model takes it for one that
  never ends; a provider with a timeout panics on it, and the http provider refuses it.
\<close>

section \<open>State and numbers\<close>

record win_fs =
  wf_readOnly :: bool
  wf_handles :: "(u64 \<times> string \<times> u64) list"
  wf_nextFH :: u64

type_synonym 'w win = "win_fs \<times> 'w fsw"

definition win_Mount :: "mount_options \<Rightarrow> 'w fsw \<Rightarrow> 'w win" where
  "win_Mount o1 s = (\<lparr>wf_readOnly = mo_ReadOnly o1, wf_handles = [], wf_nextFH = 1\<rparr>, s)"

text \<open>\<open>^uint64(0)\<close>, which stands for no handle.\<close>

definition no_handle :: u64 where
  "no_handle = - 1"

fun win_errno_of :: "errno option \<Rightarrow> errno" where
  "win_errno_of (Some ENOENT) = ENOENT"
| "win_errno_of (Some EACCES) = EACCES"
| "win_errno_of (Some EEXIST) = EEXIST"
| "win_errno_of (Some EINVAL) = EINVAL"
| "win_errno_of (Some ENOTDIR) = ENOTDIR"
| "win_errno_of (Some EISDIR) = EISDIR"
| "win_errno_of (Some ENOSYS) = ENOSYS"
| "win_errno_of _ = EIO"

definition win_toErrno :: "go_error option \<Rightarrow> sys_errno option" where
  "win_toErrno err = (if err = None then None else Some (Sys (win_errno_of (ExtractErrno err))))"

definition win_fail :: "go_error \<Rightarrow> 'a reply" where
  "win_fail e = Errno (Sys (win_errno_of (ExtractErrno (Some e))))"

record win_stat =
  wt_Mode :: u32
  wt_Size :: int
  wt_Uid :: u32
  wt_Gid :: u32
  wt_Time :: "time option"

text \<open>A dynamic directory is shown as a file.\<close>

definition fillStat :: "stat \<Rightarrow> win_stat" where
  "fillStat st =
     \<lparr>wt_Mode = (case st_Kind st of KindDir \<Rightarrow> S_IFDIR | KindLink \<Rightarrow> S_IFLNK | _ \<Rightarrow> S_IFREG) OR st_Mode st,
      wt_Size = st_Size st, wt_Uid = 1000, wt_Gid = 1000,
      wt_Time = (if st_ModTime st \<noteq> 0 then Some (st_ModTime st) else None)\<rparr>"

section \<open>Requests\<close>

definition on_win ::
  "win_fs \<Rightarrow> 'w fsw \<times> 'a res \<Rightarrow> (win_fs \<Rightarrow> 'w fsw \<Rightarrow> go_error + 'a \<Rightarrow> 'w win \<times> 'b reply) \<Rightarrow> 'w win \<times> 'b reply" where
  "on_win wn out k =
     (case out of
        (s, Ok x) \<Rightarrow> k wn s (Inr x)
      | (s, Fail e) \<Rightarrow> k wn s (Inl e)
      | (s, Wait rest) \<Rightarrow> ((wn, s), Stuck)
      | (s, Crash) \<Rightarrow> ((wn, s), Died))"

definition win_flags :: "u32 \<Rightarrow> u32" where
  "win_flags flags =
     (let of0 = (if flags AND (O_WRONLY OR O_RDWR) \<noteq> 0 then OpenRead OR OpenWrite else OpenRead)
      in if flags AND O_APPEND \<noteq> 0 then of0 OR OpenAppend else of0)"

definition open_at :: "string \<Rightarrow> u32 \<Rightarrow> 'w fsw \<Rightarrow> 'w fsw \<times> u64 res" where
  "open_at p flags s = (let (fs', r) = fs_Open p flags anonymous (fst s) in ((fs', snd s), r))"

definition add_handle :: "string \<Rightarrow> u64 \<Rightarrow> win_fs \<Rightarrow> win_fs \<times> u64" where
  "add_handle p h wn =
     (wn\<lparr>wf_handles := mput (wf_nextFH wn) (p, h) (wf_handles wn), wf_nextFH := wf_nextFH wn + 1\<rparr>, wf_nextFH wn)"

definition win_Open :: "string \<Rightarrow> u32 \<Rightarrow> 'w win \<Rightarrow> 'w win \<times> u64 reply" where
  "win_Open p flags s0 =
     on_win (fst s0) (open_at p (win_flags flags) (snd s0)) (\<lambda>wn s r.
       case r of
         Inl e \<Rightarrow> ((wn, s), win_fail e)
       | Inr h \<Rightarrow> (let (wf1, fh) = add_handle p h wn in ((wf1, s), Reply fh)))"

definition win_Getattr :: "'w env \<Rightarrow> string \<Rightarrow> u64 \<Rightarrow> 'w win \<Rightarrow> 'w win \<times> win_stat reply" where
  "win_Getattr env p fh s0 =
     (let path = (if fh \<noteq> no_handle
                  then (case map_of (wf_handles (fst s0)) fh of None \<Rightarrow> p | Some (q, h) \<Rightarrow> q) else p)
      in on_win (fst s0) (fs_Stat env path anonymous (snd s0)) (\<lambda>wn s r.
           ((wn, s), case r of Inl e \<Rightarrow> win_fail e | Inr st \<Rightarrow> Reply (fillStat st))))"

definition win_Read :: "'w env \<Rightarrow> nat \<Rightarrow> int \<Rightarrow> u64 \<Rightarrow> 'w win \<Rightarrow> 'w win \<times> bytes reply" where
  "win_Read env n ofst fh s0 =
     (case map_of (wf_handles (fst s0)) fh of
        None \<Rightarrow> (s0, Errno (Sys ENOENT))
      | Some (q, h) \<Rightarrow>
          on_win (fst s0) (h_ReadAll env h (snd s0)) (\<lambda>wn s r.
            ((wn, s), case r of Inl e \<Rightarrow> win_fail e | Inr data \<Rightarrow> slice_reply (read_at data n ofst))))"

definition win_Write :: "'w env \<Rightarrow> bytes \<Rightarrow> int \<Rightarrow> u64 \<Rightarrow> 'w win \<Rightarrow> 'w win \<times> nat reply" where
  "win_Write env buff ofst fh s0 =
     (case map_of (wf_handles (fst s0)) fh of
        None \<Rightarrow> (s0, Errno (Sys ENOENT))
      | Some (q, h) \<Rightarrow>
          on_win (fst s0) (h_Write env h buff (snd s0)) (\<lambda>wn s r.
            ((wn, s), case r of Inl e \<Rightarrow> win_fail e | Inr u \<Rightarrow> Reply (length buff))))"

text \<open>The error of the close is dropped.\<close>

definition win_Release :: "'w env \<Rightarrow> u64 \<Rightarrow> 'w win \<Rightarrow> 'w win \<times> unit reply" where
  "win_Release env fh s0 =
     (case map_of (wf_handles (fst s0)) fh of
        None \<Rightarrow> (s0, Reply ())
      | Some (q, h) \<Rightarrow>
          on_win (fst s0) (h_Close env h (snd s0)) (\<lambda>wn s r.
            ((wn\<lparr>wf_handles := mdel fh (wf_handles wn)\<rparr>, s), Reply ())))"

text \<open>
  filepath.Join of this system, for a rooted directory without a volume: both slashes
  separate, and the path that comes back is written with backslashes.
\<close>

definition win_Join :: "string \<Rightarrow> string \<Rightarrow> string" where
  "win_Join dir name =
     (let slash = (\<lambda>c. if c = CHR 0x5C then CHR ''/'' else c); back = (\<lambda>c. if c = CHR ''/'' then CHR 0x5C else c)
      in map back (path_Join (map slash dir) (map slash name)))"

text \<open>The names with their attributes, of which those that cannot be had stay empty.\<close>

fun fill_entries ::
  "'w env \<Rightarrow> string \<Rightarrow> dir_entry list \<Rightarrow> 'w fsw \<Rightarrow> 'w fsw \<times> (string \<times> win_stat option) list" where
  "fill_entries env p [] s = (s, [])"
| "fill_entries env p (e # es) s =
     (let (s1, r) = fs_Stat env (win_Join p (de_Name e)) anonymous s;
          (s2, xs) = fill_entries env p es s1
      in (s2, (de_Name e, case r of Ok st \<Rightarrow> Some (fillStat st) | _ \<Rightarrow> None) # xs))"

definition win_Readdir :: "'w env \<Rightarrow> string \<Rightarrow> 'w win \<Rightarrow> 'w win \<times> (string \<times> win_stat option) list reply" where
  "win_Readdir env p s0 =
     on_win (fst s0) (fs_Readdir env p anonymous (snd s0)) (\<lambda>wn s r.
       case r of
         Inl e \<Rightarrow> ((wn, s), win_fail e)
       | Inr es \<Rightarrow> (let (s1, xs) = fill_entries env p es s
                     in ((wn, s1), Reply ((''.'', None) # (''..'', None) # xs))))"

definition win_Create :: "'w env \<Rightarrow> string \<Rightarrow> u32 \<Rightarrow> 'w win \<Rightarrow> 'w win \<times> u64 reply" where
  "win_Create env p mode s0 =
     (let (wf0, fs0, w) = s0
      in if wf_readOnly wf0 then (s0, Errno EROFS)
         else (case fs_Mount env w p (zero_entry\<lparr>me_Kind := KindBlob, me_Mode := mode AND mode_0777\<rparr>) fs0 of
                 (fs1, Some e) \<Rightarrow> ((wf0, fs1, w), win_fail e)
               | (fs1, None) \<Rightarrow>
                   on_win wf0 (open_at p (OpenRead OR OpenWrite) (fs1, w)) (\<lambda>wn s r.
                     case r of
                       Inl e \<Rightarrow> ((wn, fst (fs_Unmount env w p (fst s)), w), win_fail e)
                     | Inr h \<Rightarrow> (let (wf1, fh) = add_handle p h wn in ((wf1, s), Reply fh)))))"

text \<open>The requests that are one call of the engine.\<close>

definition win_change ::
  "('w \<Rightarrow> fs_state \<Rightarrow> fs_state \<times> go_error option) \<Rightarrow> 'w win \<Rightarrow> 'w win \<times> unit reply" where
  "win_change op s0 =
     (let (wn, fs0, w) = s0
      in if wf_readOnly wn then (s0, Errno EROFS)
         else (let (fs1, e) = op w fs0 in ((wn, fs1, w), errno_reply (win_toErrno e))))"

definition win_Mkdir :: "'w env \<Rightarrow> string \<Rightarrow> u32 \<Rightarrow> 'w win \<Rightarrow> 'w win \<times> unit reply" where
  "win_Mkdir env p mode =
     win_change (\<lambda>w. fs_Mount env w p (zero_entry\<lparr>me_Kind := KindDir, me_Mode := mode AND mode_0777\<rparr>))"

definition win_Unlink :: "'w env \<Rightarrow> string \<Rightarrow> 'w win \<Rightarrow> 'w win \<times> unit reply" where
  "win_Unlink env p = win_change (\<lambda>w. fs_Unmount env w p)"

definition win_Rmdir :: "'w env \<Rightarrow> string \<Rightarrow> 'w win \<Rightarrow> 'w win \<times> unit reply" where
  "win_Rmdir env p = win_change (\<lambda>w. fs_Unmount env w p)"

definition win_Rename :: "'w env \<Rightarrow> string \<Rightarrow> string \<Rightarrow> 'w win \<Rightarrow> 'w win \<times> unit reply" where
  "win_Rename env p q = win_change (\<lambda>w. fs_Rename env w p q)"

text \<open>Access, Chmod, Chown and Utimens always succeed.\<close>

definition win_Access :: "'w win \<Rightarrow> 'w win \<times> unit reply" where
  "win_Access s = (s, Reply ())"

section \<open>Properties\<close>

lemma win_Join_backslash: "\<exists>q. win_Join p n = CHR 0x5C # q"
  by (auto simp: win_Join_def path_Join_def path_of_def Let_def)

lemma stat_not_absolute:
  assumes "p = CHR 0x5C # q"
  shows "\<exists>e. snd (fs_Stat env p c s) = Fail e"
  using assms
  by (simp add: fs_Stat_def finish_def stat_body_def stat_router_def router_match_def not_absolute_def
      skillDirPath_def skillFilePath_def has_prefix_def skills_prefix_def Let_def split_beta)

lemma fill_entries_blank:
  "snd (fill_entries env p es s) = map (\<lambda>e. (de_Name e, None)) es"
proof (induction es arbitrary: s)
  case (Cons e es)
  obtain q where "win_Join p (de_Name e) = CHR 0x5C # q" using win_Join_backslash by blast
  then obtain x where "snd (fs_Stat env (win_Join p (de_Name e)) anonymous s) = Fail x"
    using stat_not_absolute by blast
  then show ?case using Cons.IH by (simp add: split_beta)
qed simp

text \<open>
  C37: a listing on Windows shows no attributes of any entry. The path of an entry is joined with
  backslashes, which the engine refuses, and the refusal is taken for an entry without attributes.
\<close>

theorem win_listing_blank:
  assumes "win_Readdir env p s0 = (s1, Reply xs)"
  shows "\<forall>x\<in>set xs. snd x = None"
proof -
  obtain s r where R: "fs_Readdir env p anonymous (snd s0) = (s, r)" by fastforce
  with assms obtain es where r: "r = Ok es"
    by (cases r) (auto simp: win_Readdir_def on_win_def win_fail_def)
  have "xs = (''.'', None) # (''..'', None) # snd (fill_entries env p es s)"
    using assms R r by (simp add: win_Readdir_def on_win_def Let_def split_beta)
  then show ?thesis by (auto simp: fill_entries_blank)
qed

text \<open>
  The server for Windows is read-only for new names alone. A file can still be opened for
  writing, and a write through the handle replaces the whole contents by the payload, at
  whatever offset the system asked for, whether or not the server is read-only.
\<close>

theorem win_read_only_writes:
  assumes "map_of (wf_handles wn) fh = Some (q, n)" and "handle_of n fs = Some h" and "\<not> hd_closed h"
    and "flag_Has (hd_flags h) OpenWrite \<or> flag_Has (hd_flags h) OpenAppend"
    and "bp_Mode (hd_policy h) \<noteq> WriteBuffered" and "me_Kind (hd_mount h) = KindBlob"
    and "access_check OpWrite ''writable'' (hd_path h) (hd_caller h) (fs_router fs) = Inr (hd_mount h, ps)"
    and "int (length d) \<le> g_MaxBlobSize (fs_cfg fs)"
  shows "(\<exists>fsw. win_Write env d ofst fh (wn, fs, w) = ((wn, fsw), Reply (length d)) \<and>
      fs_router (fst fsw) = router_update (hd_path h) (with_data d (env_now env w)) (fs_router fs)) \<and>
    snd (win_Open p f (wn\<lparr>wf_readOnly := ro\<rparr>, s)) = snd (win_Open p f (wn, s))"
proof
  obtain fsw r where W: "fs_Write env (hd_path h) d (hd_caller h) (fs, w) = (fsw, r)" by fastforce
  have r: "r = Ok ()" "fs_router (fst fsw) = router_update (hd_path h) (with_data d (env_now env w)) (fs_router fs)"
    using blob_write_result[OF _ assms(6) W, of ps] assms(7,8) by (auto split: if_splits)
  have "h_Write env n d (fs, w) = (fsw, Ok ())"
    using assms(2-6) W r by (auto simp: h_Write_def on_handle_def)
  then have "win_Write env d ofst fh (wn, fs, w) = ((wn, fsw), Reply (length d))"
    using assms(1) by (cases fsw) (simp add: win_Write_def on_win_def)
  then show "\<exists>fsw. win_Write env d ofst fh (wn, fs, w) = ((wn, fsw), Reply (length d)) \<and>
      fs_router (fst fsw) = router_update (hd_path h) (with_data d (env_now env w)) (fs_router fs)"
    using r by blast
  show "snd (win_Open p f (wn\<lparr>wf_readOnly := ro\<rparr>, s)) = snd (win_Open p f (wn, s))"
    by (auto simp: win_Open_def on_win_def add_handle_def Let_def split: prod.splits res.splits)
qed

lemma win_read_only_writes_witness:
  "\<exists>fsw. win_Write clock_env ''xy'' 1 1 (\<lparr>wf_readOnly = True, wf_handles = [(1, ''/a'', 1)], wf_nextFH = 2\<rparr>, open_fs, 7) =
      ((\<lparr>wf_readOnly = True, wf_handles = [(1, ''/a'', 1)], wf_nextFH = 2\<rparr>, fsw), Reply 2)"
proof -
  let ?wn = "\<lparr>wf_readOnly = True, wf_handles = [(1::u64, ''/a'', 1::u64)], wf_nextFH = 2\<rparr>"
  define h where "h = \<lparr>hd_id = 1, hd_path = ''/a'', hd_mount = rw_blob\<lparr>me_ID := 1\<rparr>, hd_caller = anonymous,
    hd_flags = OpenWrite, hd_closed = False, hd_buf = [], hd_policy = zero_policy, hd_timer = TimerNil\<rparr>"
  have m: "map_of (wf_handles ?wn) 1 = Some (''/a'', 1)" by simp
  have h: "handle_of 1 open_fs = Some h" by (simp add: open_fs_def handle_of_def h_def)
  have acc: "access_check OpWrite ''writable'' (hd_path h) (hd_caller h) (fs_router open_fs) = Inr (hd_mount h, empty_params)"
    using blob_fs_access[of OpWrite "''writable''"] by (simp add: h_def open_fs_router)
  from win_read_only_writes[OF m h _ _ _ _ acc, where d = "''xy''" and env = clock_env and ofst = 1 and w = 7
      and p = "''/a''" and f = 0 and ro = True and s = "(open_fs, 7)"]
  obtain fsw where "win_Write clock_env ''xy'' 1 1 (?wn, open_fs, 7) = ((?wn, fsw), Reply (length ''xy''))"
    by (auto simp: h_def flag_Has_def rw_blob_def demo_entry_def zero_policy_def open_fs_router demo_fs_eval)
  then show ?thesis by (simp add: numeral_2_eq_2)
qed

lemma win_listing_blank_witness:
  "snd (win_Readdir clock_env ''/sys'' (\<lparr>wf_readOnly = False, wf_handles = [], wf_nextFH = 1\<rparr>, open_fs, 7)) =
     Reply [(''.'', None), (''..'', None), (''metrics'', None)]"
proof -
  define s where "s = (\<lparr>wf_readOnly = False, wf_handles = [], wf_nextFH = 1\<rparr>, open_fs, 7 :: int)"
  obtain s1 xs where R: "win_Readdir clock_env ''/sys'' s = (s1, Reply xs)" "map fst xs = [''.'', ''..'', ''metrics'']"
    by (auto simp: win_Readdir_def on_win_def fs_Readdir_def finish_def readdir_body_def blob_file_def Let_def split_beta)
  then have "xs = map (\<lambda>n. (n, None)) [''.'', ''..'', ''metrics'']"
    using win_listing_blank[OF R(1)] by (auto simp: map_eq_Cons_conv prod_eq_iff)
  then show ?thesis using R(1) by (simp add: s_def)
qed

end
