(* ===== verification/WebSocketProps.thy ===== *)
theory WebSocketProps
  imports WebSocket Quiet
begin

text \<open>
  What a WebSocket connection guarantees: its subscriptions and the listeners in the bus stay
  in step and end with it, events arrive in order, a read-only server changes nothing, and a
  batch does what its operations do one by one.
\<close>

section \<open>The events of a call\<close>

text \<open>The listeners, with the calls of them so far.\<close>

definition calls_part where
  "calls_part fs = (fs_calls fs, fs_events fs)"

lemma calls_finish [simp]: "calls_part (fst (fst (finish env o1 name path caller t0 out))) = calls_part (fst (fst out))"
  by (auto simp: calls_part_def finish_def fs_audit_def Let_def split: prod.splits res.splits)

named_theorems calls_keep "calls of the engine that emit nothing"

lemma calls_invoke [calls_keep]: "fs_invoke env cap o1 p ps d c s = (s', r) \<Longrightarrow> calls_part (fst s') = calls_part (fst s)"
  by (auto simp: calls_part_def fs_invoke_def split: prod.splits)

lemma calls_providerFor [calls_keep]: "fs_providerFor env m o1 p s = (s', r) \<Longrightarrow> calls_part (fst s') = calls_part (fst s)"
  by (auto simp: calls_part_def fs_providerFor_def split: prod.splits)

lemma calls_record [simp]: "calls_part (fst (fs_record env i ok s)) = calls_part (fst s)"
  by (simp add: calls_part_def fs_record_def)

lemma calls_fields [simp]:
  "calls_part (fs\<lparr>fs_async := a\<rparr>) = calls_part fs" "calls_part (fst (put_stream p b s)) = calls_part (fst s)"
  "calls_part (fs\<lparr>fs_streams := x\<rparr>) = calls_part fs" "calls_part (fs\<lparr>fs_writeback := y\<rparr>) = calls_part fs"
  "calls_part (with_router r fs) = calls_part fs"
  by (simp_all add: calls_part_def put_stream_def with_router_def)

lemma calls_api: "calls_part (fst (fst (read_api env p c m ps s))) = calls_part (fst s)"
  by (auto simp: read_api_def Let_def split: option.splits sum.splits prod.splits dest!: calls_keep)

lemma calls_stream_read: "calls_part (fst (fst (stream_read p cfg n b s))) = calls_part (fst s)"
  by (auto simp: stream_read_def Let_def split: prod.splits go.splits sum.splits)

lemma calls_read: "calls_part (fst (fst (fs_Read env p c s))) = calls_part (fst s)"
  by (auto simp: fs_Read_def read_body_def calls_api calls_stream_read
      split: option.splits sum.splits prod.splits node_kind.splits)

text \<open>An operation that may call listeners and leaves the set of them alone.\<close>

definition only_calls :: "fs_state \<Rightarrow> fs_state \<Rightarrow> bool" where
  "only_calls fs fs' \<longleftrightarrow>
     eb_subs (fs_events fs') = eb_subs (fs_events fs) \<and> (\<exists>new. fs_calls fs' = fs_calls fs @ new)"

lemma only_calls_same: "calls_part fs' = calls_part fs \<Longrightarrow> only_calls fs fs'"
  by (simp add: only_calls_def calls_part_def)

lemma only_calls_emit: "calls_part fs' = calls_part fs \<Longrightarrow> only_calls fs (fs_emit p k fs')"
  by (auto simp: only_calls_def calls_part_def fs_emit_def emit_def Let_def)

lemma only_calls_trans: "only_calls a b \<Longrightarrow> calls_part c = calls_part b \<Longrightarrow> only_calls a c"
  by (simp add: only_calls_def calls_part_def)

lemma calls_writeBlob: "calls_part (fst (writeBlob now path payload caller fs)) = calls_part fs"
  by (auto simp: writeBlob_def split: sum.splits option.splits)

lemma calls_stream_write: "calls_part (fst (fst (stream_write path cfg nonblock payload s))) = calls_part (fst s)"
  by (simp add: stream_write_def Let_def split_beta)

lemma calls_write_blob: "only_calls (fst s) (fst (fst (write_blob_step env path payload caller s)))"
  using calls_writeBlob[of "env_now env (snd s)" path payload caller "fst s"]
  by (auto simp: write_blob_step_def intro!: only_calls_same only_calls_emit split: prod.splits res.splits)

lemma calls_write_api: "only_calls (fst s) (fst (fst (write_api env path payload caller m ps s)))"
proof -
  obtain s1 r where p: "fs_providerFor env m OpWrite path s = (s1, r)" by fastforce
  note s1 = calls_providerFor[OF p]
  show ?thesis
  proof (cases r)
    case (Inl e)
    with p s1 show ?thesis by (simp add: write_api_def only_calls_same)
  next
    case (Inr cap)
    obtain s2 x where i: "fs_invoke env cap OpWrite path ps payload caller s1 = (s2, x)" by fastforce
    have "calls_part (fst s2) = calls_part (fst s)" using calls_invoke[OF i] s1 by simp
    with p Inr i show ?thesis
      by (auto simp: write_api_def Let_def intro!: only_calls_same only_calls_emit split: sum.splits prod.splits option.splits)
  qed
qed

lemma calls_write: "only_calls (fst s) (fst (fst (fs_Write env path payload caller s)))"
proof -
  have st: "calls_part (fst s1) = calls_part (fst s)" if "stream_write path cfg False payload s = (s1, r)" for cfg s1 r
    using calls_stream_write[of path cfg False payload s] that by simp
  have "only_calls (fst s) (fst (fst (write_body env path payload caller s)))"
  proof (cases "access_check OpWrite ''writable'' path caller (fs_router (fst s))")
    case (Inr mp)
    obtain m ps where mp: "mp = (m, ps)" by (cases mp)
    show ?thesis
    proof (cases "me_Kind m")
      case KindStream
      with Inr mp st show ?thesis
        by (auto simp: write_body_def intro!: only_calls_same only_calls_emit split: prod.split res.split)
    qed (use Inr mp calls_write_blob calls_write_api in \<open>simp_all add: write_body_def only_calls_same\<close>)
  qed (simp add: write_body_def only_calls_same)
  then show ?thesis unfolding fs_Write_def by (rule only_calls_trans) simp
qed

section \<open>The invariant of a connection\<close>

text \<open>The replies a channel has sent on.\<close>

fun sent_on :: "nat \<Rightarrow> ws_frame list \<Rightarrow> ws_reply list" where
  "sent_on j [] = []"
| "sent_on j (EventFrame k r # fs) = (if k = j then r # sent_on j fs else sent_on j fs)"
| "sent_on j (_ # fs) = sent_on j fs"

lemma sent_on_append [simp]: "sent_on j (xs @ ys) = sent_on j xs @ sent_on j ys"
  by (induction j xs rule: sent_on.induct) auto

text \<open>
  A channel: at most 16 events wait; what was sent and what waits is, in order, a part of what
  was offered; while the connection lives nothing is missing but what was counted as dropped.
\<close>

definition chan_ok :: "ws_conn \<Rightarrow> nat \<Rightarrow> bool" where
  "chan_ok c j \<longleftrightarrow>
     (let ch = wc_chans c ! j
      in length (ch_queue ch) \<le> ws_capacity \<and>
         subseq (sent_on j (wc_out c) @ map (event_reply (ch_sub ch)) (ch_queue ch)) (map (event_reply (ch_sub ch)) (ch_offered ch)) \<and>
         (wc_state c \<noteq> Gone \<longrightarrow>
            length (ch_offered ch) = length (sent_on j (wc_out c)) + length (ch_queue ch) + ch_dropped ch))"

definition addressed :: "u64 \<Rightarrow> nat \<Rightarrow> fs_state \<Rightarrow> event list" where
  "addressed i n fs = map snd (filter (\<lambda>x. fst x = i) (drop n (fs_calls fs)))"

text \<open>
  The connection, with the subscriptions \<open>L\<close> it still has to end and the listeners \<open>B\<close> that
  were in the bus before it.
\<close>

definition ws_inv :: "u64 set \<Rightarrow> ws_sub set \<Rightarrow> 'w ws \<Rightarrow> bool" where
  "ws_inv B L s \<longleftrightarrow>
     \<not> wc_panicked (fst s) \<and> inj_on su_ch L \<and>
     (\<forall>sb\<in>L. su_ch sb < length (wc_chans (fst s)) \<and> \<not> ch_closed (wc_chans (fst s) ! su_ch sb)) \<and>
     (\<forall>i j. map_of (wc_listen (fst s)) i = Some j \<longrightarrow>
        (\<exists>sb\<in>L. su_unsub sb = i \<and> su_ch sb = j) \<and>
        ch_from (wc_chans (fst s) ! j) \<le> length (fs_calls (fst (snd s))) \<and>
        ch_offered (wc_chans (fst s) ! j) = addressed i (ch_from (wc_chans (fst s) ! j)) (fst (snd s))) \<and>
     (\<forall>j<length (wc_chans (fst s)). chan_ok (fst s) j) \<and>
     (\<forall>j\<ge>length (wc_chans (fst s)). sent_on j (wc_out (fst s)) = []) \<and>
     fst ` set (eb_subs (fs_events (fst (snd s)))) \<subseteq> B \<union> su_unsub ` L"

lemma ws_invD:
  assumes "ws_inv B L s"
  shows "\<not> wc_panicked (fst s)" "inj_on su_ch L"
    "sb \<in> L \<Longrightarrow> su_ch sb < length (wc_chans (fst s)) \<and> \<not> ch_closed (wc_chans (fst s) ! su_ch sb)"
    "map_of (wc_listen (fst s)) i = Some j \<Longrightarrow> \<exists>sb\<in>L. su_unsub sb = i \<and> su_ch sb = j"
    "map_of (wc_listen (fst s)) i = Some j \<Longrightarrow> ch_from (wc_chans (fst s) ! j) \<le> length (fs_calls (fst (snd s))) \<and>
        ch_offered (wc_chans (fst s) ! j) = addressed i (ch_from (wc_chans (fst s) ! j)) (fst (snd s))"
    "j < length (wc_chans (fst s)) \<Longrightarrow> chan_ok (fst s) j"
    "length (wc_chans (fst s)) \<le> j \<Longrightarrow> sent_on j (wc_out (fst s)) = []"
    "fst ` set (eb_subs (fs_events (fst (snd s)))) \<subseteq> B \<union> su_unsub ` L"
  using assms unfolding ws_inv_def by blast+

text \<open>Sending a frame that is no event, and a change of state other than the end.\<close>

lemma ws_inv_send: "ws_inv B L (c, t) \<Longrightarrow> (\<And>j r. f \<noteq> EventFrame j r) \<Longrightarrow> ws_inv B L (ws_send f c, t)"
proof -
  assume inv: "ws_inv B L (c, t)" and f: "\<And>j r. f \<noteq> EventFrame j r"
  have "sent_on j [f] = []" for j using f by (cases f) auto
  with inv show ?thesis unfolding ws_inv_def chan_ok_def by (simp add: ws_send_def)
qed

lemma ws_inv_state: "ws_inv B L (c, t) \<Longrightarrow> wc_state c \<noteq> Gone \<or> x = Gone \<Longrightarrow> ws_inv B L (c\<lparr>wc_state := x\<rparr>, t)"
  unfolding ws_inv_def chan_ok_def by (auto simp: Let_def)

lemma ws_inv_subs [simp]: "ws_inv B L (c\<lparr>wc_subs := x\<rparr>, t) = ws_inv B L (c, t)"
  by (simp add: ws_inv_def chan_ok_def)

section \<open>Notifications\<close>

lemma ws_inv_calls:
  "fs_calls fs' = fs_calls fs \<Longrightarrow> eb_subs (fs_events fs') = eb_subs (fs_events fs) \<Longrightarrow>
   ws_inv B L (c, fs', w') = ws_inv B L (c, fs, w)"
  by (simp add: ws_inv_def addressed_def)

lemma addressed_snoc:
  "n \<le> length (fs_calls fs) \<Longrightarrow>
   addressed i n (fs\<lparr>fs_calls := fs_calls fs @ [x]\<rparr>) = addressed i n fs @ (if fst x = i then [snd x] else [])"
  by (simp add: addressed_def)

lemma chan_ok_offer:
  assumes "chan_ok c j" and "j < length (wc_chans c)"
  shows "chan_ok (c\<lparr>wc_chans := (wc_chans c)[j := ch_offer e (wc_chans c ! j)]\<rparr>) j"
proof -
  have "subseq xs (ys @ [a])" if "subseq xs ys" for xs ys and a :: ws_reply using that by (rule list_emb_prefix)
  with assms show ?thesis
    by (auto simp: chan_ok_def ch_offer_def Let_def ws_capacity_def subseq_append[of _ "[event_reply _ e]", simplified]
        simp flip: append_assoc)
qed

lemma ws_inv_notify:
  assumes inv: "ws_inv B L (c, fs, w)"
  shows "ws_inv B L (ws_notify x c, fs\<lparr>fs_calls := fs_calls fs @ [x]\<rparr>, w)"
proof -
  note D = ws_invD[OF inv, simplified]
  show ?thesis
  proof (cases "map_of (wc_listen c) (fst x)")
    case None
    then have "addressed i (ch_from (wc_chans c ! j)) (fs\<lparr>fs_calls := fs_calls fs @ [x]\<rparr>) =
        addressed i (ch_from (wc_chans c ! j)) fs" if "map_of (wc_listen c) i = Some j" for i j
      using D(5)[OF that] that by (auto simp: addressed_snoc)
    with inv None show ?thesis unfolding ws_inv_def by (simp add: ws_notify_def) (meson le_SucI)
  next
    case (Some j)
    then obtain sb where sb: "sb \<in> L" "su_unsub sb = fst x" "su_ch sb = j" using D(4) by blast
    with D(3) have j: "j < length (wc_chans c)" "\<not> ch_closed (wc_chans c ! j)" by auto
    let ?c = "c\<lparr>wc_chans := (wc_chans c)[j := ch_offer (snd x) (wc_chans c ! j)]\<rparr>"
    have n: "ws_notify x c = ?c" using Some j by (simp add: ws_notify_def listener_call_def)
    have other: "i = fst x" if "map_of (wc_listen c) i = Some j" for i
    proof -
      from D(4)[OF that] obtain sb' where "sb' \<in> L" "su_unsub sb' = i" "su_ch sb' = j" by blast
      with sb D(2) show ?thesis by (metis inj_onD)
    qed
    have closed: "ch_closed (ch_offer (snd x) ch) = ch_closed ch" "ch_from (ch_offer (snd x) ch) = ch_from ch"
      "ch_offered (ch_offer (snd x) ch) = ch_offered ch @ [snd x]" for ch
      by (simp_all add: ch_offer_def Let_def)
    have chan: "chan_ok ?c k" if "k < length (wc_chans c)" for k
    proof (cases "k = j")
      case True
      with chan_ok_offer[OF D(6) j(1)] j(1) show ?thesis by blast
    next
      case False
      with D(6)[OF that] show ?thesis by (simp add: chan_ok_def)
    qed
    have off: "ch_from (wc_chans ?c ! k) \<le> Suc (length (fs_calls fs)) \<and> ch_offered (wc_chans ?c ! k) =
        addressed i (ch_from (wc_chans ?c ! k)) (fs\<lparr>fs_calls := fs_calls fs @ [x]\<rparr>)"
      if "map_of (wc_listen c) i = Some k" for i k
      using D(5)[OF that] other[of i] that Some j(1) by (cases "k = j") (auto simp: closed addressed_snoc)
    show ?thesis
      unfolding ws_inv_def n
      using D(1,2,3,4,7,8) chan off j by (simp add: nth_list_update closed)
  qed
qed

lemma ws_inv_notify_all:
  "ws_inv B L (c, fs, w) \<Longrightarrow> ws_inv B L (notify_all xs c, fs\<lparr>fs_calls := fs_calls fs @ xs\<rparr>, w)"
proof (induction xs arbitrary: c fs)
  case (Cons x xs)
  from ws_inv_notify[OF Cons.prems, of x] have i: "ws_inv B L (ws_notify x c, fs\<lparr>fs_calls := fs_calls fs @ [x]\<rparr>, w)" .
  then have "\<not> wc_panicked (ws_notify x c)" by (simp add: ws_inv_def)
  with Cons.IH[OF i] show ?case by (simp add: Let_def)
qed simp

lemma ws_inv_only_calls:
  assumes "ws_inv B L (c, fs, w)" and "only_calls fs fs'"
  shows "ws_inv B L (notify_all (drop (length (fs_calls fs)) (fs_calls fs')) c, fs', w')"
proof -
  from assms(2) obtain new where new: "fs_calls fs' = fs_calls fs @ new" "eb_subs (fs_events fs') = eb_subs (fs_events fs)"
    by (auto simp: only_calls_def)
  from ws_inv_notify_all[OF assms(1), of new] show ?thesis
    using ws_inv_calls[of fs' "fs\<lparr>fs_calls := fs_calls fs @ new\<rparr>" B L "notify_all new c" w' w] new by simp
qed

lemma ws_inv_call:
  assumes "ws_inv B L s" and "only_calls (fst (snd s)) (fst (fst (op (snd s))))"
  shows "ws_inv B L (fst (ws_call op s))" and "snd (ws_call op s) = snd (op (snd s))"
proof -
  obtain c fs w where s: "s = (c, fs, w)" by (cases s)
  obtain fs' w' r where o: "op (fs, w) = ((fs', w'), r)" by (metis prod.collapse)
  from ws_inv_only_calls[of B L c fs w fs' w'] assms
  have i: "ws_inv B L (notify_all (drop (length (fs_calls fs)) (fs_calls fs')) c, fs', w')" by (simp add: s o)
  then have "\<not> wc_panicked (notify_all (drop (length (fs_calls fs)) (fs_calls fs')) c)" by (simp add: ws_inv_def)
  with i show "ws_inv B L (fst (ws_call op s))" "snd (ws_call op s) = snd (op (snd s))"
    by (simp_all add: ws_call_def s o)
qed

section \<open>Subscriptions come and go\<close>

lemma ws_inv_close:
  assumes inv: "ws_inv B L s" and sb: "sb \<in> L"
  shows "ws_inv B (L - {sb}) (close_sub sb s)"
proof -
  obtain c fs w where s: "s = (c, fs, w)" by (cases s)
  note D = ws_invD[OF inv[unfolded s], simplified]
  let ?ch = "wc_chans c ! su_ch sb"
  have j: "su_ch sb < length (wc_chans c)" "\<not> ch_closed ?ch" using D(3)[OF sb] by auto
  let ?c = "c\<lparr>wc_listen := mdel (su_unsub sb) (wc_listen c), wc_chans := (wc_chans c)[su_ch sb := ?ch\<lparr>ch_closed := True\<rparr>],
      wc_panicked := False\<rparr>"
  have e: "close_sub sb s = (?c, fs\<lparr>fs_events := unregister (su_unsub sb) (fs_events fs)\<rparr>, w)"
    using D(1) j(2) by (simp add: close_sub_def s)
  have other: "su_ch sb \<noteq> su_ch x" if "x \<in> L - {sb}" for x using D(2) sb that by (auto dest: inj_onD)
  have chan: "chan_ok ?c k" if "k < length (wc_chans c)" for k
    using D(6)[OF that] j(1) by (cases "k = su_ch sb") (simp_all add: chan_ok_def Let_def)
  have listen: "(\<exists>x\<in>L - {sb}. su_unsub x = i \<and> su_ch x = k) \<and> wc_chans ?c ! k = wc_chans c ! k"
    if i: "map_of (wc_listen c) i = Some k" "i \<noteq> su_unsub sb" for i k
  proof -
    from D(4)[OF i(1)] obtain x where x: "x \<in> L" "su_unsub x = i" "su_ch x = k" by blast
    with i(2) have "x \<in> L - {sb}" by auto
    with x other[of x] show ?thesis by (auto simp: nth_list_update)
  qed
  have "\<forall>i k. map_of (wc_listen ?c) i = Some k \<longrightarrow> (\<exists>x\<in>L - {sb}. su_unsub x = i \<and> su_ch x = k) \<and>
      ch_from (wc_chans ?c ! k) \<le> length (fs_calls fs) \<and> ch_offered (wc_chans ?c ! k) = addressed i (ch_from (wc_chans ?c ! k)) fs"
    using listen D(5) by (simp add: if_split_mem1)
  moreover have "fst ` set (mdel (su_unsub sb) (eb_subs (fs_events fs))) \<subseteq> B \<union> su_unsub ` (L - {sb})"
    proof -
    have "fst ` set (mdel (su_unsub sb) (eb_subs (fs_events fs))) = fst ` set (eb_subs (fs_events fs)) - {su_unsub sb}"
      by (force simp: AList.delete_eq)
    with D(8) show ?thesis by auto
  qed
  moreover have "inj_on su_ch (L - {sb})" using D(2) by (rule inj_on_subset) auto
  ultimately show ?thesis
    unfolding ws_inv_def e using D(3,7) chan other j(1)
    by (simp add: unregister_def addressed_def)
qed

lemma ws_inv_open:
  assumes inv: "ws_inv B L s"
  shows "\<exists>i. ws_inv B (insert \<lparr>su_unsub = i, su_ch = length (wc_chans (fst s))\<rparr> L) (open_sub n pre s) \<and>
    wc_subs (fst (open_sub n pre s)) = mput n \<lparr>su_unsub = i, su_ch = length (wc_chans (fst s))\<rparr> (wc_subs (fst s)) \<and>
    wc_state (fst (open_sub n pre s)) = wc_state (fst s)"
proof -
  obtain c fs w where s: "s = (c, fs, w)" by (cases s)
  note D = ws_invD[OF inv[unfolded s], simplified]
  let ?j = "length (wc_chans c)"
  obtain eb i where reg: "register pre (fs_events fs) = (eb, i)" by fastforce
  let ?ch = "\<lparr>ch_sub = n, ch_queue = [], ch_closed = False, ch_offered = [], ch_dropped = 0, ch_from = length (fs_calls fs)\<rparr>"
  let ?sb = "\<lparr>su_unsub = i, su_ch = ?j\<rparr>"
  let ?c = "c\<lparr>wc_chans := wc_chans c @ [?ch], wc_listen := mput i ?j (wc_listen c), wc_subs := mput n ?sb (wc_subs c)\<rparr>"
  have e: "open_sub n pre s = (?c, fs\<lparr>fs_events := eb\<rparr>, w)"
    by (simp add: open_sub_def s Let_def RegisterNotifier_def reg)
  have chan: "chan_ok ?c k" if "k < Suc ?j" for k
  proof (cases "k = ?j")
    case True
    with D(7)[of ?j] show ?thesis by (simp add: chan_ok_def ws_capacity_def)
  next
    case False
    with that have "k < ?j" by simp
    with D(6)[OF this] show ?thesis by (simp add: chan_ok_def nth_append)
  qed
  have old: "su_ch x < ?j" if "x \<in> L" for x using D(3)[OF that] by simp
  have ks: "k < ?j" if "map_of (wc_listen c) i' = Some k" for i' k using D(4)[OF that] old by blast
  have "su_ch ?sb \<notin> su_ch ` L" using old by force
  then have "inj_on su_ch (insert ?sb L)" using D(2) by (simp add: inj_on_insert image_iff)
  moreover have "fst ` set (eb_subs eb) \<subseteq> B \<union> su_unsub ` insert ?sb L"
  proof -
    have "eb_subs eb = mput i pre (eb_subs (fs_events fs))" using reg by (auto simp: register_def Let_def)
    then have "fst ` set (eb_subs eb) = insert i (fst ` set (eb_subs (fs_events fs)))" by (simp only: keys_mput)
    with D(8) show ?thesis by auto
  qed
  moreover have "\<forall>i' k. map_of (wc_listen ?c) i' = Some k \<longrightarrow> (\<exists>x\<in>insert ?sb L. su_unsub x = i' \<and> su_ch x = k) \<and>
      ch_from (wc_chans ?c ! k) \<le> length (fs_calls fs) \<and> ch_offered (wc_chans ?c ! k) = addressed i' (ch_from (wc_chans ?c ! k)) fs"
    using D(4,5) ks by (auto simp: nth_append addressed_def)
  ultimately have "ws_inv B (insert ?sb L) (open_sub n pre s)"
    unfolding ws_inv_def e using D(1,3,7) chan by (simp add: nth_append addressed_def less_SucI)
  then show ?thesis by (intro exI[of _ i]) (simp add: e[unfolded s] s)
qed

text \<open>A connection in a state that it can be in between two steps.\<close>

definition ws_ok :: "u64 set \<Rightarrow> 'w ws \<Rightarrow> bool" where
  "ws_ok B s \<longleftrightarrow> ws_inv B (snd ` set (wc_subs (fst s))) s \<and> distinct (map fst (wc_subs (fst s))) \<and>
     inj_on snd (set (wc_subs (fst s))) \<and> (wc_state (fst s) = Gone \<longrightarrow> wc_subs (fst s) = [])"

lemma set_mput: "distinct (map fst m) \<Longrightarrow> set (mput k v m) = insert (k, v) {x \<in> set m. fst x \<noteq> k}"
  by (induction m) (auto split: if_splits, force+)

lemma ws_inv_close_all:
  "ws_inv B (snd ` set ms) t \<Longrightarrow> distinct (map fst ms) \<Longrightarrow> inj_on snd (set ms) \<Longrightarrow>
   ws_inv B {} (fold (\<lambda>x s. close_sub (snd x) s) ms t)"
proof (induction ms arbitrary: t)
  case (Cons m ms)
  have "m \<notin> set ms" using Cons.prems(2) by auto
  with Cons.prems(3) have "snd m \<notin> snd ` set ms" by (simp add: inj_on_insert)
  then have "snd ` set (m # ms) - {snd m} = snd ` set ms" by simp
  with ws_inv_close[OF Cons.prems(1), of "snd m"] have "ws_inv B (snd ` set ms) (close_sub (snd m) t)" by simp
  with Cons show ?case by (simp add: inj_on_insert)
qed simp

lemma ws_ok_close: "ws_ok B s \<Longrightarrow> ws_ok B (ws_close s) \<and> wc_subs (fst (ws_close s)) = [] \<and>
   fst ` set (eb_subs (fs_events (fst (snd (ws_close s))))) \<subseteq> B \<and> wc_listen (fst (ws_close s)) = []"
proof -
  assume ok: "ws_ok B s"
  then have i: "ws_inv B {} (fold (\<lambda>x s. close_sub (snd x) s) (wc_subs (fst s)) s)"
    using ws_inv_close_all unfolding ws_ok_def by blast
  obtain c t where f: "fold (\<lambda>x s. close_sub (snd x) s) (wc_subs (fst s)) s = (c, t)" by (rule prod.exhaust)
  have "ws_inv B {} (c\<lparr>wc_subs := [], wc_state := Gone\<rparr>, t)"
    using ws_inv_state[of B "{}" c t Gone] i by (simp add: f ws_inv_def chan_ok_def)
  moreover have "ws_close s = (c\<lparr>wc_subs := [], wc_state := Gone\<rparr>, t)" by (simp add: ws_close_def f)
  moreover have "wc_listen c = []"
  proof -
    have "map_of (wc_listen c) = Map.empty" using i by (auto simp: f ws_inv_def fun_eq_iff)
    then show ?thesis by simp
  qed
  ultimately show ?thesis using ws_invD(8)[OF i] by (auto simp: ws_ok_def f ws_inv_def)
qed

section \<open>Steps\<close>

lemma notify_state [simp]: "wc_state (ws_notify x c) = wc_state c" "wc_subs (ws_notify x c) = wc_subs c"
  by (simp_all add: ws_notify_def listener_call_def split: option.split)

lemma notify_all_state [simp]: "wc_state (notify_all xs c) = wc_state c" "wc_subs (notify_all xs c) = wc_subs c"
  by (induction xs c rule: notify_all.induct) (simp_all add: Let_def)

lemma call_state [simp]:
  "wc_state (fst (fst (ws_call op s))) = wc_state (fst s)" "wc_subs (fst (fst (ws_call op s))) = wc_subs (fst s)"
  by (simp_all add: ws_call_def split_beta Let_def)

lemma sub_state [simp]:
  "wc_state (fst (close_sub sb s)) = wc_state (fst s)" "wc_subs (fst (close_sub sb s)) = wc_subs (fst s)"
  "wc_state (fst (open_sub n pre s)) = wc_state (fst s)"
  by (simp_all add: close_sub_def open_sub_def split_beta Let_def)

lemma send_state [simp]: "wc_state (ws_send f c) = wc_state c" "wc_subs (ws_send f c) = wc_subs c"
  by (simp_all add: ws_send_def)

text \<open>What a subscribe does, with the subscription of the same name before it.\<close>

definition drop_old :: "string \<Rightarrow> 'w ws \<Rightarrow> 'w ws" where
  "drop_old n s = (case map_of (wc_subs (fst s)) n of None \<Rightarrow> s | Some old \<Rightarrow> close_sub old s)"

text \<open>An operation leaves the state of the loop to the loop, and waits for a binary message only
  where it may write.\<close>

lemma on_await: "(\<And>s r. snd (k s r) \<noteq> AwaitBinary) \<Longrightarrow> snd (ws_on out k) \<noteq> AwaitBinary"
  by (cases out; cases "snd out") (auto simp: ws_on_def)

lemma on_state:
  "wc_state (fst (fst out)) = x \<Longrightarrow> (\<And>s r. wc_state (fst s) = x \<Longrightarrow> wc_state (fst (fst (k s r))) = x) \<Longrightarrow>
   wc_state (fst (fst (ws_on out k))) = x"
  by (cases out; cases "snd out") (auto simp: ws_on_def)

lemma ws_write_await: "snd (ws_write env caller reply p d s) \<noteq> AwaitBinary"
  unfolding ws_write_def by (rule on_await) simp

lemma ws_write_state: "wc_state (fst (fst (ws_write env caller reply p d s))) = wc_state (fst s)"
  unfolding ws_write_def by (rule on_state) simp_all

lemma processOp_await: "mo_ReadOnly o1 \<Longrightarrow> snd (processOp env o1 caller batch msg s) \<noteq> AwaitBinary"
  by (auto simp: processOp_def Let_def intro!: on_await ws_write_await split: option.split prod.split sum.splits if_splits)

lemma processOp_state: "wc_state (fst (fst (processOp env o1 caller batch msg s))) = wc_state (fst s)"
  using sub_state(1)[of _ s] unfolding processOp_def Let_def
  by (auto intro!: on_state simp: ws_write_state split_beta split: option.split sum.split)

lemma run_batch_state: "wc_state (fst (fst (run_batch env o1 caller ms s))) = wc_state (fst s)"
proof (induction ms arbitrary: s)
  case (Cons m ms)
  obtain s1 r where p: "processOp env o1 caller True m s = (s1, r)" by fastforce
  with processOp_state[of env o1 caller True m s] have "wc_state (fst s1) = wc_state (fst s)" by simp
  with Cons.IH[of s1] p show ?case by (cases r) (auto split: prod.split sum.split)
qed simp

lemma close_gone [simp]: "wc_state (fst (ws_close s)) = Gone"
  by (simp add: ws_close_def split_beta)

text \<open>
  A property of a connection that the engine's calls and the few ways of changing the
  connection keep; every step then keeps it.
\<close>

locale conn_invariant =
  fixes Q :: "'w ws \<Rightarrow> bool" and env :: "'w env" and o1 :: mount_options and caller :: caller_identity
  assumes read_kept: "Q s \<Longrightarrow> Q (fst (ws_call (fs_Read env p caller) s))"
    and write_kept: "Q s \<Longrightarrow> \<not> mo_ReadOnly o1 \<Longrightarrow> Q (fst (ws_call (fs_Write env p d caller) s))"
    and send_kept: "Q (c, t) \<Longrightarrow> (\<And>j r. f \<noteq> EventFrame j r) \<Longrightarrow> Q (ws_send f c, t)"
    and state_kept: "Q (c, t) \<Longrightarrow> wc_state c \<noteq> Gone \<Longrightarrow> x \<noteq> Gone \<Longrightarrow> Q (c\<lparr>wc_state := x\<rparr>, t)"
    and panic_kept: "Q s \<Longrightarrow> map_of (wc_subs (fst s)) n = Some sb \<Longrightarrow> wc_panicked (fst (close_sub sb s)) \<Longrightarrow> Q (close_sub sb s)"
    and subscribe_kept: "Q s \<Longrightarrow> wc_state (fst s) \<noteq> Gone \<Longrightarrow> Q (open_sub n pre (drop_old n s))"
    and unsubscribe_kept: "Q s \<Longrightarrow> map_of (wc_subs (fst s)) n = Some sb \<Longrightarrow>
      Q ((fst (close_sub sb s))\<lparr>wc_subs := mdel n (wc_subs (fst s))\<rparr>, snd (close_sub sb s))"
    and close_kept: "Q s \<Longrightarrow> Q (ws_close s)"
    and forward_kept: "Q s \<Longrightarrow> Q (ws_forward j (fst s), snd s)"
    and change_kept: "Q s \<Longrightarrow> Q (ws_change e s)"
begin

definition live :: "'w ws \<Rightarrow> bool" where
  "live s \<longleftrightarrow> Q s \<and> wc_state (fst s) \<noteq> Gone"

lemma on_live: "live (fst out) \<Longrightarrow> (\<And>s r. live s \<Longrightarrow> live (fst (k s r))) \<Longrightarrow> live (fst (ws_on out k))"
  by (cases out; cases "snd out") (auto simp: ws_on_def)

lemma read_live: "live s \<Longrightarrow> live (fst (ws_call (fs_Read env p caller) s))"
  by (simp add: live_def read_kept)

lemma write_live: "live s \<Longrightarrow> \<not> mo_ReadOnly o1 \<Longrightarrow> live (fst (ws_call (fs_Write env p d caller) s))"
  by (simp add: live_def write_kept)

lemma send_live: "live s \<Longrightarrow> (\<And>j r. f \<noteq> EventFrame j r) \<Longrightarrow> live (ws_send f (fst s), snd s)"
  using send_kept[of "fst s" "snd s" f] by (simp add: live_def)

lemma ws_write_live: "live s \<Longrightarrow> \<not> mo_ReadOnly o1 \<Longrightarrow> live (fst (ws_write env caller reply p d s))"
  by (auto simp: ws_write_def intro!: on_live write_live)

lemma binary_live: "live s \<Longrightarrow> \<not> mo_ReadOnly o1 \<Longrightarrow> live (fst (binary_payload env caller msg frame s))"
  by (simp add: binary_payload_def Let_def ws_write_live)

lemma subscribe_live:
  assumes "live s"
  shows "live (fst (let s1 = drop_old n s
    in if wc_panicked (fst s1) then (s1, Panics) else (open_sub n pre s1, Answer reply)))"
proof (cases "map_of (wc_subs (fst s)) n")
  case None
  with assms subscribe_kept[of s n pre] show ?thesis by (auto simp: drop_old_def live_def)
next
  case (Some old)
  with assms subscribe_kept[of s n pre] panic_kept[of s n old] show ?thesis
    by (auto simp: drop_old_def live_def Let_def)
qed

lemma unsubscribe_live:
  assumes "live s" and "map_of (wc_subs (fst s)) n = Some sb"
  shows "live (fst (let (c, t) = close_sub sb s
    in if wc_panicked c then ((c, t), Panics) else ((c\<lparr>wc_subs := mdel n (wc_subs c)\<rparr>, t), Answer reply)))"
  using unsubscribe_kept[OF _ assms(2)] panic_kept[OF _ assms(2)] assms(1)
    sub_state(1)[of sb s] sub_state(2)[of sb s]
  by (simp add: live_def split_beta)

lemma frames_live: "live (a, t) \<Longrightarrow> live (ws_send (BinaryFrame d) (ws_send (JsonFrame r) a), t)"
  using send_live[of "(a, t)" "JsonFrame r"] send_live[of "(ws_send (JsonFrame r) a, t)" "BinaryFrame d"] by simp

lemma processOp_live: "live s \<Longrightarrow> live (fst (processOp env o1 caller batch msg s))"
  using subscribe_live[of s "wm_SubID msg" "wm_Prefix msg", unfolded drop_old_def] unsubscribe_live[of s "wm_SubID msg"]
  unfolding processOp_def Let_def
  by (auto intro!: on_live read_live ws_write_live frames_live split: option.split sum.split)

lemma setState_live: "live (c, t) \<Longrightarrow> x \<noteq> Gone \<Longrightarrow> live (c\<lparr>wc_state := x\<rparr>, t)"
  using state_kept[of c t x] by (simp add: live_def)

text \<open>A read-only server never waits for a binary message.\<close>

definition kept :: "'w ws \<Rightarrow> bool" where
  "kept s \<longleftrightarrow> Q s \<and> (\<forall>m. wc_state (fst s) = AwaitingBinary m \<longrightarrow> \<not> mo_ReadOnly o1)"

lemma finish_kept: "live (fst out) \<Longrightarrow> (snd out = AwaitBinary \<Longrightarrow> \<not> mo_ReadOnly o1) \<Longrightarrow> kept (ws_finish msg out)"
proof -
  assume l: "live (fst out)" and w: "snd out = AwaitBinary \<Longrightarrow> \<not> mo_ReadOnly o1"
  obtain c t r where out: "out = ((c, t), r)" by (metis prod.collapse)
  have "live (c\<lparr>wc_state := x\<rparr>, t)" if "x \<noteq> Gone" for x using l out that setState_live by simp
  moreover from this have "live (ws_send (JsonFrame reply) (c\<lparr>wc_state := Reading\<rparr>), t)" for reply
    using send_live[of "(c\<lparr>wc_state := Reading\<rparr>, t)" "JsonFrame reply"] by simp
  moreover have "Q (ws_close (c, t))" using l out close_kept by (simp add: live_def)
  ultimately show ?thesis using l w close_gone[of "(c, t)"] by (cases r) (auto simp: ws_finish_def out live_def kept_def)
qed

lemma run_batch_live:
  "live s \<Longrightarrow> live (fst (run_batch env o1 caller ms s)) \<and>
   (snd (run_batch env o1 caller ms s) = Inl AwaitBinary \<longrightarrow> \<not> mo_ReadOnly o1)"
proof (induction ms arbitrary: s)
  case (Cons m ms)
  obtain s1 r where p: "processOp env o1 caller True m s = (s1, r)" by fastforce
  with processOp_live[OF Cons.prems, of True m] have "live s1" by simp
  with Cons.IH[of s1] p processOp_await[of o1 env caller True m s] show ?case
    by (cases r) (auto split: prod.split sum.split)
qed simp

lemma batch_kept:
  assumes l: "live s" and w: "wc_state (fst s) = Reading"
  shows "kept (ws_batch env o1 caller msg s)"
proof -
  obtain s1 x where r: "run_batch env o1 caller (wm_Ops msg) s = (s1, x)" by fastforce
  with run_batch_live[OF l, of "wm_Ops msg"] have l1: "live s1" "x = Inl AwaitBinary \<Longrightarrow> \<not> mo_ReadOnly o1" by auto
  have st: "wc_state (fst s1) = Reading" using run_batch_state[of env o1 caller "wm_Ops msg" s] r w by simp
  have "kept (ws_send (JsonFrame y) (fst u), snd u)" if "live u" "wc_state (fst u) = Reading" for u y
    using send_live[OF that(1), of "JsonFrame y"] that(2) by (simp add: live_def kept_def)
  with l l1 w st finish_kept[of "(s1, _)"] show ?thesis
    by (cases x) (simp_all add: ws_batch_def r)
qed

lemma receive_kept:
  assumes "kept s"
  shows "kept (ws_receive env o1 json caller frame s)"
proof (cases "wc_state (fst s)")
  case Reading
  then have l: "live s" using assms by (simp add: kept_def live_def)
  have "kept (ws_finish msg (processOp env o1 caller False msg s))" for msg
    by (rule finish_kept[OF processOp_live[OF l]]) (use processOp_await in blast)
  with Reading l assms close_kept[of s] batch_kept[OF l] show ?thesis
    by (auto simp: ws_receive_def kept_def[of "ws_close s"] live_def split: option.split)
next
  case (AwaitingBinary msg)
  then have l: "live s" and ro: "\<not> mo_ReadOnly o1" using assms by (simp_all add: kept_def live_def)
  have "kept (ws_finish msg (binary_payload env caller msg frame s))"
    by (rule finish_kept[OF binary_live[OF l ro]]) (use ro in blast)
  with AwaitingBinary l close_kept[of s] show ?thesis
    by (simp add: ws_receive_def kept_def[of "ws_close s"] live_def)
qed (use assms in \<open>simp_all add: ws_receive_def\<close>)

lemma forward_state: "wc_state (ws_forward j c) = wc_state c"
  by (simp add: ws_forward_def Let_def split: list.split)

lemma change_state: "wc_state (fst (ws_change e s)) = wc_state (fst s)"
  by (simp add: ws_change_def Let_def)

lemma step_kept: "kept s \<Longrightarrow> kept (ws_step env o1 json caller a s)"
proof (cases a)
  case (Forward j)
  assume "kept s"
  with Forward forward_kept[of s j] show ?thesis by (simp add: kept_def forward_state)
next
  case (Change e)
  assume "kept s"
  with Change change_kept[of s e] show ?thesis by (simp add: kept_def change_state)
next
  case Disconnect
  assume "kept s"
  with Disconnect close_kept[of s] show ?thesis by (auto simp: kept_def split: ws_state.split)
qed (simp add: receive_kept)

lemma run_kept: "kept s \<Longrightarrow> kept (fold (ws_step env o1 json caller) as s)"
  by (induction as arbitrary: s) (simp_all add: step_kept)

end

section \<open>The invariant is kept\<close>

lemma ws_ok_drop_old:
  assumes ok: "ws_ok B s"
  shows "ws_inv B (snd ` {x \<in> set (wc_subs (fst s)). fst x \<noteq> n}) (drop_old n s)"
proof (cases "map_of (wc_subs (fst s)) n")
  case None
  then have "{x \<in> set (wc_subs (fst s)). fst x \<noteq> n} = set (wc_subs (fst s))"
    by (auto simp: map_of_eq_None_iff)
  with ok None show ?thesis by (simp add: drop_old_def ws_ok_def)
next
  case (Some old)
  note D = ok[unfolded ws_ok_def]
  have m: "(n, old) \<in> set (wc_subs (fst s))" using Some by (rule map_of_SomeD)
  have "snd ` {x \<in> set (wc_subs (fst s)). fst x \<noteq> n} = snd ` set (wc_subs (fst s)) - {old}"
  proof (intro equalityI subsetI)
    fix sb assume "sb \<in> snd ` {x \<in> set (wc_subs (fst s)). fst x \<noteq> n}"
    then obtain k where k: "(k, sb) \<in> set (wc_subs (fst s))" "k \<noteq> n" by auto
    have "inj_on snd (set (wc_subs (fst s)))" using D by blast
    from inj_onD[OF this _ k(1) m] k(2) have "sb \<noteq> old" by auto
    with k show "sb \<in> snd ` set (wc_subs (fst s)) - {old}" by force
  next
    fix sb assume "sb \<in> snd ` set (wc_subs (fst s)) - {old}"
    then obtain k where k: "(k, sb) \<in> set (wc_subs (fst s))" "sb \<noteq> old" by auto
    with m D have "k \<noteq> n" by (metis eq_key_imp_eq_value)
    with k show "sb \<in> snd ` {x \<in> set (wc_subs (fst s)). fst x \<noteq> n}" by force
  qed
  with ws_inv_close[of B _ s old] D m Some show ?thesis by (force simp: drop_old_def)
qed

lemma drop_old_subs [simp]: "wc_subs (fst (drop_old n s)) = wc_subs (fst s)" "wc_state (fst (drop_old n s)) = wc_state (fst s)"
  by (simp_all add: drop_old_def split: option.split)

lemma ws_ok_subscribe:
  assumes ok: "ws_ok B s" and "wc_state (fst s) \<noteq> Gone"
  shows "ws_ok B (open_sub n pre (drop_old n s))"
proof -
  note D = ok[unfolded ws_ok_def]
  note inv = ws_ok_drop_old[OF ok, of n]
  from ws_inv_open[OF inv, of n pre] obtain i where
    o: "ws_inv B (insert \<lparr>su_unsub = i, su_ch = length (wc_chans (fst (drop_old n s)))\<rparr>
         (snd ` {x \<in> set (wc_subs (fst s)). fst x \<noteq> n})) (open_sub n pre (drop_old n s))"
    "wc_subs (fst (open_sub n pre (drop_old n s))) =
       mput n \<lparr>su_unsub = i, su_ch = length (wc_chans (fst (drop_old n s)))\<rparr> (wc_subs (fst s))" by auto
  define sb where "sb = \<lparr>su_unsub = i, su_ch = length (wc_chans (fst (drop_old n s)))\<rparr>"
  have new: "sb \<notin> snd ` {x \<in> set (wc_subs (fst s)). fst x \<noteq> n}" using ws_invD(3)[OF inv] by (force simp: sb_def)
  have st: "set (mput n sb (wc_subs (fst s))) = insert (n, sb) {x \<in> set (wc_subs (fst s)). fst x \<noteq> n}"
    using D by (simp add: set_mput)
  have "inj_on snd {x \<in> set (wc_subs (fst s)). fst x \<noteq> n}" using D by (auto intro: inj_on_subset)
  with new have "inj_on snd (set (mput n sb (wc_subs (fst s))))" unfolding st by (force simp: inj_on_insert)
  moreover have "distinct (map fst (mput n sb (wc_subs (fst s))))" using D by simp
  ultimately show ?thesis
    unfolding ws_ok_def o(2) sb_def[symmetric] using o(1)[folded sb_def] assms(2) by (simp add: st)
qed

lemma ws_ok_unsubscribe:
  assumes ok: "ws_ok B s" and "map_of (wc_subs (fst s)) n = Some sb"
  shows "ws_ok B ((fst (close_sub sb s))\<lparr>wc_subs := mdel n (wc_subs (fst s))\<rparr>, snd (close_sub sb s))"
proof -
  note D = ok[unfolded ws_ok_def]
  have "drop_old n s = close_sub sb s" using assms(2) by (simp add: drop_old_def)
  note inv = ws_ok_drop_old[OF ok, of n, unfolded this]
  have st: "set (mdel n (wc_subs (fst s))) = {x \<in> set (wc_subs (fst s)). fst x \<noteq> n}"
    by (auto simp: AList.delete_eq)
  have "inj_on snd (set (mdel n (wc_subs (fst s))))" unfolding st using D by (auto intro: inj_on_subset)
  with inv D show ?thesis
    unfolding ws_ok_def by (simp add: st)
qed

lemma ws_inv_forward:
  assumes inv: "ws_inv B L (c, t)"
  shows "ws_inv B L (ws_forward j c, t)"
proof (cases "j < length (wc_chans c) \<and> ch_queue (wc_chans c ! j) \<noteq> []")
  case False
  then have "ws_forward j c = c" by (auto simp: ws_forward_def)
  with inv show ?thesis by simp
next
  case True
  note D = ws_invD[OF inv, simplified]
  obtain e q where q: "ch_queue (wc_chans c ! j) = e # q" using True by (cases "ch_queue (wc_chans c ! j)") auto
  let ?ch = "wc_chans c ! j"
  let ?c1 = "c\<lparr>wc_chans := (wc_chans c)[j := ?ch\<lparr>ch_queue := q\<rparr>]\<rparr>"
  have e: "ws_forward j c = (if wc_state c = Gone then ?c1 else ws_send (EventFrame j (event_reply (ch_sub ?ch) e)) ?c1)"
    using True q by (simp add: ws_forward_def Let_def)
  have ok: "chan_ok c j" using D(6) True by blast
  have less: "subseq (xs @ zs) (ys :: ws_reply list)" if "subseq (xs @ z # zs) ys" for xs z zs ys
    by (rule subseq_order.trans[OF _ that]) (intro list_emb_append_mono, auto)
  have chan: "chan_ok (ws_forward j c) k" if "k < length (wc_chans c)" for k
  proof (cases "k = j")
    case True
    with ok less \<open>j < length (wc_chans c) \<and> _\<close> show ?thesis by (auto simp: chan_ok_def e ws_send_def Let_def q)
  next
    case False
    with D(6)[OF that] show ?thesis by (simp add: chan_ok_def e ws_send_def Let_def)
  qed
  have same: "wc_chans (ws_forward j c) = (wc_chans c)[j := ?ch\<lparr>ch_queue := q\<rparr>]" "wc_listen (ws_forward j c) = wc_listen c"
    "wc_panicked (ws_forward j c) = wc_panicked c" by (simp_all add: e ws_send_def)
  have out: "sent_on k (wc_out (ws_forward j c)) = []" if "length (wc_chans c) \<le> k" for k
    using D(7)[OF that] that True by (simp add: e ws_send_def)
  have upd: "ch_closed ((wc_chans c)[j := ?ch\<lparr>ch_queue := q\<rparr>] ! k) = ch_closed (wc_chans c ! k)"
    "ch_from ((wc_chans c)[j := ?ch\<lparr>ch_queue := q\<rparr>] ! k) = ch_from (wc_chans c ! k)"
    "ch_offered ((wc_chans c)[j := ?ch\<lparr>ch_queue := q\<rparr>] ! k) = ch_offered (wc_chans c ! k)" for k
    using True by (simp_all add: nth_list_update)
  show ?thesis
    unfolding ws_inv_def using D(1,2,3,4,5,8) chan out by (simp add: same upd)
qed

interpretation conn: conn_invariant "ws_ok B" env o1 caller for B env o1 caller
proof
  fix s :: "'a ws" and p
  show "ws_ok B s \<Longrightarrow> ws_ok B (fst (ws_call (fs_Read env p caller) s))"
    using ws_inv_call(1)[of B _ s "fs_Read env p caller"] only_calls_same[OF calls_read[of env p caller "snd s"]]
    by (auto simp: ws_ok_def)
next
  fix s :: "'a ws" and p d
  show "ws_ok B s \<Longrightarrow> ws_ok B (fst (ws_call (fs_Write env p d caller) s))"
    using ws_inv_call(1)[of B _ s "fs_Write env p d caller"] calls_write[of "snd s" env p d caller]
    by (auto simp: ws_ok_def)
next
  fix s :: "'a ws" and n sb
  assume ok: "ws_ok B s" and m: "map_of (wc_subs (fst s)) n = Some sb" and "wc_panicked (fst (close_sub sb s))"
  moreover have "ws_inv B (snd ` set (wc_subs (fst s)) - {sb}) (close_sub sb s)"
    using ok map_of_SomeD[OF m] by (intro ws_inv_close) (force simp: ws_ok_def)+
  ultimately show "ws_ok B (close_sub sb s)" by (simp add: ws_inv_def)
next
  fix s :: "'a ws" and j
  show "ws_ok B s \<Longrightarrow> ws_ok B (ws_forward j (fst s), snd s)"
    using ws_inv_forward[of B _ "fst s" "snd s" j]
    by (auto simp: ws_ok_def ws_forward_def Let_def ws_send_def split: list.splits)
next
  fix s :: "'a ws" and e :: event
  assume ok: "ws_ok B s"
  obtain c fs w where s: "s = (c, fs, w)" by (cases s)
  have "only_calls fs (fs_emit (ev_Path e) (ev_Kind e) fs)" by (rule only_calls_emit) simp
  from ws_inv_only_calls[OF _ this, of B _ c w w] ok show "ws_ok B (ws_change e s)"
    by (simp add: ws_ok_def ws_change_def s Let_def)
next
  fix s :: "'a ws"
  show "ws_ok B s \<Longrightarrow> ws_ok B (ws_close s)" using ws_ok_close by blast
next
  fix s :: "'a ws" and n sb
  show "ws_ok B s \<Longrightarrow> map_of (wc_subs (fst s)) n = Some sb \<Longrightarrow>
      ws_ok B ((fst (close_sub sb s))\<lparr>wc_subs := mdel n (wc_subs (fst s))\<rparr>, snd (close_sub sb s))"
    by (rule ws_ok_unsubscribe)
next
  fix s :: "'a ws" and n pre
  show "ws_ok B s \<Longrightarrow> wc_state (fst s) \<noteq> Gone \<Longrightarrow> ws_ok B (open_sub n pre (drop_old n s))"
    by (rule ws_ok_subscribe)
qed (auto simp: ws_ok_def ws_inv_send ws_inv_state)

section \<open>Properties\<close>

lemma ws_ok_start: "ws_ok (fst ` set (eb_subs (fs_events fs))) (new_conn, fs, w)"
  by (simp add: ws_ok_def ws_inv_def new_conn_def)

lemma ws_run_ok:
  "ws_ok (fst ` set (eb_subs (fs_events fs))) (fold (ws_step env o1 json caller) as (new_conn, fs, w))"
proof -
  have "conn.kept (fst ` set (eb_subs (fs_events fs))) o1 (new_conn, fs, w)"
    by (simp add: conn.kept_def ws_ok_start) (simp add: new_conn_def)
  from conn.run_kept[OF this] show ?thesis by (simp add: conn.kept_def)
qed

text \<open>
  C25: whatever frames a client sends and however they interleave with whole changes elsewhere,
  with the goroutines and with the end of the connection, every listener that has come into the
  bus belongs to a current subscription, whose channel is open; no listener sends on a closed
  channel and none is closed twice, as long as a change calls the listeners before anything
  else happens; and when the connection has ended, no listener and no subscription of it is
  left.
\<close>

theorem ws_no_leak:
  "\<not> wc_panicked (fst (fold (ws_step env o1 json caller) as (new_conn, fs, w))) \<and>
   fst ` set (eb_subs (fs_events (fst (snd (fold (ws_step env o1 json caller) as (new_conn, fs, w)))))) \<subseteq>
     fst ` set (eb_subs (fs_events fs)) \<union>
     (su_unsub \<circ> snd) ` set (wc_subs (fst (fold (ws_step env o1 json caller) as (new_conn, fs, w)))) \<and>
   (\<forall>(n, sb)\<in>set (wc_subs (fst (fold (ws_step env o1 json caller) as (new_conn, fs, w)))).
      su_ch sb < length (wc_chans (fst (fold (ws_step env o1 json caller) as (new_conn, fs, w)))) \<and>
      \<not> ch_closed (wc_chans (fst (fold (ws_step env o1 json caller) as (new_conn, fs, w))) ! su_ch sb)) \<and>
   (wc_state (fst (fold (ws_step env o1 json caller) as (new_conn, fs, w))) = Gone \<longrightarrow>
      wc_subs (fst (fold (ws_step env o1 json caller) as (new_conn, fs, w))) = [] \<and>
      fst ` set (eb_subs (fs_events (fst (snd (fold (ws_step env o1 json caller) as (new_conn, fs, w)))))) \<subseteq>
        fst ` set (eb_subs (fs_events fs)))"
proof -
  define s where "s = fold (ws_step env o1 json caller) as (new_conn, fs, w)"
  have "ws_ok (fst ` set (eb_subs (fs_events fs))) s" unfolding s_def by (rule ws_run_ok)
  then show ?thesis unfolding s_def[symmetric] ws_ok_def ws_inv_def by (auto simp: image_image)
qed

text \<open>
  C26: events arrive in order. At every moment at most 16 events wait on a subscription; what
  has been sent to the client on it, followed by what waits, is a part, in the same order, of
  what the bus offered to it; and while the connection lives, the number of events that are
  missing is the number of those dropped, so that nothing is missing when none was. An event
  that a listener offers to its open channel is put behind those that wait
  when there are fewer than 16, and is dropped exactly when there are 16. What the bus offers
  are exactly the calls of the subscription's listener since it was registered.
\<close>

theorem ws_events_in_order:
  assumes "s = fold (ws_step env o1 json caller) as (new_conn, fs, w)"
    and "j < length (wc_chans (fst s))" and "ch = wc_chans (fst s) ! j"
  shows "length (ch_queue ch) \<le> 16 \<and>
    subseq (sent_on j (wc_out (fst s)) @ map (event_reply (ch_sub ch)) (ch_queue ch))
      (map (event_reply (ch_sub ch)) (ch_offered ch)) \<and>
    (wc_state (fst s) \<noteq> Gone \<and> ch_dropped ch = 0 \<longrightarrow>
      sent_on j (wc_out (fst s)) @ map (event_reply (ch_sub ch)) (ch_queue ch) =
        map (event_reply (ch_sub ch)) (ch_offered ch)) \<and>
    (wc_state (fst s) \<noteq> Gone \<longrightarrow>
      length (ch_offered ch) = length (sent_on j (wc_out (fst s))) + length (ch_queue ch) + ch_dropped ch) \<and>
    (\<forall>i. map_of (wc_listen (fst s)) i = Some j \<longrightarrow> ch_offered ch = addressed i (ch_from ch) (fst (snd s))) \<and>
    (\<forall>i e. map_of (wc_listen (fst s)) i = Some j \<and> \<not> ch_closed ch \<longrightarrow>
      (let ch' = wc_chans (ws_notify (i, e) (fst s)) ! j in
       ch_offered ch' = ch_offered ch @ [e] \<and>
       ch_queue ch' = (if length (ch_queue ch) < 16 then ch_queue ch @ [e] else ch_queue ch) \<and>
       ch_dropped ch' = (if length (ch_queue ch) < 16 then ch_dropped ch else ch_dropped ch + 1)))"
proof -
  have ok: "ws_inv (fst ` set (eb_subs (fs_events fs))) (snd ` set (wc_subs (fst s))) s"
    using ws_run_ok[of fs env o1 json caller as w] by (simp add: assms(1) ws_ok_def)
  have c: "chan_ok (fst s) j" using ws_invD(6)[OF ok assms(2)] .
  have "sent_on j (wc_out (fst s)) @ map (event_reply (ch_sub ch)) (ch_queue ch) = map (event_reply (ch_sub ch)) (ch_offered ch)"
    if "wc_state (fst s) \<noteq> Gone" "ch_dropped ch = 0"
    using c that by (intro subseq_same_length) (auto simp: chan_ok_def Let_def assms(3))
  moreover have "let ch' = wc_chans (ws_notify (i, e) (fst s)) ! j in
       ch_offered ch' = ch_offered ch @ [e] \<and>
       ch_queue ch' = (if length (ch_queue ch) < 16 then ch_queue ch @ [e] else ch_queue ch) \<and>
       ch_dropped ch' = (if length (ch_queue ch) < 16 then ch_dropped ch else ch_dropped ch + 1)"
    if "map_of (wc_listen (fst s)) i = Some j" "\<not> ch_closed ch" for i e
    using that assms(2,3) by (simp add: ws_notify_def ch_offer_def listener_call_def ws_capacity_def Let_def)
  ultimately show ?thesis
    using c ws_invD(5)[OF ok] by (auto simp: chan_ok_def Let_def ws_capacity_def assms(3))
qed

definition sub_frame :: ws_in where
  "sub_frame = \<lparr>in_Binary = False, in_Data = ''s''\<rparr>"

definition sub_json :: "bytes \<Rightarrow> ws_msg option" where
  "sub_json b = (if b = ''s'' then Some (WsMsg ''subscribe'' [] [] ''/a'' ''x'' []) else None)"

definition created_a :: event where
  "created_a = \<lparr>ev_Path = ''/a/b'', ev_Kind = EventCreate\<rparr>"

lemmas ws_eval = ws_receive_def ws_finish_def processOp_def open_sub_def RegisterNotifier_def register_def ws_send_def
  ws_change_def fs_emit_def emit_def ws_notify_def listener_call_def ch_offer_def ws_capacity_def new_conn_def sub_frame_def
  sub_json_def created_a_def ws_read_limit_def ws_close_def close_sub_def unregister_def Let_def

lemma ws_no_leak_witness:
  "wc_state (fst (fold (ws_step clock_env plain_opts sub_json anonymous) [Receive sub_frame, Disconnect] (new_conn, demo_fs, 7))) = Gone \<and>
   fst ` set (eb_subs (fs_events (fst (snd (fold (ws_step clock_env plain_opts sub_json anonymous)
     [Receive sub_frame, Disconnect] (new_conn, demo_fs, 7)))))) \<subseteq> fst ` set (eb_subs (fs_events demo_fs))"
proof -
  have "wc_state (fst (fold (ws_step clock_env plain_opts sub_json anonymous) [Receive sub_frame, Disconnect] (new_conn, demo_fs, 7))) = Gone"
    by (simp add: ws_eval demo_fs_eval newEventBus_def)
  with ws_no_leak[of clock_env plain_opts sub_json anonymous "[Receive sub_frame, Disconnect]" demo_fs 7] show ?thesis by blast
qed

lemma ws_events_in_order_witness:
  "length (ch_queue (wc_chans (fst (fold (ws_step clock_env plain_opts sub_json anonymous)
     [Receive sub_frame, Change created_a] (new_conn, demo_fs, 7))) ! 0)) \<le> 16"
proof -
  let ?s = "fold (ws_step clock_env plain_opts sub_json anonymous) [Receive sub_frame, Change created_a] (new_conn, demo_fs, 7)"
  have "0 < length (wc_chans (fst ?s))" by (simp add: ws_eval demo_fs_eval newEventBus_def)
  from ws_events_in_order[OF refl this refl] show ?thesis by blast
qed

section \<open>Read-only servers\<close>

definition still where
  "still fs = (fs_router fs, fs_skills fs, fs_writeback fs, fs_locks fs, fs_handles fs, fs_providers fs, fs_cfg fs)"

lemma still_call: "mounts_of (fst (op (snd s))) = mounts_of (snd s) \<Longrightarrow> still (fst (snd (fst (ws_call op s)))) = still (fst (snd s))"
  by (simp add: ws_call_def split_beta Let_def still_def mounts_of_def)

lemma still_sub:
  "still (fst (snd (close_sub sb s))) = still (fst (snd s))" "still (fst (snd (open_sub n pre s))) = still (fst (snd s))"
  "still (fst (snd (drop_old n s))) = still (fst (snd s))"
  by (simp_all add: still_def close_sub_def open_sub_def RegisterNotifier_def drop_old_def split_beta Let_def split: option.split)

lemma still_close: "still (fst (snd (ws_close s))) = still (fst (snd s))"
proof -
  have "still (fst (snd (fold (\<lambda>x s. close_sub (snd x) s) ms t))) = still (fst (snd t))"
    for ms :: "(string \<times> ws_sub) list" and t :: "'a ws"
    by (induction ms arbitrary: t) (simp_all add: still_sub)
  then show ?thesis by (simp add: ws_close_def split_beta)
qed

lemma still_emit: "still (fst (snd (ws_change e s))) = still (fst (snd s))"
  by (simp add: still_def ws_change_def fs_emit_def split_beta Let_def)

interpretation silent: conn_invariant "\<lambda>s. mo_ReadOnly o1 \<longrightarrow> still (fst (snd s)) = x" env o1 caller for x env o1 caller
  by unfold_locales (auto simp: still_call mounts_read still_sub still_close still_emit)

text \<open>
  A read-only server changes nothing: whatever messages a client sends, in batches or
  alone, in text or binary, the mounts, the generated files, the answers of written mounts, the
  locks and the handles of the file system stay as they are.
\<close>

theorem ws_read_only:
  assumes "mo_ReadOnly o1"
  shows "still (fst (snd (fold (ws_step env o1 json caller) as (new_conn, fs, w)))) = still fs"
proof -
  have "silent.kept o1 (still fs) (new_conn, fs, w)" by (simp add: silent.kept_def new_conn_def)
  from silent.run_kept[OF this] assms show ?thesis unfolding silent.kept_def by blast
qed

lemma ws_read_only_witness:
  "still (fst (snd (fold (ws_step clock_env (plain_opts\<lparr>mo_ReadOnly := True\<rparr>) (\<lambda>b. Some (WsMsg ''write'' ''/a'' b [] [] [])) anonymous)
     [Receive sub_frame, Disconnect] (new_conn, demo_fs, 7)))) = still demo_fs"
  by (rule ws_read_only) simp

section \<open>Batches\<close>

text \<open>What has been sent before makes no difference to an operation.\<close>

lemma notify_out: "ws_notify x (c\<lparr>wc_out := out\<rparr>) = (ws_notify x c)\<lparr>wc_out := out\<rparr>"
  by (simp add: ws_notify_def listener_call_def split: option.split)

lemma notify_all_out: "notify_all xs (c\<lparr>wc_out := out\<rparr>) = (notify_all xs c)\<lparr>wc_out := out\<rparr>"
  by (induction xs arbitrary: c) (simp_all add: notify_out Let_def)

definition with_out :: "ws_frame list \<Rightarrow> 'w ws \<times> 'r \<Rightarrow> 'w ws \<times> 'r" where
  "with_out out x = (((fst (fst x))\<lparr>wc_out := out\<rparr>, snd (fst x)), snd x)"

lemma call_out: "ws_call op (c\<lparr>wc_out := out\<rparr>, t) = with_out out (ws_call op (c, t))"
  by (simp add: ws_call_def with_out_def notify_all_out split_beta Let_def)

lemma on_out: "(\<And>c t r. k (c\<lparr>wc_out := out\<rparr>, t) r = with_out out (k (c, t) r)) \<Longrightarrow>
   ws_on (with_out out x) k = with_out out (ws_on x k)"
  by (cases x; cases "snd x") (auto simp: ws_on_def with_out_def)

lemma close_sub_out: "close_sub sb (c\<lparr>wc_out := out\<rparr>, t) = fst (with_out out (close_sub sb (c, t), ()))"
  by (simp add: close_sub_def with_out_def split_beta Let_def)

lemma open_sub_out: "open_sub n pre (c\<lparr>wc_out := out\<rparr>, t) = fst (with_out out (open_sub n pre (c, t), ()))"
  by (simp add: open_sub_def with_out_def split_beta Let_def)

definition plain_op :: "ws_msg \<Rightarrow> bool" where
  "plain_op m \<longleftrightarrow> wm_Op m \<notin> {''read-binary'', ''write-binary'', ''batch''}"

lemma answer_out:
  "ws_on (ws_call op (c\<lparr>wc_out := out\<rparr>, t)) (\<lambda>s r. (s, Answer (f r))) =
   with_out out (ws_on (ws_call op (c, t)) (\<lambda>s r. (s, Answer (f r))))"
  unfolding call_out by (rule on_out) (simp add: with_out_def)

lemma subscribe_out:
  "(let s1 = drop_old n (c\<lparr>wc_out := out\<rparr>, t)
    in if wc_panicked (fst s1) then (s1, Panics) else (open_sub n pre s1, Answer reply)) =
   with_out out (let s1 = drop_old n (c, t)
    in if wc_panicked (fst s1) then (s1, Panics) else (open_sub n pre s1, Answer reply))"
proof -
  have "drop_old n (c\<lparr>wc_out := out\<rparr>, t) = ((fst (drop_old n (c, t)))\<lparr>wc_out := out\<rparr>, snd (drop_old n (c, t)))"
    by (simp add: drop_old_def close_sub_out with_out_def split: option.split)
  then show ?thesis by (simp add: Let_def open_sub_out) (simp add: with_out_def)
qed

lemma processOp_out:
  assumes "plain_op m"
  shows "processOp env o1 caller batch m (c\<lparr>wc_out := out\<rparr>, t) = with_out out (processOp env o1 caller batch' m (c, t))"
proof -
  have unsub: "(case map_of (wc_subs c) n of
      None \<Rightarrow> ((c\<lparr>wc_out := out\<rparr>, t), Answer reply)
    | Some sb \<Rightarrow> (let (d, u) = close_sub sb (c\<lparr>wc_out := out\<rparr>, t)
        in if wc_panicked d then ((d, u), Panics) else ((d\<lparr>wc_subs := mdel n (wc_subs d)\<rparr>, u), Answer reply))) =
    with_out out (case map_of (wc_subs c) n of
      None \<Rightarrow> ((c, t), Answer reply)
    | Some sb \<Rightarrow> (let (d, u) = close_sub sb (c, t)
        in if wc_panicked d then ((d, u), Panics) else ((d\<lparr>wc_subs := mdel n (wc_subs d)\<rparr>, u), Answer reply)))" for n reply
    by (simp add: close_sub_out split_beta split: option.split) (simp add: with_out_def)
  consider "wm_Op m = ''read''" | "wm_Op m = ''write''" | "wm_Op m = ''subscribe''" | "wm_Op m = ''unsubscribe''"
    | "wm_Op m \<notin> {''read'', ''write'', ''subscribe'', ''unsubscribe''}" by blast
  then show ?thesis
  proof cases
    case 3
    then show ?thesis
      using subscribe_out[of "wm_SubID m" out c t "wm_Prefix m"] by (simp add: processOp_def Let_def drop_old_def) (simp add: with_out_def)
  next
    case 4
    then show ?thesis using unsub by (simp add: processOp_def Let_def) (simp add: with_out_def)
  next
    case 5
    with assms show ?thesis by (simp add: processOp_def Let_def plain_op_def with_out_def)
  qed (simp_all add: processOp_def ws_write_def Let_def answer_out, simp add: with_out_def)
qed

text \<open>
  The frames that carry single messages: one in JSON for each, and after it the data of a
  write-binary as a binary frame of its own, which a read-only server does not wait for.
\<close>

fun single_frames :: "(bytes \<Rightarrow> ws_msg option) \<Rightarrow> bool \<Rightarrow> ws_msg list \<Rightarrow> ws_in list \<Rightarrow> bool" where
  "single_frames json ro [] fs \<longleftrightarrow> fs = []"
| "single_frames json ro (m # ms) fs \<longleftrightarrow>
     (case fs of
        [] \<Rightarrow> False
      | f # gs \<Rightarrow> json (in_Data f) = Some m \<and> length (in_Data f) \<le> ws_read_limit \<and>
          (if wm_Op m = ''write-binary'' \<and> \<not> ro
           then (case gs of
                   [] \<Rightarrow> False
                 | g # hs \<Rightarrow> in_Binary g \<and> in_Data g = wm_Data m \<and> length (in_Data g) \<le> ws_read_limit \<and>
                     single_frames json ro ms hs)
           else single_frames json ro ms gs))"

text \<open>
  What a single message is answered with, given its result in a batch: a pong has no answer, and the
  data of a successful read-binary comes in a binary frame of its own.
\<close>

definition answer :: "ws_msg \<Rightarrow> ws_reply \<Rightarrow> ws_frame list" where
  "answer m r =
     (if wm_Op m = ''pong'' then []
      else if wm_Op m = ''read-binary'' \<and> wr_Code r = 0 then [JsonFrame (reply_data [] r), BinaryFrame (wr_Data r)]
      else [JsonFrame r])"

definition answers :: "ws_msg list \<Rightarrow> ws_reply list \<Rightarrow> ws_frame list" where
  "answers ms rs = concat (map (\<lambda>(m, r). answer m r) (zip ms rs))"

lemma http_status_nonzero: "HTTPStatusFromError e \<noteq> 0"
  by (cases "ExtractErrno e" rule: http_of_errno.cases) (simp_all add: HTTPStatusFromError_def)

lemma call_out_same: "ws_call op (c, t) = ((c1, t1), r) \<Longrightarrow> wc_out c1 = wc_out c"
proof -
  assume a: "ws_call op (c, t) = ((c1, t1), r)"
  have "c\<lparr>wc_out := wc_out c\<rparr> = c" by simp
  with call_out[of op "wc_out c" c t] a have "c1 = c1\<lparr>wc_out := wc_out c\<rparr>" by (simp add: with_out_def)
  then have "wc_out c1 = wc_out (c1\<lparr>wc_out := wc_out c\<rparr>)" by (rule arg_cong)
  then show ?thesis by simp
qed

text \<open>Nor does it make a difference that the connection was waiting for the data.\<close>

lemma notify_waiting: "ws_notify x (c\<lparr>wc_state := st\<rparr>) = (ws_notify x c)\<lparr>wc_state := st\<rparr>"
  by (simp add: ws_notify_def listener_call_def split: option.split)

lemma notify_all_waiting: "notify_all xs (c\<lparr>wc_state := st\<rparr>) = (notify_all xs c)\<lparr>wc_state := st\<rparr>"
  by (induction xs arbitrary: c) (simp_all add: notify_waiting Let_def)

lemma call_waiting:
  "ws_call op (c, t) = ((c1, t1), r) \<Longrightarrow> ws_call op (c\<lparr>wc_state := st\<rparr>, t) = ((c1\<lparr>wc_state := st\<rparr>, t1), r)"
  by (auto simp: ws_call_def notify_all_waiting split_beta Let_def)

lemma ws_on_Answer:
  "ws_on out (\<lambda>s r. (s, Answer (f r))) = (s1, Answer a) \<Longrightarrow>
   \<exists>x. out = (s1, x) \<and> ((\<exists>v. x = Ok v \<and> a = f (Inr v)) \<or> (\<exists>e. x = Fail e \<and> a = f (Inl e)))"
  by (cases out; cases "snd out") (auto simp: ws_on_def)

lemma single_op:
  assumes m: "wm_Op m \<noteq> ''batch''" and st: "wc_state c = Reading"
    and fs: "single_frames json (mo_ReadOnly o1) (m # ms) frames"
    and p: "processOp env o1 caller True m (c, t) = ((c1, t1), Answer r)"
  shows "\<exists>rest. single_frames json (mo_ReadOnly o1) ms rest \<and>
    fold (ws_receive env o1 json caller) frames (c\<lparr>wc_out := out\<rparr>, t) =
      fold (ws_receive env o1 json caller) rest (c1\<lparr>wc_out := out @ answer m r\<rparr>, t1) \<and>
    wc_out c1 = wc_out c \<and> wc_state c1 = Reading"
proof -
  obtain f gs where f: "frames = f # gs" "json (in_Data f) = Some m" "length (in_Data f) \<le> ws_read_limit"
    using fs by (auto split: list.splits)
  have st1: "wc_state c1 = Reading" using processOp_state[of env o1 caller True m "(c, t)"] p st by simp
  then have keep: "c1\<lparr>wc_out := x, wc_state := Reading\<rparr> = c1\<lparr>wc_out := x\<rparr>" for x by simp
  consider (plain) "plain_op m" | (read) "wm_Op m = ''read-binary''" | (refused) "wm_Op m = ''write-binary''" "mo_ReadOnly o1"
    | (binary) "wm_Op m = ''write-binary''" "\<not> mo_ReadOnly o1"
    using m by (auto simp: plain_op_def)
  then show ?thesis
  proof cases
    case plain
    have "processOp env o1 caller False m (c\<lparr>wc_out := out\<rparr>, t) = ((c1\<lparr>wc_out := out\<rparr>, t1), Answer r)"
      using processOp_out[OF plain, of env o1 caller False out c t True] p by (simp add: with_out_def)
    moreover have "wc_out c1 = wc_out c"
    proof -
      have "c\<lparr>wc_out := wc_out c\<rparr> = c" by simp
      with processOp_out[OF plain, of env o1 caller True "wc_out c" c t True] p
      have "c1 = c1\<lparr>wc_out := wc_out c\<rparr>" by (simp add: with_out_def)
      then have "wc_out c1 = wc_out (c1\<lparr>wc_out := wc_out c\<rparr>)" by (rule arg_cong)
      then show ?thesis by simp
    qed
    ultimately show ?thesis
      using plain f fs st st1
      by (intro exI[of _ gs]) (simp add: ws_receive_def plain_op_def ws_finish_def keep ws_send_def answer_def)
  next
    case read
    let ?reply = "WsReply ''read-binary'' (wm_Path m) [] [] 0 None (wm_SubID m) []"
    from p read obtain x where x: "ws_call (fs_Read env (wm_Path m) caller) (c, t) = ((c1, t1), x)"
      "(\<exists>v. x = Ok v \<and> r = reply_data v ?reply) \<or> (\<exists>e. x = Fail e \<and> r = reply_err e ?reply)"
      unfolding processOp_def Let_def
      by (cases "ws_call (fs_Read env (wm_Path m) caller) (c, t)"; cases "snd (ws_call (fs_Read env (wm_Path m) caller) (c, t))")
        (auto simp: ws_on_def)
    have o1: "ws_call (fs_Read env (wm_Path m) caller) (c\<lparr>wc_out := out\<rparr>, t) = ((c1\<lparr>wc_out := out\<rparr>, t1), x)"
      using call_out[of "fs_Read env (wm_Path m) caller" out c t] x(1) by (simp add: with_out_def)
    from x(2) show ?thesis
      using read f fs st st1 call_out_same[OF x(1)] o1
      by (intro exI[of _ gs])
        (auto simp: http_status_nonzero ws_receive_def processOp_def ws_on_def ws_finish_def keep ws_send_def answer_def reply_data_def
          reply_err_def reply_error_def)
  next
    case refused
    with p have "c1 = c" "t1 = t" by (simp_all add: processOp_def Let_def)
    moreover have same: "c\<lparr>wc_state := Reading\<rparr> = c" using st by (cases c) simp
    have "ws_receive env o1 json caller f (c\<lparr>wc_out := out\<rparr>, t) =
        ((c\<lparr>wc_state := Reading\<rparr>)\<lparr>wc_out := out @ answer m r\<rparr>, t)"
      using refused p f st by (simp add: ws_receive_def processOp_def ws_finish_def ws_send_def answer_def)
    then have "ws_receive env o1 json caller f (c\<lparr>wc_out := out\<rparr>, t) = (c\<lparr>wc_out := out @ answer m r\<rparr>, t)"
      unfolding same .
    ultimately show ?thesis
      using refused f fs st by (intro exI[of _ gs]) simp
  next
    case binary
    obtain g hs where g: "gs = g # hs" "in_Binary g" "in_Data g = wm_Data m" "length (in_Data g) \<le> ws_read_limit"
      "single_frames json (mo_ReadOnly o1) ms hs"
      using fs f binary by (auto split: list.splits)
    from p binary obtain x where x: "ws_call (fs_Write env (wm_Path m) (wm_Data m) caller) (c, t) = ((c1, t1), x)"
      "(\<exists>v. x = Ok v \<and> r = WsReply (wm_Op m) (wm_Path m) [] [] 0 None (wm_SubID m) []) \<or>
       (\<exists>e. x = Fail e \<and> r = reply_err e (WsReply (wm_Op m) (wm_Path m) [] [] 0 None (wm_SubID m) []))"
      unfolding processOp_def Let_def ws_write_def by (auto dest!: ws_on_Answer)
    have "ws_call (fs_Write env (wm_Path m) (wm_Data m) caller) (c\<lparr>wc_out := out\<rparr>, t) = ((c1\<lparr>wc_out := out\<rparr>, t1), x)"
      using call_out[of "fs_Write env (wm_Path m) (wm_Data m) caller" out c t] x(1) by (simp add: with_out_def)
    note wr = call_waiting[OF this, of "AwaitingBinary m"]
    from x(2) show ?thesis
      using binary f g st st1 call_out_same[OF x(1)] wr
      by (intro exI[of _ hs])
        (auto simp: ws_receive_def processOp_def ws_on_def ws_finish_def keep ws_send_def answer_def binary_payload_def ws_write_def Let_def)
  qed
qed

lemma batch_singles:
  assumes "\<forall>m\<in>set ms. wm_Op m \<noteq> ''batch''" and "wc_state c = Reading"
    and "single_frames json (mo_ReadOnly o1) ms frames"
    and "run_batch env o1 caller ms (c, t) = ((c', t'), Inr rs)"
  shows "fold (ws_receive env o1 json caller) frames (c\<lparr>wc_out := out\<rparr>, t) =
      (c'\<lparr>wc_out := out @ answers ms rs\<rparr>, t') \<and> wc_out c' = wc_out c \<and> length rs = length ms"
  using assms
proof (induction ms arbitrary: c t out rs frames)
  case Nil
  then show ?case by (simp add: answers_def)
next
  case (Cons m ms)
  from Cons.prems(4) obtain c1 t1 r rs' where p: "processOp env o1 caller True m (c, t) = ((c1, t1), Answer r)"
    and rest: "run_batch env o1 caller ms (c1, t1) = ((c', t'), Inr rs')" and rs: "rs = r # rs'"
    by (auto split: prod.splits ws_result.splits sum.splits)
  have m: "wm_Op m \<noteq> ''batch''" using Cons.prems(1) by simp
  from single_op[OF m Cons.prems(2,3) p, of out] obtain fs where fs: "single_frames json (mo_ReadOnly o1) ms fs"
    "fold (ws_receive env o1 json caller) frames (c\<lparr>wc_out := out\<rparr>, t) =
      fold (ws_receive env o1 json caller) fs (c1\<lparr>wc_out := out @ answer m r\<rparr>, t1)"
    "wc_out c1 = wc_out c" "wc_state c1 = Reading" by blast
  from Cons.IH[OF _ fs(4,1) rest, of "out @ answer m r"] Cons.prems(1) fs(2,3)
  show ?case by (simp add: rs answers_def)
qed

text \<open>
  C27: a batch within the limit, of operations that all return and none of which is itself a batch, is its
  operations sent one by one. The connection and the file system end up the same as after the
  same messages in frames of their own, and the results in the reply of the batch are the
  replies that the single messages get, but for their form: a pong gets a reply only in a
  batch, and the data of the binary operations, which are texts in a batch, come and go in binary
  frames of their own.
\<close>

theorem ws_batch_equals_singles:
  assumes "\<forall>m\<in>set ms. wm_Op m \<noteq> ''batch''" and "wc_state c = Reading" and "int (length ms) \<le> batch_limit o1"
    and "json (in_Data bf) = Some (WsMsg ''batch'' p d pre sid ms)" and "length (in_Data bf) \<le> ws_read_limit"
    and "single_frames json (mo_ReadOnly o1) ms frames"
    and "run_batch env o1 caller ms (c, t) = ((c', t'), Inr rs)"
  shows "ws_receive env o1 json caller bf (c, t) =
      (c'\<lparr>wc_out := wc_out c @ [JsonFrame (WsReply ''batch'' [] [] [] 0 None sid rs)]\<rparr>, t') \<and>
    fold (ws_receive env o1 json caller) frames (c, t) = (c'\<lparr>wc_out := wc_out c @ answers ms rs\<rparr>, t') \<and>
    length rs = length ms"
proof -
  note single = batch_singles[OF assms(1,2,6,7), of "wc_out c"]
  then have "fold (ws_receive env o1 json caller) frames (c, t) = (c'\<lparr>wc_out := wc_out c @ answers ms rs\<rparr>, t')" by simp
  moreover have "ws_receive env o1 json caller bf (c, t) = ws_batch env o1 caller (WsMsg ''batch'' p d pre sid ms) (c, t)"
    using assms(2,4,5) by (simp add: ws_receive_def)
  moreover have "c'\<lparr>wc_out := wc_out c' @ x\<rparr> = c'\<lparr>wc_out := wc_out c @ x\<rparr>" for x using single by simp
  ultimately show ?thesis using assms(3,7) single by (simp add: ws_batch_def ws_send_def)
qed

definition ping_msg :: ws_msg where
  "ping_msg = WsMsg ''ping'' [] [] [] [] []"

lemma ws_batch_equals_singles_witness:
  "ws_receive clock_env plain_opts (\<lambda>b. Some (if b = ''b'' then WsMsg ''batch'' [] [] [] ''1'' [ping_msg] else ping_msg)) anonymous
     \<lparr>in_Binary = False, in_Data = ''b''\<rparr> (new_conn, demo_fs, 7) =
   (new_conn\<lparr>wc_out := [JsonFrame (WsReply ''batch'' [] [] [] 0 None ''1'' [WsReply ''pong'' [] [] [] 0 None [] []])]\<rparr>, demo_fs, 7)"
proof -
  let ?json = "\<lambda>b. Some (if b = ''b'' then WsMsg ''batch'' [] [] [] ''1'' [ping_msg] else ping_msg)"
  have r: "run_batch clock_env plain_opts anonymous [ping_msg] (new_conn, demo_fs, 7) =
      ((new_conn, demo_fs, 7), Inr [WsReply ''pong'' [] [] [] 0 None [] []])"
    by (simp add: processOp_def ping_msg_def)
  have "ws_receive clock_env plain_opts ?json anonymous \<lparr>in_Binary = False, in_Data = ''b''\<rparr> (new_conn, demo_fs, 7) =
      (new_conn\<lparr>wc_out := wc_out new_conn @ [JsonFrame (WsReply ''batch'' [] [] [] 0 None ''1'' [WsReply ''pong'' [] [] [] 0 None [] []])]\<rparr>, demo_fs, 7)"
    using ws_batch_equals_singles[where ms = "[ping_msg]" and c = new_conn and json = ?json
        and bf = "\<lparr>in_Binary = False, in_Data = ''b''\<rparr>" and frames = "[\<lparr>in_Binary = False, in_Data = ''p''\<rparr>]"
        and p = "[]" and d = "[]" and pre = "[]" and sid = "''1''", OF _ _ _ _ _ _ r]
    by (simp add: ping_msg_def new_conn_def batch_limit_def plain_opts_def ws_read_limit_def)
  then show ?thesis by (simp add: new_conn_def)
qed

section \<open>A race\<close>

text \<open>
  C28: emit copies the listeners under the lock of the bus and calls them after it has let the
  lock go. When the client unsubscribes in between, the copy still holds the listener, its
  channel is closed by then, and the call panics in the goroutine of whoever made the change.
  This is so for every subscription and every event that its prefix lets through.
\<close>

theorem ws_late_event_panics:
  assumes "s = fold (ws_step env o1 json caller) as (new_conn, fs, w)"
    and "map_of (wc_subs (fst s)) n = Some sb" and "n \<noteq> []"
    and "map_of (eb_subs (fs_events (fst (snd s)))) (su_unsub sb) = Some pre" and "has_prefix (ev_Path e) pre"
    and "wm_Op msg = ''unsubscribe''" and "wm_SubID msg = n"
    and "processOp env o1 caller False msg s = (s', r)"
  shows "(su_unsub sb, e) \<in> set (snd (emit e (fs_events (fst (snd s))))) \<and>
    (\<exists>reply. r = Answer reply) \<and> \<not> wc_panicked (fst s') \<and>
    su_unsub sb \<notin> dom (map_of (eb_subs (fs_events (fst (snd s'))))) \<and>
    wc_panicked (listener_call (su_ch sb) e (fst s'))"
proof -
  have ok: "ws_inv (fst ` set (eb_subs (fs_events fs))) (snd ` set (wc_subs (fst s))) s"
    using ws_run_ok[of fs env o1 json caller as w] by (simp add: assms(1) ws_ok_def)
  have m: "sb \<in> snd ` set (wc_subs (fst s))" using map_of_SomeD[OF assms(2)] by force
  obtain c t where cl: "close_sub sb s = (c, t)" by (rule prod.exhaust)
  have np: "\<not> wc_panicked c" using ws_inv_close[OF ok m] by (simp add: cl ws_inv_def)
  have s': "s' = (c\<lparr>wc_subs := mdel n (wc_subs c)\<rparr>, t)" "\<exists>reply. r = Answer reply"
    using assms(2,3,6,7,8) np by (auto simp: processOp_def Let_def cl)
  have "ch_closed (wc_chans c ! su_ch sb)" "eb_subs (fs_events (fst t)) = mdel (su_unsub sb) (eb_subs (fs_events (fst (snd s))))"
    using cl ws_invD(3)[OF ok m] by (auto simp: close_sub_def split_beta Let_def unregister_def)
  moreover have "(su_unsub sb, e) \<in> set (snd (emit e (fs_events (fst (snd s)))))"
    using assms(4,5) by (auto simp: emit_def Let_def deliver_iff dest: map_of_SomeD)
  ultimately show ?thesis using s' np by (simp add: listener_call_def dom_def)
qed

lemma ws_late_event_panics_witness:
  "wc_panicked (listener_call 0 created_a (fst (fst (processOp clock_env plain_opts anonymous False
     (WsMsg ''unsubscribe'' [] [] [] ''x'' [])
     (fold (ws_step clock_env plain_opts sub_json anonymous) [Receive sub_frame] (new_conn, demo_fs, 7))))))"
proof -
  let ?s = "fold (ws_step clock_env plain_opts sub_json anonymous) [Receive sub_frame] (new_conn, demo_fs, 7)"
  let ?m = "WsMsg ''unsubscribe'' [] [] [] ''x'' []"
  have sub: "map_of (wc_subs (fst ?s)) ''x'' = Some \<lparr>su_unsub = 1, su_ch = 0\<rparr>"
    "map_of (eb_subs (fs_events (fst (snd ?s)))) 1 = Some ''/a''"
    by (simp_all add: ws_eval demo_fs_eval newEventBus_def)
  obtain s' r where p: "processOp clock_env plain_opts anonymous False ?m ?s = (s', r)" by fastforce
  have "wc_panicked (listener_call (su_ch \<lparr>su_unsub = 1, su_ch = 0\<rparr>) created_a (fst s'))"
    using ws_late_event_panics[OF refl sub(1), of "''/a''" created_a ?m s' r] sub(2) p
    by (simp add: created_a_def has_prefix_def)
  with p show ?thesis by simp
qed

end
