(* ===== verification/ConfigProps.thy ===== *)
theory ConfigProps
  imports Config Namespace
begin

text \<open>
  What the configuration guarantees: the entries it makes are valid; loading comes to an end
  when the includes do; a file system that is built has just the mounts of the configuration;
  and a reload that succeeds leads there from any other one.
\<close>

section \<open>Entries\<close>

lemma kind_of_known: "kind_of s \<noteq> KindOther x \<Longrightarrow> known_kind (kind_of s) \<or> kind_of s = KindOther s"
  by (simp add: kind_of_def known_kind_def)

lemma remote_not_Nil [simp]: "provider_or_remote mc \<noteq> []"
  by (simp add: provider_or_remote_def)

lemma cap_providers [simp]:
  "cc_ProviderID (plain_cap pid a) = pid" "cc_ProviderID (write_cap t mc) = provider_or_remote mc"
  by (simp_all add: plain_cap_def write_cap_def)

lemma zero_simps [simp]:
  "me_ID zero_entry = 0" "me_Path zero_entry = []" "me_ModTime zero_entry = 0" "me_Ops zero_entry = []"
  "me_BlobData zero_entry = []" "me_LinkPath zero_entry = []" "me_Stream zero_entry = None"
  "me_Skill zero_entry = None" "me_Visibility zero_entry = []"
  by (simp_all add: zero_entry_def)

text \<open>
  C38: what the configuration makes an entry of. The entry passes the validation of the engine, whatever
  the strings in the file are. It has the kind and the mode the file names; a blob has the data and
  a link the target, an api has a read and a write operation where the file names actions for them, with these
  actions, the provider of the file (or the one called remote) and, for a write, the way
  parameters are made of a payload that the file asks for; a dynamic directory has a read operation.
  Nothing else is set: no other operation, no stream, no skill, and
  nothing of what the engine fills in. There is no such entry just for a mode that is no octal
  number of 32 bits, an unknown kind, or a dynamic directory that cannot be read.
\<close>

theorem config_entry_valid:
  "case toMountEntry t mc of
     Inr e \<Rightarrow> entry_Validate e = None \<and> me_Kind e = kind_of (mc_Kind mc) \<and> known_kind (me_Kind e) \<and>
       config_mode t mc = Inr (me_Mode e) \<and>
       me_BlobData e = (if me_Kind e = KindBlob then mc_Data mc else []) \<and>
       me_LinkPath e = (if me_Kind e = KindLink then mc_Link mc else []) \<and>
       (\<forall>o1. map_of (me_Ops e) o1 =
         (if o1 = OpRead \<and> mc_Read mc \<noteq> [] \<and> me_Kind e \<in> {KindAPI, KindDynamicDir}
          then Some (Some \<lparr>cc_ProviderID = provider_or_remote mc, cc_Action = mc_Read mc, cc_ParamsFn = None,
            cc_Async = False, cc_Timeout = 0, cc_CacheTTL = 0\<rparr>)
          else if o1 = OpWrite \<and> mc_Write mc \<noteq> [] \<and> me_Kind e = KindAPI
          then Some (Some \<lparr>cc_ProviderID = provider_or_remote mc, cc_Action = mc_Write mc,
            cc_ParamsFn = (if mc_WriteParams mc = ''json'' then Some (json_params t mc)
              else if mc_WriteParams mc = ''raw'' then Some raw_params else None),
            cc_Async = False, cc_Timeout = 0, cc_CacheTTL = 0\<rparr>)
          else None)) \<and>
       me_Serial e = (mc_Serial mc \<and> me_Kind e \<in> {KindAPI, KindDynamicDir}) \<and>
       me_Writeback e = (mc_Writeback mc \<and> me_Kind e = KindAPI) \<and>
       me_Schema e = (if me_Kind e = KindAPI then mc_Schema mc else []) \<and>
       me_Stream e = None \<and> plain_entry e \<and> me_Path e = [] \<and> me_ID e = 0 \<and> me_ModTime e = 0
   | Inl _ \<Rightarrow> (\<exists>err. config_mode t mc = Inl err) \<or> \<not> known_kind (kind_of (mc_Kind mc)) \<or>
       kind_of (mc_Kind mc) = KindDynamicDir \<and> mc_Read mc = []"
  by (cases "kind_of (mc_Kind mc)")
    (auto simp: toMountEntry_def entry_Validate_None_iff validate_ops_None known_kind_def plain_entry_def
      plain_cap_def write_cap_def zero_entry_def split: sum.split)

lemma entry_valid:
  assumes "toMountEntry t mc = Inr e"
  shows "plain_entry e" "me_Path e = []" "me_ModTime e = 0"
  using assms
  by (cases "kind_of (mc_Kind mc)"; auto simp: toMountEntry_def plain_entry_def split: sum.splits if_splits)+

definition api_line :: mount_config where
  "api_line = \<lparr>mc_Path = ''/a'', mc_Kind = ''api'', mc_Mode = ''640'', mc_Data = ''x'', mc_DataFile = [], mc_Link = [],
     mc_Provider = [], mc_Read = ''get'', mc_Write = ''put'', mc_WriteParams = ''json'', mc_Serial = False,
     mc_Writeback = False, mc_Schema = [], mc_SchemaFile = [], mc_Agents = None\<rparr>"

definition no_tools :: tools where
  "no_tools = \<lparr>to_read = (\<lambda>p. Inl (PlainError p)), to_config = (\<lambda>b. Inl (PlainError b)), to_object = (\<lambda>b. Inl (PlainError b)),
     to_expand = id, to_quote = id\<rparr>"

lemma config_entry_valid_witness:
  "\<exists>e. toMountEntry no_tools api_line = Inr e \<and> entry_Validate e = None \<and> me_Kind e = KindAPI \<and> me_Mode e = 416"
proof -
  obtain e where e: "toMountEntry no_tools api_line = Inr e" and m: "me_Mode e = 416"
    by (simp add: toMountEntry_def config_mode_def ParseUint8_def api_line_def kind_of_def Let_def)
  from config_entry_valid[of no_tools api_line] e m show ?thesis by (simp add: api_line_def kind_of_def)
qed

section \<open>Loading\<close>

text \<open>The second file is loaded for the first one, and what comes after it waits for it.\<close>

definition pulls :: "tools \<Rightarrow> string \<Rightarrow> string \<Rightarrow> bool" where
  "pulls t p q \<longleftrightarrow>
     (\<exists>c. own_config t p = Inr c \<and> q \<in> include_path (file_Dir p) ` set (cf_Includes c) \<and> q \<noteq> p)"

text \<open>Every chain of includes that starts at the file ends.\<close>

inductive settles :: "tools \<Rightarrow> string \<Rightarrow> bool" for t where
  settled: "(\<And>q. pulls t p q \<Longrightarrow> settles t q) \<Longrightarrow> settles t p"

lemma include_all_cong:
  assumes "\<And>q. load q \<noteq> None \<Longrightarrow> load' q = load q" and "include_all load base seen incs c \<noteq> None"
  shows "include_all load' base seen incs c = include_all load base seen incs c"
  using assms(2)
proof (induction incs arbitrary: seen c)
  case (Cons inc incs)
  then show ?case using assms(1)[of "include_path base inc"]
    by (auto simp: Let_def split: option.splits sum.splits if_splits)
qed simp

lemma load_more: "LoadConfig n t p \<noteq> None \<Longrightarrow> n \<le> m \<Longrightarrow> LoadConfig m t p = LoadConfig n t p"
proof (induction n arbitrary: m p)
  case (Suc n)
  then obtain k where m: "m = Suc k" "n \<le> k" by (cases m) auto
  have rec: "LoadConfig n t q \<noteq> None \<Longrightarrow> LoadConfig k t q = LoadConfig n t q" for q using Suc.IH m(2) by blast
  show ?case
  proof (cases "own_config t p")
    case (Inr c)
    with Suc.prems(1) have "include_all (LoadConfig n t) (file_Dir p) [p] (cf_Includes c) c \<noteq> None"
      by (auto split: option.splits)
    from include_all_cong[OF rec this] Inr m(1) show ?thesis by simp
  qed (simp add: m(1))
qed simp

lemma include_all_returns:
  "(\<And>inc. inc \<in> set incs \<Longrightarrow> include_path base inc \<notin> set seen \<Longrightarrow> load (include_path base inc) \<noteq> None) \<Longrightarrow>
   include_all load base seen incs c \<noteq> None"
proof (induction incs arbitrary: seen c)
  case (Cons inc incs)
  show ?case
  proof (cases "include_path base inc \<in> set seen")
    case False
    then obtain r where "load (include_path base inc) = Some r" using Cons.prems by fastforce
    moreover have "include_all load base (include_path base inc # seen) incs c' \<noteq> None" for c'
      by (rule Cons.IH) (use Cons.prems in simp)
    ultimately show ?thesis using False by (auto simp: Let_def split: sum.split)
  qed (use Cons in \<open>auto simp: Let_def\<close>)
qed simp

lemma include_all_done:
  "include_all load base seen incs c = Some (Inr d) \<Longrightarrow> inc \<in> set incs \<Longrightarrow> include_path base inc \<notin> set seen \<Longrightarrow>
   \<exists>d'. load (include_path base inc) = Some (Inr d')"
proof (induction incs arbitrary: seen c)
  case (Cons i incs)
  from Cons.prems Cons.IH[of seen c] Cons.IH[of "include_path base i # seen"] show ?case
    by (cases "include_path base inc = include_path base i") (auto simp: Let_def split: if_splits option.splits sum.splits)
qed simp

lemma load_settles: "LoadConfig n t p = Some (Inr d) \<Longrightarrow> settles t p"
proof (induction n arbitrary: p d)
  case (Suc n)
  show ?case
  proof (rule settled)
    fix q assume "pulls t p q"
    then obtain c inc where c: "own_config t p = Inr c" "inc \<in> set (cf_Includes c)" "q = include_path (file_Dir p) inc" "q \<noteq> p"
      by (auto simp: pulls_def)
    with Suc.prems obtain e where "include_all (LoadConfig n t) (file_Dir p) [p] (cf_Includes c) c = Some (Inr e)"
      by (auto split: option.splits sum.splits)
    from include_all_done[OF this c(2)] c Suc.IH show "settles t q" by auto
  qed
qed simp

lemma settles_load: "settles t p \<Longrightarrow> \<exists>n. LoadConfig n t p \<noteq> None"
proof (induction rule: settles.induct)
  case (settled p)
  show ?case
  proof (cases "own_config t p")
    case (Inl e)
    then show ?thesis by (intro exI[of _ 1]) simp
  next
    case (Inr c)
    let ?qs = "{q \<in> include_path (file_Dir p) ` set (cf_Includes c). q \<noteq> p}"
    have "\<forall>q\<in>?qs. \<exists>n. LoadConfig n t q \<noteq> None" using settled Inr by (auto simp: pulls_def)
    then obtain f where f: "\<And>q. q \<in> ?qs \<Longrightarrow> LoadConfig (f q) t q \<noteq> None" by metis
    define n where "n = Max (insert 0 (f ` ?qs))"
    have "LoadConfig n t q \<noteq> None" if "q \<in> ?qs" for q
      using f[OF that] load_more[OF f[OF that], of n] that by (simp add: n_def)
    then have "include_all (LoadConfig n t) (file_Dir p) [p] (cf_Includes c) c \<noteq> None"
      by (intro include_all_returns) auto
    with Inr show ?thesis by (intro exI[of _ "Suc n"]) (auto split: option.split sum.split)
  qed
qed

text \<open>
  C39: loading a configuration file comes to an end when every chain of includes does, and a
  result is only there when they do; more nested calls than needed change nothing. The list of
  files that have been seen belongs to one call: in a set of files each of which includes
  another file of the set first, no file is ever loaded. Two files that name each other are
  enough for that.
\<close>

theorem load_terminates:
  "(settles t p \<longrightarrow> (\<exists>n r. \<forall>m\<ge>n. LoadConfig m t p = Some r)) \<and>
   (LoadConfig n t p = Some (Inr c) \<longrightarrow> settles t p) \<and>
   (p \<in> F \<and> (\<forall>x\<in>F. \<exists>c inc incs. own_config t x = Inr c \<and> cf_Includes c = inc # incs \<and>
      include_path (file_Dir x) inc \<in> F - {x}) \<longrightarrow> LoadConfig n t p = None)"
proof (intro conjI impI)
  assume "settles t p"
  then obtain n where "LoadConfig n t p \<noteq> None" using settles_load by blast
  then show "\<exists>n r. \<forall>m\<ge>n. LoadConfig m t p = Some r" using load_more[of n t p] by fastforce
next
  assume F: "p \<in> F \<and> (\<forall>x\<in>F. \<exists>c inc incs. own_config t x = Inr c \<and> cf_Includes c = inc # incs \<and>
      include_path (file_Dir x) inc \<in> F - {x})"
  have "\<forall>x\<in>F. LoadConfig n t x = None"
  proof (induction n)
    case (Suc n)
    then show ?case using F by (fastforce simp: Let_def)
  qed simp
  with F show "LoadConfig n t p = None" by blast
qed (rule load_settles)

definition twin_tools :: tools where
  "twin_tools = no_tools\<lparr>to_read := Inr, to_config := (\<lambda>b. Inr \<lparr>cf_Mounts = [], cf_Providers = [], cf_SkillsRoot = [],
     cf_Skills = [], cf_Includes = [if b = ''/a'' then ''/b'' else ''/a'']\<rparr>)\<rparr>"

lemma load_terminates_witness: "\<forall>n. LoadConfig n twin_tools ''/a'' = None"
proof
  fix n
  have "\<forall>x\<in>{''/a'', ''/b''}. \<exists>c inc incs. own_config twin_tools x = Inr c \<and> cf_Includes c = inc # incs \<and>
      include_path (file_Dir x) inc \<in> {''/a'', ''/b''} - {x}"
    by (auto simp: own_config_def twin_tools_def no_tools_def resolveFileRefs_def expandEnv_def include_path_def
        IsAbs_def has_prefix_def)
  with load_terminates[of twin_tools "''/a''" n undefined "{''/a'', ''/b''}"]
  show "LoadConfig n twin_tools ''/a'' = None" by blast
qed

section \<open>One mount, one unmount\<close>

text \<open>
  From one state to a later one: the mounts \<open>gone\<close> have left, \<open>came\<close> are there instead (up to their
  ids), and n entries have been mounted in all.
\<close>

definition turned :: "mount_entry multiset \<Rightarrow> mount_entry multiset \<Rightarrow> nat \<Rightarrow> fs_state \<Rightarrow> fs_state \<Rightarrow> bool" where
  "turned gone came n fs fs' \<longleftrightarrow> router_ok (fs_router fs') \<and> fs_cfg fs' = fs_cfg fs \<and>
     r_seq (fs_router fs') = r_seq (fs_router fs) + of_nat n \<and>
     image_mset no_id (mset (fs_Snapshot fs)) + came = image_mset no_id (gone + mset (fs_Snapshot fs'))"

lemma turned_refl: "router_ok (fs_router fs) \<Longrightarrow> turned {#} {#} 0 fs fs"
  by (simp add: turned_def)

lemma turned_trans:
  assumes "turned g1 c1 n1 fs fs1" and "turned g2 c2 n2 fs1 fs2"
  shows "turned (g1 + g2) (c1 + c2) (n1 + n2) fs fs2"
  using assms unfolding turned_def by (auto simp: algebra_simps) (metis add.left_commute union_assoc)

lemma snapshot_own:
  assumes "router_ok r" and "e \<in> set (router_snapshot r)" and "router_remove r (me_Path e) = (r', x)"
  shows "x = Inr e"
proof -
  have "cleanParts (me_Path e) = Inr (pat_of e)" "look (pat_of e) (r_root r) = Some e"
    using assms(2) unfolding snapshot_placed[OF assms(1)] placed_def by simp_all
  with assms(3) show ?thesis by (cases rule: router_remove_cases) auto
qed

lemma unmount_own:
  assumes "fs_Unmount env w (me_Path e) fs = (fs', None)" and "router_ok (fs_router fs)" and "e \<in># mset (fs_Snapshot fs)"
  shows "turned {#e#} {#} 0 fs fs' \<and> mset (fs_Snapshot fs) = add_mset e (mset (fs_Snapshot fs'))"
proof -
  obtain x where rr: "router_remove (fs_router fs) (me_Path e) = (fs_router fs', x)" and c: "fs_cfg fs' = fs_cfg fs"
    using assms(1)
    by (auto simp: fs_Unmount_def unmount_body_def unmountLocked_def Let_def with_router_def normalizePath_def
        split: sum.splits prod.splits option.splits if_splits)
  with snapshot_own[OF assms(2) _ rr] assms(3) have rr: "router_remove (fs_router fs) (me_Path e) = (fs_router fs', Inr e)"
    by (simp add: fs_Snapshot_def)
  have "r_seq (fs_router fs') = r_seq (fs_router fs)" using rr by (cases rule: router_remove_cases) auto
  with c rr router_remove_snapshot[OF assms(2) rr] router_remove_ok[OF assms(2), of "me_Path e"] show ?thesis
    by (simp add: turned_def fs_Snapshot_def)
qed

lemma mount_new:
  assumes "fs_Mount env w p e fs = (fs', None)" and "router_ok (fs_router fs)" and "plain_entry e"
  shows "turned {#} {#no_id (entry_defaults (fs_cfg fs) (env_now env w) p e)#} 1 fs fs' \<and>
    mset (fs_Snapshot fs) \<subseteq># mset (fs_Snapshot fs')"
proof -
  from mount_outcome[OF assms(3,1)] obtain m where c: "fs_cfg fs' = fs_cfg fs"
    and ra: "router_add (fs_router fs) (entry_defaults (fs_cfg fs) (env_now env w) p e) = (fs_router fs', Inr m)" by auto
  have "r_seq (fs_router fs') = r_seq (fs_router fs) + 1" using ra by (cases rule: router_add_cases) auto
  with c router_add_new_mount[OF assms(2) ra] show ?thesis by (simp add: turned_def fs_Snapshot_def)
qed

lemma distinct_by_rest:
  "(\<And>m x. m \<in> set xs \<Longrightarrow> x \<in># mset xs - {#m#} \<Longrightarrow> f m \<noteq> f x) \<Longrightarrow> distinct (map f xs)"
proof (induction xs)
  case (Cons a xs)
  have "f m \<noteq> f x" if "m \<in> set xs" "x \<in># mset xs - {#m#}" for m x
    using Cons.prems[of m x] that by (auto dest: in_diffD split: if_splits)
  with Cons show ?case by auto
qed simp

lemma snapshot_paths: "router_ok r \<Longrightarrow> distinct (map me_Path (router_snapshot r))"
  by (rule distinct_by_rest) (use snapshot_distinct_places same_pat_refl in \<open>fastforce simp: pat_of_def\<close>)

lemma distinct_submset:
  assumes "mset xs \<subseteq># mset ys" and "distinct ys"
  shows "distinct xs"
proof -
  obtain zs where "mset ys = mset xs + zs" using assms(1) by (auto simp: mset_subset_eq_exists_conv)
  moreover obtain ws where "mset ws = zs" using ex_mset by blast
  ultimately have "mset ys = mset (xs @ ws)" by simp
  from mset_eq_imp_distinct_iff[OF this] assms(2) have "distinct (xs @ ws)" by simp
  then show ?thesis by simp
qed

section \<open>Building\<close>

definition dir_line :: mount_config where
  "dir_line = api_line\<lparr>mc_Kind := ''dir'', mc_Mode := []\<rparr>"

definition dir_config :: config where
  "dir_config = \<lparr>cf_Mounts = [dir_line], cf_Providers = [], cf_SkillsRoot = [], cf_Skills = [], cf_Includes = []\<rparr>"

definition dir_entry0 :: mount_entry where
  "dir_entry0 = zero_entry\<lparr>me_Kind := KindDir, me_Mode := mode_0755\<rparr>"

lemma dir_line_entry: "toMountEntry t dir_line = Inr dir_entry0" "mc_Path dir_line = ''/a''"
  by (simp_all add: toMountEntry_def config_mode_def dir_line_def api_line_def kind_of_def dir_entry0_def)

lemma dir_mounts:
  assumes "fs_router fs = newRouter" and "1 < g_MaxMounts (fs_cfg fs)" and "e = dir_entry0 \<or> e = dir_entry0\<lparr>me_Path := q\<rparr>"
  shows "\<exists>fs'. fs_Mount clock_env 7 ''/a'' e fs = (fs', None)"
proof -
  have pl: "plain_entry e" using assms(3) by (auto simp: plain_entry_def dir_entry0_def)
  have v: "normalizePath ''/a'' = Inr ''/a''" "\<not> isReservedPath ''/a''"
    by (simp_all add: normalizePath_def has_suffix_def isReservedPath_def reservedPaths_def has_prefix_def)
  have "entry_Validate e = None"
    using assms(3)
    by (elim disjE) (simp_all add: entry_Validate_None_iff validate_ops_None known_kind_def dir_entry0_def)
  moreover have "mount_gate e fs = None"
    using assms by (auto simp: mount_gate_def ops_registered_def dir_entry0_def newRouter_def router_count_def empty_node_def)
  ultimately show ?thesis using v
    by (simp add: fs_Mount_def mount_body_def mountLocked_plain[OF pl] Let_def assms(1)
        router_add_def newRouter_def cleanParts_def not_absolute_def trim_char_def bad_seg_def
        empty_node_def child_or_new_def has_prefix_def entry_defaults_def split: prod.splits)
qed

text \<open>The entry that a line of the configuration stands for, without the id the router gives it.\<close>

definition expected :: "tools \<Rightarrow> global_config \<Rightarrow> time \<Rightarrow> mount_config \<Rightarrow> mount_entry" where
  "expected t cfg now mc =
     (case toMountEntry t mc of
        Inl e \<Rightarrow> zero_entry
      | Inr e \<Rightarrow> no_id (entry_defaults cfg now (mc_Path mc) e))"

lemma expected_of: "toMountEntry t mc = Inr e \<Longrightarrow>
    expected t cfg now mc = no_id (entry_defaults cfg now (mc_Path mc) e)"
  by (simp add: expected_def)

lemma expected_path: "toMountEntry t mc = Inr e \<Longrightarrow> me_Path (expected t cfg now mc) = mc_Path mc"
  by (simp add: expected_def entry_defaults_def no_id_def)

lemma build_mounts_turned:
  assumes "build_mounts t env w mcs fs = (fs', None)" and "router_ok (fs_router fs)"
  shows "turned {#} (mset (map (expected t (fs_cfg fs) (env_now env w)) mcs)) (length mcs) fs fs' \<and>
    (\<forall>mc\<in>set mcs. \<exists>e. toMountEntry t mc = Inr e)"
  using assms
proof (induction mcs arbitrary: fs)
  case (Cons mc mcs)
  from Cons.prems(1) obtain e fs1 where e: "toMountEntry t mc = Inr e" and m: "fs_Mount env w (mc_Path mc) e fs = (fs1, None)"
    and rest: "build_mounts t env w mcs fs1 = (fs', None)"
    by (auto split: sum.splits prod.splits option.splits)
  note new = mount_new[OF m Cons.prems(2) entry_valid(1)[OF e]]
  then have "router_ok (fs_router fs1)" "fs_cfg fs1 = fs_cfg fs" by (simp_all add: turned_def)
  with Cons.IH[OF rest] have
    tl: "turned {#} (mset (map (expected t (fs_cfg fs) (env_now env w)) mcs)) (length mcs) fs1 fs'"
      "\<forall>mc\<in>set mcs. \<exists>e. toMountEntry t mc = Inr e" by simp_all
  from turned_trans[OF conjunct1[OF new] tl(1)] tl(2) e show ?case by (simp add: expected_of)
qed (simp add: turned_refl)

lemma desired_list:
  assumes "each_ok (desired_entry t) mcs = Inr es"
  shows "map me_Path es = map mc_Path mcs \<and>
    (\<forall>e\<in>set es. plain_entry e \<and> me_ModTime e = 0) \<and>
    map (\<lambda>e. no_id (entry_defaults cfg now (me_Path e) e)) es = map (expected t cfg now) mcs"
  using assms
proof (induction mcs arbitrary: es)
  case (Cons mc mcs)
  from Cons.prems obtain e es' where e: "toMountEntry t mc = Inr e" and es: "es = e\<lparr>me_Path := mc_Path mc\<rparr> # es'"
    and rest: "each_ok (desired_entry t) mcs = Inr es'"
    by (auto simp: desired_entry_def[of t mc] split: sum.splits)
  have "plain_entry (e\<lparr>me_Path := q\<rparr>) = plain_entry e" for q by (simp add: plain_entry_def)
  moreover have "entry_defaults cfg now q (e\<lparr>me_Path := q\<rparr>) = entry_defaults cfg now q e" for q
    by (simp add: entry_defaults_def)
  ultimately show ?case using Cons.IH[OF rest] entry_valid[OF e] e by (simp add: es expected_of)
qed simp

lemma unmount_list_turned:
  assumes "unmount_list env w es fs = (fs', None)" and "router_ok (fs_router fs)" and "mset es \<subseteq># mset (fs_Snapshot fs)"
  shows "turned (mset es) {#} 0 fs fs' \<and> mset (fs_Snapshot fs) = mset es + mset (fs_Snapshot fs')"
  using assms
proof (induction es arbitrary: fs)
  case (Cons e es)
  from Cons.prems(1) obtain fs1 where u: "fs_Unmount env w (me_Path e) fs = (fs1, None)"
    and rest: "unmount_list env w es fs1 = (fs', None)" by (auto split: prod.splits option.splits)
  have "e \<in># mset (fs_Snapshot fs)" using Cons.prems(3) by (meson list.set_intros(1) mset_subset_eqD set_mset_mset in_multiset_in_set)
  note one = unmount_own[OF u Cons.prems(2) this]
  have "turned (mset es) {#} 0 fs1 fs' \<and> mset (fs_Snapshot fs1) = mset es + mset (fs_Snapshot fs')"
    using one Cons.prems(3) by (intro Cons.IH[OF rest]) (auto simp: turned_def)
  with one turned_trans[OF conjunct1[OF one], of "mset es" "{#}" 0 fs'] show ?case by simp
qed (simp add: turned_refl)

lemma mount_list_turned:
  assumes "mount_list env w es fs = (fs', None)" and "router_ok (fs_router fs)" and "\<forall>e\<in>set es. plain_entry e"
  shows "turned {#} (mset (map (\<lambda>e. no_id (entry_defaults (fs_cfg fs) (env_now env w) (me_Path e) e)) es)) (length es) fs fs'"
  using assms
proof (induction es arbitrary: fs)
  case (Cons e es)
  from Cons.prems(1) obtain fs1 where m: "fs_Mount env w (me_Path e) e fs = (fs1, None)"
    and rest: "mount_list env w es fs1 = (fs', None)" by (auto split: prod.splits option.splits)
  note new = mount_new[OF m Cons.prems(2)]
  with Cons.prems(3) have "router_ok (fs_router fs1)" "fs_cfg fs1 = fs_cfg fs" by (simp_all add: turned_def)
  with Cons.IH[OF rest] Cons.prems(3) turned_trans[OF conjunct1[OF new]] show ?case by fastforce
qed (simp add: turned_refl)

lemma remount_list_turned:
  assumes "remount_list env w chs fs = (fs', None)" and "router_ok (fs_router fs)"
    and "mset (map (fst \<circ> snd) chs) \<subseteq># mset (fs_Snapshot fs)"
    and "\<forall>(p, old, new)\<in>set chs. p = me_Path old \<and> plain_entry new"
  shows "turned (mset (map (fst \<circ> snd) chs))
    (mset (map (\<lambda>(p, old, new). no_id (entry_defaults (fs_cfg fs) (env_now env w) (me_Path new) new)) chs)) (length chs) fs fs'"
  using assms
proof (induction chs arbitrary: fs)
  case (Cons ch chs)
  obtain p old new where ch: "ch = (p, old, new)" by (rule prod_cases3)
  from Cons.prems(1) obtain fs1 fs2 where u: "fs_Unmount env w (me_Path old) fs = (fs1, None)"
    and m: "fs_Mount env w (me_Path new) new fs1 = (fs2, None)" and rest: "remount_list env w chs fs2 = (fs', None)"
    using Cons.prems(4) by (auto simp: ch split: prod.splits option.splits)
  have "old \<in># mset (fs_Snapshot fs)" using Cons.prems(3) by (simp add: ch insert_subset_eq_iff)
  note one = unmount_own[OF u Cons.prems(2) this]
  then have "router_ok (fs_router fs1)" "fs_cfg fs1 = fs_cfg fs" by (simp_all add: turned_def)
  moreover from this(1) Cons.prems(4) have two: "turned {#} {#no_id (entry_defaults (fs_cfg fs1) (env_now env w) (me_Path new) new)#} 1 fs1 fs2"
    "mset (fs_Snapshot fs1) \<subseteq># mset (fs_Snapshot fs2)"
    using mount_new[OF m] by (simp_all add: ch)
  moreover have "mset (map (fst \<circ> snd) chs) \<subseteq># mset (fs_Snapshot fs1)"
    using one Cons.prems(3) by (simp add: ch comp_def)
  then have "mset (map (fst \<circ> snd) chs) \<subseteq># mset (fs_Snapshot fs2)"
    using two(2) by (rule subset_mset.order_trans)
  moreover have "router_ok (fs_router fs2)" "fs_cfg fs2 = fs_cfg fs1" using two(1) by (simp_all add: turned_def)
  moreover have "\<forall>(p, old, new)\<in>set chs. p = me_Path old \<and> plain_entry new" using Cons.prems(4) by simp
  ultimately have "turned (mset (map (fst \<circ> snd) chs))
      (mset (map (\<lambda>(p, old, new). no_id (entry_defaults (fs_cfg fs1) (env_now env w) (me_Path new) new)) chs))
      (length chs) fs2 fs'"
    using Cons.IH[OF rest] by (simp add: comp_def)
  from turned_trans[OF turned_trans[OF conjunct1[OF one] two(1)] this] \<open>fs_cfg fs1 = fs_cfg fs\<close>
  show ?case by (simp add: ch comp_def)
qed (simp add: turned_refl)

lemma mount_file_turned:
  assumes "mount_root_file p data fs = (fs', None)" and "router_ok (fs_router fs)"
  shows "\<exists>x. me_Path x = p \<and> turned {#} {#x#} 1 fs fs'"
proof -
  obtain d r m where ra: "router_add (fs_router fs) (root_entry p d fs) = (r, Inr m)"
    and fs': "fs' = fs_emit p EventCreate (with_router r fs)"
    using assms(1) by (auto simp: mount_root_file_def split: sum.splits prod.splits)
  have "r_seq r = r_seq (fs_router fs) + 1" using ra by (cases rule: router_add_cases) auto
  moreover have "me_Path (no_id m) = p"
    using router_add_new_mount[OF assms(2) ra] by (simp add: root_entry_def no_id_def)
  ultimately show ?thesis using router_add_new_mount[OF assms(2) ra]
    by (intro exI[of _ "no_id m"]) (auto simp: fs' turned_def fs_Snapshot_def)
qed

definition root_files :: "mount_entry multiset \<Rightarrow> bool" where
  "root_files xs \<longleftrightarrow> me_Path ` set_mset xs \<subseteq> {''/SKILL.md'', ''/AGENTS.md''}"

lemma skill_at_root_turned:
  assumes "MountSkillAtRoot sc fs = (fs', None)" and "router_ok (fs_router fs)"
  shows "\<exists>xs n. root_files xs \<and> turned {#} xs n fs fs' \<and> (\<not> sk_ExposeAtRoot sc \<longrightarrow> xs = {#})"
proof (cases "sk_ExposeAtRoot sc")
  case False
  with assms show ?thesis
    by (intro exI[of _ "{#}"] exI[of _ 0]) (auto simp: MountSkillAtRoot_def root_files_def turned_refl)
next
  case True
  then obtain d fs1 where one: "mount_root_file ''/SKILL.md'' d fs = (fs1, None)"
    and rest: "fs' = fs1 \<or> (\<exists>d'. mount_root_file ''/AGENTS.md'' d' fs1 = (fs', None))"
    using assms(1) by (auto simp: MountSkillAtRoot_def split: prod.splits option.splits if_splits)
  from mount_file_turned[OF one assms(2)] obtain x where
    x: "me_Path x = ''/SKILL.md''" "turned {#} {#x#} 1 fs fs1" by blast
  then have ok: "router_ok (fs_router fs1)" by (simp add: turned_def)
  from rest show ?thesis
  proof
    assume "fs' = fs1"
    with x True show ?thesis by (intro exI[of _ "{#x#}"] exI[of _ 1]) (simp add: root_files_def)
  next
    assume "\<exists>d'. mount_root_file ''/AGENTS.md'' d' fs1 = (fs', None)"
    then obtain y where "me_Path y = ''/AGENTS.md''" "turned {#} {#y#} 1 fs1 fs'"
      using mount_file_turned[OF _ ok] by blast
    with x True turned_trans[OF x(2)] show ?thesis
      by (intro exI[of _ "{#x#} + {#y#}"] exI[of _ "1 + 1"]) (fastforce simp: root_files_def)
  qed
qed

lemma build_skills_turned:
  assumes "build_skills env scs fs = (fs', None)" and "router_ok (fs_router fs)"
  shows "\<exists>xs n. root_files xs \<and> turned {#} xs n fs fs' \<and> (xs \<noteq> {#} \<longrightarrow> (\<exists>sc\<in>set scs. sk_ExposeAtRoot sc))"
  using assms
proof (induction scs arbitrary: fs)
  case Nil
  then show ?case by (intro exI[of _ "{#}"] exI[of _ 0]) (simp add: root_files_def turned_refl)
next
  case (Cons sc scs)
  from Cons.prems(1) obtain g fs1 where m: "MountSkillAtRoot sc (fs\<lparr>fs_skills := g\<rparr>) = (fs1, None)"
    and rest: "build_skills env scs fs1 = (fs', None)" by (auto split: prod.splits option.splits)
  from skill_at_root_turned[OF m] Cons.prems(2) obtain xs n where
    x: "root_files xs" "turned {#} xs n (fs\<lparr>fs_skills := g\<rparr>) fs1" "\<not> sk_ExposeAtRoot sc \<longrightarrow> xs = {#}" by auto
  then have x': "turned {#} xs n fs fs1" "router_ok (fs_router fs1)" by (simp_all add: turned_def fs_Snapshot_def)
  from Cons.IH[OF rest x'(2)] obtain ys k where
    y: "root_files ys" "turned {#} ys k fs1 fs'" "ys \<noteq> {#} \<longrightarrow> (\<exists>sc\<in>set scs. sk_ExposeAtRoot sc)" by blast
  from turned_trans[OF x'(1) y(2)] x(1,3) y(1,3) show ?case
    by (intro exI[of _ "xs + ys"] exI[of _ "n + k"]) (auto simp: root_files_def)
qed

lemma build_providers_frame:
  assumes "build_providers pcs fs = (fs', None)"
  shows "distinct (map pv_ID pcs) \<and> set (fs_providers fs) \<inter> pv_ID ` set pcs = {} \<and>
    fs_router fs' = fs_router fs \<and> fs_cfg fs' = fs_cfg fs"
  using assms
proof (induction pcs arbitrary: fs)
  case (Cons pc pcs)
  from Cons.prems obtain fs1 where "RegisterProvider (Some (pv_ID pc)) fs = (fs1, None)"
    and rest: "build_providers pcs fs1 = (fs', None)" by (auto split: prod.splits option.splits)
  then have "fs1 = fs\<lparr>fs_providers := fs_providers fs @ [pv_ID pc]\<rparr>" "pv_ID pc \<notin> set (fs_providers fs)"
    by (auto simp: RegisterProvider_def split: if_splits)
  with Cons.IH[OF rest] show ?case by auto
qed simp

lemma bare_config_fs:
  "\<exists>fs. NewFS (bare_config sr) = Return fs \<and> fs_router fs = newRouter \<and> fs_cfg fs = withDefaults (bare_config sr) \<and>
     fs_providers fs = [] \<and> fs_skills fs = []"
  by (simp add: NewFS_def config_Validate_def bare_config_def withDefaults_def dflt_def Let_def second_def NewSkillGenerator_def)

text \<open>
  Building a file system from a configuration never panics. When it succeeds, the mounts
  are those of the configuration, one for each line and with the defaults filled in, together
  with the files that skills with ExposeAtRoot put at the root, and nothing else. So it fails
  for a line without a valid entry, for two lines with the same path, also when they came in
  through two includes of one file, and for two providers with the same id.
\<close>

theorem config_build_exact:
  "\<exists>r. BuildFS t env w c = Return r \<and>
     (\<forall>fs. r = Inr fs \<longrightarrow> router_ok (fs_router fs) \<and>
        (\<exists>roots. root_files roots \<and> (roots \<noteq> {#} \<longrightarrow> (\<exists>sc\<in>set (cf_Skills c). sk_ExposeAtRoot sc)) \<and>
          image_mset no_id (mset (fs_Snapshot fs)) =
            roots + mset (map (expected t (withDefaults (bare_config (cf_SkillsRoot c))) (env_now env w)) (cf_Mounts c))) \<and>
        (\<forall>mc\<in>set (cf_Mounts c). \<exists>e. toMountEntry t mc = Inr e) \<and>
        distinct (map mc_Path (cf_Mounts c)) \<and> distinct (map pv_ID (cf_Providers c)))"
proof -
  let ?cfg = "withDefaults (bare_config (cf_SkillsRoot c))"
  obtain fs0 where fs0: "NewFS (bare_config (cf_SkillsRoot c)) = Return fs0" "fs_router fs0 = newRouter"
    "fs_cfg fs0 = ?cfg" "fs_providers fs0 = []" using bare_config_fs by blast
  have ok0: "router_ok (fs_router fs0)" "fs_Snapshot fs0 = []"
    by (simp_all add: fs0 router_ok_new fs_Snapshot_def) (simp add: router_snapshot_def newRouter_def empty_node_def)
  obtain r where r: "BuildFS t env w c = Return r" by (simp add: BuildFS_def fs0)
  show ?thesis
  proof (rule exI[of _ r], intro conjI allI impI)
    show "BuildFS t env w c = Return r" by (rule r)
  next
    fix fs assume "r = Inr fs"
    with r obtain fs1 fs2 where b1: "build_skills env (cf_Skills c) fs0 = (fs1, None)"
      and b2: "build_providers (cf_Providers c) fs1 = (fs2, None)" and b3: "build_mounts t env w (cf_Mounts c) fs2 = (fs, None)"
      by (auto simp: BuildFS_def fs0 split: prod.splits option.splits)
    obtain roots n where x: "root_files roots" "turned {#} roots n fs0 fs1"
      "roots \<noteq> {#} \<longrightarrow> (\<exists>sc\<in>set (cf_Skills c). sk_ExposeAtRoot sc)"
      using build_skills_turned[OF b1 ok0(1)] by blast
    note p = build_providers_frame[OF b2]
    have fs2: "router_ok (fs_router fs2)" "fs_cfg fs2 = ?cfg" "fs_Snapshot fs2 = fs_Snapshot fs1"
      using x(2) p fs0(3) by (simp_all add: turned_def fs_Snapshot_def)
    note m = build_mounts_turned[OF b3 fs2(1), unfolded fs2(2)]
    let ?want = "map (expected t ?cfg (env_now env w)) (cf_Mounts c)"
    show ok: "router_ok (fs_router fs)" using m by (simp add: turned_def)
    have all: "image_mset no_id (mset (fs_Snapshot fs)) = roots + mset ?want"
      using m x(2) ok0(2) by (simp add: turned_def fs2(3))
    with x show "\<exists>roots. root_files roots \<and> (roots \<noteq> {#} \<longrightarrow> (\<exists>sc\<in>set (cf_Skills c). sk_ExposeAtRoot sc)) \<and>
        image_mset no_id (mset (fs_Snapshot fs)) = roots + mset ?want" by blast
    show lines: "\<forall>mc\<in>set (cf_Mounts c). \<exists>e. toMountEntry t mc = Inr e" using m by simp
    show "distinct (map pv_ID (cf_Providers c))" using p by simp
    have "mset (map me_Path (fs_Snapshot fs)) = image_mset me_Path (image_mset no_id (mset (fs_Snapshot fs)))"
      by (simp add: no_id_def image_mset.compositionality comp_def)
    also have "\<dots> = image_mset me_Path roots + mset (map me_Path ?want)"
      by (simp add: all image_mset.compositionality comp_def)
    also have "map me_Path ?want = map mc_Path (cf_Mounts c)"
      using lines by (auto simp: comp_def dest: expected_path)
    finally have "mset (map mc_Path (cf_Mounts c)) \<subseteq># mset (map me_Path (fs_Snapshot fs))" by simp
    moreover have "distinct (map me_Path (fs_Snapshot fs))" using snapshot_paths[OF ok] by (simp add: fs_Snapshot_def)
    ultimately show "distinct (map mc_Path (cf_Mounts c))" by (rule distinct_submset)
  qed
qed

lemma config_build_exact_witness:
  "\<exists>fs. BuildFS no_tools clock_env 7 dir_config = Return (Inr fs) \<and> router_ok (fs_router fs) \<and>
     size (fs_Snapshot fs) = 1"
proof -
  obtain fs0 where fs0: "NewFS (bare_config []) = Return fs0" "fs_router fs0 = newRouter"
    "fs_cfg fs0 = withDefaults (bare_config [])" using bare_config_fs by blast
  then have "1 < g_MaxMounts (fs_cfg fs0)" by (simp add: withDefaults_def bare_config_def)
  from dir_mounts[OF fs0(2) this] obtain fs where m: "fs_Mount clock_env 7 ''/a'' dir_entry0 fs0 = (fs, None)" by blast
  have b: "BuildFS no_tools clock_env 7 dir_config = Return (Inr fs)"
    by (simp add: BuildFS_def dir_config_def fs0(1) dir_line_entry m)
  with config_build_exact[of no_tools clock_env 7 dir_config] have "router_ok (fs_router fs)"
    and all: "\<exists>roots. (roots \<noteq> {#} \<longrightarrow> False) \<and> image_mset no_id (mset (fs_Snapshot fs)) =
       roots + {#expected no_tools (withDefaults (bare_config [])) 7 dir_line#}"
    by (auto simp: dir_config_def clock_env_def)
  from all have "size (image_mset no_id (mset (fs_Snapshot fs))) = 1" by auto
  then have "size (fs_Snapshot fs) = 1" by (simp add: size_list_conv_sum_list)
  with b \<open>router_ok (fs_router fs)\<close> show ?thesis by blast
qed

section \<open>Reloading\<close>

lemma modified_all:
  fixes old new :: "mount_entry list"
  defines "chs \<equiv> sd_Modified (DiffSnapshots old new)"
  assumes "distinct (map me_Path old)" and "distinct (map me_Path new)"
    and "\<forall>a\<in>set old. \<forall>b\<in>set new. me_Path a = me_Path b \<longrightarrow> \<not> mountEntryEqual a b"
  shows "mset (map (fst \<circ> snd) chs) = mset (filter (\<lambda>m. me_Path m \<in> me_Path ` set new) old)"
    and "map (snd \<circ> snd) chs = filter (\<lambda>e. me_Path e \<in> me_Path ` set old) new"
    and "\<forall>(p, a, b)\<in>set chs. p = me_Path a \<and> b \<in> set new"
proof -
  define look0 where "look0 p = map_of (path_map old) p" for p
  have look0: "look0 p = Some e \<longleftrightarrow> e \<in> set old \<and> me_Path e = p" for p e
    using path_map_Some[OF assms(2)] by (simp add: look0_def)
  have dom: "look0 p \<noteq> None \<longleftrightarrow> p \<in> me_Path ` set old" for p by (auto simp: look0_def path_map_None)
  have "concat (map (\<lambda>e. case look0 (me_Path e) of None \<Rightarrow> []
          | Some prev \<Rightarrow> if mountEntryEqual prev e then [] else [(me_Path e, prev, e)]) es) =
      map (\<lambda>e. (me_Path e, the (look0 (me_Path e)), e)) (filter (\<lambda>e. me_Path e \<in> me_Path ` set old) es)"
    if "set es \<subseteq> set new" for es
    using that
  proof (induction es)
    case (Cons e es)
    show ?case
    proof (cases "look0 (me_Path e)")
      case None
      with Cons dom[of "me_Path e"] show ?thesis by simp
    next
      case (Some a)
      with look0 have "a \<in> set old" "me_Path a = me_Path e" by blast+
      with Cons Some assms(4) dom[of "me_Path e"] show ?thesis by simp
    qed
  qed simp
  then have chs: "chs = map (\<lambda>e. (me_Path e, the (look0 (me_Path e)), e)) (filter (\<lambda>e. me_Path e \<in> me_Path ` set old) new)"
    by (simp add: chs_def DiffSnapshots_def look0_def Let_def)
  then show "map (snd \<circ> snd) chs = filter (\<lambda>e. me_Path e \<in> me_Path ` set old) new" by (simp add: comp_def)
  have own: "the (look0 p) \<in> set old" "me_Path (the (look0 p)) = p" if "p \<in> me_Path ` set old" for p
    using that look0[of p "the (look0 p)"] dom[of p] by simp_all
  then show "\<forall>(p, a, b)\<in>set chs. p = me_Path a \<and> b \<in> set new" using own(2) by (auto simp: chs)
  let ?ps = "map (fst \<circ> snd) chs" and ?fs = "filter (\<lambda>m. me_Path m \<in> me_Path ` set new) old"
  have "map me_Path ?ps = map me_Path (filter (\<lambda>e. me_Path e \<in> me_Path ` set old) new)"
    using own(2) by (simp add: chs comp_def)
  then have "distinct (map me_Path ?ps)" using assms(3) by (simp add: distinct_map_filter)
  then have "distinct ?ps" by (simp only: distinct_map)
  moreover have "distinct ?fs" using assms(2) by (simp add: distinct_map)
  moreover have "set ?ps = set ?fs"
  proof -
    have "m \<in> set ?ps" if "m \<in> set old" "e \<in> set new" "me_Path m = me_Path e" for m e
      using that look0[of "me_Path e" m] by (auto simp: chs comp_def image_iff intro!: bexI[of _ e] bexI[of _ m])
    moreover have "m \<in> set ?fs" if "m \<in> set ?ps" for m
    proof -
      from that obtain e where "e \<in> set new" "me_Path e \<in> me_Path ` set old" "m = the (look0 (me_Path e))"
        by (auto simp: chs comp_def)
      with own[of "me_Path e"] show ?thesis by simp
    qed
    ultimately show ?thesis by (intro equalityI subsetI) (use mem_Collect_eq in \<open>auto simp del: set_map\<close>)
  qed
  ultimately show "mset ?ps = mset ?fs" using set_eq_iff_mset_eq_distinct by blast
qed

lemma mset_halves: "mset (map f xs) = mset (map f (filter (\<lambda>x. \<not> P x) xs)) + mset (map f (filter P xs))"
  by (induction xs) simp_all

text \<open>
  C40: a reload that succeeds leads from any file system to just the mounts of the new
  configuration, each as the configuration has it. It gets there by mounting every line
  anew, also those that have not changed: the lines have no modification time and the mounts
  do. The files that skills have put at the root are unmounted and do not come back.
\<close>

theorem config_reload_reaches:
  assumes "Reload t env w c fs = (fs', None)" and "router_ok (fs_router fs)"
    and "distinct (map mc_Path (cf_Mounts c))"
    and "\<forall>m\<in>set (fs_Snapshot fs). me_Path m \<in> mc_Path ` set (cf_Mounts c) \<longrightarrow> me_ModTime m \<noteq> 0"
  shows "image_mset no_id (mset (fs_Snapshot fs')) = mset (map (expected t (fs_cfg fs) (env_now env w)) (cf_Mounts c)) \<and>
    router_ok (fs_router fs') \<and>
    r_seq (fs_router fs') = r_seq (fs_router fs) + of_nat (length (cf_Mounts c))"
proof -
  let ?old = "fs_Snapshot fs" and ?x = "\<lambda>e. no_id (entry_defaults (fs_cfg fs) (env_now env w) (me_Path e) e)"
  obtain es where es: "each_ok (desired_entry t) (cf_Mounts c) = Inr es"
    using assms(1) by (auto simp: Reload_def split: sum.splits)
  define d where "d = DiffSnapshots ?old es"
  note want = desired_list[OF es, of "fs_cfg fs" "env_now env w"]
  have paths: "me_Path ` set es = mc_Path ` set (cf_Mounts c)"
    using want by (metis list.set_map)
  obtain fs1 fs2 where run: "unmount_list env w (sd_Removed d) fs = (fs1, None)"
    "remount_list env w (sd_Modified d) fs1 = (fs2, None)" "mount_list env w (sd_Added d) fs2 = (fs', None)"
    using assms(1) by (auto simp: Reload_def es d_def Let_def split: prod.splits option.splits)
  have dist: "distinct (map me_Path ?old)" "distinct (map me_Path es)"
    using snapshot_paths[OF assms(2)] want assms(3) by (simp_all add: fs_Snapshot_def)
  have "\<forall>a\<in>set ?old. \<forall>b\<in>set es. me_Path a = me_Path b \<longrightarrow> \<not> mountEntryEqual a b"
  proof (intro ballI impI)
    fix a b assume ab: "a \<in> set ?old" "b \<in> set es" "me_Path a = me_Path b"
    then have "me_ModTime a \<noteq> 0" using assms(4) paths by (metis imageI)
    with ab(2) want show "\<not> mountEntryEqual a b" by (simp add: mountEntryEqual_def)
  qed
  note ch = modified_all[OF dist this, folded d_def]
  have R: "sd_Removed d = filter (\<lambda>m. me_Path m \<notin> me_Path ` set es) ?old"
    and A: "sd_Added d = filter (\<lambda>e. me_Path e \<notin> me_Path ` set ?old) es"
    by (auto simp: d_def DiffSnapshots_def Let_def path_map_None)
  have sub: "mset (sd_Removed d) \<subseteq># mset ?old" by (simp add: R multiset_filter_subset)
  note s1 = unmount_list_turned[OF run(1) assms(2) sub]
  have s1': "router_ok (fs_router fs1)" "fs_cfg fs1 = fs_cfg fs" using s1 by (simp_all add: turned_def)
  have left: "mset (fs_Snapshot fs1) = mset (filter (\<lambda>m. me_Path m \<in> me_Path ` set es) ?old)"
    using trans[OF conjunct2[OF s1, unfolded R, symmetric] mset_halves[of id ?old "\<lambda>m. me_Path m \<in> me_Path ` set es", unfolded list.map_id]]
    by (simp only: add_left_cancel)
  have good: "\<forall>(p, old, new)\<in>set (sd_Modified d). p = me_Path old \<and> plain_entry new"
    using ch(3) want by blast
  have "mset (map (fst \<circ> snd) (sd_Modified d)) \<subseteq># mset (fs_Snapshot fs1)" by (simp only: ch(1) left)
  note s2 = remount_list_turned[OF run(2) s1'(1) this good]
  then have s2': "router_ok (fs_router fs2)" "fs_cfg fs2 = fs_cfg fs1" by (simp_all add: turned_def)
  have "\<forall>e\<in>set (sd_Added d). plain_entry e" using want by (simp add: A)
  note s3 = mount_list_turned[OF run(3) s2'(1) this]
  note all = turned_trans[OF turned_trans[OF conjunct1[OF s1] s2] s3]
  have gone: "mset (sd_Removed d) + mset (map (fst \<circ> snd) (sd_Modified d)) + {#} = mset ?old"
    by (simp only: ch(1) left conjunct2[OF s1] add_0_right)
  have news: "map (\<lambda>(p, old, new). ?x new) (sd_Modified d) = map ?x (map (snd \<circ> snd) (sd_Modified d))"
    by (simp add: comp_def split_def)
  have came: "{#} + mset (map (\<lambda>(p, old, new). ?x new) (sd_Modified d)) + mset (map ?x (sd_Added d)) = mset (map ?x es)"
    unfolding news ch(2) A mset_halves[of ?x es "\<lambda>e. me_Path e \<in> me_Path ` set ?old"]
    by (simp only: add_0 add.commute)
  have len: "0 + length (sd_Modified d) + length (sd_Added d) = length es"
    using arg_cong[OF ch(2), of length] sum_length_filter_compl[of "\<lambda>e. me_Path e \<in> me_Path ` set ?old" es] by (simp add: A)
  have "turned (mset ?old) (mset (map ?x es)) (length es) fs fs'"
    using all unfolding s2'(2) s1'(2) gone came len .
  moreover have "length es = length (cf_Mounts c)" using want by (metis length_map)
  ultimately have "turned (mset ?old) (mset (map (expected t (fs_cfg fs) (env_now env w)) (cf_Mounts c)))
      (length (cf_Mounts c)) fs fs'" using want by (simp only:)
  then show ?thesis by (simp add: turned_def)
qed

lemma config_reload_reaches_witness:
  "\<exists>fs'. Reload no_tools clock_env 7 dir_config demo_fs = (fs', None) \<and>
     image_mset no_id (mset (fs_Snapshot fs')) = {#expected no_tools (fs_cfg demo_fs) 7 dir_line#}"
proof -
  have r: "fs_router demo_fs = newRouter" by (simp add: demo_fs_eval)
  then have snap: "fs_Snapshot demo_fs = []" by (simp add: fs_Snapshot_def router_snapshot_def newRouter_def empty_node_def)
  have ok: "router_ok (fs_router demo_fs)" by (simp add: r router_ok_new)
  have "1 < g_MaxMounts (fs_cfg demo_fs)" by (simp add: demo_fs_eval)
  from dir_mounts[OF r this] obtain fs' where
    m: "fs_Mount clock_env 7 ''/a'' (dir_entry0\<lparr>me_Path := ''/a''\<rparr>) demo_fs = (fs', None)" by blast
  have l: "Reload no_tools clock_env 7 dir_config demo_fs = (fs', None)"
    by (simp add: Reload_def dir_config_def desired_entry_def dir_line_entry snap DiffSnapshots_def path_map_def m Let_def)
  from config_reload_reaches[OF l ok] snap l show ?thesis by (auto simp: dir_config_def clock_env_def)
qed

end
