(* ===== verification/Remote.thy ===== *)
theory Remote
  imports Providers "HOL-Library.Signed_Division"
begin

text \<open>
  The providers that reach out: provider/http/http.go, which posts a request and tries it
  again, provider/ipc/ipc.go, which runs a program for each call, and provider/local/local.go,
  which runs a command. What the network and the programs answer is a parameter.
\<close>

section \<open>The http provider\<close>

record http_provider =
  hp_id :: string
  hp_baseURL :: string
  hp_timeout :: duration
  hp_retryCount :: int
  hp_retryBaseDelay :: "64 word"

definition defaultTimeout :: duration where
  "defaultTimeout = 15 * 1000000000"

definition NewHTTPProvider :: "string \<Rightarrow> string \<Rightarrow> http_provider" where
  "NewHTTPProvider i url =
     \<lparr>hp_id = i, hp_baseURL = url, hp_timeout = defaultTimeout, hp_retryCount = 0, hp_retryBaseDelay = 0\<rparr>"

definition WithRetry :: "int \<Rightarrow> 64 word \<Rightarrow> http_provider \<Rightarrow> http_provider" where
  "WithRetry n baseDelay p = p\<lparr>hp_retryCount := n, hp_retryBaseDelay := baseDelay\<rparr>"

definition WithTimeout :: "duration \<Rightarrow> http_provider \<Rightarrow> http_provider" where
  "WithTimeout d p = p\<lparr>hp_timeout := d\<rparr>"

text \<open>
  What comes of a request: no response, or one with its status, its body (or why the body
  cannot be read, with what was read of it) and its content type.
\<close>

datatype outcome =
    NoResponse go_error
  | Response (oc_status: nat) (oc_body: bytes) (oc_broken: "go_error option") (oc_type: string)

record 'w net =
  nt_marshal :: "string \<Rightarrow> params \<Rightarrow> go_error + bytes"
  nt_request :: "string \<Rightarrow> go_error option"
  nt_do :: "'w \<Rightarrow> string \<Rightarrow> bytes \<Rightarrow> 'w \<times> outcome"
  nt_jitter :: "'w \<Rightarrow> int \<Rightarrow> 'w \<times> 64 word"
  nt_wait :: "'w \<Rightarrow> 64 word \<Rightarrow> 'w \<times> go_error option"

text \<open>The state of a call: the world, what the requests have come to, and the delays that were waited for.\<close>

record 'w http_state =
  hs_world :: 'w
  hs_outcomes :: "outcome list"
  hs_delays :: "64 word list"

text \<open>
  The wait before attempt n + 1, on int64: the base times 2^n, and a random part below half of
  that. rand.Int63n panics when its bound is not positive. None is a wait that came to its end,
  Some the error of a context that ended first.
\<close>

definition retry_delay :: "http_provider \<Rightarrow> nat \<Rightarrow> 64 word" where
  "retry_delay p n = hp_retryBaseDelay p * push_bit n 1"

definition half :: "64 word \<Rightarrow> int" where
  "half d = sint d sdiv 2"

definition backoff :: "http_provider \<Rightarrow> 'w net \<Rightarrow> nat \<Rightarrow> 'w http_state \<Rightarrow> 'w http_state \<times> go_error option go" where
  "backoff p net n s =
     (let delay = retry_delay p n
      in if half delay \<le> 0 then (s, Panic)
         else (let (w1, j) = nt_jitter net (hs_world s) (half delay);
                   (w2, e) = nt_wait net w1 (delay + j)
               in (s\<lparr>hs_world := w2, hs_delays := hs_delays s @ [delay + j]\<rparr>, Return e)))"

definition status_error :: "http_provider \<Rightarrow> nat \<Rightarrow> bytes \<Rightarrow> go_error" where
  "status_error p status msg =
     PlainError (''http provider '' @ hp_id p @ '' returned '' @ dec_text status @ '': '' @ msg)"

text \<open>
  The loop: n attempts are left, k have been made, and \<open>lastErr\<close> is the error of the last one. No error
  and no result at the end is what a loop without an attempt returns.
\<close>

fun http_attempts ::
  "http_provider \<Rightarrow> 'w net \<Rightarrow> bytes \<Rightarrow> nat \<Rightarrow> nat \<Rightarrow> go_error option \<Rightarrow> 'w http_state \<Rightarrow>
   'w http_state \<times> (go_error + provider_result option) go" where
  "http_attempts p net body 0 k lastErr s =
     (s, Return (case lastErr of None \<Rightarrow> Inr None | Some e \<Rightarrow> Inl e))"
| "http_attempts p net body (Suc n) k lastErr s =
     (case (if 0 < k then backoff p net (k - 1) s else (s, Return None)) of
        (s1, Return None) \<Rightarrow>
          (case nt_request net (hp_baseURL p) of
             Some e \<Rightarrow> (s1, Return (Inl e))
           | None \<Rightarrow>
               (let (w2, x) = nt_do net (hs_world s1) (hp_baseURL p) body;
                    s2 = s1\<lparr>hs_world := w2, hs_outcomes := hs_outcomes s1 @ [x]\<rparr>
                in case x of
                     NoResponse e \<Rightarrow> http_attempts p net body n (k + 1) (Some e) s2
                   | Response status data broken ctype \<Rightarrow>
                       (if status = 200 then
                          (case broken of
                             Some e \<Rightarrow> (s2, Return (Inl e))
                           | None \<Rightarrow> (s2, Return (Inr (Some
                               \<lparr>pr_Data = Some data, pr_Meta = [], pr_ContentType = ctype\<rparr>))))
                        else if status < 500 then (s2, Return (Inl (status_error p status data)))
                        else http_attempts p net body n (k + 1) (Some (status_error p status data)) s2)))
      | (s1, Return (Some e)) \<Rightarrow> (s1, Return (Inl e))
      | (s1, Panic) \<Rightarrow> (s1, Panic)
      | (s1, Block) \<Rightarrow> (s1, Block))"

definition http_Invoke ::
  "http_provider \<Rightarrow> 'w net \<Rightarrow> string \<Rightarrow> params \<Rightarrow> 'w http_state \<Rightarrow>
   'w http_state \<times> (go_error + provider_result option) go" where
  "http_Invoke p net action params s =
     (case nt_marshal net action params of
        Inl e \<Rightarrow> (s, Return (Inl e))
      | Inr body \<Rightarrow> http_attempts p net body (nat (hp_retryCount p + 1)) 0 None s)"

section \<open>Programs\<close>

text \<open>How a program ends that was run with a context: the error of the context is looked at first by ipc.\<close>

datatype exec_end =
    Output bytes
  | Exited int bytes
  | NotRun go_error

record command =
  cm_name :: string
  cm_args :: "string list"
  cm_env :: "string list"
  cm_dir :: string
  cm_stdin :: bytes

record ipc_provider =
  ip_id :: string
  ip_cmd :: string
  ip_args :: "string list"
  ip_env :: "string list"
  ip_dir :: string
  ip_timeout :: duration

definition NewIPCProvider :: "string \<Rightarrow> string \<Rightarrow> string list \<Rightarrow> ipc_provider" where
  "NewIPCProvider i cmd args =
     \<lparr>ip_id = i, ip_cmd = cmd, ip_args = args, ip_env = [], ip_dir = [], ip_timeout = 30 * 1000000000\<rparr>"

definition WithEnv :: "string list \<Rightarrow> ipc_provider \<Rightarrow> ipc_provider" where
  "WithEnv env p = p\<lparr>ip_env := env\<rparr>"

definition WithDir :: "string \<Rightarrow> ipc_provider \<Rightarrow> ipc_provider" where
  "WithDir dir p = p\<lparr>ip_dir := dir\<rparr>"

definition ipc_WithTimeout :: "duration \<Rightarrow> ipc_provider \<Rightarrow> ipc_provider" where
  "ipc_WithTimeout d p = p\<lparr>ip_timeout := d\<rparr>"

record ipc_response =
  ir_Data :: bytes
  ir_ContentType :: string
  ir_Error :: string

text \<open>
  \<open>sh_run\<close> runs a command within a time, if there is one: how it ended, and the error of the
  context, if that has ended. \<open>sh_environ\<close> is the environment of the process itself; an empty list
  of variables means that the command inherits it.
\<close>

record 'w shell =
  sh_marshal :: "string \<Rightarrow> params \<Rightarrow> go_error + bytes"
  sh_unmarshal :: "bytes \<Rightarrow> go_error + ipc_response"
  sh_environ :: "string list"
  sh_run :: "'w \<Rightarrow> command \<Rightarrow> duration option \<Rightarrow> 'w \<times> exec_end \<times> go_error option"

definition ipc_command :: "ipc_provider \<Rightarrow> 'w shell \<Rightarrow> bytes \<Rightarrow> command" where
  "ipc_command p sh body =
     \<lparr>cm_name = ip_cmd p, cm_args = ip_args p,
      cm_env = (if 0 < length (ip_env p) then sh_environ sh @ ip_env p else []),
      cm_dir = ip_dir p, cm_stdin = body\<rparr>"

definition int_text :: "int \<Rightarrow> string" where
  "int_text x = (if x < 0 then ''-'' @ dec_text (nat (- x)) else dec_text (nat x))"

definition ipc_answer :: "ipc_provider \<Rightarrow> 'w shell \<Rightarrow> exec_end \<times> go_error option \<Rightarrow> go_error + provider_result" where
  "ipc_answer p sh out =
     (let pre = ''ipc provider '' @ ip_id p
      in case out of
           (Output b, ctx) \<Rightarrow>
             (case sh_unmarshal sh b of
                Inl e \<Rightarrow> Inl (WrapError (pre @ '' returned invalid JSON: '' @ error_text e) e)
              | Inr r \<Rightarrow>
                  (if ir_Error r \<noteq> [] then Inl (PlainError (pre @ '' returned error: '' @ ir_Error r))
                   else Inr \<lparr>pr_Data = Some (ir_Data r), pr_Meta = [], pr_ContentType = ir_ContentType r\<rparr>))
         | (_, Some e) \<Rightarrow> Inl e
         | (Exited code stderr, None) \<Rightarrow> Inl (PlainError (pre @ '' exited '' @ int_text code @ '': '' @ stderr))
         | (NotRun e, None) \<Rightarrow> Inl (WrapError (pre @ '' failed: '' @ error_text e) e))"

definition ipc_Invoke ::
  "ipc_provider \<Rightarrow> 'w shell \<Rightarrow> string \<Rightarrow> params \<Rightarrow> 'w \<Rightarrow> 'w \<times> (go_error + provider_result)" where
  "ipc_Invoke p sh action params w =
     (case sh_marshal sh action params of
        Inl e \<Rightarrow> (w, Inl e)
      | Inr body \<Rightarrow>
          (let (w1, out) = sh_run sh w (ipc_command p sh body) (Some (ip_timeout p))
           in (w1, ipc_answer p sh out)))"

text \<open>
  The parameters of the local provider as Go sees them: a slice of strings, which only a Go caller
  can pass, or a value of the engine, whose lists hold values of any type.
\<close>

datatype go_value = Strings "string list" | Value pvalue

fun as_strings :: "go_value option \<Rightarrow> string list option" where
  "as_strings (Some (Strings xs)) = Some xs"
| "as_strings _ = None"

fun as_string :: "go_value option \<Rightarrow> string option" where
  "as_string (Some (Value (PStr s))) = Some s"
| "as_string _ = None"

definition local_command :: "'w shell \<Rightarrow> string \<Rightarrow> (string \<times> go_value) list \<Rightarrow> command" where
  "local_command sh action params =
     \<lparr>cm_name = action,
      cm_args = (case as_strings (map_of params ''args'') of None \<Rightarrow> [] | Some xs \<Rightarrow> xs),
      cm_env = (case as_strings (map_of params ''env'') of None \<Rightarrow> [] | Some xs \<Rightarrow> sh_environ sh @ xs),
      cm_dir = (case as_string (map_of params ''dir'') of None \<Rightarrow> [] | Some d \<Rightarrow> d),
      cm_stdin = (case as_string (map_of params ''stdin'') of None \<Rightarrow> [] | Some d \<Rightarrow> d)\<rparr>"

definition local_Invoke ::
  "'w shell \<Rightarrow> string \<Rightarrow> (string \<times> go_value) list \<Rightarrow> 'w \<Rightarrow> 'w \<times> (go_error + provider_result)" where
  "local_Invoke sh action params w =
     (let (w1, out, ctx) = sh_run sh w (local_command sh action params) None
      in (w1,
          case out of
            Output b \<Rightarrow> Inr \<lparr>pr_Data = Some b, pr_Meta = [], pr_ContentType = []\<rparr>
          | Exited code stderr \<Rightarrow>
              Inl (PlainError (''local provider: '' @ action @ '' exited '' @ int_text code @ '': '' @ stderr))
          | NotRun e \<Rightarrow> Inl (WrapError (''local provider: '' @ action @ '': '' @ error_text e) e)))"

section \<open>Retrying\<close>

definition retryable :: "outcome \<Rightarrow> bool" where
  "retryable x = (case x of NoResponse e \<Rightarrow> True | Response status d b t \<Rightarrow> 500 \<le> status)"

text \<open>The error that a request makes lastErr, if it is not answered with a result.\<close>

definition failure :: "http_provider \<Rightarrow> outcome \<Rightarrow> go_error option" where
  "failure p x =
     (case x of
        NoResponse e \<Rightarrow> Some e
      | Response status d broken t \<Rightarrow> (if status = 200 then broken else Some (status_error p status d)))"

text \<open>
  What a result says about the requests \<open>outs\<close> and the waits \<open>ds\<close> that led to it, when there can be
  \<open>n\<close> requests. Each request but the first has one wait before it; when the context ends a wait, or
  the wait panics, the request does not come.
\<close>

definition result_of ::
  "http_provider \<Rightarrow> 'w net \<Rightarrow> nat \<Rightarrow> outcome list \<Rightarrow> 64 word list \<Rightarrow> (go_error + provider_result option) go \<Rightarrow> bool" where
  "result_of p net n outs ds res \<longleftrightarrow>
     (case res of
        Return (Inr (Some r)) \<Rightarrow>
          outs \<noteq> [] \<and> length outs = length ds + 1 \<and>
          (\<exists>d t. last outs = Response 200 d None t \<and> r = \<lparr>pr_Data = Some d, pr_Meta = [], pr_ContentType = t\<rparr>)
      | Return (Inr None) \<Rightarrow> False
      | Return (Inl e) \<Rightarrow>
          outs \<noteq> [] \<and> length outs = length ds + 1 \<and> failure p (last outs) = Some e \<and>
            (retryable (last outs) \<longrightarrow> length outs = n) \<or>
          outs \<noteq> [] \<and> length outs = length ds \<and> (\<exists>w. snd (nt_wait net w (last ds)) = Some e) \<or>
          outs = [] \<and> ds = [] \<and> nt_request net (hp_baseURL p) = Some e
      | Panic \<Rightarrow> outs \<noteq> [] \<and> length outs < n \<and> half (retry_delay p (length outs - 1)) \<le> 0
      | Block \<Rightarrow> False)"

lemma backoff_cases:
  assumes "backoff p net n s = (s1, r)"
  shows "hs_outcomes s1 = hs_outcomes s \<and>
    (r = Panic \<and> s1 = s \<and> half (retry_delay p n) \<le> 0 \<or>
     (\<exists>d w. r = Return (snd (nt_wait net w d)) \<and> hs_delays s1 = hs_delays s @ [d]))"
  using assms by (auto simp: backoff_def Let_def split: if_splits prod.splits) (metis snd_conv)

text \<open>The loop after the requests \<open>prev\<close>, with the waits \<open>pds\<close> between them.\<close>

lemma attempts_result:
  assumes "http_attempts p net body n (length prev) lastErr s = (s', res)"
    and "prev \<noteq> [] \<longrightarrow> length prev = length pds + 1 \<and> lastErr = failure p (last prev) \<and> lastErr \<noteq> None \<and>
      nt_request net (hp_baseURL p) = None"
    and "\<forall>x\<in>set prev. retryable x" and "prev = [] \<longrightarrow> pds = [] \<and> 0 < n"
  shows "\<exists>outs ds. hs_outcomes s' = hs_outcomes s @ outs \<and> hs_delays s' = hs_delays s @ ds \<and> length outs \<le> n \<and>
    (\<forall>x\<in>set (butlast (prev @ outs)). retryable x) \<and>
    result_of p net (length prev + n) (prev @ outs) (pds @ ds) res"
  using assms
proof (induction n arbitrary: prev pds lastErr s)
  case 0
  then have "prev \<noteq> []" by blast
  with 0 show ?case
    by (intro exI[of _ "[]"]) (auto simp: result_of_def dest: in_set_butlastD split: option.splits)
next
  case (Suc n)
  let ?k = "length prev"
  obtain s1 r1 where b: "(if 0 < ?k then backoff p net (?k - 1) s else (s, Return None)) = (s1, r1)" by fastforce
  obtain d0 where d0: "hs_outcomes s1 = hs_outcomes s" "hs_delays s1 = hs_delays s @ d0"
    "r1 = Panic \<and> prev \<noteq> [] \<and> d0 = [] \<and> half (retry_delay p (?k - 1)) \<le> 0 \<or>
     prev = [] \<and> d0 = [] \<and> r1 = Return None \<or>
     prev \<noteq> [] \<and> (\<exists>d w. d0 = [d] \<and> r1 = Return (snd (nt_wait net w d)))"
  proof (cases "prev = []")
    case True
    with b that[of "[]"] show ?thesis by simp
  next
    case False
    with b have "backoff p net (?k - 1) s = (s1, r1)" by simp
    note c = backoff_cases[OF this]
    then consider "r1 = Panic" "s1 = s" "half (retry_delay p (?k - 1)) \<le> 0"
      | d w where "r1 = Return (snd (nt_wait net w d))" "hs_delays s1 = hs_delays s @ [d]" by blast
    then show ?thesis by cases (use c False that[of "[]"] that[of "[_]"] in auto)
  qed
  have old: "\<forall>x\<in>set (butlast prev). retryable x" using Suc.prems(3) by (auto dest: in_set_butlastD)
  show ?case
  proof (cases r1)
    case Panic
    with b d0 Suc.prems old show ?thesis
      by (intro exI[of _ "[]"] exI[of _ d0]) (auto simp: result_of_def)
  next
    case Block
    with d0 show ?thesis by auto
  next
    case (Return e)
    show ?thesis
    proof (cases e)
      case (Some err)
      with Return b Suc.prems(1) have "s' = s1" "res = Return (Inl err)" by (auto split: option.splits)
      with Some Return d0 Suc.prems(2) old show ?thesis
        by (intro exI[of _ "[]"] exI[of _ d0]) (auto simp: result_of_def intro: sym)
    next
      case None
      have dl: "length (prev @ [x]) = length (pds @ d0) + 1" for x :: outcome
        using d0(3) Suc.prems(2,4) Return by auto
      show ?thesis
      proof (cases "nt_request net (hp_baseURL p)")
        case (Some err)
        with Suc.prems(2) have "prev = []" by auto
        moreover from this d0(3) have "d0 = []" by simp
        moreover have "s' = s1" "res = Return (Inl err)" using Some None Return b Suc.prems(1) by auto
        ultimately show ?thesis using Some d0(1,2) Suc.prems(4)
          by (intro exI[of _ "[]"]) (auto simp: result_of_def)
      next
        case req: None
        obtain w2 x where x: "nt_do net (hs_world s1) (hp_baseURL p) body = (w2, x)" by fastforce
        define s2 where "s2 = s1\<lparr>hs_world := w2, hs_outcomes := hs_outcomes s1 @ [x]\<rparr>"
        have end1: ?thesis if "s' = s2" "result_of p net (?k + Suc n) (prev @ [x]) (pds @ d0) res"
          using that d0 Suc.prems(3) by (intro exI[of _ "[x]"] exI[of _ d0]) (auto simp: s2_def)
        have again: ?thesis
          if rec: "http_attempts p net body n (?k + 1) (Some err) s2 = (s', res)" and rt: "retryable x" and er: "failure p x = Some err" for err
        proof -
          have "http_attempts p net body n (length (prev @ [x])) (Some err) s2 = (s', res)" using rec by simp
          moreover have "prev @ [x] \<noteq> [] \<longrightarrow> length (prev @ [x]) = length (pds @ d0) + 1 \<and>
              Some err = failure p (last (prev @ [x])) \<and> Some err \<noteq> None \<and> nt_request net (hp_baseURL p) = None"
            using dl[of x] er req by simp
          moreover have "\<forall>y\<in>set (prev @ [x]). retryable y" using rt Suc.prems(3) by simp
          moreover have "prev @ [x] = [] \<longrightarrow> pds @ d0 = [] \<and> 0 < n" by simp
          ultimately obtain outs ds where
            o: "hs_outcomes s' = hs_outcomes s2 @ outs" "hs_delays s' = hs_delays s2 @ ds" "length outs \<le> n"
              "\<forall>y\<in>set (butlast ((prev @ [x]) @ outs)). retryable y"
              "result_of p net (length (prev @ [x]) + n) ((prev @ [x]) @ outs) ((pds @ d0) @ ds) res"
            using Suc.IH by blast
          with d0 show ?thesis by (intro exI[of _ "x # outs"] exI[of _ "d0 @ ds"]) (simp add: s2_def)
        qed
        show ?thesis
        proof (cases x)
          case (NoResponse err)
          with Suc.prems(1) b Return None x req again[of err] show ?thesis by (simp add: s2_def retryable_def failure_def)
        next
          case (Response status d broken t)
          with Suc.prems(1) b Return None x req dl[of x] have
            "s' = s2 \<and> result_of p net (?k + Suc n) (prev @ [x]) (pds @ d0) res \<or>
             status \<noteq> 200 \<and> retryable x \<and> http_attempts p net body n (?k + 1) (Some (status_error p status d)) s2 = (s', res)"
            by (auto simp: s2_def retryable_def result_of_def failure_def Let_def split: if_splits option.splits)
          with again[of "status_error p status d"] end1 Response show ?thesis by (auto simp: failure_def)
        qed
      qed
    qed
  qed
qed


definition script_net :: "outcome list net" where
  "script_net = \<lparr>nt_marshal = (\<lambda>a ps. Inr a), nt_request = (\<lambda>u. None),
     nt_do = (\<lambda>w u b. case w of [] \<Rightarrow> ([], NoResponse (PlainError u)) | x # xs \<Rightarrow> (xs, x)),
     nt_jitter = (\<lambda>w b. (w, 1)), nt_wait = (\<lambda>w d. (w, None))\<rparr>"

definition start_state :: "outcome list \<Rightarrow> outcome list http_state" where
  "start_state xs = \<lparr>hs_world = xs, hs_outcomes = [], hs_delays = []\<rparr>"

abbreviation (input) retrying :: "64 word \<Rightarrow> http_provider" where
  "retrying d \<equiv> WithRetry 2 d (NewHTTPProvider ''h'' ''u'')"


text \<open>
  With retries but no base delay, as WithRetry(n, 0) asks for, the first server error or lost
  connection makes the call panic instead of trying again.
\<close>

theorem http_zero_delay_panics:
  assumes "hp_retryBaseDelay p = 0" and "0 < hp_retryCount p" and "nt_marshal net action params = Inr body"
    and "nt_request net (hp_baseURL p) = None" and "nt_do net (hs_world s) (hp_baseURL p) body = (w, x)" and "retryable x"
  shows "snd (http_Invoke p net action params s) = Panic"
proof -
  obtain n where n: "nat (hp_retryCount p + 1) = Suc (Suc n)" using assms(2)
    by (metis Suc_nat_eq_nat_zadd1 add.commute gr0_implies_Suc order_less_imp_le zero_less_nat_eq)
  have "half (retry_delay p 0) = 0" by (simp add: half_def retry_delay_def assms(1))
  then have "snd (http_attempts p net body (Suc n) 1 (Some e) t) = Panic" for e t
    by (simp add: backoff_def)
  with n assms(3-6) show ?thesis
    by (cases x) (auto simp: http_Invoke_def retryable_def simp del: http_attempts.simps(2) simp: http_attempts.simps(2)[of p net body "Suc n"])
qed

lemma http_zero_delay_panics_witness:
  "snd (http_Invoke (retrying 0) script_net ''get'' [] (start_state [Response 503 [] None [], Response 200 ''ok'' None []])) = Panic"
  by (rule http_zero_delay_panics[where body = "''get''" and w = "[Response 200 ''ok'' None []]" and x = "Response 503 [] None []"])
    (simp_all add: WithRetry_def script_net_def start_state_def retryable_def)

section \<open>Local commands\<close>

text \<open>
  The parameters that the engine passes to a provider hold lists of values of any type, never
  lists of strings. So a local command that is called through a mount runs without its arguments
  and without its extra environment, whatever the parameters say; only the directory and the
  standard input get through.
\<close>

theorem local_drops_lists:
  "local_command sh action (map (\<lambda>(k, v). (k, Value v)) params) =
     \<lparr>cm_name = action, cm_args = [], cm_env = [],
      cm_dir = (case map_of params ''dir'' of Some (PStr d) \<Rightarrow> d | _ \<Rightarrow> []),
      cm_stdin = (case map_of params ''stdin'' of Some (PStr d) \<Rightarrow> d | _ \<Rightarrow> [])\<rparr>"
proof -
  have look: "map_of (map (\<lambda>(k, v). (k, Value v)) params) k = map_option Value (map_of params k)" for k
    by (induction params) auto
  have "as_strings (map_option Value x) = None" for x by (cases x) simp_all
  moreover have "as_string (map_option Value x) = (case x of Some (PStr d) \<Rightarrow> Some d | _ \<Rightarrow> None)" for x
    by (cases x rule: option.exhaust; simp split: pvalue.split)
  ultimately show ?thesis
    by (auto simp: local_command_def look split: option.splits pvalue.splits)
qed

end
