(* ===== verification/Slices.thy ===== *)
theory Slices
  imports Prelude
begin

text \<open>
  The storage behind the contents of blobs. The other theories take BlobData for a value; in the
  code it is a slice, a view of an array that a snapshot, a renamed entry and a restored one
  share with the mount, and writeBlob (core/filesystem.go) writes into that array when it
  is large enough. Here arrays have addresses, so that the sharing can be seen.

  An array is never freed. How much larger than needed append makes a new array is the parameter
  \<open>grow\<close>. A slice here begins where its array begins, and its capacity reaches to the end of
  the array. Paths are names without parameters, and only blobs are mounted. That a caller
  writes into its array after the mount is not modelled.
\<close>

section \<open>Arrays and slices\<close>

record slice =
  sl_array :: nat
  sl_len :: nat

record blob_store =
  bs_arrays :: "bytes list"
  bs_blobs :: "(string \<times> slice) list"

definition slice_bytes :: "blob_store \<Rightarrow> slice \<Rightarrow> bytes" where
  "slice_bytes st s = take (sl_len s) (bs_arrays st ! sl_array s)"

text \<open>A new array with these contents, as a conversion of a string or a copy makes it for a caller.\<close>

definition new_slice :: "bytes \<Rightarrow> blob_store \<Rightarrow> blob_store \<times> slice" where
  "new_slice d st = (st\<lparr>bs_arrays := bs_arrays st @ [d]\<rparr>, \<lparr>sl_array = length (bs_arrays st), sl_len = length d\<rparr>)"

text \<open>\<open>append(s[:0], d...)\<close>\<close>

definition append_at_start :: "(nat \<Rightarrow> nat) \<Rightarrow> slice \<Rightarrow> bytes \<Rightarrow> blob_store \<Rightarrow> blob_store \<times> slice" where
  "append_at_start grow s d st =
     (let arr = bs_arrays st ! sl_array s
      in if length d \<le> length arr
         then (st\<lparr>bs_arrays := (bs_arrays st)[sl_array s := d @ drop (length d) arr]\<rparr>,
               \<lparr>sl_array = sl_array s, sl_len = length d\<rparr>)
         else (st\<lparr>bs_arrays := bs_arrays st @ [d @ replicate (grow (length d)) (CHR 0x00)]\<rparr>,
               \<lparr>sl_array = length (bs_arrays st), sl_len = length d\<rparr>))"

section \<open>The operations on blobs\<close>

text \<open>
  A mount keeps the slice of its caller: the entry is copied, the array is not. The result is whether
  the path was free; the code answers EEXIST when it was not.
\<close>

definition mount_blob :: "string \<Rightarrow> slice \<Rightarrow> blob_store \<Rightarrow> blob_store \<times> bool" where
  "mount_blob p s st =
     (if map_of (bs_blobs st) p \<noteq> None then (st, False)
      else (st\<lparr>bs_blobs := mput p s (bs_blobs st)\<rparr>, True))"

definition unmount_blob :: "string \<Rightarrow> blob_store \<Rightarrow> blob_store" where
  "unmount_blob p st = st\<lparr>bs_blobs := mdel p (bs_blobs st)\<rparr>"

definition rename_blob :: "string \<Rightarrow> string \<Rightarrow> blob_store \<Rightarrow> blob_store" where
  "rename_blob p q st =
     (case map_of (bs_blobs st) p of
        None \<Rightarrow> st
      | Some s \<Rightarrow> (if map_of (bs_blobs st) q = None then st\<lparr>bs_blobs := mput q s (mdel p (bs_blobs st))\<rparr> else st))"

definition write_blob :: "(nat \<Rightarrow> nat) \<Rightarrow> string \<Rightarrow> bytes \<Rightarrow> blob_store \<Rightarrow> blob_store" where
  "write_blob grow p d st =
     (case map_of (bs_blobs st) p of
        None \<Rightarrow> st
      | Some s \<Rightarrow> (let (st1, s') = append_at_start grow s d st in st1\<lparr>bs_blobs := mput p s' (bs_blobs st1)\<rparr>))"

text \<open>Read gives a copy; a snapshot copies the slices, and a restore puts them back.\<close>

definition read_blob :: "string \<Rightarrow> blob_store \<Rightarrow> bytes option" where
  "read_blob p st = map_option (slice_bytes st) (map_of (bs_blobs st) p)"

definition blob_snapshot :: "blob_store \<Rightarrow> (string \<times> slice) list" where
  "blob_snapshot st = bs_blobs st"

definition blob_restore :: "(string \<times> slice) list \<Rightarrow> blob_store \<Rightarrow> blob_store" where
  "blob_restore es st = st\<lparr>bs_blobs := es\<rparr>"

text \<open>A caller makes a new array, or mounts a slice that it has; or changes the mounts.\<close>

datatype blob_op = BAlloc bytes | BMount string slice | BUnmount string | BRename string string | BWrite string bytes

fun blob_step :: "(nat \<Rightarrow> nat) \<Rightarrow> blob_op \<Rightarrow> blob_store \<Rightarrow> blob_store" where
  "blob_step grow (BAlloc d) st = fst (new_slice d st)"
| "blob_step grow (BMount p s) st = fst (mount_blob p s st)"
| "blob_step grow (BUnmount p) st = unmount_blob p st"
| "blob_step grow (BRename p q) st = rename_blob p q st"
| "blob_step grow (BWrite p d) st = write_blob grow p d st"

text \<open>The same operations on values; a mount puts the bytes that its slice shows at that time.\<close>

fun value_step :: "(slice \<Rightarrow> bytes) \<Rightarrow> blob_op \<Rightarrow> (string \<Rightarrow> bytes option) \<Rightarrow> string \<Rightarrow> bytes option" where
  "value_step bytes_of (BAlloc d) m = m"
| "value_step bytes_of (BMount p s) m = (if m p = None then m(p \<mapsto> bytes_of s) else m)"
| "value_step bytes_of (BUnmount p) m = m(p := None)"
| "value_step bytes_of (BRename p q) m = (if m p = None \<or> m q \<noteq> None then m else (m(p := None))(q := m p))"
| "value_step bytes_of (BWrite p d) m = (if m p = None then m else m(p \<mapsto> d))"

fun value_run :: "(nat \<Rightarrow> nat) \<Rightarrow> blob_op list \<Rightarrow> blob_store \<Rightarrow> (string \<Rightarrow> bytes option) \<Rightarrow> string \<Rightarrow> bytes option" where
  "value_run grow [] st m = m"
| "value_run grow (b # bs) st m = value_run grow bs (blob_step grow b st) (value_step (slice_bytes st) b m)"

text \<open>
  Runs in which the callers mount slices of existing arrays, none of an array that a
  mounted blob has at that time.
\<close>

fun own_slice :: "blob_op \<Rightarrow> blob_store \<Rightarrow> bool" where
  "own_slice (BMount p s) st \<longleftrightarrow>
     sl_array s < length (bs_arrays st) \<and> sl_len s \<le> length (bs_arrays st ! sl_array s) \<and>
     list_all (\<lambda>(q, s'). sl_array s' \<noteq> sl_array s) (bs_blobs st)"
| "own_slice b st \<longleftrightarrow> True"

fun own_slices :: "(nat \<Rightarrow> nat) \<Rightarrow> blob_op list \<Rightarrow> blob_store \<Rightarrow> bool" where
  "own_slices grow [] st \<longleftrightarrow> True"
| "own_slices grow (b # bs) st \<longleftrightarrow> own_slice b st \<and> own_slices grow bs (blob_step grow b st)"

section \<open>The arrays of the mounts are their own\<close>

definition separate :: "blob_store \<Rightarrow> bool" where
  "separate st \<longleftrightarrow>
     (\<forall>p s. map_of (bs_blobs st) p = Some s \<longrightarrow>
        sl_array s < length (bs_arrays st) \<and> sl_len s \<le> length (bs_arrays st ! sl_array s)) \<and>
     (\<forall>p q s s'. map_of (bs_blobs st) p = Some s \<longrightarrow> map_of (bs_blobs st) q = Some s' \<longrightarrow>
        sl_array s = sl_array s' \<longrightarrow> p = q)"

lemma separateD:
  assumes "separate st" and "map_of (bs_blobs st) p = Some s"
  shows "sl_array s < length (bs_arrays st)" "sl_len s \<le> length (bs_arrays st ! sl_array s)"
    "map_of (bs_blobs st) q = Some s' \<Longrightarrow> sl_array s = sl_array s' \<Longrightarrow> p = q"
  using assms unfolding separate_def by blast+

lemma slice_bytes_blobs [simp]: "slice_bytes (st\<lparr>bs_blobs := es\<rparr>) = slice_bytes st"
  by (simp add: fun_eq_iff slice_bytes_def)

lemma write_separate:
  assumes "separate st"
  shows "separate (write_blob grow p d st) \<and>
    (\<forall>q. read_blob q (write_blob grow p d st) = value_step bytes_of (BWrite p d) (\<lambda>q. read_blob q st) q)"
proof (cases "map_of (bs_blobs st) p")
  case None
  with assms show ?thesis by (simp add: write_blob_def read_blob_def)
next
  case (Some s)
  note own = separateD[OF assms Some]
  have other: "sl_array s' \<noteq> sl_array s" if "map_of (bs_blobs st) q = Some s'" "q \<noteq> p" for q s'
    using own(3)[OF that(1)] that(2) by metis
  have range: "sl_array s' < length (bs_arrays st)" "sl_len s' \<le> length (bs_arrays st ! sl_array s')"
    if "map_of (bs_blobs st) q = Some s'" for q s' using separateD[OF assms that] by simp_all
  show ?thesis
  proof (cases "length d \<le> length (bs_arrays st ! sl_array s)")
    case True
    with Some have st': "write_blob grow p d st =
        st\<lparr>bs_arrays := (bs_arrays st)[sl_array s := d @ drop (length d) (bs_arrays st ! sl_array s)],
           bs_blobs := mput p \<lparr>sl_array = sl_array s, sl_len = length d\<rparr> (bs_blobs st)\<rparr>"
      by (simp add: write_blob_def append_at_start_def)
    have "separate (write_blob grow p d st)"
      unfolding separate_def st' using own(1) True
      by (auto simp: map_of_mput nth_list_update dest: range other separateD(3)[OF assms])
    moreover have "read_blob q (write_blob grow p d st) = value_step bytes_of (BWrite p d) (\<lambda>q. read_blob q st) q" for q
      using Some own(1) other[of q]
      by (cases "map_of (bs_blobs st) q") (auto simp: st' read_blob_def slice_bytes_def map_of_mput nth_list_update)
    ultimately show ?thesis by blast
  next
    case False
    with Some have st': "write_blob grow p d st =
        st\<lparr>bs_arrays := bs_arrays st @ [d @ replicate (grow (length d)) (CHR 0x00)],
           bs_blobs := mput p \<lparr>sl_array = length (bs_arrays st), sl_len = length d\<rparr> (bs_blobs st)\<rparr>"
      by (simp add: write_blob_def append_at_start_def Let_def)
    have "separate (write_blob grow p d st)"
      unfolding separate_def st'
      by (auto simp: map_of_mput nth_append dest: range separateD(3)[OF assms])
    moreover have "read_blob q (write_blob grow p d st) = value_step bytes_of (BWrite p d) (\<lambda>q. read_blob q st) q" for q
      using Some range[of q]
      by (cases "map_of (bs_blobs st) q") (auto simp: st' read_blob_def slice_bytes_def map_of_mput nth_append)
    ultimately show ?thesis by blast
  qed
qed

lemma alloc_separate:
  assumes "separate st"
  shows "separate (fst (new_slice d st)) \<and> (\<forall>q. read_blob q (fst (new_slice d st)) = read_blob q st)"
proof -
  have range: "sl_array s' < length (bs_arrays st)" "sl_len s' \<le> length (bs_arrays st ! sl_array s')"
    if "map_of (bs_blobs st) q = Some s'" for q s' using separateD[OF assms that] by simp_all
  have "separate (fst (new_slice d st))"
    by (auto simp: separate_def new_slice_def nth_append dest: range separateD(3)[OF assms])
  moreover have "read_blob q (fst (new_slice d st)) = read_blob q st" for q
    using range[of q] by (cases "map_of (bs_blobs st) q") (auto simp: new_slice_def read_blob_def slice_bytes_def nth_append)
  ultimately show ?thesis by blast
qed

lemma mount_separate:
  assumes "separate st" and "own_slice (BMount p s) st"
  shows "separate (fst (mount_blob p s st)) \<and>
    (\<forall>q. read_blob q (fst (mount_blob p s st)) = value_step (slice_bytes st) (BMount p s) (\<lambda>q. read_blob q st) q)"
proof (cases "map_of (bs_blobs st) p")
  case (Some s0)
  with assms(1) show ?thesis by (simp add: mount_blob_def read_blob_def)
next
  case None
  have range: "sl_array s' < length (bs_arrays st)" "sl_len s' \<le> length (bs_arrays st ! sl_array s')"
    if "map_of (bs_blobs st) q = Some s'" for q s' using separateD[OF assms(1) that] by simp_all
  have other: "sl_array s' \<noteq> sl_array s" if "map_of (bs_blobs st) q = Some s'" for q s'
    using assms(2) map_of_SomeD[OF that] by (auto simp: list_all_iff)
  have "separate (fst (mount_blob p s st))"
    using None assms(2)
    by (auto simp: separate_def mount_blob_def map_of_mput dest: range other separateD(3)[OF assms(1)])
  moreover have "read_blob q (fst (mount_blob p s st)) = value_step (slice_bytes st) (BMount p s) (\<lambda>q. read_blob q st) q" for q
    using None by (auto simp: mount_blob_def read_blob_def map_of_mput)
  ultimately show ?thesis by blast
qed

lemma unmount_separate:
  assumes "separate st"
  shows "separate (unmount_blob p st) \<and> (\<forall>q. read_blob q (unmount_blob p st) = value_step bytes_of (BUnmount p) (\<lambda>q. read_blob q st) q)"
  using assms by (auto simp: separate_def unmount_blob_def read_blob_def slice_bytes_def map_of_mdel split: if_splits)

lemma rename_separate:
  assumes "separate st"
  shows "separate (rename_blob p q st) \<and> (\<forall>x. read_blob x (rename_blob p q st) = value_step bytes_of (BRename p q) (\<lambda>x. read_blob x st) x)"
proof (cases "map_of (bs_blobs st) p = None \<or> map_of (bs_blobs st) q \<noteq> None")
  case True
  with assms show ?thesis by (auto simp: rename_blob_def read_blob_def split: option.split)
next
  case False
  then obtain s where s: "map_of (bs_blobs st) p = Some s" "map_of (bs_blobs st) q = None" by auto
  then have st': "rename_blob p q st = st\<lparr>bs_blobs := mput q s (mdel p (bs_blobs st))\<rparr>" by (simp add: rename_blob_def)
  note own = separateD[OF assms s(1)]
  have from_old: "map_of (bs_blobs st) (if x = q then p else x) = Some s' \<and> x \<noteq> p"
    if "map_of (bs_blobs (rename_blob p q st)) x = Some s'" for x s'
    using that s by (auto simp: st' map_of_mput map_of_mdel split: if_splits)
  have "separate (rename_blob p q st)" unfolding separate_def
  proof (intro conjI allI impI)
    fix x y sx sy
    assume x: "map_of (bs_blobs (rename_blob p q st)) x = Some sx"
      and y: "map_of (bs_blobs (rename_blob p q st)) y = Some sy" and "sl_array sx = sl_array sy"
    then have "(if x = q then p else x) = (if y = q then p else y)"
      using from_old[OF x] from_old[OF y] separateD(3)[OF assms] by blast
    with from_old[OF x] from_old[OF y] show "x = y" by (simp split: if_splits)
  next
    fix x sx assume "map_of (bs_blobs (rename_blob p q st)) x = Some sx"
    from separateD(1,2)[OF assms conjunct1[OF from_old[OF this]]] show "sl_array sx < length (bs_arrays (rename_blob p q st))"
      "sl_len sx \<le> length (bs_arrays (rename_blob p q st) ! sl_array sx)" by (simp_all add: st')
  qed
  moreover have "read_blob x (rename_blob p q st) = value_step bytes_of (BRename p q) (\<lambda>x. read_blob x st) x" for x
    using s by (auto simp: st' read_blob_def slice_bytes_def map_of_mput map_of_mdel)
  ultimately show ?thesis by blast
qed

lemma blob_step_separate:
  assumes "separate st" and "own_slice b st"
  shows "separate (blob_step grow b st) \<and>
    (\<lambda>q. read_blob q (blob_step grow b st)) = value_step (slice_bytes st) b (\<lambda>q. read_blob q st)"
proof -
  have "separate (blob_step grow b st) \<and>
      (\<forall>q. read_blob q (blob_step grow b st) = value_step (slice_bytes st) b (\<lambda>q. read_blob q st) q)"
    using alloc_separate[OF assms(1)] mount_separate[OF assms(1)] unmount_separate[OF assms(1)]
      rename_separate[OF assms(1)] write_separate[OF assms(1)] assms(2)
    by (cases b; simp only: blob_step.simps value_step.simps(1) simp_thms)
  then show ?thesis by (simp add: fun_eq_iff)
qed

section \<open>Properties\<close>

text \<open>
  C31: when blobs are values. Over every run of mounts, unmounts, renames and writes from the
  empty store in which no mounted slice is one of an array that a mounted blob already has, and
  in which no snapshot is put back, what a read gives is what the same run on a map
  from paths to contents gives, whether append writes in place or moves to a new array; and no two
  mounts ever share an array. A mount of a taken path changes nothing.
\<close>

theorem blobs_are_values:
  assumes "own_slices grow bs \<lparr>bs_arrays = [], bs_blobs = []\<rparr>"
  shows "(\<lambda>q. read_blob q (fold (blob_step grow) bs \<lparr>bs_arrays = [], bs_blobs = []\<rparr>)) =
      value_run grow bs \<lparr>bs_arrays = [], bs_blobs = []\<rparr> Map.empty \<and>
    separate (fold (blob_step grow) bs \<lparr>bs_arrays = [], bs_blobs = []\<rparr>)"
proof -
  have "separate st \<Longrightarrow> own_slices grow bs st \<Longrightarrow>
      (\<lambda>q. read_blob q (fold (blob_step grow) bs st)) = value_run grow bs st (\<lambda>q. read_blob q st) \<and>
      separate (fold (blob_step grow) bs st)" for st
  proof (induction bs arbitrary: st)
    case (Cons b bs)
    then have own: "own_slice b st" "own_slices grow bs (blob_step grow b st)" by simp_all
    note st = blob_step_separate[OF Cons.prems(1) own(1), of grow]
    from Cons.IH[OF conjunct1[OF st] own(2)] st show ?case by simp
  qed simp
  from this[of "\<lparr>bs_arrays = [], bs_blobs = []\<rparr>"] assms show ?thesis
    by (simp add: separate_def read_blob_def)
qed

lemma blobs_are_values_witness:
  "read_blob ''/b'' (fold (blob_step id)
     [BAlloc ''xy'', BMount ''/a'' \<lparr>sl_array = 0, sl_len = 2\<rparr>, BAlloc ''xy'', BMount ''/b'' \<lparr>sl_array = 1, sl_len = 2\<rparr>,
      BWrite ''/a'' ''z''] \<lparr>bs_arrays = [], bs_blobs = []\<rparr>) = Some ''xy''"
proof -
  let ?bs = "[BAlloc ''xy'', BMount ''/a'' \<lparr>sl_array = 0, sl_len = 2\<rparr>, BAlloc ''xy'', BMount ''/b'' \<lparr>sl_array = 1, sl_len = 2\<rparr>,
      BWrite ''/a'' ''z'']"
  have "own_slices id ?bs \<lparr>bs_arrays = [], bs_blobs = []\<rparr>"
    by (simp add: new_slice_def mount_blob_def)
  from blobs_are_values[OF this] have "read_blob ''/b'' (fold (blob_step id) ?bs \<lparr>bs_arrays = [], bs_blobs = []\<rparr>) =
      value_run id ?bs \<lparr>bs_arrays = [], bs_blobs = []\<rparr> Map.empty ''/b''" by metis
  then show ?thesis by (simp add: new_slice_def mount_blob_def slice_bytes_def)
qed

text \<open>
  The condition is needed: when one slice is mounted at two free paths, a write to one of them
  that is no longer than the contents overwrites the beginning of the other.
\<close>

theorem mounts_of_one_slice:
  assumes "p \<noteq> q" and "read_blob p st = None" and "read_blob q st = None"
    and "sl_array s < length (bs_arrays st)" and "sl_len s \<le> length (bs_arrays st ! sl_array s)" and "length d \<le> sl_len s"
  shows "read_blob q (write_blob grow p d (fst (mount_blob q s (fst (mount_blob p s st))))) =
    Some (d @ drop (length d) (slice_bytes st s))"
proof -
  have f: "map_of (bs_blobs st) p = None" "map_of (bs_blobs st) q = None" using assms(2,3) by (simp_all add: read_blob_def)
  have "take (sl_len s) (d @ drop (length d) (bs_arrays st ! sl_array s)) = d @ drop (length d) (slice_bytes st s)"
    using assms(6) by (simp add: slice_bytes_def drop_take)
  with f assms show ?thesis
    by (simp add: mount_blob_def write_blob_def append_at_start_def read_blob_def slice_bytes_def map_of_mput Let_def)
qed

lemma mounts_of_one_slice_witness:
  "read_blob ''/b'' (write_blob id ''/a'' ''by'' (fst (mount_blob ''/b'' \<lparr>sl_array = 0, sl_len = 5\<rparr>
     (fst (mount_blob ''/a'' \<lparr>sl_array = 0, sl_len = 5\<rparr> \<lparr>bs_arrays = [''hello''], bs_blobs = []\<rparr>))))) = Some ''byllo''"
  using mounts_of_one_slice[of "''/a''" "''/b''" "\<lparr>bs_arrays = [''hello''], bs_blobs = []\<rparr>" "\<lparr>sl_array = 0, sl_len = 5\<rparr>" "''by''" id]
  by (simp add: read_blob_def slice_bytes_def)


definition hello_store :: blob_store where
  "hello_store = fst (mount_blob ''/a'' \<lparr>sl_array = 0, sl_len = 5\<rparr> \<lparr>bs_arrays = [''hello''], bs_blobs = []\<rparr>)"


end
