(* ===== verification/Serial.thy ===== *)
theory Serial
  imports Prelude
begin

text \<open>
  core/serial.go: the queue of a serial mount, a mutex around each of its provider writes, with
  the calls of several goroutines interleaved. The other theories run such a write as one
  step; what is shown here is that the queue makes that right.

  A call is a sequence of effects on what it shares with the others. Each effect is one step.
\<close>

section \<open>Calls that interleave\<close>

datatype 's phase = Waiting | Running "('s \<Rightarrow> 's) list" | Finished

record ('c, 's) calls =
  cl_mu :: "'c option"
  cl_phase :: "'c \<Rightarrow> 's phase"
  cl_shared :: 's
  cl_order :: "'c list"

definition calls_start :: "'s \<Rightarrow> ('c, 's) calls" where
  "calls_start s = \<lparr>cl_mu = None, cl_phase = (\<lambda>c. Waiting), cl_shared = s, cl_order = []\<rparr>"

text \<open>
  run: the lock is taken, the function works, the lock is given back; a mount without a queue
  calls the function at once. \<open>cl_order\<close> is the order in which the calls have begun.
\<close>

inductive serial_run ::
  "bool \<Rightarrow> ('c \<Rightarrow> ('s \<Rightarrow> 's) list) \<Rightarrow> ('c, 's) calls \<Rightarrow> ('c, 's) calls \<Rightarrow> bool" for queued fn where
  sr_lock: "cl_phase t c = Waiting \<Longrightarrow> queued \<longrightarrow> cl_mu t = None \<Longrightarrow>
    serial_run queued fn t
      (t\<lparr>cl_mu := (if queued then Some c else cl_mu t), cl_phase := (cl_phase t)(c := Running (fn c)),
         cl_order := cl_order t @ [c]\<rparr>)"
| sr_work: "cl_phase t c = Running (f # fs) \<Longrightarrow>
    serial_run queued fn t (t\<lparr>cl_shared := f (cl_shared t), cl_phase := (cl_phase t)(c := Running fs)\<rparr>)"
| sr_unlock: "cl_phase t c = Running [] \<Longrightarrow>
    serial_run queued fn t (t\<lparr>cl_mu := (if queued then None else cl_mu t), cl_phase := (cl_phase t)(c := Finished)\<rparr>)"

text \<open>The calls one after the other, each as a whole.\<close>

definition one_by_one :: "('c \<Rightarrow> ('s \<Rightarrow> 's) list) \<Rightarrow> 'c list \<Rightarrow> 's \<Rightarrow> 's" where
  "one_by_one fn cs s = fold (\<lambda>c. fold (\<lambda>f. f) (fn c)) cs s"

definition is_running :: "('c, 's) calls \<Rightarrow> 'c \<Rightarrow> bool" where
  "is_running t c \<longleftrightarrow> (\<exists>fs. cl_phase t c = Running fs)"

section \<open>The invariant\<close>

definition serial_inv :: "('c \<Rightarrow> ('s \<Rightarrow> 's) list) \<Rightarrow> 's \<Rightarrow> ('c, 's) calls \<Rightarrow> bool" where
  "serial_inv fn s0 t \<longleftrightarrow>
     distinct (cl_order t) \<and> (\<forall>c. cl_phase t c = Waiting \<longleftrightarrow> c \<notin> set (cl_order t)) \<and>
     (case cl_mu t of
        None \<Rightarrow> (\<forall>c. \<not> is_running t c) \<and> cl_shared t = one_by_one fn (cl_order t) s0
      | Some c \<Rightarrow> (\<forall>d. is_running t d \<longleftrightarrow> d = c) \<and>
          (\<exists>fs. cl_phase t c = Running fs \<and> fold (\<lambda>f. f) fs (cl_shared t) = one_by_one fn (cl_order t) s0))"

lemma serial_inv_start: "serial_inv fn s (calls_start s)"
  by (simp add: serial_inv_def calls_start_def one_by_one_def is_running_def)

lemma is_running_upd [simp]:
  "is_running (t\<lparr>cl_mu := m, cl_phase := (cl_phase t)(c := Running fs), cl_order := o1\<rparr>) d \<longleftrightarrow> d = c \<or> is_running t d"
  "is_running (t\<lparr>cl_shared := x, cl_phase := (cl_phase t)(c := Running fs)\<rparr>) d \<longleftrightarrow> d = c \<or> is_running t d"
  "is_running (t\<lparr>cl_mu := m, cl_phase := (cl_phase t)(c := Finished)\<rparr>) d \<longleftrightarrow> d \<noteq> c \<and> is_running t d"
  by (auto simp: is_running_def)

lemma running_in_order:
  assumes "serial_inv fn s0 t" and "cl_phase t c = Running fs"
  shows "is_running t c \<and> c \<in> set (cl_order t)"
  using assms by (metis is_running_def phase.distinct(1) serial_inv_def)

lemma serial_inv_step:
  assumes "serial_run True fn t t'" and inv: "serial_inv fn s0 t"
  shows "serial_inv fn s0 t'"
  using assms(1)
proof cases
  case (sr_lock c)
  with inv show ?thesis by (auto simp: serial_inv_def one_by_one_def)
next
  case (sr_work c f fs)
  note in_order = running_in_order[OF inv sr_work(2)]
  from in_order inv sr_work show ?thesis by (cases "cl_mu t") (auto simp: serial_inv_def)
next
  case (sr_unlock c)
  note in_order = running_in_order[OF inv sr_unlock(2)]
  with inv sr_unlock show ?thesis by (cases "cl_mu t") (auto simp: serial_inv_def)
qed

lemma serial_inv_reach:
  "(serial_run True fn)\<^sup>*\<^sup>* (calls_start s) t \<Longrightarrow> serial_inv fn s t"
  by (induction rule: rtranclp_induct) (auto intro: serial_inv_start serial_inv_step)

section \<open>Properties\<close>

text \<open>
  C30: the writes of a serial mount are atomic. However the goroutines are scheduled, at most one
  call runs, and whenever none does, the shared state is the one that the calls give when each
  runs as a whole, in the order in which they got the lock.
\<close>

theorem serial_calls_atomic:
  assumes "(serial_run True fn)\<^sup>*\<^sup>* (calls_start s) t"
  shows "(\<forall>c d. is_running t c \<longrightarrow> is_running t d \<longrightarrow> c = d) \<and> distinct (cl_order t) \<and>
    ((\<forall>c. \<not> is_running t c) \<longrightarrow> cl_mu t = None \<and> cl_shared t = one_by_one fn (cl_order t) s)"
  using serial_inv_reach[OF assms] by (auto simp: serial_inv_def split: option.splits)

text \<open>Two calls that each read a counter and store it increased.\<close>

type_synonym counter = "nat \<times> (nat \<Rightarrow> nat)"

definition bump_load :: "nat \<Rightarrow> counter \<Rightarrow> counter" where
  "bump_load c = (\<lambda>(n, reg). (n, reg(c := n)))"

definition bump_store :: "nat \<Rightarrow> counter \<Rightarrow> counter" where
  "bump_store c = (\<lambda>(n, reg). (reg c + 1, reg))"

definition bumps :: "nat \<Rightarrow> (counter \<Rightarrow> counter) list" where
  "bumps c = [bump_load c, bump_store c]"

definition counter0 :: counter where
  "counter0 = (0, \<lambda>c. 0)"

lemma run_lock: "cl_phase t c = Waiting \<Longrightarrow> cl_mu t = None \<Longrightarrow>
  serial_run q fn t (t\<lparr>cl_mu := (if q then Some c else cl_mu t), cl_phase := (cl_phase t)(c := Running (fn c)),
         cl_order := cl_order t @ [c]\<rparr>)"
  by (rule sr_lock) simp_all

lemma serial_calls_atomic_witness:
  "\<exists>t. (serial_run True bumps)\<^sup>*\<^sup>* (calls_start counter0) t \<and> cl_order t = [1, 2] \<and>
     cl_shared t = one_by_one bumps [1, 2] counter0 \<and> fst (cl_shared t) = 2"
proof -
  let ?R = "serial_run True bumps" and ?t0 = "calls_start counter0 :: (nat, _) calls"
  have call: "\<exists>t'. ?R\<^sup>*\<^sup>* t t' \<and> cl_phase t' = (cl_phase t)(c := Finished) \<and> cl_mu t' = None \<and> cl_order t' = cl_order t @ [c]"
    if "cl_phase t c = Waiting" "cl_mu t = None" for t c
  proof -
    let ?t1 = "t\<lparr>cl_mu := Some c, cl_phase := (cl_phase t)(c := Running (bumps c)), cl_order := cl_order t @ [c]\<rparr>"
    have 1: "?R t ?t1" using run_lock[of t c True bumps] that by simp
    obtain f g where fg: "bumps c = [f, g]" by (simp add: bumps_def)
    let ?t2 = "?t1\<lparr>cl_shared := f (cl_shared ?t1), cl_phase := (cl_phase ?t1)(c := Running [g])\<rparr>"
    let ?t3 = "?t2\<lparr>cl_shared := g (cl_shared ?t2), cl_phase := (cl_phase ?t2)(c := Running [])\<rparr>"
    let ?t4 = "?t3\<lparr>cl_mu := None, cl_phase := (cl_phase ?t3)(c := Finished)\<rparr>"
    have 2: "?R ?t1 ?t2" by (rule sr_work) (simp add: fg)
    have 3: "?R ?t2 ?t3" by (rule sr_work) simp
    have 4: "?R ?t3 ?t4" using sr_unlock[of ?t3 c True bumps] by simp
    have "?R\<^sup>*\<^sup>* t ?t4" using 1 2 3 4 by (meson converse_rtranclp_into_rtranclp rtranclp.rtrancl_refl)
    then show ?thesis by (intro exI[of _ ?t4]) simp
  qed
  obtain t1 where t1: "?R\<^sup>*\<^sup>* ?t0 t1" "cl_phase t1 = (cl_phase ?t0)(1 := Finished)" "cl_mu t1 = None" "cl_order t1 = [1]"
    using call[of ?t0 1] by (auto simp: calls_start_def)
  obtain t2 where t2: "?R\<^sup>*\<^sup>* t1 t2" "cl_phase t2 = (cl_phase t1)(2 := Finished)" "cl_order t2 = [1, 2]"
    using call[of t1 2] t1 by (auto simp: calls_start_def)
  have r: "?R\<^sup>*\<^sup>* ?t0 t2" using t1(1) t2(1) by simp
  have "\<not> is_running t2 c" for c using t1(2) t2(2) by (simp add: is_running_def calls_start_def)
  with serial_calls_atomic[OF r] t2(3) have "cl_shared t2 = one_by_one bumps [1, 2] counter0" by simp
  moreover have "fst (one_by_one bumps [1, 2] counter0) = 2" by (simp add: one_by_one_def bumps_def bump_load_def bump_store_def counter0_def)
  ultimately show ?thesis using r t2(3) by metis
qed

text \<open>
  Without the queue the same two calls can lose an update: both read before either stores, and
  the counter ends at 1.
\<close>

theorem unqueued_calls_interleave:
  "\<exists>t. (serial_run False bumps)\<^sup>*\<^sup>* (calls_start counter0) t \<and> cl_phase t 1 = Finished \<and> cl_phase t 2 = Finished \<and>
     fst (cl_shared t) = 1"
proof -
  let ?R = "serial_run False bumps"
  define st where "st p o1 n reg = \<lparr>cl_mu = None, cl_phase = p, cl_shared = (n, reg), cl_order = o1\<rparr>"
    for p :: "nat \<Rightarrow> counter phase" and o1 n reg
  have lock: "p c = Waiting \<Longrightarrow> ?R (st p o1 n reg) (st (p(c := Running (bumps c))) (o1 @ [c]) n reg)" for p c o1 n reg
    using sr_lock[of "st p o1 n reg" c False bumps] by (simp add: st_def)
  have work: "p c = Running (f # fs) \<Longrightarrow> f (n, reg) = (n', reg') \<Longrightarrow> ?R (st p o1 n reg) (st (p(c := Running fs)) o1 n' reg')"
    for p c f fs o1 n reg n' reg'
    using sr_work[of "st p o1 n reg" c f fs False bumps] by (simp add: st_def)
  have unlock: "p c = Running [] \<Longrightarrow> ?R (st p o1 n reg) (st (p(c := Finished)) o1 n reg)" for p c o1 n reg
    using sr_unlock[of "st p o1 n reg" c False bumps] by (simp add: st_def)
  let ?p0 = "\<lambda>c :: nat. Waiting :: counter phase" and ?r = "\<lambda>c :: nat. 0 :: nat"
  let ?p1 = "?p0(1 := Running (bumps 1))" let ?p2 = "?p1(2 := Running (bumps 2))"
  let ?p3 = "?p2(1 := Running [bump_store 1])" let ?p4 = "?p3(2 := Running [bump_store 2])"
  let ?p5 = "?p4(1 := Running [])" let ?p6 = "?p5(2 := Running [])"
  let ?p7 = "?p6(1 := Finished)" let ?p8 = "?p7(2 := Finished)"
  have "?R (st ?p0 [] 0 ?r) (st ?p1 [1] 0 ?r)" using lock[of ?p0 1 "[]" 0 ?r] by simp
  moreover have "?R (st ?p1 [1] 0 ?r) (st ?p2 [1, 2] 0 ?r)" using lock[of ?p1 2 "[1]" 0 ?r] by simp
  moreover have "?R (st ?p2 [1, 2] 0 ?r) (st ?p3 [1, 2] 0 ?r)"
    by (rule work[where f = "bump_load 1"]) (simp_all add: bumps_def bump_load_def fun_eq_iff)
  moreover have "?R (st ?p3 [1, 2] 0 ?r) (st ?p4 [1, 2] 0 ?r)"
    by (rule work[where f = "bump_load 2"]) (simp_all add: bumps_def bump_load_def fun_eq_iff)
  moreover have "?R (st ?p4 [1, 2] 0 ?r) (st ?p5 [1, 2] 1 ?r)"
    by (rule work[where f = "bump_store 1"]) (simp_all add: bump_store_def)
  moreover have "?R (st ?p5 [1, 2] 1 ?r) (st ?p6 [1, 2] 1 ?r)"
    by (rule work[where f = "bump_store 2"]) (simp_all add: bump_store_def)
  moreover have "?R (st ?p6 [1, 2] 1 ?r) (st ?p7 [1, 2] 1 ?r)" by (rule unlock) simp
  moreover have "?R (st ?p7 [1, 2] 1 ?r) (st ?p8 [1, 2] 1 ?r)" by (rule unlock) simp
  ultimately have "?R\<^sup>*\<^sup>* (st ?p0 [] 0 ?r) (st ?p8 [1, 2] 1 ?r)"
    by (meson converse_rtranclp_into_rtranclp rtranclp.rtrancl_refl)
  moreover have "st ?p0 [] 0 ?r = calls_start counter0" by (simp add: st_def calls_start_def counter0_def)
  ultimately show ?thesis by (intro exI[of _ "st ?p8 [1, 2] 1 ?r"]) (simp add: st_def)
qed

end
