(* ===== verification/Spec2Isabelle.thy ===== *)
theory Spec2Isabelle
  imports HandleProps Namespace FsProps ErrorProps ProviderCache Bridge Serve
    WinFuse WebSocketProps ConfigProps Remote Slices Serial
begin

text \<open>
  skills-fs is a virtual filesystem engine: mounts of six kinds (blob, api, stream, dir,
  dynamic_dir, link) hang in a route trie, adapters translate their protocol into the calls
  of core.FileSystem, and providers answer the calls on api mounts. This development models
  the engine, the Go package under src/core, with the WebDAV, FUSE and WebSocket adapters, the
  HTTP middleware, the four provider packages, the C bridge and the configuration of the
  command around it, as HOL functions, and proves what makes each part correct.

  The parts, bottom up, each with the source files it models:
  \<^item> Prelude: strings and association lists. A Go map is an association list with distinct
    keys (\<open>mput\<close>, \<open>mdel\<close>, \<open>map_of\<close>); a string or byte slice is a char list. Tables: two
    interfaces that several components provide, \<open>lazy_table\<close> (look up or create) and
    \<open>ttl_cache\<close>.
  \<^item> Errors (core/errors.go): error values, the mapping of provider errors, HTTP codes.
  \<^item> Types (core/types.go): the data model, defaults and validation. Params (core/params.go).
    Permissions (core/permissions.go), on 32-bit words.
  \<^item> Trie and Router (core/router.go): the trie with its mount table, then the operations on
    whole paths. The locale \<open>mount_table\<close> states what the trie promises its clients.
  \<^item> Streams (core/stream.go): the byte rings; they implement the locales \<open>byte_queue\<close> and
    \<open>lossless_queue\<close>. Flock (core/flock.go): advisory locks, with interleaved calls as a step
    relation. Serial (core/serial.go): the queue of a serial mount, with
    interleaved calls. Events (core/events.go), Metrics (core/metrics.go), Skills (core/skill.go).
  \<^item> Breaker, Paths, Providers (core/filesystem.go): the circuit breakers, the path
    functions, and provider calls with the result cache.
  \<^item> HandleTable (core/handles.go): the sharded table of open handles.
  \<^item> FsState (core/filesystem.go): the state of a filesystem and its namespace operations.
    Namespace: what they guarantee. FsOps: stat, readdir, read, write, links. FsProps: what
    these guarantee. Handles (core/handles.go): the operations on open handles, and the
    teardown. HandleProps: what they guarantee. ErrorProps: all errors are POSIX errors.
  \<^item> WebDav and DavHandlers (adapter/webdav/webdav.go, adapter/adapter.go): the helpers and the
    property cache, then every handler of a request on the state of the engine. DavRange: GET
    and byte ranges. DavProps: HEAD, PUT, read-only servers, request paths; the locale
    \<open>handler_frame\<close> says what a handler keeps when the calls it makes keep it, \<open>quiet_calls\<close>
    that reading calls keep the mounts. DavMove: COPY and MOVE. DavFind: PROPFIND.
  \<^item> Fuse (adapter/fuse/mount_linux.go): the requests of the kernel and the table of inodes.
    FuseInodes: the table over runs of requests; the locale \<open>root_invariant\<close> says what a request
    keeps when the operations on the table keep it. FuseProps: reading, writing, creating,
    read-only servers. Quiet: reading calls of the engine keep its mounts.
  \<^item> WinFuse (adapter/fuse/mount_windows.go): the requests of WinFsp with their table of handles.
  \<^item> WebSocket (adapter/websocket/websocket.go): a connection as a state machine.
    WebSocketProps: what holds over all its runs; the locale \<open>conn_invariant\<close> says what a step keeps when calls of the engine and of listeners keep it.
  \<^item> Config (cmd/skills-fs/config.go, main.go): loading, building and reloading a configuration.
    ConfigProps: what they guarantee.
  \<^item> Adapter (adapter/adapter.go): the options. Middleware (rate_limit.go and conn_limit.go of
    adapter/middleware): token buckets, whose locale \<open>metered\<close> bounds what a run of operations
    spends, and the limit on connections, a step relation.
  \<^item> Serve (Mount of webdav.go, adapter/middleware): the WebDAV handlers inside the rate limit,
    the connection limit, CORS, the access log, the request id and the multiplexer, over
    sequences of requests, and over runs in which requests that hang come to an end later.
  \<^item> ProviderCache (provider/cache/cache.go): the caching wrapper of a provider. Remote
    (provider/http, provider/ipc, provider/local): the providers that reach out.
  \<^item> Slices (core/filesystem.go, core/router.go): the arrays behind the contents of blobs. Elsewhere
    contents are values; C31 says that this is right as long as no two mounts are
    given slices of one array and no snapshot is put back, \<open>mounts_of_one_slice\<close> what two
    mounts of one slice do to each other, and C32 what a snapshot shares. So
    C10 leaves the bytes open that a write may have put into a snapshot.
  \<^item> Bridge (binding/registry/registry.go, binding/go-bridge/bridge.go): the C interface.

  How the model runs. An operation maps the state, a record with the fields of the Go struct,
  to the new state and a result; a result is a value, an error, a wait or a panic, so that
  every return of the code is a branch of the model. What a mutex protects from its lock to
  its unlock is one step. Where an operation gives the lock up in between, the parts are
  separate definitions (\<open>access_check\<close> and \<open>writeBlob\<close>; \<open>acquire_start\<close> and \<open>acquire_try\<close>), and
  what may happen between them is the subject of C6, C30,
  C28, C17 (the check and the write of a PUT) and \<open>write_race_panics\<close>. A call that has to wait on a
  condition variable changes nothing until it is woken and tests its condition again, so
  waiting is a result and trying again is another run of the same function. A WebDAV handler
  goes on with what its calls of the engine return (\<open>next_do\<close>) and ends with a response, or it
  hangs or is aborted with them.

  What lies outside the repository is the environment, a parameter of type \<open>'w env\<close>: the
  providers (functions on a world of their own), the clock, encoding/json, text/template, the
  rendering of %.9f. For the WebDAV server it is the record \<open>'w server\<close>: SHA-256, gzip, base64,
  url.Parse, XML, the two date formats, path.Match, and \<open>'w web\<close> for its multiplexer. The
  records \<open>tools\<close> (configuration), \<open>'w net\<close> and \<open>'w shell\<close> (providers) are of the same kind. No property assumes anything about them;
  C17 assumes of its two contents that their tags differ.

  What the lemmas show, by group:
  \<^item> routing: C1, C2, C3;
  \<^item> namespace operations: C9, C10, C11; access: C5;
  \<^item> reads, writes, links: C4, \<open>follow_link_result\<close>; storage: C31, C32;
  \<^item> breakers: C14;
  \<^item> streams: C7, C29; locks: C6;
  \<^item> handles: C8, C12; teardown: C13;
  \<^item> errors: C15; serial writes: C30; the C bridge: \<open>bridge_reports_errors\<close>;
  \<^item> WebDAV: C33, C16, C17, C18, C19;
  \<^item> FUSE: C21, C22, C23, C24; on Windows: C37;
  \<^item> WebSocket: C25, C26, C27, C28;
  \<^item> middleware: C20, C34, C35; providers: C36;
  \<^item> the command's configuration: C38, C39, C40.

  Bounds and termination: every function is total. The byte scans of the router end because
  the position grows, the loop over the chunks of a payload because a chunk is never empty,
  the eviction loop of a ring because the count falls, that of the inodes because the list
  shrinks. Fuel is in three places. In \<open>follow_loop\<close> it is the code's own limit of sixteen hops.
  In \<open>propfindRecursive\<close> the code does not bound the recursion when the server has no depth limit;
  C19 shows that fuel for one level more than the limit is enough, and that
  more changes nothing. \<open>LoadConfig\<close> follows includes without any bound, so that not returning is a
  result; C39 says when it is the one. Integers are kept at their width where they
  can wrap around (ids, sequence numbers, counters, mode bits, the numbers of a range); lengths
  are natural numbers, times are integers.

  Where the model is simpler than Go: the float64 numbers of the rate limiter are exact
  rationals, without rounding; the failure counter of a breaker, an int, does not wrap around,
  which would take 2^63 failures; the modes of backpressure and of buffering are the constants
  the code declares, no other ints; two calls of Flock on one handle at the same time are not
  represented, only calls on different handles interleave; and a WebDAV handler runs without
  other requests in between, but for the two steps of a PUT.

  Not modelled: the bodies of the libraries above (parameters); the buffer pool; the effects of a
  panic on locks that are held; the listeners, TLS, upgrades, deadlines and pings of the
  servers, the mounts of the kernel and of WinFsp under the FUSE adapters; what the network and the
  programs answer to the providers (parameters); the flags, signals, logging and processes of the command; the examples. They are I/O, or code
  that other software runs.
\<close>

end
